(* ===== verification/Prelude.thy ===== *)
theory Prelude
  imports Main "HOL-Library.Word" "HOL-Library.Monad_Syntax"
begin

text \<open>
  What every component of the development shares: the C types of the source as word types, C arrays
  with their range checks, flat memory, counted loops and linear searches as recursive functions,
  and the lemmas about them that the component theories use.

  A value of type \<open>'a option\<close> is the outcome of a C computation: \<open>Some\<close> of its result, \<open>None\<close>
  when the C program leaves the range of an object, overflows a signed \<open>int\<close>, dereferences a null
  pointer or does not return.
\<close>

unbundle bit_operations_syntax

section \<open>C types\<close>

type_synonym u8 = "8 word"
type_synonym u16 = "16 word"
type_synonym u32 = "32 word"

lemma unat_u8_lt: "unat (x :: u8) < 256"
  using unsigned_less [of x] by simp

lemma unat_u16_lt: "unat (x :: u16) < 65536"
  using unsigned_less [of x] by simp

lemma unat_u32_lt: "unat (x :: u32) < 4294967296"
  using unsigned_less [of x] by simp

lemma unat_of_nat_u16: "k < 65536 \<Longrightarrow> unat (of_nat k :: u16) = k"
  by (simp add: unat_of_nat take_bit_eq_mod)

lemma unat_of_nat_u32: "k < 4294967296 \<Longrightarrow> unat (of_nat k :: u32) = k"
  by (simp add: unat_of_nat take_bit_eq_mod)

lemma unat_of_nat_u8: "k < 256 \<Longrightarrow> unat (of_nat k :: u8) = k"
  by (simp add: unat_of_nat take_bit_eq_mod)

lemma unat_sub_u32:
  "unat (x - y :: u32) = (if unat y \<le> unat x then unat x - unat y else unat x + 2 ^ 32 - unat y)"
  by (simp add: unat_sub_if_size word_size)

lemma unat_add_u32:
  "unat x + unat y < 2 ^ 32 \<Longrightarrow> unat (x + y :: u32) = unat x + unat y"
  by (simp add: unat_word_ariths)

lemma unat_mult_u32:
  "unat x * unat y < 2 ^ 32 \<Longrightarrow> unat (x * y :: u32) = unat x * unat y"
  by (simp add: unat_word_ariths)

text \<open>Facts that unfold array accesses and the loops over them.\<close>

named_theorems arr_simps

text \<open>The bytes of a string literal, without and with its terminating NUL.\<close>

definition cstr :: "string \<Rightarrow> u8 list" where
  "cstr s = map of_char s"

definition cstr0 :: "string \<Rightarrow> u8 list" where
  "cstr0 s = cstr s @ [0]"

lemma length_cstr [simp]: "length (cstr s) = length s"
  by (simp add: cstr_def)

lemma length_cstr0 [simp]: "length (cstr0 s) = Suc (length s)"
  by (simp add: cstr0_def)

section \<open>Arrays\<close>

text \<open>An access out of the array's range has no result.\<close>

definition arr_get :: "'a list \<Rightarrow> nat \<Rightarrow> 'a option" where
  "arr_get xs i = (if i < length xs then Some (xs ! i) else None)"

definition arr_set :: "'a list \<Rightarrow> nat \<Rightarrow> 'a \<Rightarrow> 'a list option" where
  "arr_set xs i x = (if i < length xs then Some (xs[i := x]) else None)"

text \<open>Access with a signed index, as C computes it before the access.\<close>

definition arr_geti :: "'a list \<Rightarrow> int \<Rightarrow> 'a option" where
  "arr_geti xs i = (if i < 0 then None else arr_get xs (nat i))"

definition arr_seti :: "'a list \<Rightarrow> int \<Rightarrow> 'a \<Rightarrow> 'a list option" where
  "arr_seti xs i x = (if i < 0 then None else arr_set xs (nat i) x)"

lemma arr_get_in [simp, arr_simps]: "i < length xs \<Longrightarrow> arr_get xs i = Some (xs ! i)"
  by (simp add: arr_get_def)

lemma arr_get_out [simp, arr_simps]: "length xs \<le> i \<Longrightarrow> arr_get xs i = None"
  by (simp add: arr_get_def)

lemma arr_set_in [simp, arr_simps]: "i < length xs \<Longrightarrow> arr_set xs i x = Some (xs[i := x])"
  by (simp add: arr_set_def)

lemma arr_set_out [simp, arr_simps]: "length xs \<le> i \<Longrightarrow> arr_set xs i x = None"
  by (simp add: arr_set_def)

lemma arr_get_eq_Some: "arr_get xs i = Some x \<longleftrightarrow> i < length xs \<and> xs ! i = x"
  by (auto simp: arr_get_def)

lemma arr_set_eq_Some: "arr_set xs i x = Some ys \<longleftrightarrow> i < length xs \<and> ys = xs[i := x]"
  by (auto simp: arr_set_def)

lemma arr_geti_of_nat [simp, arr_simps]: "arr_geti xs (int i) = arr_get xs i"
  by (simp add: arr_geti_def)

lemma arr_seti_of_nat [simp, arr_simps]: "arr_seti xs (int i) x = arr_set xs i x"
  by (simp add: arr_seti_def)

lemma arr_geti_neg [simp]: "i < 0 \<Longrightarrow> arr_geti xs i = None"
  by (simp add: arr_geti_def)

lemma arr_seti_neg [simp]: "i < 0 \<Longrightarrow> arr_seti xs i x = None"
  by (simp add: arr_seti_def)

lemma map_nth_take: "n \<le> length xs \<Longrightarrow> map ((!) xs) [0..<n] = take n xs"
  by (rule nth_equalityI) simp_all

lemma map_nth_slice: "s + n \<le> length xs \<Longrightarrow> map (\<lambda>i. xs ! (s + i)) [0..<n] = take n (drop s xs)"
  by (rule nth_equalityI) (simp_all add: add.commute)

lemma take_takeWhile_le: "i \<le> length (takeWhile P xs) \<Longrightarrow> take i (takeWhile P xs) = take i xs"
proof -
  assume "i \<le> length (takeWhile P xs)"
  moreover have "takeWhile P xs = take (length (takeWhile P xs)) xs" by (rule takeWhile_eq_take)
  then have "take i (takeWhile P xs) = take i (take (length (takeWhile P xs)) xs)" by simp
  ultimately show ?thesis by (simp add: take_take min_absorb1)
qed

lemma takeWhile_stop: "length (takeWhile P xs) < length xs \<Longrightarrow> \<not> P (xs ! length (takeWhile P xs))"
  by (rule nth_length_takeWhile)

lemma takeWhile_nth_P: "i < length (takeWhile P xs) \<Longrightarrow> P (xs ! i)"
  using nth_mem [of i "takeWhile P xs"] by (auto simp: takeWhile_nth dest: set_takeWhileD)

lemma take_eq_mono:
  assumes "take n xs = take n ys" "m \<le> n"
  shows "take m xs = take m ys"
proof -
  from assms(1) have "take m (take n xs) = take m (take n ys)" by simp
  with assms(2) show ?thesis by (simp add: take_take min_absorb1)
qed

section \<open>Counted loops and linear searches\<close>

text \<open>\<open>for (i = lo; i < hi; i++) body\<close>, where the body may fail.\<close>

fun for_count :: "nat \<Rightarrow> nat \<Rightarrow> (nat \<Rightarrow> 's \<Rightarrow> 's option) \<Rightarrow> 's \<Rightarrow> 's option" where
  "for_count 0 i f s = Some s"
| "for_count (Suc n) i f s = Option.bind (f i s) (for_count n (Suc i) f)"

definition for_range :: "nat \<Rightarrow> nat \<Rightarrow> (nat \<Rightarrow> 's \<Rightarrow> 's option) \<Rightarrow> 's \<Rightarrow> 's option" where
  "for_range lo hi = for_count (hi - lo) lo"

lemma for_range_empty [simp]: "hi \<le> lo \<Longrightarrow> for_range lo hi f s = Some s"
  by (simp add: for_range_def)

lemma for_range_step:
  "lo < hi \<Longrightarrow> for_range lo hi f s = Option.bind (f lo s) (for_range (Suc lo) hi f)"
proof -
  assume "lo < hi"
  then have "hi - lo = Suc (hi - Suc lo)" by simp
  then show ?thesis by (simp add: for_range_def fun_eq_iff)
qed

text \<open>The rule for a counted loop: an invariant that holds at the start and is kept by the body,
  which does not fail, holds at the end, and the loop does not fail.\<close>

lemma for_range_inv:
  assumes "I lo s" and "lo \<le> hi"
    and step: "\<And>i s. lo \<le> i \<Longrightarrow> i < hi \<Longrightarrow> I i s \<Longrightarrow> \<exists>s'. f i s = Some s' \<and> I (Suc i) s'"
  shows "\<exists>s'. for_range lo hi f s = Some s' \<and> I hi s'"
  using assms
proof (induction "hi - lo" arbitrary: lo s)
  case 0
  then have "lo = hi" by simp
  with 0 show ?case by simp
next
  case (Suc n)
  from Suc.hyps have lt: "lo < hi" by simp
  from Suc.prems(1) Suc.prems(3)[of lo s] lt obtain s1
    where s1: "f lo s = Some s1" "I (Suc lo) s1" by auto
  have "\<exists>s'. for_range (Suc lo) hi f s1 = Some s' \<and> I hi s'"
    using Suc.hyps(2) Suc.prems(3) s1(2) lt by (intro Suc.hyps(1)) auto
  with s1 lt show ?case by (simp add: for_range_step)
qed

lemma for_range_invD:
  assumes "for_range lo hi f s = Some t" and "I lo s" and "lo \<le> hi"
    and "\<And>i s s'. lo \<le> i \<Longrightarrow> i < hi \<Longrightarrow> I i s \<Longrightarrow> f i s = Some s' \<Longrightarrow> I (Suc i) s'"
  shows "I hi t"
  using assms
proof (induction "hi - lo" arbitrary: lo s)
  case 0
  then have "lo = hi" by simp
  with 0 show ?case by simp
next
  case (Suc n)
  from Suc.hyps(2) have lt: "lo < hi" by simp
  with Suc.prems(1) obtain s1 where
    s1: "f lo s = Some s1" "for_range (Suc lo) hi f s1 = Some t"
    by (auto simp: for_range_step bind_eq_Some_conv)
  show ?case
    using Suc.hyps(2) Suc.prems(2,4) s1 lt by (intro Suc.hyps(1)[of "Suc lo" s1]) auto
qed

text \<open>A loop that stores \<open>g i\<close> at \<open>off + i\<close> for each \<open>i\<close> below \<open>n\<close>.\<close>

lemma for_range_fill:
  assumes "off + n \<le> length b"
    and "\<And>i b. i < n \<Longrightarrow> length b = m \<Longrightarrow> f i b = arr_set b (off + i) (g i)" and "length b = m"
  shows "for_range 0 n f b = Some (take off b @ map g [0..<n] @ drop (off + n) b)"
proof -
  have "\<exists>b'. for_range 0 n f b = Some b' \<and> b' = take off b @ map g [0..<n] @ drop (off + n) b"
  proof (rule for_range_inv [where I = "\<lambda>k b'. b' = take off b @ map g [0..<k] @ drop (off + k) b"])
    fix i c
    assume i: "i < n" and c: "c = take off b @ map g [0..<i] @ drop (off + i) b"
    have "off + i < length b" using i assms(1) by simp
    then have "drop (off + i) b = b ! (off + i) # drop (off + Suc i) b"
      by (simp add: Cons_nth_drop_Suc)
    moreover have "length c = m" using c i assms(1,3) by simp
    ultimately show "\<exists>c'. f i c = Some c' \<and> c' = take off b @ map g [0..<Suc i] @ drop (off + Suc i) b"
      using i assms(1) c assms(2) [of i c]
      by (simp add: list_update_append nth_append)
  qed simp_all
  then show ?thesis by simp
qed

text \<open>The least index in \<open>[lo, hi)\<close> that satisfies the test, found by trying each in order:
  \<open>for (i = lo; i < hi; i++) if (P(i)) return i;\<close>\<close>

function scan :: "(nat \<Rightarrow> bool) \<Rightarrow> nat \<Rightarrow> nat \<Rightarrow> nat option" where
  "scan P lo hi = (if lo < hi then (if P lo then Some lo else scan P (Suc lo) hi) else None)"
  by pat_completeness auto
termination
  by (relation "measure (\<lambda>(P, lo, hi). hi - lo)") auto

declare scan.simps [simp del]

lemma scan_Some:
  "scan P lo hi = Some i \<Longrightarrow> lo \<le> i \<and> i < hi \<and> P i \<and> (\<forall>j. lo \<le> j \<and> j < i \<longrightarrow> \<not> P j)"
proof (induction P lo hi rule: scan.induct)
  case (1 P lo hi)
  show ?case
  proof (cases "lo < hi \<and> \<not> P lo")
    case True
    with "1" have "Suc lo \<le> i \<and> i < hi \<and> P i \<and> (\<forall>j. Suc lo \<le> j \<and> j < i \<longrightarrow> \<not> P j)"
      by (auto simp: scan.simps [of P lo hi])
    with True show ?thesis by (metis Suc_leD Suc_leI le_neq_implies_less)
  next
    case False
    with "1.prems" show ?thesis by (auto simp: scan.simps [of P lo hi] split: if_splits)
  qed
qed

lemma scan_None: "scan P lo hi = None \<longleftrightarrow> (\<forall>j. lo \<le> j \<and> j < hi \<longrightarrow> \<not> P j)"
proof (induction P lo hi rule: scan.induct)
  case (1 P lo hi)
  show ?case
  proof (cases "lo < hi \<and> \<not> P lo")
    case True
    with "1" have "scan P lo hi = None \<longleftrightarrow> (\<forall>j. Suc lo \<le> j \<and> j < hi \<longrightarrow> \<not> P j)"
      by (auto simp: scan.simps [of P lo hi])
    with True show ?thesis by (metis Suc_leD Suc_leI le_neq_implies_less)
  next
    case False
    then show ?thesis by (auto simp: scan.simps [of P lo hi])
  qed
qed

lemma scan_eqI:
  assumes "lo \<le> i" "i < hi" "P i" "\<And>j. lo \<le> j \<Longrightarrow> j < i \<Longrightarrow> \<not> P j"
  shows "scan P lo hi = Some i"
proof (cases "scan P lo hi")
  case None
  with assms show ?thesis by (auto simp: scan_None)
next
  case (Some k)
  from scan_Some [OF this] assms have "k = i" by (metis linorder_neqE_nat)
  with Some show ?thesis by simp
qed

lemma scan_cong:
  "(\<And>j. lo \<le> j \<Longrightarrow> j < hi \<Longrightarrow> P j = Q j) \<Longrightarrow> scan P lo hi = scan Q lo hi"
proof (cases "scan Q lo hi")
  case None
  assume "\<And>j. lo \<le> j \<Longrightarrow> j < hi \<Longrightarrow> P j = Q j"
  then have "scan P lo hi = None" using None by (simp add: scan_None)
  with None show ?thesis by simp
next
  case (Some i)
  assume "\<And>j. lo \<le> j \<Longrightarrow> j < hi \<Longrightarrow> P j = Q j"
  moreover note scan_Some [OF Some]
  ultimately have "scan P lo hi = Some i" by (intro scan_eqI) auto
  with Some show ?thesis by simp
qed

section \<open>Flat memory\<close>

text \<open>A 32-bit address space. A pointer is a \<open>u32\<close>, and pointer arithmetic wraps at \<open>2 ^ 32\<close>.\<close>

type_synonym mem = "u32 \<Rightarrow> u8"

definition mem_load :: "mem \<Rightarrow> u32 \<Rightarrow> nat \<Rightarrow> u8 list" where
  "mem_load m p n = map (\<lambda>k. m (p + of_nat k)) [0..<n]"

definition mem_store :: "mem \<Rightarrow> u32 \<Rightarrow> u8 list \<Rightarrow> mem" where
  "mem_store m p bs = (\<lambda>a. if unat (a - p) < length bs then bs ! unat (a - p) else m a)"

lemma length_mem_load [simp]: "length (mem_load m p n) = n"
  by (simp add: mem_load_def)

lemma nth_mem_load [simp]: "k < n \<Longrightarrow> mem_load m p n ! k = m (p + of_nat k)"
  by (simp add: mem_load_def)

lemma mem_store_other: "length bs \<le> unat (a - p) \<Longrightarrow> mem_store m p bs a = m a"
  by (simp add: mem_store_def)

lemma mem_store_same: "k < length bs \<Longrightarrow> length bs \<le> 2 ^ 32 \<Longrightarrow> mem_store m p bs (p + of_nat k) = bs ! k"
  by (simp add: mem_store_def unat_of_nat take_bit_eq_mod)

lemma mem_load_store [simp]:
  "length bs \<le> 2 ^ 32 \<Longrightarrow> n = length bs \<Longrightarrow> mem_load (mem_store m p bs) p n = bs"
  by (rule nth_equalityI) (simp_all add: mem_store_same)

end
