(* ===== verification/CString.thy ===== *)
theory CString
  imports Prelude
begin

text \<open>
  The memory and string routines of \<open>src/src/string.c\<close> (the memory routines are repeated word for
  word in \<open>src/src/stdlib/string.c\<close>).  A pointer argument is the array it points into, as a list
  of bytes, with the offset where the routine needs one; \<open>char\<close> is a byte.  The lemmas give each
  routine's result in terms of \<open>take\<close>, \<open>drop\<close> and the text of a C string, and the accesses out of
  an array's range as \<open>None\<close>.
\<close>

section \<open>Memory routines\<close>

definition memset :: "u8 list \<Rightarrow> nat \<Rightarrow> int \<Rightarrow> nat \<Rightarrow> u8 list option" where
  "memset s off c n = for_range 0 n (\<lambda>i buf. arr_set buf (off + i) (word_of_int c)) s"

definition memcpy :: "u8 list \<Rightarrow> u8 list \<Rightarrow> nat \<Rightarrow> u8 list option" where
  "memcpy dest src n =
     for_range 0 n (\<lambda>i dstbuf. do { x \<leftarrow> arr_get src i; arr_set dstbuf i x }) dest"

function memcmp_from :: "u8 list \<Rightarrow> u8 list \<Rightarrow> nat \<Rightarrow> nat \<Rightarrow> int option" where
  "memcmp_from s1 s2 n i =
     (if i < n then
        (case arr_get s1 i of None \<Rightarrow> None | Some a \<Rightarrow>
         case arr_get s2 i of None \<Rightarrow> None | Some b \<Rightarrow>
           if a < b then Some (- 1)
           else if a > b then Some 1
           else memcmp_from s1 s2 n (Suc i))
      else Some 0)"
  by pat_completeness auto
termination
  by (relation "measure (\<lambda>(s1, s2, n, i). n - i)") auto

declare memcmp_from.simps [simp del]

definition memcmp :: "u8 list \<Rightarrow> u8 list \<Rightarrow> nat \<Rightarrow> int option" where
  "memcmp s1 s2 n = memcmp_from s1 s2 n 0"

text \<open>\<open>memmove\<close> within one array: the destination and the source are offsets into it, and the
  comparison of the pointers is the comparison of the offsets.\<close>

fun memmove_down :: "u8 list \<Rightarrow> nat \<Rightarrow> nat \<Rightarrow> nat \<Rightarrow> u8 list option" where
  "memmove_down buf d s 0 = Some buf"
| "memmove_down buf d s (Suc i) =
     do { x \<leftarrow> arr_get buf (s + i); buf' \<leftarrow> arr_set buf (d + i) x; memmove_down buf' d s i }"

definition memmove :: "u8 list \<Rightarrow> nat \<Rightarrow> nat \<Rightarrow> nat \<Rightarrow> u8 list option" where
  "memmove buf d s n =
     (if d < s
      then for_range 0 n (\<lambda>i b. do { x \<leftarrow> arr_get b (s + i); arr_set b (d + i) x }) buf
      else memmove_down buf d s n)"

section \<open>String routines\<close>

function strlen_from :: "u8 list \<Rightarrow> nat \<Rightarrow> nat option" where
  "strlen_from str len =
     (case arr_get str len of None \<Rightarrow> None
      | Some c \<Rightarrow> if c \<noteq> 0 then strlen_from str (Suc len) else Some len)"
  by pat_completeness auto
termination
  by (relation "measure (\<lambda>(str, len). length str - len)") (auto simp: arr_get_eq_Some)

declare strlen_from.simps [simp del]

definition strlen :: "u8 list \<Rightarrow> nat option" where
  "strlen str = strlen_from str 0"

function strcpy_from :: "u8 list \<Rightarrow> u8 list \<Rightarrow> nat \<Rightarrow> u8 list option" where
  "strcpy_from dest src i =
     (case arr_get src i of None \<Rightarrow> None
      | Some c \<Rightarrow>
          if c \<noteq> 0
          then (case arr_set dest i c of None \<Rightarrow> None | Some dest' \<Rightarrow> strcpy_from dest' src (Suc i))
          else arr_set dest i 0)"
  by pat_completeness auto
termination
  by (relation "measure (\<lambda>(dest, src, i). length src - i)") (auto simp: arr_get_eq_Some)

declare strcpy_from.simps [simp del]

definition strcpy :: "u8 list \<Rightarrow> u8 list \<Rightarrow> u8 list option" where
  "strcpy dest src = strcpy_from dest src 0"

text \<open>The index of \<open>strcmp\<close> is a \<open>uint16_t\<close>: it wraps, so on longer strings the loop may not end.\<close>

partial_function (option) strcmp_loop :: "u8 list \<Rightarrow> u8 list \<Rightarrow> u16 \<Rightarrow> int option" where
  "strcmp_loop str1 str2 i =
     do { a \<leftarrow> arr_get str1 (unat i);
          b \<leftarrow> arr_get str2 (unat i);
          if a \<noteq> 0 \<and> b \<noteq> 0
          then (if a \<noteq> b then Some 0 else strcmp_loop str1 str2 (i + 1))
          else Some (if a \<noteq> b then 0 else 1) }"

definition strcmp :: "u8 list \<Rightarrow> u8 list \<Rightarrow> int option" where
  "strcmp str1 str2 = strcmp_loop str1 str2 0"

partial_function (option) strncmp_loop :: "u8 list \<Rightarrow> u8 list \<Rightarrow> u16 \<Rightarrow> u16 \<Rightarrow> int option" where
  "strncmp_loop str1 str2 n i =
     (if i < n
      then do { a \<leftarrow> arr_get str1 (unat i);
                b \<leftarrow> arr_get str2 (unat i);
                if a \<noteq> 0 \<and> b \<noteq> 0
                then (if a \<noteq> b then Some 0 else strncmp_loop str1 str2 n (i + 1))
                else Some (if a \<noteq> b then 0 else 1) }
      else Some 1)"

definition strncmp :: "u8 list \<Rightarrow> u8 list \<Rightarrow> u16 \<Rightarrow> int option" where
  "strncmp str1 str2 n = strncmp_loop str1 str2 n 0"

text \<open>The range of a C \<open>int\<close>; leaving it is undefined.\<close>

definition int_range :: "int \<Rightarrow> int option" where
  "int_range x = (if - (2 ^ 31) \<le> x \<and> x < 2 ^ 31 then Some x else None)"

function string_to_int_from :: "u8 list \<Rightarrow> nat \<Rightarrow> int \<Rightarrow> int option" where
  "string_to_int_from str i result =
     (case arr_get str i of None \<Rightarrow> None
      | Some c \<Rightarrow>
          if c \<noteq> 0
          then (if 48 \<le> c \<and> c \<le> 57
                then (case int_range (result * 10 + (uint c - 48)) of None \<Rightarrow> None
                      | Some result' \<Rightarrow> string_to_int_from str (Suc i) result')
                else Some result)
          else Some result)"
  by pat_completeness auto
termination
  by (relation "measure (\<lambda>(str, i, result). length str - i)") (auto simp: arr_get_eq_Some)

declare string_to_int_from.simps [simp del]

definition string_to_int :: "u8 list \<Rightarrow> int option" where
  "string_to_int str =
     do { c \<leftarrow> arr_get str 0;
          if c = 45
          then map_option (\<lambda>result. - 1 * result) (string_to_int_from str 1 0)
          else string_to_int_from str 0 0 }"

section \<open>Results of the memory routines\<close>

lemma memset_eq:
  "off + n \<le> length s \<Longrightarrow>
     memset s off c n = Some (take off s @ replicate n (word_of_int c) @ drop (off + n) s)"
  unfolding memset_def
  by (subst for_range_fill [where g = "\<lambda>_. word_of_int c" and off = off and m = "length s"])
    (simp_all add: map_replicate_const)

lemma memcpy_eq:
  "n \<le> length dest \<Longrightarrow> n \<le> length src \<Longrightarrow> memcpy dest src n = Some (take n src @ drop n dest)"
  unfolding memcpy_def
  by (subst for_range_fill [where g = "(!) src" and off = 0 and m = "length dest"])
    (simp_all add: map_nth_take)

lemma memcpy_all [simp]: "length dest = n \<Longrightarrow> length src = n \<Longrightarrow> memcpy dest src n = Some src"
  by (simp add: memcpy_eq)

text \<open>\<open>memcmp\<close> finds the first difference.\<close>

lemma memcmp_from_spec:
  assumes "n \<le> length s1" "n \<le> length s2" "i \<le> n"
  shows "\<exists>r. memcmp_from s1 s2 n i = Some r
    \<and> (r = 0 \<longleftrightarrow> (\<forall>k. i \<le> k \<and> k < n \<longrightarrow> s1 ! k = s2 ! k))
    \<and> (r < 0 \<longleftrightarrow> (\<exists>k. i \<le> k \<and> k < n \<and> s1 ! k < s2 ! k \<and> (\<forall>j. i \<le> j \<and> j < k \<longrightarrow> s1 ! j = s2 ! j)))"
  using assms
proof (induction s1 s2 n i rule: memcmp_from.induct)
  case (1 s1 s2 n i)
  show ?case
  proof (cases "i < n \<and> s1 ! i = s2 ! i")
    case True
    with "1.prems" have "memcmp_from s1 s2 n i = memcmp_from s1 s2 n (Suc i)"
      by (simp add: memcmp_from.simps [of s1 s2 n i])
    moreover have eq: "(i \<le> k) = (k = i \<or> Suc i \<le> k)" for k by auto
    moreover obtain r where "memcmp_from s1 s2 n (Suc i) = Some r"
      "r = 0 \<longleftrightarrow> (\<forall>k. Suc i \<le> k \<and> k < n \<longrightarrow> s1 ! k = s2 ! k)"
      "r < 0 \<longleftrightarrow> (\<exists>k. Suc i \<le> k \<and> k < n \<and> s1 ! k < s2 ! k \<and> (\<forall>j. Suc i \<le> j \<and> j < k \<longrightarrow> s1 ! j = s2 ! j))"
      using "1.IH" [of "s1 ! i" "s2 ! i"] "1.prems" True by auto
    ultimately show ?thesis using True
      by (intro exI [of _ r]) (auto simp: eq)
  next
    case False
    then consider "i = n" | "i < n" "s1 ! i < s2 ! i" | "i < n" "s1 ! i > s2 ! i"
      using "1.prems" by force
    then show ?thesis
    proof cases
      case 1
      then show ?thesis by (auto simp: memcmp_from.simps [of s1 s2 n n])
    next
      case 2
      with "1.prems" show ?thesis by (fastforce simp: memcmp_from.simps [of s1 s2 n i])
    next
      case 3
      with "1.prems" show ?thesis
        by (simp add: memcmp_from.simps [of s1 s2 n i]) (metis le_neq_implies_less less_asym nless_le order_refl)
    qed
  qed
qed

lemma memcmp_eq_0: "length s1 = n \<Longrightarrow> length s2 = n \<Longrightarrow> memcmp s1 s2 n = Some 0 \<longleftrightarrow> s1 = s2"
  using memcmp_from_spec [of n s1 s2 0] by (auto simp: memcmp_def list_eq_iff_nth_eq)

lemma memcmp_total: "n \<le> length s1 \<Longrightarrow> n \<le> length s2 \<Longrightarrow> \<exists>r. memcmp s1 s2 n = Some r"
  using memcmp_from_spec [of n s1 s2 0] by (auto simp: memcmp_def)

text \<open>\<open>memmove\<close> copies as if through a temporary, whatever the overlap.\<close>

lemma memmove_down_eq:
  assumes "s \<le> d" "d + n \<le> length buf"
  shows "memmove_down buf d s n = Some (take d buf @ take n (drop s buf) @ drop (d + n) buf)"
  using assms
proof (induction n arbitrary: buf)
  case 0
  then show ?case by simp
next
  case (Suc n)
  let ?buf = "buf[d + n := buf ! (s + n)]"
  have "memmove_down buf d s (Suc n) = memmove_down ?buf d s n"
    using Suc.prems by simp
  also have "\<dots> = Some (take d ?buf @ take n (drop s ?buf) @ drop (d + n) ?buf)"
    using Suc.prems by (intro Suc.IH) simp_all
  also have "take n (drop s ?buf) = take n (drop s buf)"
    using Suc.prems by (intro nth_equalityI) (auto simp: nth_list_update)
  also have "drop (d + n) ?buf = buf ! (s + n) # drop (d + Suc n) buf"
    using Suc.prems by (simp add: drop_update_swap flip: Cons_nth_drop_Suc [of "d + n"])
  also have "take n (drop s buf) @ buf ! (s + n) # drop (d + Suc n) buf
    = take (Suc n) (drop s buf) @ drop (d + Suc n) buf"
    using Suc.prems by (simp add: take_Suc_conv_app_nth)
  finally show ?case by simp
qed

lemma memmove_up_eq:
  assumes "d \<le> s" "s + n \<le> length buf"
  shows "for_range 0 n (\<lambda>i b. do { x \<leftarrow> arr_get b (s + i); arr_set b (d + i) x }) buf
    = Some (take d buf @ take n (drop s buf) @ drop (d + n) buf)"
proof -
  let ?I = "\<lambda>k b. b = take d buf @ take k (drop s buf) @ drop (d + k) buf"
  have "\<exists>b. for_range 0 n (\<lambda>i b. do { x \<leftarrow> arr_get b (s + i); arr_set b (d + i) x }) buf = Some b \<and> ?I n b"
  proof (rule for_range_inv)
    fix i b
    assume i: "i < n" and b: "?I i b"
    have "i < length buf - s" using i assms by simp
    then have "b ! (s + i) = buf ! (s + i)"
      using b i assms by (auto simp: nth_append min_def add.commute)
    moreover have "b[d + i := buf ! (s + i)] = take d buf @ take (Suc i) (drop s buf) @ drop (d + Suc i) buf"
      using b i assms
      by (simp add: list_update_append take_Suc_conv_app_nth flip: Cons_nth_drop_Suc [of "d + i"])
    moreover have "length b = length buf" using b i assms \<open>i < length buf - s\<close> by (simp add: min_def)
    ultimately show "\<exists>b'. do { x \<leftarrow> arr_get b (s + i); arr_set b (d + i) x } = Some b' \<and> ?I (Suc i) b'"
      using i assms by simp
  qed simp_all
  then show ?thesis by blast
qed

lemma memmove_eq:
  assumes "s + n \<le> length buf" "d + n \<le> length buf"
  shows "memmove buf d s n = Some (take d buf @ take n (drop s buf) @ drop (d + n) buf)"
  using assms by (simp add: memmove_def memmove_up_eq memmove_down_eq)

section \<open>The text of a C string\<close>

definition c_text :: "u8 list \<Rightarrow> u8 list" where
  "c_text s = takeWhile (\<lambda>c. c \<noteq> 0) s"

definition terminated :: "u8 list \<Rightarrow> bool" where
  "terminated s = (0 \<in> set s)"

lemma c_text_terminated [simp]: "0 \<notin> set xs \<Longrightarrow> c_text (xs @ 0 # ys) = xs"
  by (induction xs) (auto simp: c_text_def)

lemma terminated_append [simp]: "terminated (xs @ 0 # ys)"
  by (simp add: terminated_def)

lemma terminatedE:
  assumes "terminated s"
  obtains xs ys where "s = xs @ 0 # ys" "0 \<notin> set xs"
  using assms by (auto simp: terminated_def dest: split_list_first)

lemma c_text_no_zero: "0 \<notin> set (c_text s)"
  by (auto simp: c_text_def dest: set_takeWhileD)

lemma c_text_nth: "i < length (c_text s) \<Longrightarrow> s ! i = c_text s ! i"
  by (simp add: c_text_def takeWhile_nth)

lemma c_text_nth_neq: "i < length (c_text s) \<Longrightarrow> c_text s ! i \<noteq> 0"
  using c_text_no_zero [of s] nth_mem by metis

lemma c_text_len: "terminated s \<Longrightarrow> length (c_text s) < length s"
  by (erule terminatedE) simp

lemma c_text_end: "terminated s \<Longrightarrow> s ! length (c_text s) = 0"
  by (erule terminatedE) simp

lemmas c_text_facts = c_text_nth c_text_nth_neq c_text_len c_text_end

lemma c_text_take: "terminated s \<Longrightarrow> take (length (c_text s)) s = c_text s"
  by (simp add: c_text_def takeWhile_eq_take [symmetric])

section \<open>Results of the string routines\<close>

lemma strlen_from_eq:
  assumes "terminated str" "i \<le> length (c_text str)"
  shows "strlen_from str i = Some (length (c_text str))"
  using assms
proof (induction "length (c_text str) - i" arbitrary: i)
  case 0
  then have "i = length (c_text str)" by simp
  with 0 show ?case by (simp add: strlen_from.simps [of str "length (c_text str)"] c_text_facts)
next
  case (Suc n)
  then have "i < length (c_text str)" by simp
  moreover from this Suc.prems have "i < length str" using c_text_len by fastforce
  ultimately have "strlen_from str i = strlen_from str (Suc i)"
    by (simp add: strlen_from.simps [of str i] c_text_facts)
  with Suc show ?case by simp
qed

lemma strlen_eq: "terminated str \<Longrightarrow> strlen str = Some (length (c_text str))"
  by (simp add: strlen_def strlen_from_eq)

lemma strcpy_from_eq:
  assumes "terminated src" "length (c_text src) < length dest" "i \<le> length (c_text src)"
    and "take i dest = take i (c_text src)"
  shows "strcpy_from dest src i
    = Some (c_text src @ 0 # drop (Suc (length (c_text src))) dest)"
  using assms
proof (induction "length (c_text src) - i" arbitrary: i dest)
  case 0
  then have "i = length (c_text src)" by simp
  with 0 show ?case
    by (simp add: strcpy_from.simps [of dest src "length (c_text src)"] c_text_facts upd_conv_take_nth_drop)
next
  case (Suc n)
  let ?c = "c_text src ! i"
  from Suc.hyps(2) have i: "i < length (c_text src)" by simp
  then have "i < length src" using c_text_len [OF Suc.prems(1)] by simp
  with i Suc.prems have "strcpy_from dest src i = strcpy_from (dest[i := ?c]) src (Suc i)"
    by (simp add: strcpy_from.simps [of dest src i] c_text_facts)
  also have "\<dots> = Some (c_text src @ 0 # drop (Suc (length (c_text src))) (dest[i := ?c]))"
    using Suc i by (intro Suc.hyps(1)) (simp_all add: take_Suc_conv_app_nth)
  finally show ?case using i by simp
qed

lemma strcpy_eq:
  "terminated src \<Longrightarrow> length (c_text src) < length dest \<Longrightarrow>
     strcpy dest src = Some (c_text src @ 0 # drop (Suc (length (c_text src))) dest)"
  by (simp add: strcpy_def strcpy_from_eq)

text \<open>The sense of \<open>strcmp\<close> is the reverse of the C library's: 1 for equal strings, else 0.\<close>

lemma strcmp_loop_eq:
  assumes "terminated s" "terminated t" "length (c_text s) < 2 ^ 16"
    and "i \<le> length (c_text s)" "take i (c_text s) = take i (c_text t)" "i \<le> length (c_text t)"
  shows "strcmp_loop s t (of_nat i) = Some (if c_text s = c_text t then 1 else 0)"
  using assms
proof (induction "length (c_text s) - i" arbitrary: i)
  case (0 i)
  then have i: "i = length (c_text s)" and u: "unat (of_nat i :: u16) = i"
    by (simp_all add: unat_of_nat take_bit_eq_mod)
  have "(t ! i = 0) = (c_text s = c_text t)"
    using 0 i by (metis c_text_end c_text_nth c_text_nth_neq le_neq_implies_less take_all_iff take_all)
  moreover have "i < length t" using 0 c_text_len [of t] by simp
  moreover have "i < length s" "s ! i = 0" using 0 i by (simp_all add: c_text_facts)
  ultimately show ?case using u
    by (simp add: strcmp_loop.simps [of s t "of_nat i"])
next
  case (Suc n i)
  then have i: "i < length (c_text s)" and u: "unat (of_nat i :: u16) = i"
    by (simp_all add: unat_of_nat take_bit_eq_mod)
  have l: "i < length s" "i < length t"
    using Suc.prems i c_text_len [of s] c_text_len [of t] by simp_all
  show ?case
  proof (cases "i < length (c_text t) \<and> c_text s ! i = c_text t ! i")
    case True
    then have "strcmp_loop s t (of_nat i) = strcmp_loop s t (of_nat (Suc i))"
      using i u l by (simp add: strcmp_loop.simps [of s t "of_nat i"] c_text_facts add.commute)
    also have "\<dots> = Some (if c_text s = c_text t then 1 else 0)"
      using Suc i True by (intro Suc.hyps(1)) (simp_all add: take_Suc_conv_app_nth)
    finally show ?thesis .
  next
    case False
    then have "t ! i = 0 \<or> t ! i \<noteq> c_text s ! i" "c_text s \<noteq> c_text t"
      using Suc.prems i by (auto simp: c_text_facts le_eq_less_or_eq)
    then show ?thesis
      using i u l c_text_nth_neq [OF i] by (auto simp: strcmp_loop.simps [of s t "of_nat i"] c_text_facts)
  qed
qed

lemma strcmp_eq:
  "terminated s \<Longrightarrow> terminated t \<Longrightarrow> length (c_text s) < 2 ^ 16 \<Longrightarrow>
     strcmp s t = Some (if c_text s = c_text t then 1 else 0)"
  using strcmp_loop_eq [of s t 0] by (simp add: strcmp_def)

lemma strncmp_loop_eq:
  assumes "terminated s" "terminated t" "i \<le> unat n"
    and "i \<le> length (c_text s)" "take i (c_text s) = take i (c_text t)" "i \<le> length (c_text t)"
  shows "strncmp_loop s t n (of_nat i)
    = Some (if take (unat n) (c_text s) = take (unat n) (c_text t) then 1 else 0)"
  using assms
proof (induction "unat n - i" arbitrary: i)
  case (0 i)
  then have i: "i = unat n" by simp
  with 0 show ?case by (simp add: strncmp_loop.simps [of s t n n])
next
  case (Suc k i)
  have "unat n < 65536" by (rule unat_u16_lt)
  with Suc.hyps(2) have u: "unat (of_nat i :: u16) = i" and i: "i < unat n"
    by (simp_all add: unat_of_nat_u16)
  then have lt: "of_nat i < n" by (simp add: word_less_nat_alt)
  have l: "i < length s" "i < length t"
    using Suc.prems c_text_len [of s] c_text_len [of t] by simp_all
  note step = strncmp_loop.simps [of s t n "of_nat i"]
  consider (same) "i < length (c_text s)" "i < length (c_text t)" "c_text s ! i = c_text t ! i"
    | (end_both) "i = length (c_text s)" "i = length (c_text t)"
    | (differ) "s ! i \<noteq> t ! i" "take (Suc i) (c_text s) \<noteq> take (Suc i) (c_text t)"
  proof (cases "s ! i = t ! i")
    case True
    then show thesis
      using that Suc.prems c_text_end c_text_nth c_text_nth_neq
      by (metis le_neq_implies_less)
  next
    case False
    have "take (Suc i) (c_text s) \<noteq> take (Suc i) (c_text t)"
    proof
      assume E: "take (Suc i) (c_text s) = take (Suc i) (c_text t)"
      then have "min (length (c_text s)) (Suc i) = min (length (c_text t)) (Suc i)"
        by (metis length_take)
      then consider "i = length (c_text s)" "i = length (c_text t)"
        | "i < length (c_text s)" "i < length (c_text t)"
        using Suc.prems(4,6) by linarith
      then show False
      proof cases
        case 1
        with False c_text_end [OF Suc.prems(1)] c_text_end [OF Suc.prems(2)] show ?thesis by simp
      next
        case 2
        from E have "take (Suc i) (c_text s) ! i = take (Suc i) (c_text t) ! i" by simp
        with 2 False show ?thesis by (simp add: c_text_nth)
      qed
    qed
    with False that show thesis by blast
  qed
  then show ?case
  proof cases
    case same
    then have "strncmp_loop s t n (of_nat i) = strncmp_loop s t n (of_nat (Suc i))"
      using u l lt by (simp add: step c_text_facts add.commute)
    also have "\<dots> = Some (if take (unat n) (c_text s) = take (unat n) (c_text t) then 1 else 0)"
      using Suc same i by (intro Suc.hyps(1)) (simp_all add: take_Suc_conv_app_nth)
    finally show ?thesis .
  next
    case end_both
    then have "s ! i = 0" "t ! i = 0"
      using c_text_end [OF Suc.prems(1)] c_text_end [OF Suc.prems(2)] by simp_all
    moreover have "c_text s = c_text t" using end_both Suc.prems(5) by (metis take_all_iff order_refl)
    ultimately show ?thesis using u l lt by (simp add: step)
  next
    case differ
    from i have "Suc i \<le> unat n" by simp
    with differ(2) have "take (unat n) (c_text s) \<noteq> take (unat n) (c_text t)"
      using take_eq_mono by blast
    with differ(1) show ?thesis using u l lt by (simp add: step)
  qed
qed

lemma strncmp_eq:
  "terminated s \<Longrightarrow> terminated t \<Longrightarrow>
     strncmp s t n = Some (if take (unat n) (c_text s) = take (unat n) (c_text t) then 1 else 0)"
  using strncmp_loop_eq [of s t 0 n] by (simp add: strncmp_def)

section \<open>Decimal numbers\<close>

definition is_digit :: "u8 \<Rightarrow> bool" where
  "is_digit c = (48 \<le> c \<and> c \<le> 57)"

text \<open>The value of a digit sequence, most significant digit first.\<close>

definition dec_value :: "int \<Rightarrow> u8 list \<Rightarrow> int" where
  "dec_value v ds = foldl (\<lambda>v c. v * 10 + (uint c - 48)) v ds"

lemma dec_value_simps [simp]:
  "dec_value v [] = v"
  "dec_value v (c # ds) = dec_value (v * 10 + (uint c - 48)) ds"
  "dec_value v (ds @ [c]) = dec_value v ds * 10 + (uint c - 48)"
  by (simp_all add: dec_value_def)

lemma is_digit_bounds: "is_digit c \<Longrightarrow> 0 \<le> uint c - 48 \<and> uint c - 48 \<le> 9 \<and> c \<noteq> 0 \<and> c \<noteq> 45"
  by (auto simp: is_digit_def word_le_def)

lemma dec_value_mono: "0 \<le> v \<Longrightarrow> \<forall>c \<in> set ds. is_digit c \<Longrightarrow> v \<le> dec_value v ds"
proof (induction ds arbitrary: v)
  case Nil
  then show ?case by simp
next
  case (Cons c ds)
  from Cons.prems have "0 \<le> uint c - 48" using is_digit_bounds by auto
  then have "v \<le> v * 10 + (uint c - 48)" using Cons.prems by simp
  also have "\<dots> \<le> dec_value (v * 10 + (uint c - 48)) ds"
    using Cons.prems \<open>0 \<le> uint c - 48\<close> by (intro Cons.IH) auto
  finally show ?case by simp
qed

lemma string_to_int_from_eq:
  assumes "\<forall>c \<in> set ds. is_digit c" "\<not> is_digit e" "0 \<le> v" "v < 2 ^ 31"
  shows "string_to_int_from (pre @ ds @ e # rest) (length pre) v
    = (if dec_value v ds < 2 ^ 31 then Some (dec_value v ds) else None)"
  using assms
proof (induction ds arbitrary: pre v)
  case Nil
  then show ?case by (auto simp: string_to_int_from.simps [of _ "length pre"] is_digit_def)
next
  case (Cons c ds)
  let ?v = "v * 10 + (uint c - 48)"
  have c: "is_digit c" and b: "0 \<le> uint c - 48" using Cons.prems is_digit_bounds by auto
  have step: "string_to_int_from (pre @ (c # ds) @ e # rest) (length pre) v
    = (if ?v < 2 ^ 31 then string_to_int_from ((pre @ [c]) @ ds @ e # rest) (length (pre @ [c])) ?v else None)"
    using c b Cons.prems is_digit_bounds [OF c]
    by (simp add: string_to_int_from.simps [of _ "length pre"] is_digit_def int_range_def)
  show ?case
  proof (cases "?v < 2 ^ 31")
    case True
    then show ?thesis unfolding step using Cons.IH [of ?v "pre @ [c]"] Cons.prems b by simp
  next
    case False
    moreover have "?v \<le> dec_value ?v ds" using Cons.prems b by (intro dec_value_mono) auto
    ultimately show ?thesis unfolding step by simp
  qed
qed

lemma string_to_int_eq:
  assumes "\<forall>c \<in> set ds. is_digit c" "\<not> is_digit e" "ds = [] \<Longrightarrow> e \<noteq> 45"
  shows "string_to_int (ds @ e # rest)
      = (if dec_value 0 ds < 2 ^ 31 then Some (dec_value 0 ds) else None)"
    and "string_to_int (45 # ds @ e # rest)
      = (if dec_value 0 ds < 2 ^ 31 then Some (- dec_value 0 ds) else None)"
proof -
  have "(ds @ e # rest) ! 0 \<noteq> 45" "0 < length (ds @ e # rest)"
    using assms is_digit_bounds by (cases ds; auto)+
  then show "string_to_int (ds @ e # rest)
      = (if dec_value 0 ds < 2 ^ 31 then Some (dec_value 0 ds) else None)"
    using string_to_int_from_eq [OF assms(1,2), of 0 "[]" rest] by (simp add: string_to_int_def)
  show "string_to_int (45 # ds @ e # rest)
      = (if dec_value 0 ds < 2 ^ 31 then Some (- dec_value 0 ds) else None)"
    using string_to_int_from_eq [OF assms(1,2), of 0 "[45]" rest] by (simp add: string_to_int_def)
qed

end
