(* ===== verification/Disk.thy ===== *)
theory Disk
  imports Prelude
begin

text \<open>
  The block store under the file system: \<open>read_blocks\<close> and \<open>write_blocks\<close> of
  \<open>src/src/external-inserter.c\<close>, which keep the image of the disk in memory, and the cluster
  functions of \<open>src/src/fat32.c\<close> on top of them.  The locale \<open>cluster_store\<close> is what the file system
  relies on: what a cluster holds after a write to it or to another cluster.  Its lemmas about
  sequences of writes are proved once, and the interpretation \<open>img\<close> gives them to the image.
\<close>

section \<open>Blocks\<close>

text \<open>The bytes from \<open>image_storage\<close> on.  An offset is computed in \<open>uint32_t\<close>, as the code does.\<close>

type_synonym image = mem

text \<open>The bytes that \<open>read_blocks\<close> stores from \<open>ptr\<close> on: iteration \<open>i\<close> copies block \<open>lba + i\<close> to
  \<open>ptr + 512 * i\<close>.\<close>

definition read_blocks :: "image \<Rightarrow> u32 \<Rightarrow> u8 \<Rightarrow> u8 list" where
  "read_blocks image_storage lba block_count =
     concat (map (\<lambda>i. mem_load image_storage (512 * (lba + of_nat i)) 512) [0..<unat block_count])"

text \<open>\<open>ptr\<close> is the source as a list of at least \<open>512 * block_count\<close> bytes.\<close>

definition write_blocks :: "image \<Rightarrow> u8 list \<Rightarrow> u32 \<Rightarrow> u8 \<Rightarrow> image" where
  "write_blocks image_storage ptr lba block_count =
     fold (\<lambda>i im. mem_store im (512 * (lba + of_nat i)) (take 512 (drop (512 * i) ptr)))
       [0..<unat block_count] image_storage"

section \<open>Clusters\<close>

definition cluster_to_lba :: "u32 \<Rightarrow> u32" where
  "cluster_to_lba cluster = cluster * 4"

definition read_clusters :: "image \<Rightarrow> u32 \<Rightarrow> u8 \<Rightarrow> u8 list" where
  "read_clusters im cluster_number cluster_count =
     read_blocks im (cluster_number * 4) (cluster_count * 4)"

definition write_clusters :: "image \<Rightarrow> u8 list \<Rightarrow> u32 \<Rightarrow> u8 \<Rightarrow> image" where
  "write_clusters im ptr cluster_number cluster_count =
     write_blocks im ptr (cluster_number * 4) (cluster_count * 4)"

section \<open>Closed forms\<close>

lemma read_blocks_load: "read_blocks im lba n = mem_load im (512 * lba) (512 * unat n)"
proof -
  have "concat (map (\<lambda>i. mem_load im (512 * (lba + of_nat i)) 512) [0..<k]) = mem_load im (512 * lba) (512 * k)" for k
  proof (induction k)
    case 0
    then show ?case by (simp add: mem_load_def)
  next
    case (Suc k)
    have "mem_load im (512 * lba) (512 * k) @ mem_load im (512 * (lba + of_nat k)) 512
      = mem_load im (512 * lba) (512 * k + 512)"
      by (rule nth_equalityI) (auto simp: nth_append mem_load_def of_nat_diff algebra_simps)
    with Suc show ?case by (simp add: add.commute)
  qed
  then show ?thesis by (simp add: read_blocks_def)
qed

lemma mem_store_append:
  assumes "length xs + length ys \<le> 2 ^ 32"
  shows "mem_store (mem_store m p xs) (p + of_nat (length xs)) ys = mem_store m p (xs @ ys)"
proof
  fix a
  let ?n = "length xs"
  have *: "unat (d - of_nat ?n) = (if ?n \<le> unat d then unat d - ?n else unat d + 2 ^ 32 - ?n)"
    if "?n < 2 ^ 32" for d :: u32
    using that by (simp add: unat_sub_u32 unat_of_nat_u32)
  have d: "unat (a - (p + of_nat ?n)) = unat ((a - p) - of_nat ?n)" by (simp add: diff_diff_eq)
  show "mem_store (mem_store m p xs) (p + of_nat ?n) ys a = mem_store m p (xs @ ys) a"
  proof (cases "?n < 2 ^ 32")
    case True
    note e = trans [OF d * [OF True]]
    show ?thesis using assms e unat_u32_lt [of "a - p"]
      by (auto simp: mem_store_def nth_append)
  next
    case False
    with assms have "length ys = 0" by linarith
    then show ?thesis by (simp add: mem_store_def)
  qed
qed

lemma write_blocks_store:
  assumes "length bs = 512 * unat n"
  shows "write_blocks im bs lba n = mem_store im (512 * lba) bs"
proof -
  have n: "unat n < 256" by (rule unat_u8_lt)
  have "fold (\<lambda>i im. mem_store im (512 * (lba + of_nat i)) (take 512 (drop (512 * i) bs))) [0..<k] im
      = mem_store im (512 * lba) (take (512 * k) bs)" if "k \<le> unat n" for k
    using that
  proof (induction k)
    case 0
    then show ?case by (simp add: mem_store_def)
  next
    case (Suc k)
    have l: "length (take (512 * k) bs) = 512 * k" using assms Suc.prems by simp
    have "mem_store (mem_store im (512 * lba) (take (512 * k) bs)) (512 * lba + of_nat (512 * k)) (take 512 (drop (512 * k) bs))
        = mem_store im (512 * lba) (take (512 * k) bs @ take 512 (drop (512 * k) bs))"
      using mem_store_append [of "take (512 * k) bs" "take 512 (drop (512 * k) bs)" im "512 * lba"] l n Suc.prems
      by simp
    also have "take (512 * k) bs @ take 512 (drop (512 * k) bs) = take (512 * Suc k) bs"
      using take_add [of "512 * k" 512 bs] by (simp add: add.commute)
    finally show ?case using Suc by (simp add: algebra_simps)
  qed
  then show ?thesis using assms by (simp add: write_blocks_def)
qed

lemma read_clusters_load: "read_clusters im c 1 = mem_load im (2048 * c) 2048"
  by (simp add: read_clusters_def read_blocks_load)

lemma write_clusters_store:
  "length bs = 2048 \<Longrightarrow> write_clusters im bs c 1 = mem_store im (2048 * c) bs"
  by (simp add: write_clusters_def write_blocks_store)

lemma length_read_clusters [simp]: "length (read_clusters im c 1) = 2048"
  by (simp add: read_clusters_load)

section \<open>The interface of the file system to the store\<close>

text \<open>Reading a cluster gives what was last written to it; writes to other clusters do not matter.\<close>

locale cluster_store =
  fixes rd :: "'d \<Rightarrow> 'c \<Rightarrow> 'b list" and wr :: "'d \<Rightarrow> 'b list \<Rightarrow> 'c \<Rightarrow> 'd"
    and csize :: nat and valid :: "'c \<Rightarrow> bool"
  assumes rd_length: "length (rd d c) = csize"
    and rd_wr_same: "length bs = csize \<Longrightarrow> rd (wr d bs c) c = bs"
    and rd_wr_other: "length bs = csize \<Longrightarrow> valid c \<Longrightarrow> valid c' \<Longrightarrow> c \<noteq> c' \<Longrightarrow> rd (wr d bs c') c = rd d c"
begin

text \<open>A sequence of cluster writes, and what it leaves in a cluster.\<close>

definition wr_all :: "('c \<times> 'b list) list \<Rightarrow> 'd \<Rightarrow> 'd" where
  "wr_all ws d = fold (\<lambda>(c, bs) d. wr d bs c) ws d"

definition ok_writes :: "('c \<times> 'b list) list \<Rightarrow> bool" where
  "ok_writes ws = (\<forall>(c, bs) \<in> set ws. valid c \<and> length bs = csize)"

lemma wr_all_simps [simp]:
  "wr_all [] d = d"
  "wr_all ((c, bs) # ws) d = wr_all ws (wr d bs c)"
  by (simp_all add: wr_all_def)

lemma ok_writes_simps [simp]:
  "ok_writes []"
  "ok_writes ((c, bs) # ws) \<longleftrightarrow> valid c \<and> length bs = csize \<and> ok_writes ws"
  by (auto simp: ok_writes_def)

lemma rd_wr_all_other:
  "ok_writes ws \<Longrightarrow> valid c \<Longrightarrow> c \<notin> fst ` set ws \<Longrightarrow> rd (wr_all ws d) c = rd d c"
  by (induction ws arbitrary: d) (auto simp: rd_wr_other)

lemma rd_wr_all:
  "ok_writes ws \<Longrightarrow> distinct (map fst ws) \<Longrightarrow> (c, bs) \<in> set ws \<Longrightarrow> rd (wr_all ws d) c = bs"
proof (induction ws arbitrary: d)
  case Nil
  then show ?case by simp
next
  case (Cons w ws)
  obtain c' bs' where w: "w = (c', bs')" by (cases w)
  show ?case
  proof (cases "c = c'")
    case True
    with Cons.prems w have "c \<notin> fst ` set ws" "bs = bs'" by force+
    with True Cons.prems w show ?thesis by (simp add: rd_wr_all_other rd_wr_same)
  next
    case False
    with Cons w show ?thesis by auto
  qed
qed

text \<open>Data written to distinct clusters is read back cluster by cluster.\<close>

lemma rd_wr_all_chain:
  assumes "distinct cs" "length bss = length cs" "ok_writes (zip cs bss)"
  shows "map (rd (wr_all (zip cs bss) d)) cs = bss"
proof (rule nth_equalityI)
  fix i assume i: "i < length (map (rd (wr_all (zip cs bss) d)) cs)"
  with assms(2) have "(cs ! i, bss ! i) \<in> set (zip cs bss)" by (auto simp: set_zip)
  moreover have "distinct (map fst (zip cs bss))" using assms by simp
  ultimately show "map (rd (wr_all (zip cs bss) d)) cs ! i = bss ! i"
    using assms i by (simp add: rd_wr_all)
qed (use assms in simp)

end

text \<open>The image provides the interface for the cluster numbers whose bytes do not wrap around.\<close>

definition cluster_ok :: "u32 \<Rightarrow> bool" where
  "cluster_ok c = (unat c < 2 ^ 21)"

lemma mem_store_apart:
  assumes "cluster_ok c" "cluster_ok c'" "c \<noteq> c'" "length bs = 2048"
  shows "mem_load (mem_store im (2048 * c') bs) (2048 * c) 2048 = mem_load im (2048 * c) 2048"
proof (rule nth_equalityI)
  fix k assume "k < length (mem_load (mem_store im (2048 * c') bs) (2048 * c) 2048)"
  then have k: "k < 2048" by simp
  have u: "unat (2048 * c) = 2048 * unat c" "unat (2048 * c') = 2048 * unat c'"
    using assms by (simp_all add: unat_mult_u32 cluster_ok_def)
  have "unat (of_nat k :: u32) = k" using k by (intro unat_of_nat_u32) simp
  then have uk: "unat (2048 * c + of_nat k) = 2048 * unat c + k"
    using k assms(1) u by (simp add: unat_add_u32 cluster_ok_def)
  have "unat c \<noteq> unat c'" using assms(3) by (simp add: word_eq_iff_unsigned [where ?'a = nat])
  then have "2048 \<le> unat (2048 * c + of_nat k - 2048 * c')"
    using uk u k assms(1,2) by (auto simp: unat_sub_u32 cluster_ok_def)
  then show "mem_load (mem_store im (2048 * c') bs) (2048 * c) 2048 ! k = mem_load im (2048 * c) 2048 ! k"
    using k assms(4) by (simp add: mem_store_other)
qed simp

interpretation img: cluster_store "\<lambda>im c. read_clusters im c 1" "\<lambda>im bs c. write_clusters im bs c 1"
  2048 cluster_ok
  by unfold_locales (simp_all add: read_clusters_load write_clusters_store mem_store_apart)

end
