(* ===== verification/FatTypes.thy ===== *)
theory FatTypes
  imports CString Disk
begin

text \<open>
  The data structures of the file system (\<open>src/src/header/filesystem/fat32.h\<close>): directory entries and
  directory tables, the file allocation table, the driver state and the request.  The packed
  structures are read from and written to clusters as raw bytes; \<open>encode_\<close> and \<open>decode_\<close> are the
  layout \<open>__attribute__((packed))\<close> gives them on a little-endian machine, and decoding an encoded
  structure gives it back.
\<close>

section \<open>Little-endian words\<close>

definition le16 :: "u8 \<Rightarrow> u8 \<Rightarrow> u16" where
  "le16 a b = ucast a OR push_bit 8 (ucast b)"

definition le32 :: "u8 \<Rightarrow> u8 \<Rightarrow> u8 \<Rightarrow> u8 \<Rightarrow> u32" where
  "le32 a b c d = ucast a OR push_bit 8 (ucast b) OR push_bit 16 (ucast c) OR push_bit 24 (ucast d)"

definition bytes16 :: "u16 \<Rightarrow> u8 list" where
  "bytes16 w = [ucast w, ucast (drop_bit 8 w)]"

definition bytes32 :: "u32 \<Rightarrow> u8 list" where
  "bytes32 w = [ucast w, ucast (drop_bit 8 w), ucast (drop_bit 16 w), ucast (drop_bit 24 w)]"

lemma length_bytes [simp]: "length (bytes16 w) = 2" "length (bytes32 v) = 4"
  by (simp_all add: bytes16_def bytes32_def)

lemma le16_bytes [simp]: "le16 (ucast w) (ucast (drop_bit 8 w)) = w"
  by (rule bit_word_eqI) (auto simp: le16_def bit_simps)

lemma le32_bytes [simp]:
  "le32 (ucast w) (ucast (drop_bit 8 w)) (ucast (drop_bit 16 w)) (ucast (drop_bit 24 w)) = w"
proof (rule bit_word_eqI)
  fix n assume "n < LENGTH(32)"
  then consider "n < 8" | "8 \<le> n" "n < 16" | "16 \<le> n" "n < 24" | "24 \<le> n" "n < 32"
    by fastforce
  then show "bit (le32 (ucast w) (ucast (drop_bit 8 w)) (ucast (drop_bit 16 w)) (ucast (drop_bit 24 w))) n = bit w n"
    by cases (auto simp: le32_def bit_simps)
qed

section \<open>Directory entries\<close>

record dirent =
  name :: "u8 list"
  ext :: "u8 list"
  attribute :: u8
  user_attribute :: u8
  undelete :: u8
  create_time :: u16
  create_date :: u16
  access_date :: u16
  cluster_high :: u16
  modified_time :: u16
  modified_date :: u16
  cluster_low :: u16
  filesize :: u32

text \<open>\<open>char name[8]\<close> and \<open>char ext[3]\<close> have exactly these lengths.\<close>

definition wf_dirent :: "dirent \<Rightarrow> bool" where
  "wf_dirent e = (length (name e) = 8 \<and> length (ext e) = 3)"

definition encode_dirent :: "dirent \<Rightarrow> u8 list" where
  "encode_dirent e =
     name e @ ext e @ [attribute e, user_attribute e, undelete e] @
     bytes16 (create_time e) @ bytes16 (create_date e) @ bytes16 (access_date e) @
     bytes16 (cluster_high e) @ bytes16 (modified_time e) @ bytes16 (modified_date e) @
     bytes16 (cluster_low e) @ bytes32 (filesize e)"

definition decode_dirent :: "u8 list \<Rightarrow> dirent" where
  "decode_dirent b =
     \<lparr> name = take 8 b, ext = take 3 (drop 8 b),
       attribute = b ! 11, user_attribute = b ! 12, undelete = b ! 13,
       create_time = le16 (b ! 14) (b ! 15), create_date = le16 (b ! 16) (b ! 17),
       access_date = le16 (b ! 18) (b ! 19), cluster_high = le16 (b ! 20) (b ! 21),
       modified_time = le16 (b ! 22) (b ! 23), modified_date = le16 (b ! 24) (b ! 25),
       cluster_low = le16 (b ! 26) (b ! 27),
       filesize = le32 (b ! 28) (b ! 29) (b ! 30) (b ! 31) \<rparr>"

lemma length_encode_dirent [simp]: "wf_dirent e \<Longrightarrow> length (encode_dirent e) = 32"
  by (simp add: encode_dirent_def wf_dirent_def)

lemma wf_decode_dirent: "length b = 32 \<Longrightarrow> wf_dirent (decode_dirent b)"
  by (simp add: decode_dirent_def wf_dirent_def)

lemma decode_encode_dirent [simp]: "wf_dirent e \<Longrightarrow> decode_dirent (encode_dirent e) = e"
  by (simp add: decode_dirent_def encode_dirent_def wf_dirent_def nth_append bytes16_def bytes32_def)

text \<open>An entry of zero bytes, as \<open>= {0}\<close> initialises it.\<close>

definition zero_dirent :: dirent where
  "zero_dirent = decode_dirent (replicate 32 0)"

lemma wf_zero_dirent [simp]: "wf_dirent zero_dirent"
  by (simp add: zero_dirent_def wf_decode_dirent)

section \<open>Arrays of fixed-size elements\<close>

text \<open>The \<open>i\<close>-th element of size \<open>w\<close> of a byte array.\<close>

definition chunk :: "nat \<Rightarrow> u8 list \<Rightarrow> nat \<Rightarrow> u8 list" where
  "chunk w b i = take w (drop (w * i) b)"

lemma chunk_concat:
  assumes "\<forall>x \<in> set xs. length (f x) = w" "i < length xs"
  shows "chunk w (concat (map f xs)) i = f (xs ! i)"
  using assms
proof (induction xs arbitrary: i)
  case Nil
  then show ?case by simp
next
  case (Cons x xs)
  then show ?case by (cases i) (simp_all add: chunk_def)
qed

lemma length_concat_fixed: "\<forall>x \<in> set xs. length (f x) = w \<Longrightarrow> length (concat (map f xs)) = w * length xs"
  by (induction xs) simp_all

lemma length_chunk: "w * Suc i \<le> length b \<Longrightarrow> length (chunk w b i) = w"
  by (simp add: chunk_def)

lemma nth_chunk: "k < w \<Longrightarrow> w * i \<le> length b \<Longrightarrow> chunk w b i ! k = b ! (w * i + k)"
  by (simp add: chunk_def)

section \<open>Directory tables and the file allocation table\<close>

type_synonym dirtable = "dirent list"

definition wf_table :: "dirtable \<Rightarrow> bool" where
  "wf_table t = (length t = 64 \<and> (\<forall>e \<in> set t. wf_dirent e))"

definition encode_table :: "dirtable \<Rightarrow> u8 list" where
  "encode_table t = concat (map encode_dirent t)"

definition decode_table :: "u8 list \<Rightarrow> dirtable" where
  "decode_table b = map (\<lambda>i. decode_dirent (chunk 32 b i)) [0..<64]"

lemma length_encode_table [simp]: "wf_table t \<Longrightarrow> length (encode_table t) = 2048"
  by (simp add: encode_table_def wf_table_def length_concat_fixed [where w = 32])

lemma wf_decode_table: "length b = 2048 \<Longrightarrow> wf_table (decode_table b)"
  by (auto simp: wf_table_def decode_table_def intro!: wf_decode_dirent length_chunk)

lemma decode_encode_table [simp]: "wf_table t \<Longrightarrow> decode_table (encode_table t) = t"
  by (rule nth_equalityI)
    (simp_all add: wf_table_def decode_table_def encode_table_def chunk_concat [where w = 32])

definition zero_table :: dirtable where
  "zero_table = replicate 64 zero_dirent"

lemma wf_zero_table [simp]: "wf_table zero_table"
  by (simp add: zero_table_def wf_table_def)

definition encode_fat :: "u32 list \<Rightarrow> u8 list" where
  "encode_fat cluster_map = concat (map bytes32 cluster_map)"

definition decode_fat :: "u8 list \<Rightarrow> u32 list" where
  "decode_fat b = map (\<lambda>i. le32 (b ! (4 * i)) (b ! (4 * i + 1)) (b ! (4 * i + 2)) (b ! (4 * i + 3))) [0..<512]"

lemma length_encode_fat [simp]: "length m = 512 \<Longrightarrow> length (encode_fat m) = 2048"
  by (simp add: encode_fat_def length_concat_fixed [where w = 4])

lemma length_decode_fat [simp]: "length (decode_fat b) = 512"
  by (simp add: decode_fat_def)

lemma encode_fat_nth:
  assumes "i < length m" "k < 4"
  shows "encode_fat m ! (4 * i + k) = bytes32 (m ! i) ! k"
proof -
  have "chunk 4 (encode_fat m) i = bytes32 (m ! i)"
    using assms by (simp add: encode_fat_def chunk_concat)
  moreover have "4 * i \<le> length (encode_fat m)"
    using assms by (simp add: encode_fat_def length_concat_fixed [where w = 4])
  ultimately show ?thesis using assms(2) nth_chunk [of k 4 i "encode_fat m"] by simp
qed

lemma decode_encode_fat [simp]: "length m = 512 \<Longrightarrow> decode_fat (encode_fat m) = m"
proof (rule nth_equalityI)
  assume l: "length m = 512"
  fix i assume "i < length (decode_fat (encode_fat m))"
  then have i: "i < 512" by simp
  with l show "decode_fat (encode_fat m) ! i = m ! i"
    using encode_fat_nth [of i m 0] encode_fat_nth [of i m 1] encode_fat_nth [of i m 2] encode_fat_nth [of i m 3]
    by (simp add: decode_fat_def bytes32_def)
qed simp

section \<open>Driver state and requests\<close>

text \<open>The static variable \<open>fat32_driver_state\<close> with the disk it drives.  (The field \<open>cluster_buf\<close> of
  the C structure is not used by any function.)\<close>

record fs =
  image :: image
  cluster_map :: "u32 list"
  dir_table_buf :: dirtable

record request =
  r_buf :: u32
  r_name :: "u8 list"
  r_ext :: "u8 list"
  parent_cluster_number :: u32
  buffer_size :: u32

definition wf_request :: "request \<Rightarrow> bool" where
  "wf_request r = (length (r_name r) = 8 \<and> length (r_ext r) = 3)"

text \<open>\<open>(cluster_high << 16) | cluster_low\<close> as a \<open>uint32_t\<close>.\<close>

definition entry_cluster :: "dirent \<Rightarrow> u32" where
  "entry_cluster e = push_bit 16 (ucast (cluster_high e)) OR ucast (cluster_low e)"

definition high16 :: "u32 \<Rightarrow> u16" where
  "high16 c = ucast (drop_bit 16 c)"

definition low16 :: "u32 \<Rightarrow> u16" where
  "low16 c = ucast (c AND 0xFFFF)"

lemma join_high_low: "push_bit 16 (ucast (high16 c)) OR ucast (low16 c) = (c :: u32)"
proof (rule bit_word_eqI)
  have m: "(0xFFFF :: u32) = mask 16" by (simp add: mask_eq_exp_minus_1)
  fix n assume "n < LENGTH(32)"
  then show "bit (push_bit 16 (ucast (high16 c)) OR ucast (low16 c) :: u32) n = bit c n"
    by (cases "n < 16") (auto simp: high16_def low16_def m bit_simps)
qed

end
