(* ===== verification/Fat32.thy ===== *)
theory Fat32
  imports Complex_Main FatTypes
begin

text \<open>
  The operations of the file system, \<open>src/src/fat32.c\<close>, one definition per function in the order of
  the file.  A directory table is read into \<open>dir_table_buf\<close>, searched, changed there and written
  back; the file allocation table lives in \<open>cluster_map\<close> and is written to cluster 1.  A result
  code is the \<open>int8_t\<close> the function returns, with the driver state after it.  The shell's current
  directory (\<open>shell_state\<close>, \<open>cwd_table\<close>) is at the end.
\<close>

section \<open>Constants\<close>

definition ATTR_SUBDIRECTORY :: u8 where
  "ATTR_SUBDIRECTORY = 0x10"

definition UATTR_NOT_EMPTY :: u8 where
  "UATTR_NOT_EMPTY = 0xAA"

definition CLUSTER_0_VALUE :: u32 where
  "CLUSTER_0_VALUE = 0x0FFFFFF0"

definition CLUSTER_1_VALUE :: u32 where
  "CLUSTER_1_VALUE = 0x0FFFFFFF"

definition FAT32_FAT_END_OF_FILE :: u32 where
  "FAT32_FAT_END_OF_FILE = 0x0FFFFFFF"

definition FAT_CLUSTER_NUMBER :: u32 where
  "FAT_CLUSTER_NUMBER = 1"

definition ROOT_CLUSTER_NUMBER :: u32 where
  "ROOT_CLUSTER_NUMBER = 2"

definition fs_signature :: "u8 list" where
  "fs_signature =
     cstr ''Course          Designed by     Lab Sister ITB  Made with <3    -----------2024'' @ [10] @
     replicate 430 0 @ cstr ''Ok''"

section \<open>Creating and mounting\<close>

definition init_directory_table :: "dirtable \<Rightarrow> u8 list \<Rightarrow> u32 \<Rightarrow> dirtable option" where
  "init_directory_table t nm parent_dir_cluster =
     do { n0 \<leftarrow> for_range 0 8 (\<lambda>i n. Option.bind (arr_get nm i) (arr_set n i)) (name (t ! 0));
          let t = t[0 := (t ! 0)\<lparr> name := n0 \<rparr>];
          let t = t[1 := (t ! 1)\<lparr> name := (name (t ! 1))[0 := 46, 1 := 46] \<rparr>];
          let t = t[0 := (t ! 0)\<lparr> attribute := ATTR_SUBDIRECTORY, user_attribute := UATTR_NOT_EMPTY \<rparr>];
          let t = t[1 := (t ! 1)\<lparr> attribute := ATTR_SUBDIRECTORY, user_attribute := UATTR_NOT_EMPTY,
                                 cluster_high := high16 parent_dir_cluster,
                                 cluster_low := low16 parent_dir_cluster \<rparr>];
          let t = t[0 := (t ! 0)\<lparr> filesize := 0 \<rparr>];
          let t = t[1 := (t ! 1)\<lparr> filesize := 0 \<rparr>];
          for_range 2 64 (\<lambda>i t. do { e \<leftarrow> arr_get t i; arr_set t i (e\<lparr> user_attribute := 0 \<rparr>) }) t }"

definition root_name :: "u8 list" where
  "root_name = cstr ''Root'' @ replicate 4 0"

definition create_fat32 :: "fs \<Rightarrow> fs option" where
  "create_fat32 s =
     do { let im = write_blocks (image s) fs_signature 0 1;
          let fat = (cluster_map s)[0 := CLUSTER_0_VALUE, 1 := CLUSTER_1_VALUE, 2 := FAT32_FAT_END_OF_FILE];
          fat \<leftarrow> for_range 3 512 (\<lambda>i fat. arr_set fat i 0) fat;
          root_dir \<leftarrow> init_directory_table zero_table root_name ROOT_CLUSTER_NUMBER;
          let root_dir = root_dir[0 := (root_dir ! 0)\<lparr> cluster_high := 0, cluster_low := 2 \<rparr>];
          let im = write_clusters im (encode_fat fat) FAT_CLUSTER_NUMBER 1;
          let im = write_clusters im (encode_table root_dir) ROOT_CLUSTER_NUMBER 1;
          Some (s\<lparr> image := im, cluster_map := fat \<rparr>) }"

text \<open>The truth value of the \<open>int\<close> that \<open>memcmp\<close> returns.\<close>

definition is_empty_storage :: "fs \<Rightarrow> bool option" where
  "is_empty_storage s =
     do { r \<leftarrow> memcmp (read_blocks (image s) 0 1) fs_signature 512; Some (r \<noteq> 0) }"

definition initialize_filesystem_fat32 :: "fs \<Rightarrow> fs option" where
  "initialize_filesystem_fat32 s =
     do { empty \<leftarrow> is_empty_storage s;
          if empty then create_fat32 s
          else Some (s\<lparr> cluster_map := decode_fat (read_clusters (image s) FAT_CLUSTER_NUMBER 1) \<rparr>) }"

section \<open>Searching\<close>

text \<open>\<open>-9999\<close> stands for \<open>not found\<close>.\<close>

definition found :: "nat option \<Rightarrow> int" where
  "found r = (case r of Some i \<Rightarrow> int i | None \<Rightarrow> - 9999)"

definition findEntry :: "dirtable \<Rightarrow> u8 list \<Rightarrow> u8 list \<Rightarrow> int" where
  "findEntry dir_table nm ex =
     found (scan (\<lambda>i. memcmp (name (dir_table ! i)) nm 8 = Some 0 \<and> memcmp (ext (dir_table ! i)) ex 3 = Some 0) 2 64)"

text \<open>\<open>read_clusters(&fat32_driver_state.dir_table_buf, c, 1)\<close>\<close>

definition load_dir :: "fs \<Rightarrow> u32 \<Rightarrow> fs" where
  "load_dir s c = s\<lparr> dir_table_buf := decode_table (read_clusters (image s) c 1) \<rparr>"

definition findCluster :: "request \<Rightarrow> fs \<Rightarrow> int \<times> fs" where
  "findCluster r s =
     (let s = load_dir s (parent_cluster_number r);
          idx = findEntry (dir_table_buf s) (r_name r) (r_ext r)
      in if idx = - 9999 then (idx * - 1, s)
         else (sint (entry_cluster (dir_table_buf s ! nat idx)), s))"

text \<open>The folders of a table are appended to the queue.\<close>

fun enqueue_folders :: "dirent list \<Rightarrow> int list \<Rightarrow> int \<Rightarrow> (int list \<times> int) option" where
  "enqueue_folders [] queue back = Some (queue, back)"
| "enqueue_folders (e # es) queue back =
     (if user_attribute e \<noteq> UATTR_NOT_EMPTY then enqueue_folders es queue back
      else if attribute e \<noteq> ATTR_SUBDIRECTORY then enqueue_folders es queue back
      else do { queue \<leftarrow> arr_seti queue (back + 1) (sint (entry_cluster e));
                enqueue_folders es queue (back + 1) })"

lemma length_enqueue_folders:
  "enqueue_folders es q b = Some (q', b') \<Longrightarrow> length q' = length q"
  by (induction es q b rule: enqueue_folders.induct)
    (auto simp: bind_eq_Some_conv arr_seti_def arr_set_eq_Some split: if_splits)

function find_loop :: "u8 list \<Rightarrow> u8 list \<Rightarrow> int list \<Rightarrow> int \<Rightarrow> int \<Rightarrow> int list \<Rightarrow> int \<Rightarrow> fs \<Rightarrow> (int list \<times> int \<times> fs) option" where
  "find_loop nm ex queue front back result n_res s =
     (if front \<le> back
      then case arr_geti queue front of None \<Rightarrow> None | Some c \<Rightarrow>
        let s = load_dir s (word_of_int c);
            idxEntry = findEntry (dir_table_buf s) nm ex
        in case (if idxEntry \<noteq> - 9999
                 then map_option (\<lambda>result. (result, n_res + 1)) (arr_seti result n_res c)
                 else Some (result, n_res)) of None \<Rightarrow> None | Some (result, n_res) \<Rightarrow>
           (case enqueue_folders (drop 2 (dir_table_buf s)) queue back of None \<Rightarrow> None | Some (queue', back) \<Rightarrow>
              find_loop nm ex queue' (front + 1) back result n_res s)
      else Some (result, n_res, s))"
  by pat_completeness auto
termination
  by (relation "measure (\<lambda>(nm, ex, queue, front, back, result, n_res, s). nat (int (length queue) - front))")
    (auto simp: arr_geti_def arr_get_def dest: length_enqueue_folders split: if_splits)

declare find_loop.simps [simp del]

text \<open>\<open>queue\<close> is the uninitialised local array of 100 elements, \<open>result\<close> the caller's of 50.\<close>

definition find_fat :: "u8 list \<Rightarrow> u8 list \<Rightarrow> int list \<Rightarrow> int list \<Rightarrow> int \<Rightarrow> fs \<Rightarrow> (int list \<times> int \<times> fs) option" where
  "find_fat nm ex queue result n_res s =
     do { queue \<leftarrow> arr_set queue 0 2; find_loop nm ex queue 0 0 result n_res s }"

section \<open>Reading\<close>

text \<open>The chain of clusters is copied to memory from \<open>buffer\<close> on, a cluster at a time; it need not
  end.\<close>

partial_function (option) read_chain :: "u32 list \<Rightarrow> image \<Rightarrow> u32 \<Rightarrow> u32 \<Rightarrow> mem \<Rightarrow> mem option" where
  "read_chain fat im cluster_number buffer m =
     (if cluster_number = FAT32_FAT_END_OF_FILE then Some m
      else do { let m = mem_store m buffer (read_clusters im cluster_number 1);
                next \<leftarrow> arr_get fat (unat cluster_number);
                read_chain fat im next (buffer + 2048) m })"

definition read_fat :: "request \<Rightarrow> mem \<Rightarrow> fs \<Rightarrow> (int \<times> mem \<times> fs) option" where
  "read_fat r m s =
     (let s = load_dir s (parent_cluster_number r);
          idx = findEntry (dir_table_buf s) (r_name r) (r_ext r)
      in if idx = - 9999 then Some (3, m, s)
         else let e = dir_table_buf s ! nat idx
              in if buffer_size r < filesize e then Some (2, m, s)
                 else if attribute e = ATTR_SUBDIRECTORY then Some (1, m, s)
                 else do { m \<leftarrow> read_chain (cluster_map s) (image s) (entry_cluster e) (r_buf r) m;
                           Some (0, m, s) })"

definition read_directory :: "request \<Rightarrow> mem \<Rightarrow> fs \<Rightarrow> int \<times> mem \<times> fs" where
  "read_directory r m s =
     (let s = load_dir s (parent_cluster_number r);
          idx = findEntry (dir_table_buf s) (r_name r) (r_ext r)
      in if idx = - 9999 then (2, m, s)
         else let e = dir_table_buf s ! nat idx
              in if attribute e \<noteq> ATTR_SUBDIRECTORY then (1, m, s)
                 else (0, mem_store m (r_buf r) (read_clusters (image s) (entry_cluster e) 1), s))"

section \<open>Writing\<close>

text \<open>\<open>(int) x\<close> truncates towards zero.  The argument is a quotient by a power of two of an integer
  below \<open>2 ^ 32\<close>, which a \<open>double\<close> holds exactly.\<close>

definition ceil_c :: "rat \<Rightarrow> int" where
  "ceil_c x =
     (let intPart = (if x < 0 then \<lceil>x\<rceil> else \<lfloor>x\<rfloor>)
      in if x > of_int intPart then intPart + 1 else intPart)"

definition findEmptySpace :: "u32 list \<Rightarrow> int" where
  "findEmptySpace fat = found (scan (\<lambda>i. fat ! i = 0) 0 512)"

definition findIdxEmptyEntry :: "dirtable \<Rightarrow> int" where
  "findIdxEmptyEntry dir = found (scan (\<lambda>i. user_attribute (dir ! i) \<noteq> UATTR_NOT_EMPTY) 2 64)"

definition addEntry :: "dirtable \<Rightarrow> request \<Rightarrow> int \<Rightarrow> int \<Rightarrow> dirtable option" where
  "addEntry parent_dir r idxEntry cluster_idx =
     do { e \<leftarrow> arr_geti parent_dir idxEntry;
          nm \<leftarrow> memcpy (name e) (r_name r) 8;
          ex \<leftarrow> memcpy (ext e) (r_ext r) 3;
          let e = e\<lparr> name := nm, ext := ex, user_attribute := UATTR_NOT_EMPTY \<rparr>;
          let e = (if buffer_size r = 0 then e\<lparr> attribute := ATTR_SUBDIRECTORY \<rparr> else e);
          let e = e\<lparr> cluster_high := word_of_int (drop_bit 16 cluster_idx),
                    cluster_low := word_of_int (cluster_idx AND 0xFFFF),
                    filesize := buffer_size r \<rparr>;
          arr_seti parent_dir idxEntry e }"

text \<open>The loop over the clusters of a file, from iteration \<open>i\<close> with \<open>n\<close> iterations left; the result
  says whether it ran to its end or returned because the table is full.\<close>

fun write_loop :: "nat \<Rightarrow> nat \<Rightarrow> mem \<Rightarrow> u32 \<Rightarrow> int \<Rightarrow> fs \<Rightarrow> (bool \<times> fs) option" where
  "write_loop 0 i m ptr idx s = Some (True, s)"
| "write_loop (Suc n) i m ptr idx s =
     (let prev = idx; idx = findEmptySpace (cluster_map s)
      in if idx = - 9999
         then do { fat \<leftarrow> arr_seti (cluster_map s) prev FAT32_FAT_END_OF_FILE;
                   Some (False, s\<lparr> cluster_map := fat \<rparr>) }
         else do { let im = write_clusters (image s) (mem_load m (ptr + of_nat (i * 2048)) 2048) (word_of_int idx) 1;
                   fat \<leftarrow> (if prev \<noteq> - 9999 then arr_seti (cluster_map s) prev (word_of_int idx)
                           else Some (cluster_map s));
                   fat \<leftarrow> arr_seti fat idx FAT32_FAT_END_OF_FILE;
                   write_loop n (Suc i) m ptr idx (s\<lparr> image := im, cluster_map := fat \<rparr>) })"

definition store_fat :: "fs \<Rightarrow> fs" where
  "store_fat s = s\<lparr> image := write_clusters (image s) (encode_fat (cluster_map s)) FAT_CLUSTER_NUMBER 1 \<rparr>"

definition store_dir :: "fs \<Rightarrow> u32 \<Rightarrow> fs" where
  "store_dir s c = s\<lparr> image := write_clusters (image s) (encode_table (dir_table_buf s)) c 1 \<rparr>"

definition write_fat :: "request \<Rightarrow> mem \<Rightarrow> fs \<Rightarrow> (int \<times> fs) option" where
  "write_fat r m s =
     (let s = load_dir s (parent_cluster_number r)
      in if attribute (dir_table_buf s ! 0) \<noteq> ATTR_SUBDIRECTORY then Some (2, s)
         else if findEntry (dir_table_buf s) (r_name r) (r_ext r) \<noteq> - 9999 then Some (1, s)
         else let idxEntryParent = findIdxEmptyEntry (dir_table_buf s)
         in if idxEntryParent = - 9999 then Some (- 1, s)
            else let idx = findEmptySpace (cluster_map s)
            in if idx = - 9999 then Some (- 1, s)
            else do {
              t \<leftarrow> addEntry (dir_table_buf s) r idxEntryParent idx;
              let s = store_dir (s\<lparr> dir_table_buf := t \<rparr>) (parent_cluster_number r);
              if buffer_size r = 0
              then do {
                new_dir \<leftarrow> init_directory_table zero_table (r_name r) (parent_cluster_number r);
                let s = s\<lparr> image := write_clusters (image s) (encode_table new_dir) (word_of_int idx) 1 \<rparr>;
                fat \<leftarrow> arr_seti (cluster_map s) idx FAT32_FAT_END_OF_FILE;
                Some (0, store_fat (s\<lparr> cluster_map := fat \<rparr>)) }
              else do {
                let total_cluster = ceil_c (of_nat (unat (buffer_size r)) / 2048);
                (finished, s) \<leftarrow> write_loop (nat total_cluster) 0 m (r_buf r) (- 9999) s;
                if finished then Some (0, store_fat s) else Some (- 1, s) } })"

section \<open>Deleting\<close>

definition isEmptyDir :: "dirtable \<Rightarrow> bool" where
  "isEmptyDir dir = (scan (\<lambda>i. user_attribute (dir ! i) = UATTR_NOT_EMPTY) 2 64 = None)"

definition deleteEntry :: "dirtable \<Rightarrow> int \<Rightarrow> dirtable option" where
  "deleteEntry parent_dir idxEntry =
     do { e \<leftarrow> arr_geti parent_dir idxEntry;
          nm \<leftarrow> memcpy (name e) (replicate 8 0) 8;
          ex \<leftarrow> memcpy (ext e) (replicate 3 0) 3;
          arr_seti parent_dir idxEntry
            (e\<lparr> name := nm, ext := ex, user_attribute := 0, cluster_high := 0, cluster_low := 0,
               filesize := 0 \<rparr>) }"

partial_function (option) delete_chain :: "u32 \<Rightarrow> fs \<Rightarrow> (u32 \<times> fs) option" where
  "delete_chain idxCluster s =
     do { next \<leftarrow> arr_get (cluster_map s) (unat idxCluster);
          if next \<noteq> FAT32_FAT_END_OF_FILE
          then do { fat \<leftarrow> arr_set (cluster_map s) (unat idxCluster) 0;
                    delete_chain next
                      (s\<lparr> cluster_map := fat, image := write_clusters (image s) (replicate 2048 0) idxCluster 1 \<rparr>) }
          else Some (idxCluster, s) }"

definition delete_fat :: "request \<Rightarrow> fs \<Rightarrow> (int \<times> fs) option" where
  "delete_fat r s =
     (let s = load_dir s (parent_cluster_number r);
          idxEntry = findEntry (dir_table_buf s) (r_name r) (r_ext r)
      in if idxEntry = - 9999 then Some (1, s)
         else let e = dir_table_buf s ! nat idxEntry; idxCluster = entry_cluster e
         in if attribute e = ATTR_SUBDIRECTORY \<and> \<not> isEmptyDir (decode_table (read_clusters (image s) idxCluster 1))
            then Some (2, s)
            else do {
              s \<leftarrow> (if attribute e = ATTR_SUBDIRECTORY
                    then do {
                      let s = s\<lparr> image := write_clusters (image s) (encode_table zero_table) idxCluster 1 \<rparr>;
                      t \<leftarrow> deleteEntry (dir_table_buf s) idxEntry;
                      fat \<leftarrow> arr_set (cluster_map s) (unat idxCluster) 0;
                      Some (s\<lparr> dir_table_buf := t, cluster_map := fat \<rparr>) }
                    else do {
                      t \<leftarrow> deleteEntry (dir_table_buf s) idxEntry;
                      (last, s) \<leftarrow> delete_chain idxCluster (s\<lparr> dir_table_buf := t \<rparr>);
                      let s = s\<lparr> image := write_clusters (image s) (replicate 2048 0) last 1 \<rparr>;
                      fat \<leftarrow> arr_set (cluster_map s) (unat last) 0;
                      Some (s\<lparr> cluster_map := fat \<rparr>) });
              Some (0, store_fat (store_dir s (parent_cluster_number r))) })"

section \<open>The current directory of the shell\<close>

record shell =
  cur_dir :: "u8 list"
  sh_idx :: int
  cur_cluster :: int
  cwd_table :: dirtable

definition shell_state :: shell where
  "shell_state = \<lparr> cur_dir = cstr ''Root/'' @ replicate 95 0, sh_idx = 5, cur_cluster = 2,
                  cwd_table = zero_table \<rparr>"

text \<open>The path: the first \<open>idx\<close> bytes of \<open>cur_dir\<close>.  Both loops leave the array when there is no
  slash to stop at or no room.\<close>

function removePath_loop :: "u8 list \<Rightarrow> int \<Rightarrow> (u8 list \<times> int) option" where
  "removePath_loop dir idx =
     (case arr_geti dir (idx - 1) of None \<Rightarrow> None
      | Some c \<Rightarrow>
          if c \<noteq> 47
          then (case arr_seti dir (idx - 1) 0 of None \<Rightarrow> None | Some dir \<Rightarrow> removePath_loop dir (idx - 1))
          else Some (dir, idx))"
  by pat_completeness auto
termination
  by (relation "measure (\<lambda>(dir, idx). nat idx)") (auto simp: arr_geti_def split: if_splits)

declare removePath_loop.simps [simp del]

definition removePath :: "shell \<Rightarrow> shell option" where
  "removePath sh =
     do { let idx = sh_idx sh - 1;
          dir \<leftarrow> arr_seti (cur_dir sh) idx 0;
          (dir, idx) \<leftarrow> removePath_loop dir idx;
          Some (sh\<lparr> cur_dir := dir, sh_idx := idx \<rparr>) }"

function addPath_loop :: "u8 list \<Rightarrow> nat \<Rightarrow> u8 list \<Rightarrow> int \<Rightarrow> (u8 list \<times> int) option" where
  "addPath_loop new_add i dir idx =
     (case arr_get new_add i of None \<Rightarrow> None
      | Some c \<Rightarrow>
          if c \<noteq> 0
          then (case arr_seti dir idx c of None \<Rightarrow> None
                | Some dir \<Rightarrow> addPath_loop new_add (Suc i) dir (idx + 1))
          else Some (dir, idx))"
  by pat_completeness auto
termination
  by (relation "measure (\<lambda>(new_add, i, dir, idx). length new_add - i)") (auto simp: arr_get_eq_Some)

declare addPath_loop.simps [simp del]

definition addPath :: "u8 list \<Rightarrow> shell \<Rightarrow> shell option" where
  "addPath new_add sh =
     do { (dir, idx) \<leftarrow> addPath_loop new_add 0 (cur_dir sh) (sh_idx sh);
          dir \<leftarrow> arr_seti dir idx 47;
          Some (sh\<lparr> cur_dir := dir, sh_idx := idx + 1 \<rparr>) }"

definition update_shell_dir :: "fs \<Rightarrow> int \<Rightarrow> u8 list \<Rightarrow> bool \<Rightarrow> shell \<Rightarrow> shell option" where
  "update_shell_dir s cluster path addDir sh =
     do { let sh = sh\<lparr> cwd_table := decode_table (read_clusters (image s) (word_of_int cluster) 1),
                       cur_cluster := cluster \<rparr>;
          if addDir
          then do { r \<leftarrow> memcmp path [0] 1;
                    if r = 0 then Some sh else addPath path sh }
          else removePath sh }"

definition get_shell_cluster :: "shell \<Rightarrow> int" where
  "get_shell_cluster sh = cur_cluster sh"

text \<open>\<open>dir\<close> is the caller's array.\<close>

definition copy_dir :: "shell \<Rightarrow> u8 list \<Rightarrow> u8 list option" where
  "copy_dir sh dir =
     do { dir \<leftarrow> for_range 0 (nat (sh_idx sh)) (\<lambda>i d. Option.bind (arr_get (cur_dir sh) i) (arr_set d i)) dir;
          for_range (nat (sh_idx sh)) 100 (\<lambda>i d. arr_set d i 0) dir }"

definition get_cwd_table :: "shell \<Rightarrow> dirtable" where
  "get_cwd_table sh = cwd_table sh"

end
