(* ===== verification/FatChain.thy ===== *)
theory FatChain
  imports Fat32
begin

text \<open>
  The theory of the file allocation table: chains of clusters, the free clusters in the order
  \<open>findEmptySpace\<close> hands them out, linking a list of clusters as \<open>write\<close> does, and the consistency of
  a table, under which every file's chain ends.
\<close>

abbreviation EOF :: u32 where "EOF \<equiv> FAT32_FAT_END_OF_FILE"

lemma unat_EOF: "unat EOF = 268435455"
  by (simp add: FAT32_FAT_END_OF_FILE_def)

section \<open>Cluster numbers\<close>

text \<open>The numbers below 512 as words and as indices.\<close>

lemma unat_cluster [simp]: "x < 512 \<Longrightarrow> unat (of_nat x :: u32) = x"
  by (rule unat_of_nat_u32) simp

lemma cluster_of_unat: "unat (c :: u32) = x \<Longrightarrow> c = of_nat x"
  by auto

lemma cluster_neq_EOF: "x < 512 \<Longrightarrow> of_nat x \<noteq> EOF"
  using unat_EOF unat_cluster [of x] by fastforce

lemma cluster_inj: "x < 512 \<Longrightarrow> y < 512 \<Longrightarrow> (of_nat x :: u32) = of_nat y \<longleftrightarrow> x = y"
  using unat_cluster by metis

lemma cluster_eq_0: "x < 512 \<Longrightarrow> (of_nat x :: u32) = 0 \<longleftrightarrow> x = 0"
  using cluster_inj [of x 0] by simp

lemma cluster_ok_below: "x < 512 \<Longrightarrow> cluster_ok (of_nat x)"
  by (simp add: cluster_ok_def)

lemma EOF_neq_0 [simp]: "EOF \<noteq> 0" "0 \<noteq> EOF"
  by (simp_all add: FAT32_FAT_END_OF_FILE_def)

section \<open>Chains\<close>

fun chain :: "u32 list \<Rightarrow> u32 \<Rightarrow> nat list \<Rightarrow> bool" where
  "chain fat c [] = (c = EOF)"
| "chain fat c (x # xs) = (x < 512 \<and> unat c = x \<and> chain fat (fat ! x) xs)"

lemma chain_below: "chain fat c cs \<Longrightarrow> \<forall>x \<in> set cs. x < 512"
  by (induction cs arbitrary: c) auto

lemma chain_det: "chain fat c cs \<Longrightarrow> chain fat c ds \<Longrightarrow> cs = ds"
proof (induction cs arbitrary: c ds)
  case Nil
  then show ?case by (cases ds) (auto simp: unat_EOF)
next
  case (Cons x xs)
  then show ?case by (cases ds) (auto simp: unat_EOF)
qed

lemma chain_suffix: "chain fat c (xs @ x # ys) \<Longrightarrow> chain fat (of_nat x) (x # ys)"
  by (induction xs arbitrary: c) auto

lemma chain_distinct: "chain fat c cs \<Longrightarrow> distinct cs"
proof (induction cs arbitrary: c)
  case Nil
  then show ?case by simp
next
  case (Cons x xs)
  have "x \<notin> set xs"
  proof
    assume "x \<in> set xs"
    then obtain ys zs where xs: "xs = ys @ x # zs" by (meson split_list)
    with Cons.prems have "chain fat (of_nat x) (x # zs)"
      using chain_suffix [of fat c "x # ys" x zs] by simp
    moreover have "chain fat (of_nat x) (x # xs)" using Cons.prems by auto
    ultimately have "zs = xs" using chain_det by blast
    with xs show False by simp
  qed
  with Cons show ?case by auto
qed

lemma chain_length: "chain fat c cs \<Longrightarrow> length cs \<le> 512"
proof -
  assume ch: "chain fat c cs"
  then have "set cs \<subseteq> {..<512}" using chain_below by auto
  then have "card (set cs) \<le> card {..<512::nat}" by (intro card_mono) auto
  with ch show ?thesis by (simp add: chain_distinct distinct_card)
qed

lemma chain_cong: "chain fat c cs \<Longrightarrow> \<forall>x \<in> set cs. fat' ! x = fat ! x \<Longrightarrow> chain fat' c cs"
  by (induction cs arbitrary: c) auto

lemma chain_nonzero: "chain fat c cs \<Longrightarrow> x \<in> set cs \<Longrightarrow> fat ! x = 0 \<Longrightarrow> fat ! 0 \<noteq> EOF \<Longrightarrow> 0 \<in> set cs"
proof (induction cs arbitrary: c)
  case Nil
  then show ?case by simp
next
  case (Cons y ys)
  show ?case
  proof (cases "x = y")
    case True
    with Cons.prems have "chain fat 0 ys" by simp
    then show ?thesis by (cases ys) auto
  next
    case False
    with Cons show ?thesis by auto
  qed
qed

section \<open>Free clusters\<close>

definition free_clusters :: "u32 list \<Rightarrow> nat list" where
  "free_clusters fat = filter (\<lambda>i. fat ! i = 0) [0..<512]"

lemma free_clusters_set: "set (free_clusters fat) = {i. i < 512 \<and> fat ! i = 0}"
  by (auto simp: free_clusters_def)

lemma distinct_free [simp]: "distinct (free_clusters fat)"
  by (simp add: free_clusters_def)

lemma findEmptySpace_eq:
  "findEmptySpace fat = (case free_clusters fat of [] \<Rightarrow> - 9999 | c # cs \<Rightarrow> int c)"
proof (cases "scan (\<lambda>i. fat ! i = 0) 0 512")
  case None
  then have "free_clusters fat = []" by (simp add: scan_None free_clusters_def filter_empty_conv)
  with None show ?thesis by (simp add: findEmptySpace_def found_def)
next
  case (Some i)
  note i = scan_Some [OF Some]
  have split: "[0..<512] = [0..<i] @ i # [Suc i..<512]"
  proof -
    have "0 + i + (512 - i) = 512" "0 \<le> (0::nat)" "i < 512" using i by simp_all
    then show ?thesis using upt_add_eq_append [of 0 "0 + i" "512 - i"] upt_conv_Cons [of i 512]
      by (simp only: add_0_left)
  qed
  have "filter (\<lambda>i. fat ! i = 0) [0..<i] = []" using i by (simp add: filter_empty_conv)
  with i have "free_clusters fat = i # filter (\<lambda>i. fat ! i = 0) [Suc i..<512]"
    unfolding free_clusters_def split by simp
  with Some show ?thesis by (simp add: findEmptySpace_def found_def)
qed

lemma free_clusters_take:
  assumes "length fat = 512" "free_clusters fat = c # cs" "v \<noteq> 0"
  shows "free_clusters (fat[c := v]) = cs"
proof -
  have c: "c < 512" "fat ! c = 0" using free_clusters_set [of fat] assms(2) by auto
  have "free_clusters (fat[c := v]) = filter (\<lambda>i. i \<noteq> c) (free_clusters fat)"
    using assms(1,3) c by (auto simp: free_clusters_def nth_list_update intro!: filter_cong)
  also have "\<dots> = cs"
    using distinct_free [of fat] assms(2) by (auto simp: filter_id_conv)
  finally show ?thesis .
qed

lemma free_clusters_update:
  assumes "fat ! p \<noteq> 0" "v \<noteq> 0" "length fat = 512"
  shows "free_clusters (fat[p := v]) = free_clusters fat"
proof -
  have "(fat[p := v] ! x = 0) = (fat ! x = 0)" if "x < 512" for x
    using assms that by (cases "p = x") auto
  then show ?thesis by (auto simp: free_clusters_def intro!: filter_cong)
qed

section \<open>Linking clusters\<close>

text \<open>Each cluster of the list is made to point to the next, the last to the end-of-file mark.\<close>

fun link :: "u32 list \<Rightarrow> nat list \<Rightarrow> u32 list" where
  "link fat [] = fat"
| "link fat [c] = fat[c := EOF]"
| "link fat (c # d # cs) = link (fat[c := of_nat d]) (d # cs)"

lemma length_link [simp]: "length (link fat cs) = length fat"
  by (induction fat cs rule: link.induct) auto

lemma link_other: "x \<notin> set cs \<Longrightarrow> link fat cs ! x = fat ! x"
  by (induction fat cs rule: link.induct) auto

lemma link_chain:
  assumes "cs \<noteq> []" "distinct cs" "\<forall>c \<in> set cs. c < 512" "length fat = 512"
  shows "chain (link fat cs) (of_nat (hd cs)) cs"
  using assms
proof (induction fat cs rule: link.induct)
  case (3 fat c d cs)
  have "chain (link (fat[c := of_nat d]) (d # cs)) (of_nat (hd (d # cs))) (d # cs)"
    using 3 by auto
  moreover have "link (fat[c := of_nat d]) (d # cs) ! c = of_nat d"
    using 3 by (simp add: link_other)
  ultimately show ?case using 3 by simp
qed auto

text \<open>The entry of the \<open>i\<close>-th cluster.\<close>

lemma link_nth:
  assumes "distinct cs" "\<forall>c \<in> set cs. c < length fat" "i < length cs"
  shows "link fat cs ! (cs ! i) = (if Suc i < length cs then of_nat (cs ! Suc i) else EOF)"
  using assms
proof (induction fat cs arbitrary: i rule: link.induct)
  case (3 fat c d cs)
  show ?case
  proof (cases i)
    case 0
    with 3 show ?thesis by (simp add: link_other)
  next
    case (Suc j)
    with 3 show ?thesis by simp
  qed
qed auto

lemma link_nonzero:
  assumes "distinct cs" "\<forall>c \<in> set cs. 0 < c \<and> c < 512" "length fat = 512" "x \<in> set cs"
  shows "link fat cs ! x \<noteq> 0"
proof -
  obtain i where i: "i < length cs" "x = cs ! i" using assms(4) by (metis in_set_conv_nth)
  show ?thesis
  proof (cases "Suc i < length cs")
    case True
    then have "cs ! Suc i \<in> set cs" by simp
    with assms(2) have "cs ! Suc i < 512" "0 < cs ! Suc i" by auto
    then show ?thesis using assms i True by (simp add: link_nth cluster_eq_0)
  next
    case False
    then show ?thesis using assms i by (simp add: link_nth)
  qed
qed

text \<open>A chain that uses none of the linked clusters is not changed.\<close>

lemma link_frame: "chain fat c ds \<Longrightarrow> set ds \<inter> set cs = {} \<Longrightarrow> chain (link fat cs) c ds"
  by (rule chain_cong) (auto intro!: link_other)

text \<open>Freeing the clusters of a list.\<close>

definition unlink :: "u32 list \<Rightarrow> nat list \<Rightarrow> u32 list" where
  "unlink fat cs = fold (\<lambda>c fat. fat[c := 0]) cs fat"

lemma unlink_simps [simp]: "unlink fat [] = fat" "unlink fat (c # cs) = unlink (fat[c := 0]) cs"
  by (simp_all add: unlink_def)

lemma length_unlink [simp]: "length (unlink fat cs) = length fat"
  by (induction cs arbitrary: fat) simp_all

lemma unlink_nth: "x < length fat \<Longrightarrow> unlink fat cs ! x = (if x \<in> set cs then 0 else fat ! x)"
  by (induction cs arbitrary: fat) (auto simp: nth_list_update)

lemma unlink_link:
  assumes "\<forall>c \<in> set cs. c < 512 \<and> fat ! c = 0" "length fat = 512"
  shows "unlink (link fat cs) cs = fat"
  using assms by (intro nth_equalityI) (auto simp: unlink_nth link_other)

section \<open>Consistent tables\<close>

text \<open>An entry is free, the end of a chain, or the number of an entry in use, and no two entries have
  the same successor.  The entries 0 to 2 are reserved.\<close>

definition fat_ok :: "u32 list \<Rightarrow> bool" where
  "fat_ok fat =
     (length fat = 512 \<and> fat ! 0 = CLUSTER_0_VALUE \<and> fat ! 1 = CLUSTER_1_VALUE \<and> fat ! 2 = EOF \<and>
      (\<forall>i < 512. 3 \<le> i \<longrightarrow> fat ! i = 0 \<or> fat ! i = EOF \<or>
         (3 \<le> unat (fat ! i) \<and> unat (fat ! i) < 512 \<and> fat ! unat (fat ! i) \<noteq> 0)) \<and>
      (\<forall>i < 512. \<forall>j < 512. 3 \<le> i \<longrightarrow> 3 \<le> j \<longrightarrow> fat ! i = fat ! j \<longrightarrow> fat ! i \<noteq> 0 \<longrightarrow> fat ! i \<noteq> EOF \<longrightarrow> i = j))"

lemma fat_ok_length: "fat_ok fat \<Longrightarrow> length fat = 512"
  by (simp add: fat_ok_def)

lemma fat_ok_reserved: "fat_ok fat \<Longrightarrow> i < 3 \<Longrightarrow> fat ! i \<noteq> 0"
proof -
  assume "fat_ok fat"
  then have v: "fat ! 0 = CLUSTER_0_VALUE" "fat ! 1 = CLUSTER_1_VALUE" "fat ! 2 = EOF"
    by (simp_all add: fat_ok_def)
  have z: "CLUSTER_0_VALUE \<noteq> 0" "CLUSTER_1_VALUE \<noteq> 0"
    by (simp_all add: CLUSTER_0_VALUE_def CLUSTER_1_VALUE_def)
  assume "i < 3"
  then consider "i = 0" | "i = 1" | "i = 2" by linarith
  then show ?thesis using v z by cases auto
qed

lemma fat_ok_next:
  "fat_ok fat \<Longrightarrow> 3 \<le> i \<Longrightarrow> i < 512 \<Longrightarrow> fat ! i \<noteq> 0 \<Longrightarrow> fat ! i \<noteq> EOF \<Longrightarrow>
     3 \<le> unat (fat ! i) \<and> unat (fat ! i) < 512 \<and> fat ! unat (fat ! i) \<noteq> 0"
  by (auto simp: fat_ok_def)

lemma fat_ok_inj:
  "fat_ok fat \<Longrightarrow> 3 \<le> i \<Longrightarrow> i < 512 \<Longrightarrow> 3 \<le> j \<Longrightarrow> j < 512 \<Longrightarrow> fat ! i = fat ! j \<Longrightarrow>
     fat ! i \<noteq> 0 \<Longrightarrow> fat ! i \<noteq> EOF \<Longrightarrow> i = j"
  by (auto simp: fat_ok_def)

lemma free_not_reserved: "fat_ok fat \<Longrightarrow> c \<in> set (free_clusters fat) \<Longrightarrow> 3 \<le> c \<and> c < 512"
  using fat_ok_reserved [of fat c] by (fastforce simp: free_clusters_set)

lemma fat_okI:
  assumes "length fat = 512" "fat ! 0 = CLUSTER_0_VALUE" "fat ! 1 = CLUSTER_1_VALUE" "fat ! 2 = EOF"
    and "\<And>i. i < 512 \<Longrightarrow> 3 \<le> i \<Longrightarrow> fat ! i = 0 \<or> fat ! i = EOF \<or>
      (3 \<le> unat (fat ! i) \<and> unat (fat ! i) < 512 \<and> fat ! unat (fat ! i) \<noteq> 0)"
    and "\<And>i j. i < 512 \<Longrightarrow> j < 512 \<Longrightarrow> 3 \<le> i \<Longrightarrow> 3 \<le> j \<Longrightarrow> fat ! i = fat ! j \<Longrightarrow>
      fat ! i \<noteq> 0 \<Longrightarrow> fat ! i \<noteq> EOF \<Longrightarrow> i = j"
  shows "fat_ok fat"
  unfolding fat_ok_def using assms by blast

lemma fat_ok_low: "fat_ok fat \<Longrightarrow> fat ! 0 = CLUSTER_0_VALUE \<and> fat ! 1 = CLUSTER_1_VALUE \<and> fat ! 2 = EOF"
  by (simp add: fat_ok_def)

text \<open>The first cluster of a file: in use and no entry's successor.\<close>

definition head_cluster :: "u32 list \<Rightarrow> nat \<Rightarrow> bool" where
  "head_cluster fat h = (3 \<le> h \<and> h < 512 \<and> fat ! h \<noteq> 0 \<and> (\<forall>i < 512. 3 \<le> i \<longrightarrow> fat ! i \<noteq> of_nat h))"

text \<open>In a consistent table the chain of a first cluster ends: following it never comes back.\<close>

theorem head_chain:
  assumes ok: "fat_ok fat" and h: "head_cluster fat h"
  shows "\<exists>cs. chain fat (of_nat h) cs"
proof (rule ccontr)
  assume none: "\<not> ?thesis"
  define path where "path n = ((\<lambda>i. unat (fat ! i)) ^^ n) h" for n
  have path_simps: "path 0 = h" "path (Suc n) = unat (fat ! path n)" for n
    by (simp_all add: path_def)
  have run: "3 \<le> path n \<and> path n < 512 \<and> fat ! path n \<noteq> 0 \<and> fat ! path n \<noteq> EOF \<and>
      (\<nexists>cs. chain fat (of_nat (path n)) cs)" for n
  proof (induction n)
    case 0
    have "fat ! h \<noteq> EOF" using none h by (auto simp: head_cluster_def dest: spec [of _ "[h]"])
    then show ?case using none h by (simp add: path_simps head_cluster_def)
  next
    case (Suc n)
    then have next_ok: "3 \<le> path (Suc n)" "path (Suc n) < 512" "fat ! path (Suc n) \<noteq> 0"
      using fat_ok_next [OF ok, of "path n"] by (simp_all add: path_simps)
    have no: "\<nexists>cs. chain fat (of_nat (path (Suc n))) cs"
    proof
      assume "\<exists>cs. chain fat (of_nat (path (Suc n))) cs"
      then obtain cs where "chain fat (of_nat (path (Suc n))) cs" ..
      then have "chain fat (of_nat (path n)) (path n # cs)" using Suc by (simp add: path_simps)
      with Suc show False by blast
    qed
    then have "fat ! path (Suc n) \<noteq> EOF" using next_ok by (auto dest: spec [of _ "[path (Suc n)]"])
    with next_ok no show ?case by blast
  qed
  have rewind: "path i = path (i + d) \<Longrightarrow> path 0 = path d" for i d
  proof (induction i)
    case (Suc i)
    then have "fat ! path i = fat ! path (i + d)" by (simp add: path_simps word_eq_iff_unsigned [where ?'a = nat])
    with run [of i] run [of "i + d"] have "path i = path (i + d)" by (intro fat_ok_inj [OF ok]) auto
    with Suc.IH show ?case by simp
  qed simp
  have "range path \<subseteq> {..<512}" using run by auto
  then have "\<not> inj path" using finite_subset [of "range path" "{..<512}"] finite_imageD [of path UNIV] by auto
  then obtain i j where "i < j" "path i = path j" unfolding inj_def by (metis linorder_neqE_nat)
  then obtain d where d: "0 < d" "path i = path (i + d)" by (metis less_imp_add_positive)
  then obtain e where "d = Suc e" by (cases d) auto
  with d rewind have "h = unat (fat ! path e)" by (metis path_simps)
  then have "fat ! path e = of_nat h" by simp
  with h run [of e] show False by (auto simp: head_cluster_def)
qed

lemma chain_nth:
  "chain fat c cs \<Longrightarrow> k < length cs \<Longrightarrow>
     fat ! (cs ! k) = (if Suc k < length cs then of_nat (cs ! Suc k) else EOF)"
proof (induction cs arbitrary: c k)
  case (Cons x xs)
  then show ?case
    by (cases k; cases xs) (auto intro: cluster_of_unat)
qed simp

lemma chain_hd: "chain fat c cs \<Longrightarrow> c \<noteq> EOF \<Longrightarrow> cs \<noteq> [] \<and> hd cs = unat c"
  by (cases cs) auto

lemma head_chain_ge3:
  assumes "fat_ok fat" "chain fat c cs" "3 \<le> unat c" "unat c < 512" "fat ! unat c \<noteq> 0"
  shows "\<forall>x \<in> set cs. 3 \<le> x \<and> x < 512 \<and> fat ! x \<noteq> 0"
  using assms
proof (induction cs arbitrary: c)
  case (Cons x xs)
  then have x: "unat c = x" "chain fat (fat ! x) xs" by auto
  show ?case
  proof (cases "fat ! x = EOF")
    case True
    with x have "xs = []" using chain_det [of fat EOF xs "[]"] by simp
    with Cons.prems x show ?thesis by simp
  next
    case False
    with Cons.prems x fat_ok_next [OF Cons.prems(1), of x] have
      "3 \<le> unat (fat ! x)" "unat (fat ! x) < 512" "fat ! unat (fat ! x) \<noteq> 0" by blast+
    with Cons.IH [OF Cons.prems(1) x(2)] Cons.prems x show ?thesis by simp
  qed
qed simp

section \<open>Consistency is kept\<close>

lemma fat_ok_link:
  assumes ok: "fat_ok fat" and cs: "distinct cs" "set cs \<subseteq> set (free_clusters fat)"
  shows "fat_ok (link fat cs)"
proof -
  let ?f = "link fat cs"
  have len: "length fat = 512" by (rule fat_ok_length [OF ok])
  have new: "3 \<le> c \<and> c < 512 \<and> fat ! c = 0" if "c \<in> set cs" for c
    using that cs(2) free_not_reserved [OF ok, of c] free_clusters_set [of fat] by auto
  have in_nth: "\<exists>k. k < length cs \<and> i = cs ! k" if "i \<in> set cs" for i
    using that by (metis in_set_conv_nth)
  from new have lt: "\<forall>c \<in> set cs. c < length fat" and pos: "\<forall>c \<in> set cs. 0 < c \<and> c < 512"
    using len by force+
  have low: "?f ! i = fat ! i" if "i < 3" for i
    using that new [of i] by (intro link_other) fastforce
  have nz: "?f ! i \<noteq> 0" if "i < 512" "fat ! i \<noteq> 0" for i
    using that new [of i] by (subst link_other) auto
  have step: "?f ! i = 0 \<or> ?f ! i = EOF \<or>
      (3 \<le> unat (?f ! i) \<and> unat (?f ! i) < 512 \<and> ?f ! unat (?f ! i) \<noteq> 0)" if i: "i < 512" "3 \<le> i" for i
  proof (cases "i \<in> set cs")
    case True
    then obtain k where k: "k < length cs" "i = cs ! k" by (metis in_set_conv_nth)
    show ?thesis
    proof (cases "Suc k < length cs")
      case True
      then have "cs ! Suc k \<in> set cs" by simp
      with new link_nonzero [OF cs(1) pos len this] True k cs(1) lt show ?thesis
        by (simp add: link_nth)
    next
      case False
      with k cs(1) lt show ?thesis by (simp add: link_nth)
    qed
  next
    case False
    with fat_ok_next [OF ok i(2,1)] nz show ?thesis by (auto simp: link_other)
  qed
  have mixed: False if "i < 512" "3 \<le> i" "i \<notin> set cs" "j \<in> set cs" "?f ! i = ?f ! j" "?f ! i \<noteq> EOF" "?f ! i \<noteq> 0" for i j
  proof -
    obtain k where k: "k < length cs" "j = cs ! k" using \<open>j \<in> set cs\<close> by (metis in_set_conv_nth)
    have "Suc k < length cs" using that k cs(1) lt by (auto simp: link_nth split: if_splits)
    then have e: "fat ! i = of_nat (cs ! Suc k)" "cs ! Suc k \<in> set cs"
      using that k cs(1) lt by (simp_all add: link_nth link_other)
    then have "unat (fat ! i) = cs ! Suc k" using new [of "cs ! Suc k"] by simp
    then show False using fat_ok_next [OF ok that(2,1)] that new [of "cs ! Suc k"] e by (simp add: link_other)
  qed
  have both: "i = j" if "i \<in> set cs" "j \<in> set cs" "?f ! i = ?f ! j" "?f ! i \<noteq> EOF" for i j
  proof -
    from in_nth [OF that(1)] in_nth [OF that(2)]
    obtain k l where k: "k < length cs" "i = cs ! k" and l: "l < length cs" "j = cs ! l" by blast
    have s: "Suc k < length cs" "Suc l < length cs"
      using that k l cs(1) lt by (auto simp: link_nth split: if_splits)
    then have "(of_nat (cs ! Suc k) :: u32) = of_nat (cs ! Suc l)" using that k l cs(1) lt by (simp add: link_nth)
    then have "cs ! Suc k = cs ! Suc l" using cluster_inj new s by simp
    then have "k = l" using cs(1) s by (simp add: nth_eq_iff_index_eq)
    with k l show ?thesis by simp
  qed
  have one: "i = j" if "i < 512" "j < 512" "3 \<le> i" "3 \<le> j" "?f ! i = ?f ! j" "?f ! i \<noteq> 0" "?f ! i \<noteq> EOF" for i j
  proof (cases "i \<in> set cs"; cases "j \<in> set cs")
    assume "i \<notin> set cs" "j \<notin> set cs"
    with that fat_ok_inj [OF ok, of i j] show ?thesis by (simp add: link_other)
  qed (use that both mixed [of i j] mixed [of j i] in auto)
  show ?thesis
  proof (rule fat_okI)
    show "?f ! 0 = CLUSTER_0_VALUE" "?f ! 1 = CLUSTER_1_VALUE" "?f ! 2 = EOF"
      using low [of 0] low [of 1] low [of 2] fat_ok_low [OF ok] by simp_all
  qed (use step one len in simp_all)
qed

lemma fat_ok_unlink:
  assumes ok: "fat_ok fat" and h: "head_cluster fat h" and cs: "chain fat (of_nat h) cs"
  shows "fat_ok (unlink fat cs)"
proof -
  let ?f = "unlink fat cs"
  have len: "length fat = 512" by (rule fat_ok_length [OF ok])
  have h': "3 \<le> h" "h < 512" "fat ! h \<noteq> 0" using h by (auto simp: head_cluster_def)
  have ge: "\<forall>x \<in> set cs. 3 \<le> x \<and> x < 512 \<and> fat ! x \<noteq> 0"
    using head_chain_ge3 [OF ok cs] h' by simp
  have f: "?f ! i = (if i \<in> set cs then 0 else fat ! i)" if "i < 512" for i
    using that len by (simp add: unlink_nth)
  have closed: "unat (fat ! i) \<notin> set cs" if i: "i < 512" "3 \<le> i" "i \<notin> set cs" for i
  proof
    assume "unat (fat ! i) \<in> set cs"
    then obtain k where k: "k < length cs" "unat (fat ! i) = cs ! k" by (metis in_set_conv_nth)
    then have e: "fat ! i = of_nat (cs ! k)" by (auto intro: cluster_of_unat)
    show False
    proof (cases k)
      case 0
      with k cs h' have "cs ! k = h" by (cases cs) auto
      with e h i show False by (simp add: head_cluster_def)
    next
      case (Suc l)
      with k chain_nth [OF cs, of l] e have "fat ! (cs ! l) = fat ! i" by simp
      moreover have "cs ! l \<in> set cs" "cs ! k \<in> set cs" using k Suc by auto
      moreover have "fat ! i \<noteq> 0" "fat ! i \<noteq> EOF"
        using e ge \<open>cs ! k \<in> set cs\<close> cluster_eq_0 [of "cs ! k"] cluster_neq_EOF [of "cs ! k"] by fastforce+
      ultimately have "cs ! l = i" using ge i by (intro fat_ok_inj [OF ok]) auto
      with i \<open>cs ! l \<in> set cs\<close> show False by simp
    qed
  qed
  have step: "?f ! i = 0 \<or> ?f ! i = EOF \<or>
      (3 \<le> unat (?f ! i) \<and> unat (?f ! i) < 512 \<and> ?f ! unat (?f ! i) \<noteq> 0)" if i: "i < 512" "3 \<le> i" for i
    using fat_ok_next [OF ok i(2,1)] closed [OF i] f i by auto
  have one: "i = j" if "i < 512" "j < 512" "3 \<le> i" "3 \<le> j" "?f ! i = ?f ! j" "?f ! i \<noteq> 0" "?f ! i \<noteq> EOF" for i j
    using that f fat_ok_inj [OF ok, of i j] by (auto split: if_splits)
  have low: "?f ! i = fat ! i" if "i < 3" for i using that f ge by fastforce
  show ?thesis
  proof (rule fat_okI)
    show "?f ! 0 = CLUSTER_0_VALUE" "?f ! 1 = CLUSTER_1_VALUE" "?f ! 2 = EOF"
      using low [of 0] low [of 1] low [of 2] fat_ok_low [OF ok] by simp_all
  qed (use step one len in simp_all)
qed

end
