(* ===== verification/FatDir.thy ===== *)
theory FatDir
  imports Fat32
begin

text \<open>
  Directory tables as finite maps.  A table maps the names of its entries in use to the entries;
  \<open>findEntry\<close> is lookup in that map, \<open>addEntry\<close> in the slot that \<open>findIdxEmptyEntry\<close> returns is an
  update and \<open>deleteEntry\<close> a removal.  This holds for tidy tables: names in use are distinct and not
  all zero, and the slots not in use have the zero name, because \<open>findEntry\<close> looks at every slot,
  in use or not.
\<close>

type_synonym key = "u8 list \<times> u8 list"

definition key_of :: "dirent \<Rightarrow> key" where
  "key_of e = (name e, ext e)"

definition in_use :: "dirent \<Rightarrow> bool" where
  "in_use e = (user_attribute e = UATTR_NOT_EMPTY)"

definition zero_key :: key where
  "zero_key = (replicate 8 0, replicate 3 0)"

definition wf_key :: "key \<Rightarrow> bool" where
  "wf_key k = (length (fst k) = 8 \<and> length (snd k) = 3)"

lemma zero_byte_uattr [simp]: "0 \<noteq> UATTR_NOT_EMPTY" "UATTR_NOT_EMPTY \<noteq> 0"
  by (simp_all add: UATTR_NOT_EMPTY_def)

lemma wf_table_nth: "wf_table t \<Longrightarrow> i < 64 \<Longrightarrow> wf_dirent (t ! i)"
  by (simp add: wf_table_def)

lemma wf_table_length: "wf_table t \<Longrightarrow> length t = 64"
  by (simp add: wf_table_def)

lemma wf_table_update: "wf_table t \<Longrightarrow> wf_dirent e \<Longrightarrow> wf_table (t[i := e])"
  by (auto simp: wf_table_def dest!: set_update_subset_insert [THEN subsetD])

section \<open>Searching\<close>

lemma scan_found_iff: "found (scan P lo hi) = - 9999 \<longleftrightarrow> (\<forall>i. lo \<le> i \<and> i < hi \<longrightarrow> \<not> P i)"
  by (cases "scan P lo hi") (auto simp: found_def scan_None [symmetric] dest: scan_Some)

lemma scan_foundD: "found (scan P lo hi) = int i \<Longrightarrow> lo \<le> i \<and> i < hi \<and> P i \<and> (\<forall>j. lo \<le> j \<and> j < i \<longrightarrow> \<not> P j)"
  by (cases "scan P lo hi") (auto simp: found_def dest: scan_Some)

lemma scan_foundE:
  obtains "found (scan P lo hi) = - 9999" | i where "found (scan P lo hi) = int i"
  by (cases "scan P lo hi") (auto simp: found_def)

lemma findEntry_scan:
  assumes "wf_table t" "wf_key k"
  shows "findEntry t (fst k) (snd k) = found (scan (\<lambda>i. key_of (t ! i) = k) 2 64)"
proof -
  have "(memcmp (name (t ! i)) (fst k) 8 = Some 0 \<and> memcmp (ext (t ! i)) (snd k) 3 = Some 0) = (key_of (t ! i) = k)"
    if "i < 64" for i
    using wf_table_nth [OF assms(1) that] assms(2)
    by (cases k) (simp add: memcmp_eq_0 key_of_def wf_dirent_def wf_key_def)
  then show ?thesis unfolding findEntry_def by (intro arg_cong [where f = found] scan_cong) auto
qed

text \<open>The first entry whose name matches, in use or not; entries 0 and 1 are not searched.\<close>

lemma findEntry_Some:
  assumes "wf_table t" "wf_key k" "findEntry t (fst k) (snd k) = int i"
  shows "2 \<le> i \<and> i < 64 \<and> key_of (t ! i) = k \<and> (\<forall>j. 2 \<le> j \<and> j < i \<longrightarrow> key_of (t ! j) \<noteq> k)"
  using scan_foundD [of "\<lambda>i. key_of (t ! i) = k" 2 64 i] assms by (simp add: findEntry_scan)

lemma findEntry_None:
  assumes "wf_table t" "wf_key k"
  shows "findEntry t (fst k) (snd k) = - 9999 \<longleftrightarrow> (\<forall>i. 2 \<le> i \<and> i < 64 \<longrightarrow> key_of (t ! i) \<noteq> k)"
  using assms by (simp add: findEntry_scan scan_found_iff)

lemma findEntry_cases:
  obtains "findEntry t nm ex = - 9999" | i where "findEntry t nm ex = int i"
  unfolding findEntry_def by (rule scan_foundE)

lemma findIdxEmptyEntry_cases:
  obtains "findIdxEmptyEntry t = - 9999" | i where "findIdxEmptyEntry t = int i"
  unfolding findIdxEmptyEntry_def by (rule scan_foundE)

lemma findIdxEmptyEntry_Some:
  "findIdxEmptyEntry t = int i \<Longrightarrow> 2 \<le> i \<and> i < 64 \<and> \<not> in_use (t ! i) \<and> (\<forall>j. 2 \<le> j \<and> j < i \<longrightarrow> in_use (t ! j))"
  using scan_foundD [of "\<lambda>i. user_attribute (t ! i) \<noteq> UATTR_NOT_EMPTY" 2 64 i]
  by (auto simp: findIdxEmptyEntry_def in_use_def)

lemma findIdxEmptyEntry_None:
  "findIdxEmptyEntry t = - 9999 \<longleftrightarrow> (\<forall>i. 2 \<le> i \<and> i < 64 \<longrightarrow> in_use (t ! i))"
  by (simp add: findIdxEmptyEntry_def scan_found_iff in_use_def)

lemma isEmptyDir_iff: "isEmptyDir t \<longleftrightarrow> (\<forall>i. 2 \<le> i \<and> i < 64 \<longrightarrow> \<not> in_use (t ! i))"
  by (simp add: isEmptyDir_def scan_None in_use_def)

section \<open>Changing an entry\<close>

text \<open>The entry that \<open>addEntry\<close> leaves in a slot that held \<open>e\<close>: the attribute is only written for a
  folder.\<close>

definition new_entry :: "dirent \<Rightarrow> request \<Rightarrow> nat \<Rightarrow> dirent" where
  "new_entry e r c =
     e\<lparr> name := r_name r, ext := r_ext r, user_attribute := UATTR_NOT_EMPTY,
       attribute := (if buffer_size r = 0 then ATTR_SUBDIRECTORY else attribute e),
       cluster_high := high16 (of_nat c), cluster_low := low16 (of_nat c), filesize := buffer_size r \<rparr>"

lemma int_halves:
  assumes "c < 2 ^ 31"
  shows "(word_of_int (drop_bit 16 (int c)) :: u16) = high16 (of_nat c)"
    and "(word_of_int (int c AND 0xFFFF) :: u16) = low16 (of_nat c)"
proof -
  have u: "uint (of_nat c :: u32) = int c"
    using assms by (simp add: unsigned_of_nat take_bit_nat_eq_self)
  show "(word_of_int (drop_bit 16 (int c)) :: u16) = high16 (of_nat c)"
    by (rule bit_word_eqI) (auto simp: high16_def bit_simps u [symmetric])
  have m: "(0xFFFF :: int) = mask 16" "(0xFFFF :: u32) = mask 16" by (simp_all add: mask_eq_exp_minus_1)
  show "(word_of_int (int c AND 0xFFFF) :: u16) = low16 (of_nat c)"
    by (rule bit_word_eqI) (auto simp: low16_def bit_simps m u [symmetric])
qed

lemma addEntry_eq:
  assumes "wf_table t" "wf_request r" "i < 64" "c < 2 ^ 31"
  shows "addEntry t r (int i) (int c) = Some (t[i := new_entry (t ! i) r c])"
  using assms wf_table_nth [OF assms(1,3)] int_halves [OF assms(4)]
  by (simp add: addEntry_def wf_table_length wf_dirent_def wf_request_def new_entry_def)

definition cleared :: "dirent \<Rightarrow> dirent" where
  "cleared e = e\<lparr> name := replicate 8 0, ext := replicate 3 0, user_attribute := 0,
                 cluster_high := 0, cluster_low := 0, filesize := 0 \<rparr>"

lemma deleteEntry_eq:
  assumes "wf_table t" "i < 64"
  shows "deleteEntry t (int i) = Some (t[i := cleared (t ! i)])"
  using assms wf_table_nth [OF assms]
  by (simp add: deleteEntry_def wf_table_length wf_dirent_def cleared_def)

lemma wf_new_entry: "wf_request r \<Longrightarrow> wf_dirent (new_entry e r c)"
  by (simp add: wf_dirent_def new_entry_def wf_request_def)

lemma wf_cleared: "wf_dirent (cleared e)"
  by (simp add: wf_dirent_def cleared_def)

lemma entry_cluster_new: "entry_cluster (new_entry e r c) = of_nat c"
  by (simp add: entry_cluster_def new_entry_def join_high_low)

section \<open>Tables as maps\<close>

definition tidy :: "dirtable \<Rightarrow> bool" where
  "tidy t =
     (wf_table t \<and>
      (\<forall>i. 2 \<le> i \<and> i < 64 \<longrightarrow> (if in_use (t ! i) then key_of (t ! i) \<noteq> zero_key else key_of (t ! i) = zero_key)) \<and>
      (\<forall>i j. 2 \<le> i \<and> i < j \<and> j < 64 \<and> in_use (t ! i) \<and> in_use (t ! j) \<longrightarrow> key_of (t ! i) \<noteq> key_of (t ! j)))"

definition dir_map :: "dirtable \<Rightarrow> key \<rightharpoonup> dirent" where
  "dir_map t k = map_option ((!) t) (scan (\<lambda>i. in_use (t ! i) \<and> key_of (t ! i) = k) 2 64)"

lemma tidy_wf: "tidy t \<Longrightarrow> wf_table t"
  by (simp add: tidy_def)

lemma tidyD:
  "tidy t \<Longrightarrow> 2 \<le> i \<Longrightarrow> i < 64 \<Longrightarrow> in_use (t ! i) \<longleftrightarrow> key_of (t ! i) \<noteq> zero_key"
  by (auto simp: tidy_def split: if_splits)

lemma tidy_inj:
  "tidy t \<Longrightarrow> 2 \<le> i \<Longrightarrow> i < 64 \<Longrightarrow> 2 \<le> j \<Longrightarrow> j < 64 \<Longrightarrow> in_use (t ! i) \<Longrightarrow> key_of (t ! i) = key_of (t ! j) \<Longrightarrow> i = j"
  by (metis tidyD tidy_def linorder_neqE_nat)

lemma dir_map_Some:
  assumes "tidy t"
  shows "dir_map t k = Some e \<longleftrightarrow> (\<exists>i. 2 \<le> i \<and> i < 64 \<and> in_use (t ! i) \<and> key_of (t ! i) = k \<and> e = t ! i)"
proof
  assume "dir_map t k = Some e"
  then show "\<exists>i. 2 \<le> i \<and> i < 64 \<and> in_use (t ! i) \<and> key_of (t ! i) = k \<and> e = t ! i"
    by (auto simp: dir_map_def dest: scan_Some)
next
  assume "\<exists>i. 2 \<le> i \<and> i < 64 \<and> in_use (t ! i) \<and> key_of (t ! i) = k \<and> e = t ! i"
  then obtain i where i: "2 \<le> i" "i < 64" "in_use (t ! i)" "key_of (t ! i) = k" "e = t ! i" by blast
  have "scan (\<lambda>i. in_use (t ! i) \<and> key_of (t ! i) = k) 2 64 = Some i"
    using i tidy_inj [OF assms, of _ i] by (intro scan_eqI) fastforce+
  with i show "dir_map t k = Some e" by (simp add: dir_map_def)
qed

lemma dir_map_None:
  "dir_map t k = None \<longleftrightarrow> (\<forall>i. 2 \<le> i \<and> i < 64 \<and> in_use (t ! i) \<longrightarrow> key_of (t ! i) \<noteq> k)"
  by (auto simp: dir_map_def scan_None)

lemma dir_map_update:
  assumes "length t = 64" "i < 64" "\<not> (in_use (t ! i) \<and> key_of (t ! i) = k)" "\<not> (in_use e \<and> key_of e = k)"
  shows "dir_map (t[i := e]) k = dir_map t k"
proof -
  let ?P = "\<lambda>t j. in_use (t ! j) \<and> key_of (t ! j) = k"
  have "scan (?P (t[i := e])) 2 64 = scan (?P t) 2 64"
    by (rule scan_cong) (use assms in \<open>auto simp: nth_list_update\<close>)
  moreover have "scan (?P t) 2 64 = Some j \<Longrightarrow> t[i := e] ! j = t ! j" for j
    using assms scan_Some [of "?P t" 2 64 j] by (cases "j = i") auto
  ultimately show ?thesis by (cases "scan (?P t) 2 64") (simp_all add: dir_map_def)
qed

text \<open>Lookup.\<close>

lemma findEntry_dir_map:
  assumes "tidy t" "wf_key k" "k \<noteq> zero_key"
  shows "dir_map t k = (if findEntry t (fst k) (snd k) = - 9999 then None
                        else Some (t ! nat (findEntry t (fst k) (snd k))))"
proof (rule findEntry_cases [of t "fst k" "snd k"])
  assume n: "findEntry t (fst k) (snd k) = - 9999"
  then have "dir_map t k = None"
    using findEntry_None [OF tidy_wf [OF assms(1)] assms(2)] by (simp add: dir_map_None)
  with n show ?thesis by simp
next
  fix i assume i: "findEntry t (fst k) (snd k) = int i"
  have "2 \<le> i" "i < 64" "key_of (t ! i) = k"
    using findEntry_Some [OF tidy_wf [OF assms(1)] assms(2) i] by simp_all
  moreover from this have "in_use (t ! i)" using tidyD [OF assms(1)] assms(3) by simp
  ultimately have "dir_map t k = Some (t ! i)" using dir_map_Some [OF assms(1)] by blast
  with i show ?thesis by simp
qed

text \<open>Insertion into a free slot.\<close>

lemma tidy_addEntry:
  assumes "tidy t" "wf_request r" "(r_name r, r_ext r) \<noteq> zero_key"
    and "findEntry t (r_name r) (r_ext r) = - 9999" and "findIdxEmptyEntry t = int i"
  shows "tidy (t[i := new_entry (t ! i) r c])"
    and "dir_map (t[i := new_entry (t ! i) r c]) = (dir_map t)((r_name r, r_ext r) \<mapsto> new_entry (t ! i) r c)"
proof -
  let ?k = "(r_name r, r_ext r)" and ?e = "new_entry (t ! i) r c"
  let ?t = "t[i := ?e]"
  have i: "2 \<le> i" "i < 64" "\<not> in_use (t ! i)" using findIdxEmptyEntry_Some [OF assms(5)] by simp_all
  have len: "length t = 64" by (rule wf_table_length [OF tidy_wf [OF assms(1)]])
  have k: "wf_key ?k" using assms(2) by (simp add: wf_key_def wf_request_def)
  have fresh: "key_of (t ! j) \<noteq> ?k" if "2 \<le> j" "j < 64" for j
    using that findEntry_None [OF tidy_wf [OF assms(1)] k] assms(4) by simp
  have e: "in_use ?e" "key_of ?e = ?k" by (simp_all add: in_use_def key_of_def new_entry_def)
  show tidy': "tidy ?t"
    unfolding tidy_def
  proof (intro conjI allI impI)
    show "wf_table ?t" by (intro wf_table_update tidy_wf assms wf_new_entry)
  next
    fix j :: nat assume "2 \<le> j \<and> j < 64"
    then show "if in_use (?t ! j) then key_of (?t ! j) \<noteq> zero_key else key_of (?t ! j) = zero_key"
      using e assms(3) tidyD [OF assms(1), of j] len by (cases "j = i") auto
  next
    fix a b :: nat assume ab: "2 \<le> a \<and> a < b \<and> b < 64 \<and> in_use (?t ! a) \<and> in_use (?t ! b)"
    then show "key_of (?t ! a) \<noteq> key_of (?t ! b)"
      using e fresh [of a] fresh [of b] tidy_inj [OF assms(1), of a b] len
      by (cases "a = i"; cases "b = i") auto
  qed
  show "dir_map ?t = (dir_map t)(?k \<mapsto> ?e)"
  proof
    fix k'
    show "dir_map ?t k' = ((dir_map t)(?k \<mapsto> ?e)) k'"
    proof (cases "k' = ?k")
      case True
      have "dir_map ?t ?k = Some ?e"
        using i e len by (subst dir_map_Some [OF tidy']) (auto intro!: exI [of _ i])
      with True show ?thesis by simp
    next
      case False
      then show ?thesis using e i len by (subst dir_map_update) auto
    qed
  qed
qed

text \<open>Removal.\<close>

lemma tidy_deleteEntry:
  assumes "tidy t" "wf_key k" "k \<noteq> zero_key" "findEntry t (fst k) (snd k) = int i"
  shows "tidy (t[i := cleared (t ! i)])"
    and "dir_map (t[i := cleared (t ! i)]) = (dir_map t)(k := None)"
proof -
  let ?e = "cleared (t ! i)"
  let ?t = "t[i := ?e]"
  have i: "2 \<le> i" "i < 64" "key_of (t ! i) = k"
    using findEntry_Some [OF tidy_wf [OF assms(1)] assms(2,4)] by simp_all
  have use: "in_use (t ! i)" using tidyD [OF assms(1) i(1,2)] i(3) assms(3) by simp
  have len: "length t = 64" by (rule wf_table_length [OF tidy_wf [OF assms(1)]])
  have e: "\<not> in_use ?e" "key_of ?e = zero_key" by (simp_all add: in_use_def key_of_def cleared_def zero_key_def)
  have other: "key_of (t ! j) \<noteq> k" if "2 \<le> j" "j < 64" "j \<noteq> i" "in_use (t ! j)" for j
    using that tidy_inj [OF assms(1), of j i] i by auto
  show tidy': "tidy ?t"
    unfolding tidy_def
  proof (intro conjI allI impI)
    show "wf_table ?t" by (intro wf_table_update tidy_wf assms wf_cleared)
  next
    fix j :: nat assume "2 \<le> j \<and> j < 64"
    then show "if in_use (?t ! j) then key_of (?t ! j) \<noteq> zero_key else key_of (?t ! j) = zero_key"
      using e tidyD [OF assms(1), of j] len by (cases "j = i") auto
  next
    fix a b :: nat assume ab: "2 \<le> a \<and> a < b \<and> b < 64 \<and> in_use (?t ! a) \<and> in_use (?t ! b)"
    then show "key_of (?t ! a) \<noteq> key_of (?t ! b)"
      using e tidy_inj [OF assms(1), of a b] len by (cases "a = i"; cases "b = i") auto
  qed
  show "dir_map ?t = (dir_map t)(k := None)"
  proof
    fix k'
    show "dir_map ?t k' = ((dir_map t)(k := None)) k'"
    proof (cases "k' = k")
      case True
      have "dir_map ?t k = None"
        using other e len unfolding dir_map_None by (metis nth_list_update_eq nth_list_update_neq)
      with True show ?thesis by simp
    next
      case False
      then show ?thesis using e i len by (subst dir_map_update) auto
    qed
  qed
qed

section \<open>New directories\<close>

definition new_dir :: "u8 list \<Rightarrow> u32 \<Rightarrow> dirtable" where
  "new_dir nm parent =
     zero_dirent\<lparr> name := nm, attribute := ATTR_SUBDIRECTORY, user_attribute := UATTR_NOT_EMPTY \<rparr> #
     zero_dirent\<lparr> name := 46 # 46 # replicate 6 0, attribute := ATTR_SUBDIRECTORY,
                  user_attribute := UATTR_NOT_EMPTY, cluster_high := high16 parent, cluster_low := low16 parent \<rparr> #
     replicate 62 zero_dirent"

lemma zero_dirent_fields:
  "name zero_dirent = replicate 8 0" "ext zero_dirent = replicate 3 0" "attribute zero_dirent = 0"
  "user_attribute zero_dirent = 0" "filesize zero_dirent = 0"
  by (simp_all add: zero_dirent_def decode_dirent_def le32_def)

lemma high_low_2: "high16 2 = 0" "low16 2 = 2"
  by (simp_all add: high16_def low16_def)

lemma zero_dirent_uattr: "zero_dirent\<lparr> user_attribute := 0 \<rparr> = zero_dirent"
  using zero_dirent_fields(4) by (cases zero_dirent) simp

lemma copy_name:
  assumes "length nm = 8" "length b = 8"
  shows "for_range 0 8 (\<lambda>i n. Option.bind (arr_get nm i) (arr_set n i)) b = Some nm"
proof -
  have "for_range 0 8 (\<lambda>i n. Option.bind (arr_get nm i) (arr_set n i)) b
      = Some (take 0 b @ map ((!) nm) [0..<8] @ drop (0 + 8) b)"
    by (rule for_range_fill [where m = 8]) (use assms in auto)
  then show ?thesis using assms map_nth_take [of 8 nm] by simp
qed

lemma init_directory_table_eq:
  assumes "length nm = 8"
  shows "init_directory_table zero_table nm parent = Some (new_dir nm parent)"
proof -
  have z: "zero_table = zero_dirent # zero_dirent # replicate 62 zero_dirent"
    by (simp add: zero_table_def numeral_eq_Suc)
  have loop: "for_range 2 64 (\<lambda>i t. do { e \<leftarrow> arr_get t i; arr_set t i (e\<lparr> user_attribute := 0 \<rparr>) })
      (a # b # replicate 62 zero_dirent) = Some (a # b # replicate 62 zero_dirent)" for a b
  proof -
    have "\<exists>t. for_range 2 64 (\<lambda>i t. do { e \<leftarrow> arr_get t i; arr_set t i (e\<lparr> user_attribute := 0 \<rparr>) })
        (a # b # replicate 62 zero_dirent) = Some t \<and> t = a # b # replicate 62 zero_dirent"
    proof (rule for_range_inv)
      fix i t assume i: "2 \<le> i" "i < (64::nat)" and t: "t = a # b # replicate 62 zero_dirent"
      then obtain j where j: "i = Suc (Suc j)" "j < 62" by (intro that [of "i - 2"]) simp_all
      show "\<exists>t'. (do { e \<leftarrow> arr_get t i; arr_set t i (e\<lparr> user_attribute := 0 \<rparr>) }) = Some t' \<and>
          t' = a # b # replicate 62 zero_dirent"
        using t j zero_dirent_uattr by (simp add: list_update_same_conv)
    qed simp_all
    then show ?thesis by simp
  qed
  have dots: "(replicate 8 0)[0 := 46, Suc 0 := 46] = (46 # 46 # replicate 6 0 :: u8 list)"
    by (simp add: numeral_eq_Suc)
  have size: "e\<lparr> filesize := 0 \<rparr> = e" if "filesize e = 0" for e
    using that by (cases e) simp
  show ?thesis
    using assms
    by (simp add: init_directory_table_def z copy_name loop new_dir_def zero_dirent_fields dots size)
qed

text \<open>A new directory has its own name and no entries in use beyond the first two.\<close>

lemma new_dir_nth: "2 \<le> i \<Longrightarrow> i < 64 \<Longrightarrow> new_dir nm parent ! i = zero_dirent"
  by (simp add: new_dir_def nth_Cons' numeral_eq_Suc)

lemma new_dir_self: "attribute (new_dir nm parent ! 0) = ATTR_SUBDIRECTORY"
  by (simp add: new_dir_def)

lemma wf_new_dir: "length nm = 8 \<Longrightarrow> wf_table (new_dir nm parent)"
  using wf_zero_dirent by (auto simp: wf_table_def new_dir_def wf_dirent_def)

lemma zero_dirent_key: "key_of zero_dirent = zero_key" "\<not> in_use zero_dirent"
  by (simp_all add: key_of_def zero_key_def in_use_def zero_dirent_fields)

lemma tidyI_empty:
  assumes "wf_table t" "\<And>i. 2 \<le> i \<Longrightarrow> i < 64 \<Longrightarrow> t ! i = zero_dirent"
  shows "tidy t \<and> dir_map t = Map.empty \<and> isEmptyDir t"
  using assms by (auto simp: tidy_def zero_dirent_key isEmptyDir_iff dir_map_None fun_eq_iff)

lemma tidy_new_dir:
  "length nm = 8 \<Longrightarrow> tidy (new_dir nm parent) \<and> dir_map (new_dir nm parent) = Map.empty \<and> isEmptyDir (new_dir nm parent)"
  by (intro tidyI_empty wf_new_dir new_dir_nth)

definition root_dir :: dirtable where
  "root_dir = (new_dir root_name 2)[0 := (new_dir root_name 2 ! 0)\<lparr> cluster_high := 0, cluster_low := 2 \<rparr>]"

lemma length_root_name [simp]: "length root_name = 8"
  by (simp add: root_name_def)

lemma tidy_root_dir: "tidy root_dir \<and> dir_map root_dir = Map.empty \<and> isEmptyDir root_dir"
proof (rule tidyI_empty)
  have "wf_dirent (new_dir root_name 2 ! 0)" by (intro wf_table_nth wf_new_dir) simp_all
  then show "wf_table root_dir"
    unfolding root_dir_def by (intro wf_table_update wf_new_dir) (simp_all add: wf_dirent_def)
qed (simp add: root_dir_def new_dir_nth)

lemma root_dir_self: "attribute (root_dir ! 0) = ATTR_SUBDIRECTORY"
  by (simp add: root_dir_def new_dir_def)

end
