(* ===== verification/FatOps.thy ===== *)
theory FatOps
  imports FatChain FatDir
begin

text \<open>
  What \<open>read\<close>, \<open>write\<close> and \<open>delete\<close> do to the store, as equations over the state before: which chain
  is read, which clusters are linked and with what data, what the directory table becomes.  The
  properties of the file system are derived from these.
\<close>

section \<open>Directories and files in the store\<close>

definition dir_at :: "fs \<Rightarrow> u32 \<Rightarrow> dirtable" where
  "dir_at s c = decode_table (read_clusters (image s) c 1)"

definition cluster_at :: "fs \<Rightarrow> nat \<Rightarrow> u8 list" where
  "cluster_at s c = read_clusters (image s) (of_nat c) 1"

definition file_bytes :: "fs \<Rightarrow> nat list \<Rightarrow> u8 list" where
  "file_bytes s cs = concat (map (cluster_at s) cs)"

lemma wf_dir_at [simp]: "wf_table (dir_at s c)"
  by (simp add: dir_at_def wf_decode_table)

lemma load_dir_simps [simp]:
  "dir_table_buf (load_dir s c) = dir_at s c" "cluster_map (load_dir s c) = cluster_map s"
  "image (load_dir s c) = image s"
  by (simp_all add: load_dir_def dir_at_def)

lemma length_cluster_at [simp]: "length (cluster_at s c) = 2048"
  by (simp add: cluster_at_def)

lemma length_file_bytes [simp]: "length (file_bytes s cs) = 2048 * length cs"
  by (simp add: file_bytes_def length_concat_fixed [where w = 2048])

section \<open>Reading a chain\<close>

lemma mem_store_Nil [simp]: "mem_store m p [] = m"
  by (simp add: mem_store_def)

lemma read_chain_eq:
  assumes "chain fat c cs" "length fat = 512" "2048 * length cs \<le> 2 ^ 32"
  shows "read_chain fat im c b m = Some (mem_store m b (concat (map (\<lambda>x. read_clusters im (of_nat x) 1) cs)))"
  using assms
proof (induction cs arbitrary: c b m)
  case Nil
  then show ?case by (simp add: read_chain.simps)
next
  case (Cons x xs)
  then have x: "x < 512" "c = of_nat x" "chain fat (fat ! x) xs" by (auto intro: cluster_of_unat)
  let ?d = "read_clusters im (of_nat x) 1"
  let ?r = "concat (map (\<lambda>x. read_clusters im (of_nat x) 1) xs)"
  have l: "length ?r = 2048 * length xs" by (simp add: length_concat_fixed [where w = 2048])
  have "read_chain fat im c b m = read_chain fat im (fat ! x) (b + 2048) (mem_store m b ?d)"
    using x Cons.prems(2) cluster_neq_EOF [OF x(1)] by (subst read_chain.simps) simp
  also have "\<dots> = Some (mem_store (mem_store m b ?d) (b + 2048) ?r)"
    using Cons x by simp
  also have "mem_store (mem_store m b ?d) (b + 2048) ?r = mem_store m b (?d @ ?r)"
    using mem_store_append [of ?d ?r m b] l Cons.prems(3) by simp
  finally show ?case by simp
qed

section \<open>Writing a file's clusters\<close>

definition clusters_for :: "u32 \<Rightarrow> nat" where
  "clusters_for sz = (unat sz + 2047) div 2048"

lemma ceil_c_clusters: "ceil_c (of_nat (unat sz) / 2048) = int (clusters_for sz)"
proof -
  define n where "n = unat sz"
  have fl: "\<lfloor>of_nat n / 2048 :: rat\<rfloor> = int (n div 2048)"
    using floor_divide_of_nat_eq [of n 2048, where ?'a = rat] by simp
  have pos: "\<not> (of_nat n / 2048 :: rat) < 0" by simp
  define d r where "d = n div 2048" and "r = n mod 2048"
  have n: "n = 2048 * d + r" by (simp add: d_def r_def)
  have "(of_nat n :: rat) = 2048 * of_nat d + of_nat r"
    unfolding n by (simp only: of_nat_add of_nat_mult of_nat_numeral)
  then have q: "(of_nat n / 2048 :: rat) = of_nat d + of_nat r / 2048"
    by (simp add: field_simps)
  have gt: "(of_nat (n div 2048) < (of_nat n / 2048 :: rat)) = (n mod 2048 \<noteq> 0)"
    unfolding q d_def [symmetric] r_def [symmetric] by simp
  have "(r + 2047) div 2048 = (if r = 0 then 0 else 1)"
  proof (cases "r = 0")
    case False
    have "r < 2048" by (simp add: r_def)
    with False have "(r + 2047) div 2048 = 1" by (intro div_nat_eqI) simp_all
    with False show ?thesis by simp
  qed simp
  moreover have "(n + 2047) div 2048 = d + (r + 2047) div 2048"
    unfolding n by (simp add: add.assoc)
  ultimately have "(n + 2047) div 2048 = n div 2048 + (if n mod 2048 = 0 then 0 else 1)"
    by (simp add: d_def r_def)
  then show ?thesis unfolding n_def [symmetric] clusters_for_def ceil_c_def Let_def
    using fl pos gt by simp
qed

lemma link_overwrite: "link (fat[c := v]) (c # cs) = link fat (c # cs)"
  by (cases cs) simp_all

definition data_at :: "mem \<Rightarrow> u32 \<Rightarrow> nat \<Rightarrow> u8 list" where
  "data_at m ptr i = mem_load m (ptr + of_nat (i * 2048)) 2048"

lemma length_data_at [simp]: "length (data_at m ptr i) = 2048"
  by (simp add: data_at_def)

lemma write_loop_eq:
  assumes "length (cluster_map s) = 512" "cluster_map s ! 0 \<noteq> 0"
    and "(idx = - 9999 \<and> pl = []) \<or> (\<exists>p. idx = int p \<and> pl = [p] \<and> p < 512 \<and> cluster_map s ! p = EOF)"
    and "n = 0 \<or> pl \<noteq> [] \<or> free_clusters (cluster_map s) \<noteq> []"
  shows "write_loop n i m ptr idx s =
    (let cs = take n (free_clusters (cluster_map s))
     in Some (n \<le> length (free_clusters (cluster_map s)),
          s\<lparr> cluster_map := link (cluster_map s) (pl @ cs),
             image := img.wr_all (zip (map of_nat cs) (map (data_at m ptr) [i..<i + n])) (image s) \<rparr>))"
  using assms
proof (induction n arbitrary: i idx s pl)
  case 0
  have "link (cluster_map s) pl = cluster_map s"
    using 0 by (auto simp: list_update_same_conv)
  then show ?case by simp
next
  case (Suc n)
  let ?fat = "cluster_map s"
  show ?case
  proof (cases "free_clusters ?fat")
    case Nil
    with Suc.prems obtain p where "idx = int p" "pl = [p]" "p < 512" by auto
    with Nil Suc.prems(1) show ?thesis by (simp add: findEmptySpace_eq)
  next
    case (Cons c fs)
    have c: "c < 512" "?fat ! c = 0" using free_clusters_set [of ?fat] Cons by auto
    with Suc.prems(2) have c0: "c \<noteq> 0" by metis
    then have cw: "(of_nat c :: u32) \<noteq> 0" using c by (simp add: cluster_eq_0)
    define fat1 where "fat1 = (case pl of [] \<Rightarrow> ?fat | p # _ \<Rightarrow> ?fat[p := of_nat c])"
    have f1: "length fat1 = 512" "free_clusters fat1 = c # fs" "fat1 ! 0 \<noteq> 0"
      using Suc.prems Cons cw by (auto simp: fat1_def free_clusters_update nth_list_update split: if_splits)
    let ?im = "write_clusters (image s) (data_at m ptr i) (of_nat c) 1"
    let ?s = "s\<lparr> image := ?im, cluster_map := fat1[c := EOF] \<rparr>"
    have step: "write_loop (Suc n) i m ptr idx s = write_loop n (Suc i) m ptr (int c) ?s"
      using Suc.prems(1,3) c Cons f1(1)
      by (auto simp: findEmptySpace_eq fat1_def data_at_def)
    have free: "free_clusters (fat1[c := EOF]) = fs" using f1 by (intro free_clusters_take) simp_all
    have "write_loop n (Suc i) m ptr (int c) ?s =
      (let cs = take n fs in Some (n \<le> length fs,
         ?s\<lparr> cluster_map := link (fat1[c := EOF]) ([c] @ cs),
            image := img.wr_all (zip (map of_nat cs) (map (data_at m ptr) [Suc i..<Suc i + n])) ?im \<rparr>))"
      using Suc.IH [of ?s "int c" "[c]" "Suc i"] f1 c c0 free by simp
    moreover have "link (fat1[c := EOF]) (c # take n fs) = link ?fat (pl @ c # take n fs)"
      using Suc.prems(3) by (auto simp: link_overwrite fat1_def)
    moreover have "[i..<i + Suc n] = i # [Suc i..<Suc i + n]" by (simp add: upt_conv_Cons)
    ultimately show ?thesis using step Cons by (simp add: Let_def del: upt_Suc write_loop.simps)
  qed
qed

section \<open>Deleting a chain\<close>

lemma delete_chain_eq:
  assumes "chain (cluster_map s) c cs" "cs \<noteq> []" "length (cluster_map s) = 512"
  shows "delete_chain c s = Some (of_nat (last cs),
    s\<lparr> cluster_map := unlink (cluster_map s) (butlast cs),
       image := img.wr_all (map (\<lambda>x. (of_nat x, replicate 2048 0)) (butlast cs)) (image s) \<rparr>)"
  using assms
proof (induction cs arbitrary: c s)
  case Nil
  then show ?case by simp
next
  case (Cons x xs)
  let ?fat = "cluster_map s"
  have x: "x < 512" "c = of_nat x" "chain ?fat (?fat ! x) xs" "x \<notin> set xs"
    using Cons.prems(1) chain_distinct [OF Cons.prems(1)] by (auto intro: cluster_of_unat)
  show ?case
  proof (cases "xs = []")
    case True
    with x Cons.prems show ?thesis by (subst delete_chain.simps) simp
  next
    case False
    then have ne: "?fat ! x \<noteq> EOF" using x chain_det [of ?fat EOF xs "[]"] by auto
    let ?s = "s\<lparr> cluster_map := ?fat[x := 0], image := write_clusters (image s) (replicate 2048 0) (of_nat x) 1 \<rparr>"
    have "delete_chain c s = delete_chain (?fat ! x) ?s"
      using x ne Cons.prems by (subst delete_chain.simps) simp
    moreover have "chain (?fat[x := 0]) (?fat ! x) xs"
      using x(4) by (intro chain_cong [OF x(3)] ballI nth_list_update_neq) blast
    ultimately show ?thesis using Cons.IH [of ?s "?fat ! x"] False Cons.prems(3) by simp
  qed
qed

end
