(* ===== verification/FatEqs.thy ===== *)
theory FatEqs
  imports FatOps
begin

text \<open>
  The successful runs of \<open>write\<close> and \<open>delete\<close> as one list of cluster writes and a new allocation
  table, and the conditions of each result code.
\<close>

abbreviation request_key :: "request \<Rightarrow> key" where
  "request_key r \<equiv> (r_name r, r_ext r)"

abbreviation parent_dir :: "fs \<Rightarrow> request \<Rightarrow> dirtable" where
  "parent_dir s r \<equiv> dir_at s (parent_cluster_number r)"

lemma wf_request_key: "wf_request r \<Longrightarrow> wf_key (request_key r)"
  by (simp add: wf_request_def wf_key_def)

section \<open>Cluster writes\<close>

lemma wr_all_append: "img.wr_all (xs @ ys) d = img.wr_all ys (img.wr_all xs d)"
  by (simp add: img.wr_all_def)

lemma wr_all_one: "write_clusters d bs c 1 = img.wr_all [(c, bs)] d"
  by simp

lemma ok_writes_append [simp]: "img.ok_writes (xs @ ys) \<longleftrightarrow> img.ok_writes xs \<and> img.ok_writes ys"
  by (auto simp: img.ok_writes_def)

lemma cluster_at_writes:
  assumes "img.ok_writes ws" "distinct (map fst ws)" "x < 512" "image s' = img.wr_all ws (image s)"
  shows "cluster_at s' x = (case map_of ws (of_nat x) of None \<Rightarrow> cluster_at s x | Some bs \<Rightarrow> bs)"
proof (cases "map_of ws (of_nat x)")
  case None
  then have "of_nat x \<notin> fst ` set ws" by (simp add: map_of_eq_None_iff)
  then show ?thesis
    using None img.rd_wr_all_other [OF assms(1) cluster_ok_below [OF assms(3)]] assms(4)
    by (simp add: cluster_at_def)
next
  case (Some bs)
  then have "(of_nat x, bs) \<in> set ws" by (rule map_of_SomeD)
  then show ?thesis using Some img.rd_wr_all [OF assms(1,2)] assms(4) by (simp add: cluster_at_def)
qed

lemma dir_at_cluster: "dir_at s (of_nat x) = decode_table (cluster_at s x)"
  by (simp add: dir_at_def cluster_at_def)

lemma load_dir_update [simp]:
  "load_dir s c\<lparr> dir_table_buf := t \<rparr> = s\<lparr> dir_table_buf := t \<rparr>"
  "load_dir s c\<lparr> image := im, dir_table_buf := t \<rparr> = s\<lparr> image := im, dir_table_buf := t \<rparr>"
  "load_dir s c\<lparr> image := im, dir_table_buf := t, cluster_map := f \<rparr> = s\<lparr> image := im, dir_table_buf := t, cluster_map := f \<rparr>"
  by (simp_all add: load_dir_def)

section \<open>Write\<close>

definition file_writes :: "request \<Rightarrow> mem \<Rightarrow> dirtable \<Rightarrow> u32 list \<Rightarrow> nat list \<Rightarrow> (u32 \<times> u8 list) list" where
  "file_writes r m t fat cs =
     (parent_cluster_number r, encode_table t) #
     zip (map of_nat cs) (map (data_at m (r_buf r)) [0..<clusters_for (buffer_size r)]) @
     [(1, encode_fat fat)]"

definition folder_writes :: "request \<Rightarrow> dirtable \<Rightarrow> u32 list \<Rightarrow> nat \<Rightarrow> (u32 \<times> u8 list) list" where
  "folder_writes r t fat c =
     [(parent_cluster_number r, encode_table t),
      (of_nat c, encode_table (new_dir (r_name r) (parent_cluster_number r))), (1, encode_fat fat)]"

text \<open>What lets \<open>write\<close> get as far as its first change: slot \<open>i\<close> of the parent and the free
  cluster \<open>c\<close>.\<close>

definition can_write :: "request \<Rightarrow> fs \<Rightarrow> nat \<Rightarrow> nat \<Rightarrow> bool" where
  "can_write r s i c =
     (attribute (parent_dir s r ! 0) = ATTR_SUBDIRECTORY \<and>
      findEntry (parent_dir s r) (r_name r) (r_ext r) = - 9999 \<and>
      findIdxEmptyEntry (parent_dir s r) = int i \<and>
      findEmptySpace (cluster_map s) = int c)"

lemma can_writeD:
  "can_write r s i c \<Longrightarrow> i < 64 \<and> 2 \<le> i \<and> \<not> in_use (parent_dir s r ! i)"
  "can_write r s i c \<Longrightarrow> c < 512 \<and> cluster_map s ! c = 0 \<and> (\<exists>cs. free_clusters (cluster_map s) = c # cs)"
proof -
  show "can_write r s i c \<Longrightarrow> i < 64 \<and> 2 \<le> i \<and> \<not> in_use (parent_dir s r ! i)"
    by (auto simp: can_write_def dest: findIdxEmptyEntry_Some)
  assume "can_write r s i c"
  then have e: "findEmptySpace (cluster_map s) = int c" by (simp add: can_write_def)
  show "c < 512 \<and> cluster_map s ! c = 0 \<and> (\<exists>cs. free_clusters (cluster_map s) = c # cs)"
  proof (cases "free_clusters (cluster_map s)")
    case Nil
    with e show ?thesis by (simp add: findEmptySpace_eq)
  next
    case (Cons x xs)
    with e have "x = c" by (simp add: findEmptySpace_eq)
    moreover have "x \<in> set (free_clusters (cluster_map s))" using Cons by simp
    then have "x < 512 \<and> cluster_map s ! x = 0" by (simp only: free_clusters_set mem_Collect_eq)
    ultimately show ?thesis using Cons by simp
  qed
qed

text \<open>The run that makes no change: the code says which condition fails.\<close>

lemma write_fat_refused:
  assumes "\<nexists>i c. can_write r s i c"
  shows "\<exists>e \<in> {2, 1, - 1}. write_fat r m s = Some (e, load_dir s (parent_cluster_number r))"
proof (cases "attribute (parent_dir s r ! 0) = ATTR_SUBDIRECTORY \<and> findEntry (parent_dir s r) (r_name r) (r_ext r) = - 9999")
  case False
  then show ?thesis by (auto simp: write_fat_def Let_def)
next
  case True
  show ?thesis
  proof (cases "findIdxEmptyEntry (parent_dir s r) = - 9999 \<or> findEmptySpace (cluster_map s) = - 9999")
    case f: True
    then show ?thesis using True by (auto simp: write_fat_def Let_def)
  next
    case False
    then obtain i where i: "findIdxEmptyEntry (parent_dir s r) = int i" using findIdxEmptyEntry_cases by blast
    have "\<exists>c. findEmptySpace (cluster_map s) = int c"
      using False scan_foundE [of "\<lambda>i. cluster_map s ! i = 0" 0 512] by (auto simp: findEmptySpace_def)
    with True i assms show ?thesis by (auto simp: can_write_def)
  qed
qed

lemma write_file_eq:
  assumes "wf_request r" "fat_ok (cluster_map s)" "can_write r s i c" "buffer_size r \<noteq> 0"
  defines "t \<equiv> (parent_dir s r)[i := new_entry (parent_dir s r ! i) r c]"
    and "cs \<equiv> take (clusters_for (buffer_size r)) (free_clusters (cluster_map s))"
  defines "fat \<equiv> link (cluster_map s) cs"
  shows "write_fat r m s =
    (if clusters_for (buffer_size r) \<le> length (free_clusters (cluster_map s))
     then Some (0, s\<lparr> cluster_map := fat, dir_table_buf := t,
                      image := img.wr_all (file_writes r m t fat cs) (image s) \<rparr>)
     else Some (- 1, s\<lparr> cluster_map := fat, dir_table_buf := t,
                        image := img.wr_all (butlast (file_writes r m t fat cs)) (image s) \<rparr>))"
proof -
  have c: "c < 512" "cluster_map s ! c = 0" "free_clusters (cluster_map s) \<noteq> []" and i: "i < 64"
    using can_writeD [OF assms(3)] by auto
  have add: "addEntry (parent_dir s r) r (int i) (int c) = Some t"
    using addEntry_eq [OF wf_dir_at assms(1) i] c by (simp add: t_def)
  let ?s = "store_dir (load_dir s (parent_cluster_number r)\<lparr> dir_table_buf := t \<rparr>) (parent_cluster_number r)"
  have "write_loop (clusters_for (buffer_size r)) 0 m (r_buf r) (- 9999) ?s =
    Some (clusters_for (buffer_size r) \<le> length (free_clusters (cluster_map s)),
      ?s\<lparr> cluster_map := fat,
         image := img.wr_all (zip (map of_nat cs) (map (data_at m (r_buf r)) [0..<clusters_for (buffer_size r)])) (image ?s) \<rparr>)"
    using write_loop_eq [of ?s "- 9999" "[]" "clusters_for (buffer_size r)" 0 m "r_buf r"] c
      fat_ok_length [OF assms(2)] fat_ok_reserved [OF assms(2), of 0]
    by (simp add: store_dir_def Let_def cs_def fat_def)
  then show ?thesis
    using assms(3,4) add ceil_c_clusters [of "buffer_size r"]
    by (simp add: write_fat_def can_write_def Let_def store_dir_def store_fat_def file_writes_def
        wr_all_append butlast_append FAT_CLUSTER_NUMBER_def)
qed

lemma write_folder_eq:
  assumes "wf_request r" "fat_ok (cluster_map s)" "can_write r s i c" "buffer_size r = 0"
  defines "t \<equiv> (parent_dir s r)[i := new_entry (parent_dir s r ! i) r c]"
    and "fat \<equiv> (cluster_map s)[c := EOF]"
  shows "write_fat r m s = Some (0, s\<lparr> cluster_map := fat, dir_table_buf := t,
      image := img.wr_all (folder_writes r t fat c) (image s) \<rparr>)"
proof -
  have c: "c < 512" and i: "i < 64" using can_writeD [OF assms(3)] by auto
  have add: "addEntry (parent_dir s r) r (int i) (int c) = Some t"
    using addEntry_eq [OF wf_dir_at assms(1) i] c by (simp add: t_def)
  have nm: "length (r_name r) = 8" using assms(1) by (simp add: wf_request_def)
  show ?thesis
    using assms(3,4) add c fat_ok_length [OF assms(2)]
    by (simp add: write_fat_def can_write_def Let_def store_dir_def store_fat_def folder_writes_def
        init_directory_table_eq [OF nm] FAT_CLUSTER_NUMBER_def fat_def)
qed

section \<open>Delete\<close>

definition delete_writes :: "request \<Rightarrow> dirtable \<Rightarrow> u32 list \<Rightarrow> (nat \<times> u8 list) list \<Rightarrow> (u32 \<times> u8 list) list" where
  "delete_writes r t fat ds =
     map (\<lambda>(x, b). (of_nat x, b)) ds @ [(parent_cluster_number r, encode_table t), (1, encode_fat fat)]"

lemma delete_file_eq:
  assumes "findEntry (parent_dir s r) (r_name r) (r_ext r) = int i" "wf_request r"
    and "attribute (parent_dir s r ! i) \<noteq> ATTR_SUBDIRECTORY"
    and "chain (cluster_map s) (entry_cluster (parent_dir s r ! i)) cs" "cs \<noteq> []" "length (cluster_map s) = 512"
  defines "t \<equiv> (parent_dir s r)[i := cleared (parent_dir s r ! i)]"
    and "fat \<equiv> unlink (cluster_map s) cs"
  shows "delete_fat r s = Some (0, s\<lparr> cluster_map := fat, dir_table_buf := t,
      image := img.wr_all (delete_writes r t fat (map (\<lambda>x. (x, replicate 2048 0)) cs)) (image s) \<rparr>)"
proof -
  have i: "i < 64" using findEntry_Some [OF wf_dir_at wf_request_key [OF assms(2)]] assms(1) by simp
  have cs: "cs = butlast cs @ [last cs]" using assms(5) by simp
  have lt: "last cs < 512" using chain_below [OF assms(4)] assms(5) by simp
  have un: "unlink (cluster_map s) cs = (unlink (cluster_map s) (butlast cs))[last cs := 0]"
    by (subst cs) (simp add: unlink_def)
  have wr: "img.wr_all (map (\<lambda>x. (of_nat x, replicate 2048 0)) cs) d =
      write_clusters (img.wr_all (map (\<lambda>x. (of_nat x, replicate 2048 0)) (butlast cs)) d) (replicate 2048 0) (of_nat (last cs)) 1" for d
    by (subst cs) (simp add: wr_all_append)
  have del: "deleteEntry (parent_dir s r) (int i) = Some t"
    using deleteEntry_eq [OF wf_dir_at i] by (simp add: t_def)
  show ?thesis
    using assms(1,3) del delete_chain_eq [of "load_dir s (parent_cluster_number r)\<lparr> dir_table_buf := t \<rparr>", OF _ assms(5)]
      assms(4,6) lt un wr
    by (simp add: delete_fat_def Let_def store_dir_def store_fat_def delete_writes_def wr_all_append comp_def
        FAT_CLUSTER_NUMBER_def fat_def)
qed

lemma delete_folder_eq:
  assumes "findEntry (parent_dir s r) (r_name r) (r_ext r) = int i" "wf_request r"
    and "attribute (parent_dir s r ! i) = ATTR_SUBDIRECTORY"
    and "entry_cluster (parent_dir s r ! i) = of_nat c" "c < 512"
    and "isEmptyDir (dir_at s (of_nat c))" "length (cluster_map s) = 512"
  defines "t \<equiv> (parent_dir s r)[i := cleared (parent_dir s r ! i)]"
    and "fat \<equiv> unlink (cluster_map s) [c]"
  shows "delete_fat r s = Some (0, s\<lparr> cluster_map := fat, dir_table_buf := t,
      image := img.wr_all (delete_writes r t fat [(c, encode_table zero_table)]) (image s) \<rparr>)"
proof -
  have i: "i < 64" using findEntry_Some [OF wf_dir_at wf_request_key [OF assms(2)]] assms(1) by simp
  have del: "deleteEntry (parent_dir s r) (int i) = Some t"
    using deleteEntry_eq [OF wf_dir_at i] by (simp add: t_def)
  show ?thesis
    using assms(1,3-7) del
    by (simp add: delete_fat_def Let_def store_dir_def store_fat_def delete_writes_def dir_at_def
        FAT_CLUSTER_NUMBER_def fat_def)
qed

end
