(* ===== verification/FatVolume.thy ===== *)
theory FatVolume
  imports FatEqs
begin

text \<open>
  The file system as an abstract volume: a set of folders, each a map from names to nodes, a node
  being a folder or the bytes of a file.  \<open>vol_ok\<close> says that the store represents such a volume:
  the allocation table is consistent and on disk, every folder's table is tidy, every file has its
  own chain of the length its size asks for, and no cluster is shared.  The lemmas \<open>vol_add\<close> and
  \<open>vol_remove\<close> say that adding an entry with fresh clusters, or removing an entry with its clusters,
  keeps the volume consistent and changes nothing else; \<open>write\<close> and \<open>delete\<close> are instances.
\<close>

section \<open>The chain as a function\<close>

text \<open>No chain is longer than the table, so 512 steps are enough.\<close>

fun chain_list :: "nat \<Rightarrow> u32 list \<Rightarrow> u32 \<Rightarrow> nat list" where
  "chain_list 0 fat c = []"
| "chain_list (Suc n) fat c = (if c = EOF then [] else unat c # chain_list n fat (fat ! unat c))"

definition chain_of :: "u32 list \<Rightarrow> u32 \<Rightarrow> nat list" where
  "chain_of fat c = chain_list 512 fat c"

lemma chain_list_eq: "chain fat c cs \<Longrightarrow> length cs \<le> n \<Longrightarrow> chain_list n fat c = cs"
proof (induction cs arbitrary: c n)
  case Nil
  then show ?case by (cases n) auto
next
  case (Cons x xs)
  then have "c \<noteq> EOF" using unat_EOF by auto
  with Cons show ?case by (cases n) auto
qed

lemma chain_of_eq: "chain fat c cs \<Longrightarrow> chain_of fat c = cs"
  by (simp add: chain_of_def chain_list_eq chain_length)

section \<open>First clusters\<close>

lemma head_link:
  assumes ok: "fat_ok fat" and h: "head_cluster fat h" and cs: "distinct cs" "set cs \<subseteq> set (free_clusters fat)"
  shows "head_cluster (link fat cs) h"
proof -
  have new: "3 \<le> c \<and> c < 512 \<and> fat ! c = 0" if "c \<in> set cs" for c
    using that cs(2) free_not_reserved [OF ok, of c] free_clusters_set [of fat] by auto
  have hc: "h \<notin> set cs" using new [of h] h by (auto simp: head_cluster_def)
  have lt: "\<forall>c \<in> set cs. c < length fat" using new fat_ok_length [OF ok] by auto
  have h': "h < 512" using h by (simp add: head_cluster_def)
  have "link fat cs ! i \<noteq> of_nat h" if i: "i < 512" "3 \<le> i" for i
  proof (cases "i \<in> set cs")
    case False
    with h i show ?thesis by (simp add: link_other head_cluster_def)
  next
    case True
    then obtain k where k: "k < length cs" "i = cs ! k" by (metis in_set_conv_nth)
    show ?thesis
    proof (cases "Suc k < length cs")
      case True
      then have "cs ! Suc k \<in> set cs" by simp
      then have "cs ! Suc k \<noteq> h" "cs ! Suc k < 512" using hc new by auto
      with k True cs(1) lt h' show ?thesis by (simp add: link_nth cluster_inj)
    next
      case False
      with k cs(1) lt cluster_neq_EOF [OF h'] show ?thesis by (simp add: link_nth)
    qed
  qed
  with h hc show ?thesis by (simp add: head_cluster_def link_other)
qed

lemma head_link_new:
  assumes ok: "fat_ok fat" and cs: "distinct cs" "set cs \<subseteq> set (free_clusters fat)" "cs \<noteq> []"
  shows "head_cluster (link fat cs) (hd cs)"
proof -
  have new: "3 \<le> c \<and> c < 512 \<and> fat ! c = 0" if "c \<in> set cs" for c
    using that cs(2) free_not_reserved [OF ok, of c] free_clusters_set [of fat] by auto
  have h: "hd cs \<in> set cs" "hd cs = cs ! 0" using cs(3) by (simp_all add: hd_conv_nth)
  have lt: "\<forall>c \<in> set cs. c < length fat" "\<forall>c \<in> set cs. 0 < c \<and> c < 512"
    using new fat_ok_length [OF ok] by fastforce+
  have "link fat cs ! i \<noteq> of_nat (hd cs)" if i: "i < 512" "3 \<le> i" for i
  proof (cases "i \<in> set cs")
    case False
    show ?thesis
    proof
      assume "link fat cs ! i = of_nat (hd cs)"
      then have e: "fat ! i = of_nat (hd cs)" using False by (simp add: link_other)
      then show False
        using fat_ok_next [OF ok i(2,1)] new [OF h(1)] cluster_neq_EOF [of "hd cs"] cluster_eq_0 [of "hd cs"]
        by auto
    qed
  next
    case True
    then obtain k where k: "k < length cs" "i = cs ! k" by (metis in_set_conv_nth)
    show ?thesis
    proof (cases "Suc k < length cs")
      case True
      then have "cs ! Suc k \<in> set cs" by simp
      moreover have "cs ! Suc k \<noteq> cs ! 0" using cs(1,3) True by (simp add: nth_eq_iff_index_eq)
      ultimately show ?thesis using k True cs(1) lt h new by (simp add: link_nth cluster_inj)
    next
      case False
      with k cs(1) lt cluster_neq_EOF [of "hd cs"] new [OF h(1)] show ?thesis by (simp add: link_nth)
    qed
  qed
  with new [OF h(1)] link_nonzero [OF cs(1) lt(2) fat_ok_length [OF ok] h(1)] show ?thesis
    by (simp add: head_cluster_def)
qed

lemma head_unlink:
  assumes "length fat = 512" "head_cluster fat h" "h \<notin> set cs"
  shows "head_cluster (unlink fat cs) h"
  using assms cluster_eq_0 [of h] by (auto simp: head_cluster_def unlink_nth)

lemma head_chain_used:
  assumes "fat_ok fat" "head_cluster fat h" "chain fat (of_nat h) cs" "x \<in> set cs"
  shows "3 \<le> x \<and> x < 512 \<and> fat ! x \<noteq> 0"
proof -
  have h: "3 \<le> h" "h < 512" "fat ! h \<noteq> 0" using assms(2) by (simp_all add: head_cluster_def)
  have "\<forall>x \<in> set cs. 3 \<le> x \<and> x < 512 \<and> fat ! x \<noteq> 0"
    by (rule head_chain_ge3 [OF assms(1,3)]) (use h in simp_all)
  with assms(4) show ?thesis by blast
qed

text \<open>The chains of different files share no cluster.\<close>

lemma chains_apart:
  assumes ok: "fat_ok fat" and heads: "head_cluster fat h" "head_cluster fat h'" "h \<noteq> h'"
    and cs: "chain fat (of_nat h) cs" "chain fat (of_nat h') ds"
  shows "set cs \<inter> set ds = {}"
proof -
  have h: "3 \<le> h" "h < 512" "fat ! h \<noteq> 0" "3 \<le> h'" "h' < 512" "fat ! h' \<noteq> 0"
    using heads by (simp_all add: head_cluster_def)
  have ge: "\<forall>x \<in> set cs. 3 \<le> x \<and> x < 512 \<and> fat ! x \<noteq> 0" "\<forall>x \<in> set ds. 3 \<le> x \<and> x < 512 \<and> fat ! x \<noteq> 0"
    using head_chain_used [OF ok heads(1) cs(1)] head_chain_used [OF ok heads(2) cs(2)] by blast+
  have hd: "cs ! 0 = h" "ds ! 0 = h'" if "0 < length cs" "0 < length ds"
  proof -
    show "cs ! 0 = h" using that(1) cs(1) h(2) by (cases cs) auto
    show "ds ! 0 = h'" using that(2) cs(2) h(5) by (cases ds) auto
  qed
  have "cs ! k \<noteq> ds ! l" if "k < length cs" "l < length ds" for k l
    using that
  proof (induction k arbitrary: l)
    case 0
    show ?case
    proof (cases l)
      case 0
      have "0 < length cs" "0 < length ds" using 0 "0.prems" by linarith+
      with hd heads(3) 0 show ?thesis by simp
    next
      case (Suc l')
      have l': "l' < length ds" "Suc l' < length ds" using "0.prems" Suc by simp_all
      have "fat ! (ds ! l') = of_nat (ds ! l)" using chain_nth [OF cs(2) l'(1)] l'(2) Suc by simp
      moreover have "ds ! l' \<in> set ds" using l' by simp
      ultimately show ?thesis using heads(1) hd(1) ge(2) "0.prems" by (fastforce simp: head_cluster_def)
    qed
  next
    case (Suc k)
    have k: "fat ! (cs ! k) = of_nat (cs ! Suc k)" "cs ! k \<in> set cs" "cs ! Suc k \<in> set cs"
      using chain_nth [OF cs(1), of k] Suc.prems by simp_all
    show ?case
    proof (cases l)
      case 0
      with k heads(2) hd(2) ge(1) Suc.prems show ?thesis by (fastforce simp: head_cluster_def)
    next
      case (Suc l')
      have l': "fat ! (ds ! l') = of_nat (ds ! l)" "ds ! l' \<in> set ds" "l' < length ds"
        using chain_nth [OF cs(2), of l'] Suc Suc.prems by simp_all
      have ne: "fat ! (cs ! k) \<noteq> 0" "fat ! (cs ! k) \<noteq> EOF"
        using k ge(1) cluster_neq_EOF [of "cs ! Suc k"] by fastforce+
      show ?thesis
      proof
        assume "cs ! Suc k = ds ! l"
        then have "cs ! k = ds ! l'" using k l' ge ne by (intro fat_ok_inj [OF ok]) auto
        with Suc.IH [of l'] Suc.prems l' show False by simp
      qed
    qed
  qed
  then show ?thesis by (metis disjoint_iff in_set_conv_nth)
qed

section \<open>Volumes\<close>

datatype node = Folder u32 | File "u8 list"

definition content :: "fs \<Rightarrow> dirent \<Rightarrow> node" where
  "content s e =
     (if attribute e = ATTR_SUBDIRECTORY then Folder (entry_cluster e)
      else File (take (unat (filesize e)) (file_bytes s (chain_of (cluster_map s) (entry_cluster e)))))"

definition volume :: "fs \<Rightarrow> nat \<Rightarrow> key \<rightharpoonup> node" where
  "volume s p k = map_option (content s) (dir_map (dir_at s (of_nat p)) k)"

definition slot :: "fs \<Rightarrow> nat \<Rightarrow> nat \<Rightarrow> dirent" where
  "slot s p i = dir_at s (of_nat p) ! i"

definition used :: "fs \<Rightarrow> nat \<Rightarrow> nat \<Rightarrow> bool" where
  "used s p i = (2 \<le> i \<and> i < 64 \<and> in_use (slot s p i))"

definition clus :: "dirent \<Rightarrow> nat" where
  "clus e = unat (entry_cluster e)"

definition is_folder :: "dirent \<Rightarrow> bool" where
  "is_folder e = (attribute e = ATTR_SUBDIRECTORY)"

definition entry_ok :: "u32 list \<Rightarrow> nat set \<Rightarrow> dirent \<Rightarrow> bool" where
  "entry_ok fat D e =
     (if is_folder e then clus e \<in> D - {2} \<and> filesize e = 0
      else head_cluster fat (clus e) \<and> clus e \<notin> D \<and> length (chain_of fat (entry_cluster e)) = clusters_for (filesize e))"

text \<open>\<open>D\<close> is the set of clusters that hold the folders of the volume.\<close>

definition vol_ok :: "fs \<Rightarrow> nat set \<Rightarrow> bool" where
  "vol_ok s D =
     (fat_ok (cluster_map s) \<and> cluster_at s 1 = encode_fat (cluster_map s) \<and> 2 \<in> D \<and>
      take 512 (cluster_at s 0) = fs_signature \<and>
      (\<forall>p \<in> D. p \<noteq> 2 \<longrightarrow> head_cluster (cluster_map s) p \<and> cluster_map s ! p = EOF) \<and>
      (\<forall>p \<in> D. tidy (dir_at s (of_nat p)) \<and> is_folder (slot s p 0)) \<and>
      (\<forall>p \<in> D. \<forall>i. used s p i \<longrightarrow> entry_ok (cluster_map s) D (slot s p i)) \<and>
      (\<forall>p \<in> D. \<forall>q \<in> D. \<forall>i j. used s p i \<longrightarrow> used s q j \<longrightarrow> clus (slot s p i) = clus (slot s q j) \<longrightarrow> p = q \<and> i = j))"

lemma volD:
  assumes "vol_ok s D"
  shows "fat_ok (cluster_map s)" "cluster_at s 1 = encode_fat (cluster_map s)" "2 \<in> D"
    and "p \<in> D \<Longrightarrow> p \<noteq> 2 \<Longrightarrow> head_cluster (cluster_map s) p \<and> cluster_map s ! p = EOF"
    and "p \<in> D \<Longrightarrow> tidy (dir_at s (of_nat p))" "p \<in> D \<Longrightarrow> is_folder (slot s p 0)"
    and "p \<in> D \<Longrightarrow> used s p i \<Longrightarrow> entry_ok (cluster_map s) D (slot s p i)"
    and "p \<in> D \<Longrightarrow> q \<in> D \<Longrightarrow> used s p i \<Longrightarrow> used s q j \<Longrightarrow> clus (slot s p i) = clus (slot s q j) \<Longrightarrow> p = q \<and> i = j"
    and "take 512 (cluster_at s 0) = fs_signature"
  using assms unfolding vol_ok_def by blast+

lemma vol_folder:
  assumes "vol_ok s D" "p \<in> D"
  shows "2 \<le> p \<and> p < 512 \<and> cluster_map s ! p = EOF"
  using volD(1) [OF assms(1)] volD(4) [OF assms(1), of p] assms(2) fat_ok_low [of "cluster_map s"]
  by (cases "p = 2") (auto simp: head_cluster_def)

text \<open>A file's chain, and that it is its own.\<close>

lemma vol_file:
  assumes "vol_ok s D" "q \<in> D" "used s q j" "\<not> is_folder (slot s q j)"
  obtains ds where "chain (cluster_map s) (entry_cluster (slot s q j)) ds" "ds \<noteq> []"
    "hd ds = clus (slot s q j)" "\<forall>x \<in> set ds. 3 \<le> x \<and> x < 512 \<and> cluster_map s ! x \<noteq> 0 \<and> x \<notin> D"
    "length ds = clusters_for (filesize (slot s q j))"
proof -
  let ?fat = "cluster_map s" and ?h = "clus (slot s q j)"
  note ok = volD(1) [OF assms(1)]
  have h: "head_cluster ?fat ?h" "?h \<notin> D" and
    n: "length (chain_of ?fat (entry_cluster (slot s q j))) = clusters_for (filesize (slot s q j))"
    using volD(7) [OF assms(1-3)] assms(4) by (simp_all add: entry_ok_def)
  have ec: "of_nat ?h = entry_cluster (slot s q j)" by (simp add: clus_def)
  obtain ds where ds: "chain ?fat (of_nat ?h) ds" using head_chain [OF ok h(1)] by blast
  have h3: "3 \<le> ?h" "?h < 512" "?fat ! ?h \<noteq> 0" using h by (simp_all add: head_cluster_def)
  have ge: "\<forall>x \<in> set ds. 3 \<le> x \<and> x < 512 \<and> ?fat ! x \<noteq> 0"
    using head_chain_ge3 [OF ok ds] h3 by simp
  have "x \<notin> D" if x: "x \<in> set ds" for x
  proof
    assume "x \<in> D"
    moreover have "x \<noteq> 2" using ge x by fastforce
    ultimately have "head_cluster ?fat x" "?fat ! x = EOF" using volD(4) [OF assms(1)] by auto
    moreover from this have "chain ?fat (of_nat x) [x]" by (simp add: head_cluster_def)
    moreover have "?h \<noteq> x" using h \<open>x \<in> D\<close> by auto
    ultimately show False using chains_apart [OF ok h(1) _ _ ds] x by fastforce
  qed
  moreover have "ds \<noteq> [] \<and> hd ds = ?h"
    using chain_hd [OF ds] cluster_neq_EOF [OF h3(2)] h3 by simp
  ultimately show ?thesis using that ds ge n chain_of_eq [OF ds] ec by metis
qed

lemma content_frame:
  assumes "\<not> is_folder e \<Longrightarrow> \<exists>ds. chain (cluster_map s) (entry_cluster e) ds \<and>
    (\<forall>x \<in> set ds. cluster_map s' ! x = cluster_map s ! x \<and> cluster_at s' x = cluster_at s x)"
  shows "content s' e = content s e"
proof (cases "is_folder e")
  case False
  with assms obtain ds where ds: "chain (cluster_map s) (entry_cluster e) ds"
    "\<forall>x \<in> set ds. cluster_map s' ! x = cluster_map s ! x \<and> cluster_at s' x = cluster_at s x" by blast
  then have "chain (cluster_map s') (entry_cluster e) ds" by (intro chain_cong [OF ds(1)]) auto
  with ds have "chain_of (cluster_map s') (entry_cluster e) = ds" "chain_of (cluster_map s) (entry_cluster e) = ds"
    by (simp_all add: chain_of_eq)
  moreover have "file_bytes s' ds = file_bytes s ds"
    using ds(2) by (auto simp: file_bytes_def intro!: arg_cong [where f = concat])
  ultimately show ?thesis by (simp add: content_def)
qed (simp add: content_def is_folder_def)

lemma volume_frame:
  assumes "dir_at s' (of_nat q) = dir_at s (of_nat q)" "tidy (dir_at s (of_nat q))"
    and "\<And>j. used s q j \<Longrightarrow> content s' (slot s q j) = content s (slot s q j)"
  shows "volume s' q = volume s q"
proof
  fix k
  show "volume s' q k = volume s q k"
  proof (cases "dir_map (dir_at s (of_nat q)) k")
    case (Some e)
    then obtain j where "used s q j" "e = slot s q j"
      using dir_map_Some [OF assms(2)] by (auto simp: used_def slot_def)
    with Some assms(1,3) show ?thesis by (simp add: volume_def)
  qed (simp add: volume_def assms(1))
qed

section \<open>Adding and removing an entry\<close>

text \<open>A file entry whose chain is not touched keeps its content and its good standing.\<close>

lemma file_kept:
  assumes "vol_ok s D" "q \<in> D" "used s q j" "\<not> is_folder (slot s q j)"
    and "\<And>x ds. chain (cluster_map s) (entry_cluster (slot s q j)) ds \<Longrightarrow> x \<in> set ds \<Longrightarrow> x \<notin> D \<Longrightarrow> 3 \<le> x \<Longrightarrow> x < 512 \<Longrightarrow>
      cluster_map s ! x \<noteq> 0 \<Longrightarrow> cluster_map s' ! x = cluster_map s ! x \<and> cluster_at s' x = cluster_at s x"
  shows "content s' (slot s q j) = content s (slot s q j)"
    and "length (chain_of (cluster_map s') (entry_cluster (slot s q j))) = clusters_for (filesize (slot s q j))"
proof -
  obtain ds where ds: "chain (cluster_map s) (entry_cluster (slot s q j)) ds"
    "\<forall>x \<in> set ds. 3 \<le> x \<and> x < 512 \<and> cluster_map s ! x \<noteq> 0 \<and> x \<notin> D"
    "length ds = clusters_for (filesize (slot s q j))"
    using vol_file [OF assms(1-4)] by metis
  have fr: "\<forall>x \<in> set ds. cluster_map s' ! x = cluster_map s ! x \<and> cluster_at s' x = cluster_at s x"
    using ds(2) assms(5) [OF ds(1)] by blast
  then show "content s' (slot s q j) = content s (slot s q j)" using ds(1) by (intro content_frame) blast
  have "chain (cluster_map s') (entry_cluster (slot s q j)) ds" using fr by (intro chain_cong [OF ds(1)]) blast
  then show "length (chain_of (cluster_map s') (entry_cluster (slot s q j))) = clusters_for (filesize (slot s q j))"
    using ds(3) by (simp add: chain_of_eq)
qed

text \<open>\<open>adds s s' D D' p i e cs\<close>: the state \<open>s'\<close> has the new entry \<open>e\<close> in slot \<open>i\<close> of folder \<open>p\<close>, with
  the free clusters \<open>cs\<close> linked for it, and is otherwise as \<open>s\<close>.\<close>

definition adds :: "fs \<Rightarrow> fs \<Rightarrow> nat set \<Rightarrow> nat set \<Rightarrow> nat \<Rightarrow> nat \<Rightarrow> dirent \<Rightarrow> nat list \<Rightarrow> bool" where
  "adds s s' D D' p i e cs =
     (p \<in> D \<and> 2 \<le> i \<and> i < 64 \<and> \<not> used s p i \<and> in_use e \<and>
      distinct cs \<and> set cs \<subseteq> set (free_clusters (cluster_map s)) \<and> cs \<noteq> [] \<and> clus e = hd cs \<and>
      cluster_map s' = link (cluster_map s) cs \<and> cluster_at s' 1 = encode_fat (cluster_map s') \<and>
      dir_at s' (of_nat p) = (dir_at s (of_nat p))[i := e] \<and> tidy (dir_at s' (of_nat p)) \<and>
      (\<forall>x < 512. x \<noteq> p \<longrightarrow> x \<noteq> 1 \<longrightarrow> x \<notin> set cs \<longrightarrow> cluster_at s' x = cluster_at s x) \<and>
      (if is_folder e
       then D' = insert (hd cs) D \<and> cs = [hd cs] \<and> filesize e = 0 \<and> tidy (dir_at s' (of_nat (hd cs))) \<and>
            dir_map (dir_at s' (of_nat (hd cs))) = Map.empty \<and> is_folder (slot s' (hd cs) 0)
       else D' = D \<and> length cs = clusters_for (filesize e)))"

lemma addsD:
  assumes "adds s s' D D' p i e cs"
  shows "p \<in> D" "2 \<le> i" "i < 64" "\<not> used s p i" "in_use e" "distinct cs"
    "set cs \<subseteq> set (free_clusters (cluster_map s))" "cs \<noteq> []" "clus e = hd cs"
    "cluster_map s' = link (cluster_map s) cs" "cluster_at s' 1 = encode_fat (cluster_map s')"
    "dir_at s' (of_nat p) = (dir_at s (of_nat p))[i := e]" "tidy (dir_at s' (of_nat p))"
    "x < 512 \<Longrightarrow> x \<noteq> p \<Longrightarrow> x \<noteq> 1 \<Longrightarrow> x \<notin> set cs \<Longrightarrow> cluster_at s' x = cluster_at s x"
    "is_folder e \<Longrightarrow> D' = insert (hd cs) D \<and> cs = [hd cs] \<and> filesize e = 0 \<and> tidy (dir_at s' (of_nat (hd cs))) \<and>
            dir_map (dir_at s' (of_nat (hd cs))) = Map.empty \<and> is_folder (slot s' (hd cs) 0)"
    "\<not> is_folder e \<Longrightarrow> D' = D \<and> length cs = clusters_for (filesize e)"
  using assms unfolding adds_def by (auto split: if_splits)

lemma new_clusters:
  assumes ok: "vol_ok s D" and ad: "adds s s' D D' p i e cs" and "x \<in> set cs"
  shows "3 \<le> x \<and> x < 512 \<and> cluster_map s ! x = 0"
  using assms(3) addsD(7) [OF ad] free_not_reserved [OF volD(1) [OF ok], of x] free_clusters_set [of "cluster_map s"]
  by auto

lemma D_new: "vol_ok s D \<Longrightarrow> adds s s' D D' p i e cs \<Longrightarrow> q \<in> D \<Longrightarrow> q \<notin> set cs"
  using vol_folder [of s D q] new_clusters [of s D s' D' p i e cs q] by auto

lemma map_kept: "adds s s' D D' p i e cs \<Longrightarrow> x \<notin> set cs \<Longrightarrow> cluster_map s' ! x = cluster_map s ! x"
  using addsD(10) [of s s' D D' p i e cs] by (simp add: link_other)

lemma dir_kept:
  assumes ok: "vol_ok s D" and ad: "adds s s' D D' p i e cs" and "q \<in> D" "q \<noteq> p"
  shows "dir_at s' (of_nat q) = dir_at s (of_nat q)"
  using addsD(14) [OF ad, of q] vol_folder [OF ok, of q] D_new [OF ok ad, of q] assms(3,4) by (auto simp: dir_at_cluster)

lemma slot_kept:
  assumes ok: "vol_ok s D" and ad: "adds s s' D D' p i e cs" and "q \<in> D" "(q, j) \<noteq> (p, i)"
  shows "slot s' q j = slot s q j"
  using dir_kept [OF ok ad, of q] addsD(12) [OF ad] assms(3,4) by (cases "q = p") (auto simp: slot_def)

lemma slot_new: "adds s s' D D' p i e cs \<Longrightarrow> slot s' p i = e"
  using addsD(3,12) [of s s' D D' p i e cs] wf_table_length [OF wf_dir_at, of s "of_nat p"] by (simp add: slot_def)

lemma used_kept:
  "vol_ok s D \<Longrightarrow> adds s s' D D' p i e cs \<Longrightarrow> q \<in> D \<Longrightarrow> (q, j) \<noteq> (p, i) \<Longrightarrow> used s' q j = used s q j"
  using slot_kept by (simp add: used_def)

lemma add_file_kept:
  assumes ok: "vol_ok s D" and ad: "adds s s' D D' p i e cs" and q: "q \<in> D" "used s q j" "\<not> is_folder (slot s q j)"
  shows "content s' (slot s q j) = content s (slot s q j)"
    and "length (chain_of (cluster_map s') (entry_cluster (slot s q j))) = clusters_for (filesize (slot s q j))"
proof -
  have fr: "cluster_map s' ! x = cluster_map s ! x \<and> cluster_at s' x = cluster_at s x"
    if "x \<notin> D" "3 \<le> x" "x < 512" "cluster_map s ! x \<noteq> 0" for x
  proof -
    have "x \<notin> set cs" using new_clusters [OF ok ad, of x] that by auto
    moreover have "x \<noteq> p" "x \<noteq> 1" using that addsD(1) [OF ad] by auto
    ultimately show ?thesis using map_kept [OF ad] addsD(14) [OF ad] that by simp
  qed
  show "content s' (slot s q j) = content s (slot s q j)"
    by (rule file_kept(1) [OF ok q]) (rule fr)
  show "length (chain_of (cluster_map s') (entry_cluster (slot s q j))) = clusters_for (filesize (slot s q j))"
    by (rule file_kept(2) [OF ok q]) (rule fr)
qed

lemma add_content_kept:
  "vol_ok s D \<Longrightarrow> adds s s' D D' p i e cs \<Longrightarrow> q \<in> D \<Longrightarrow> used s q j \<Longrightarrow>
     content s' (slot s q j) = content s (slot s q j)"
  using add_file_kept(1) [of s D s' D' p i e cs q j]
  by (cases "is_folder (slot s q j)") (auto simp: content_def is_folder_def)

text \<open>Every folder of the new volume, and which slots are in use there.\<close>

lemma add_used:
  assumes ok: "vol_ok s D" and ad: "adds s s' D D' p i e cs" and "q \<in> D'" "used s' q j"
  shows "(q = p \<and> j = i) \<or> (q \<in> D \<and> (q, j) \<noteq> (p, i) \<and> used s q j \<and> slot s' q j = slot s q j)"
proof (cases "q \<in> D")
  case True
  then show ?thesis using slot_kept [OF ok ad True] used_kept [OF ok ad True] assms(4) by auto
next
  case False
  with addsD(15,16) [OF ad] assms(3) have f: "q = hd cs" "tidy (dir_at s' (of_nat q))" "dir_map (dir_at s' (of_nat q)) = Map.empty"
    by (auto split: if_splits)
  then have "\<not> used s' q j" using dir_map_Some [OF f(2)] unfolding used_def slot_def by fastforce
  with assms(4) show ?thesis by simp
qed

theorem vol_add:
  assumes ok: "vol_ok s D" and ad: "adds s s' D D' p i e cs"
  shows "vol_ok s' D'"
proof -
  let ?fat = "cluster_map s" and ?fat' = "cluster_map s'"
  note a = addsD [OF ad] and v = volD [OF ok] and new = new_clusters [OF ok ad]
  have c: "hd cs \<in> set cs" using a(8) by simp
  have fat': "fat_ok ?fat'" unfolding a(10) by (rule fat_ok_link [OF v(1) a(6,7)])
  have DD: "D \<subseteq> D'" "D' \<subseteq> insert (hd cs) D" using a(15,16) by (auto split: if_splits)
  have sig: "take 512 (cluster_at s' 0) = fs_signature"
  proof -
    have "0 \<noteq> p" using vol_folder [OF ok a(1)] by linarith
    moreover have "0 \<notin> set cs" using new [of 0] by linarith
    ultimately have "cluster_at s' 0 = cluster_at s 0" by (intro a(14)) simp_all
    then show ?thesis using v(9) by (simp only:)
  qed
  have cD: "hd cs \<notin> D" using D_new [OF ok ad] c by blast
  have hnew: "head_cluster ?fat' (hd cs)" unfolding a(10) by (rule head_link_new [OF v(1) a(6,7,8)])
  have hold: "head_cluster ?fat h \<Longrightarrow> head_cluster ?fat' h" for h
    unfolding a(10) by (rule head_link [OF v(1) _ a(6,7)])
  have folders: "q \<noteq> 2 \<longrightarrow> head_cluster ?fat' q \<and> ?fat' ! q = EOF" if q: "q \<in> D'" for q
  proof (cases "q \<in> D")
    case True
    then show ?thesis using v(4) [of q] hold [of q] map_kept [OF ad D_new [OF ok ad True]] by auto
  next
    case False
    with DD q have q: "q = hd cs" by auto
    with False q that a(15,16) have "cs = [hd cs]" by (auto split: if_splits)
    then have "?fat' ! hd cs = EOF" using a(10) new [OF c] fat_ok_length [OF v(1)]
      by (metis link.simps(2) nth_list_update_eq)
    with q hnew show ?thesis by simp
  qed
  have tables: "tidy (dir_at s' (of_nat q)) \<and> is_folder (slot s' q 0)" if q: "q \<in> D'" for q
  proof (cases "q \<in> D")
    case True
    have "slot s' q 0 = slot s q 0" using slot_kept [OF ok ad True] a(2) by auto
    then show ?thesis using v(5,6) [OF True] dir_kept [OF ok ad True] a(13) by (cases "q = p") auto
  next
    case False
    with DD q a(15,16) show ?thesis by (auto split: if_splits)
  qed
  have entries: "entry_ok ?fat' D' (slot s' q j)" if q: "q \<in> D'" "used s' q j" for q j
    using add_used [OF ok ad q]
  proof
    assume "q = p \<and> j = i"
    then have e: "slot s' q j = e" using slot_new [OF ad] by simp
    show ?thesis
    proof (cases "is_folder e")
      case True
      then show ?thesis using e a(9) a(15) new [OF c] by (auto simp: entry_ok_def)
    next
      case False
      have "chain ?fat' (of_nat (hd cs)) cs"
        unfolding a(10) using a(6,8) new fat_ok_length [OF v(1)] by (intro link_chain) auto
      then have "chain_of ?fat' (entry_cluster e) = cs"
        using a(9) by (intro chain_of_eq) (auto simp: clus_def dest: cluster_of_unat)
      then show ?thesis using False e a(9) a(16) hnew cD by (simp add: entry_ok_def)
    qed
  next
    assume o: "q \<in> D \<and> (q, j) \<noteq> (p, i) \<and> used s q j \<and> slot s' q j = slot s q j"
    then have eo: "entry_ok ?fat D (slot s q j)" using v(7) by blast
    show ?thesis
    proof (cases "is_folder (slot s q j)")
      case True
      with eo o DD show ?thesis by (auto simp: entry_ok_def)
    next
      case False
      then have h: "head_cluster ?fat (clus (slot s q j))" "clus (slot s q j) \<notin> D" using eo by (simp_all add: entry_ok_def)
      then have "clus (slot s q j) \<noteq> hd cs" using new [OF c] by (auto simp: head_cluster_def)
      with h DD False hold o add_file_kept(2) [OF ok ad _ _ False] show ?thesis by (auto simp: entry_ok_def)
    qed
  qed
  have old_clus: "clus (slot s q j) \<noteq> hd cs" if "q \<in> D" "used s q j" for q j
    using v(7) [OF that] cD new [OF c] by (auto simp: entry_ok_def head_cluster_def split: if_splits)
  have inject: "q = q' \<and> j = j'"
    if q: "q \<in> D'" "q' \<in> D'" "used s' q j" "used s' q' j'" "clus (slot s' q j) = clus (slot s' q' j')" for q q' j j'
    using add_used [OF ok ad q(1,3)] add_used [OF ok ad q(2,4)] q(5) old_clus slot_new [OF ad] a(9) v(8)
    by metis
  show ?thesis
    unfolding vol_ok_def using fat' a(11) DD v(3) sig folders tables entries inject by blast
qed

text \<open>What the volume shows after the addition.\<close>

lemma volume_add_other:
  assumes ok: "vol_ok s D" and ad: "adds s s' D D' p i e cs" and "q \<in> D" "q \<noteq> p"
  shows "volume s' q = volume s q"
  using dir_kept [OF ok ad assms(3,4)] volD(5) [OF ok assms(3)] add_content_kept [OF ok ad assms(3)]
  by (intro volume_frame) auto

lemma volume_add_parent:
  assumes ok: "vol_ok s D" and ad: "adds s s' D D' p i e cs"
    and m: "dir_map (dir_at s' (of_nat p)) = (dir_map (dir_at s (of_nat p)))(k \<mapsto> e)"
  shows "volume s' p = (volume s p)(k \<mapsto> content s' e)"
proof
  fix k'
  show "volume s' p k' = ((volume s p)(k \<mapsto> content s' e)) k'"
  proof (cases "k' = k")
    case False
    show ?thesis
    proof (cases "dir_map (dir_at s (of_nat p)) k'")
      case (Some d)
      then obtain j where "used s p j" "d = slot s p j"
        using dir_map_Some [OF volD(5) [OF ok addsD(1) [OF ad]]] by (auto simp: used_def slot_def)
      with Some False m add_content_kept [OF ok ad addsD(1) [OF ad]] show ?thesis by (simp add: volume_def)
    qed (use False m in \<open>simp add: volume_def\<close>)
  qed (simp add: volume_def m)
qed

text \<open>\<open>removes s s' D D' p i cs\<close>: in \<open>s'\<close> the entry in slot \<open>i\<close> of folder \<open>p\<close> is cleared and the
  clusters \<open>cs\<close> of its chain are free.\<close>

definition removes :: "fs \<Rightarrow> fs \<Rightarrow> nat set \<Rightarrow> nat set \<Rightarrow> nat \<Rightarrow> nat \<Rightarrow> nat list \<Rightarrow> bool" where
  "removes s s' D D' p i cs =
     (p \<in> D \<and> used s p i \<and> chain (cluster_map s) (entry_cluster (slot s p i)) cs \<and>
      cluster_map s' = unlink (cluster_map s) cs \<and> cluster_at s' 1 = encode_fat (cluster_map s') \<and>
      dir_at s' (of_nat p) = (dir_at s (of_nat p))[i := cleared (slot s p i)] \<and> tidy (dir_at s' (of_nat p)) \<and>
      (\<forall>x < 512. x \<noteq> p \<longrightarrow> x \<noteq> 1 \<longrightarrow> x \<notin> set cs \<longrightarrow> cluster_at s' x = cluster_at s x) \<and>
      (if is_folder (slot s p i)
       then D' = D - {clus (slot s p i)} \<and> isEmptyDir (dir_at s (of_nat (clus (slot s p i))))
       else D' = D))"

lemma removesD:
  assumes "removes s s' D D' p i cs"
  shows "p \<in> D" "used s p i" "chain (cluster_map s) (entry_cluster (slot s p i)) cs"
    "cluster_map s' = unlink (cluster_map s) cs" "cluster_at s' 1 = encode_fat (cluster_map s')"
    "dir_at s' (of_nat p) = (dir_at s (of_nat p))[i := cleared (slot s p i)]" "tidy (dir_at s' (of_nat p))"
    "x < 512 \<Longrightarrow> x \<noteq> p \<Longrightarrow> x \<noteq> 1 \<Longrightarrow> x \<notin> set cs \<Longrightarrow> cluster_at s' x = cluster_at s x"
    "is_folder (slot s p i) \<Longrightarrow> D' = D - {clus (slot s p i)} \<and> isEmptyDir (dir_at s (of_nat (clus (slot s p i))))"
    "\<not> is_folder (slot s p i) \<Longrightarrow> D' = D"
  using assms unfolding removes_def by (auto split: if_splits)

text \<open>The entry removed starts a chain of its own.\<close>

lemma removed_head:
  assumes ok: "vol_ok s D" and re: "removes s s' D D' p i cs"
  shows "head_cluster (cluster_map s) (clus (slot s p i))"
    and "is_folder (slot s p i) \<Longrightarrow> cs = [clus (slot s p i)] \<and> clus (slot s p i) \<in> D \<and> clus (slot s p i) \<noteq> p"
    and "\<not> is_folder (slot s p i) \<Longrightarrow> clus (slot s p i) \<notin> D"
    and "chain (cluster_map s) (of_nat (clus (slot s p i))) cs"
proof -
  let ?e = "slot s p i"
  note r = removesD [OF re] and v = volD [OF ok]
  show ch: "chain (cluster_map s) (of_nat (clus ?e)) cs" using r(3) by (simp add: clus_def)
  have eo: "entry_ok (cluster_map s) D ?e" by (rule v(7) [OF r(1,2)])
  show "head_cluster (cluster_map s) (clus ?e)"
    using eo v(4) [of "clus ?e"] by (auto simp: entry_ok_def split: if_splits)
  show "\<not> is_folder ?e \<Longrightarrow> clus ?e \<notin> D" using eo by (simp add: entry_ok_def)
  assume f: "is_folder ?e"
  then have c: "clus ?e \<in> D" "clus ?e \<noteq> 2" using eo by (simp_all add: entry_ok_def)
  then have "chain (cluster_map s) (of_nat (clus ?e)) [clus ?e]"
    using vol_folder [OF ok c(1)] by simp
  moreover have "clus ?e \<noteq> p"
    using r(9) [OF f] r(2) by (auto simp: isEmptyDir_iff used_def slot_def)
  ultimately show "cs = [clus ?e] \<and> clus ?e \<in> D \<and> clus ?e \<noteq> p" using chain_det [OF ch] c by auto
qed

lemma rem_D:
  assumes ok: "vol_ok s D" and re: "removes s s' D D' p i cs"
  shows "D' \<subseteq> D" "q \<in> D' \<Longrightarrow> q \<notin> set cs" "p \<in> D'" "2 \<in> D'"
proof -
  let ?e = "slot s p i"
  note r = removesD [OF re] and v = volD [OF ok] and h = removed_head [OF ok re]
  show D: "D' \<subseteq> D" using r(9,10) by (cases "is_folder ?e") auto
  have "3 \<le> clus ?e" using h(1) by (simp add: head_cluster_def)
  then show "p \<in> D'" "2 \<in> D'" using r(1,9,10) v(3) h(2) by (cases "is_folder ?e"; auto)+
  show "q \<notin> set cs" if q: "q \<in> D'"
  proof (cases "is_folder ?e")
    case True
    with r(9) h(2) q show ?thesis by auto
  next
    case False
    obtain ds where "chain (cluster_map s) (entry_cluster ?e) ds" "\<forall>x \<in> set ds. x \<notin> D"
      using vol_file [OF ok r(1,2) False] by metis
    then show ?thesis using chain_det [OF r(3)] D q by auto
  qed
qed

lemma rem_dir_kept:
  assumes ok: "vol_ok s D" and re: "removes s s' D D' p i cs" and "q \<in> D'" "q \<noteq> p"
  shows "dir_at s' (of_nat q) = dir_at s (of_nat q)"
proof -
  have "q \<in> D" "q \<notin> set cs" using rem_D [OF ok re] assms(3) by auto
  then show ?thesis
    using removesD(8) [OF re, of q] vol_folder [OF ok] assms(4) by (force simp: dir_at_cluster)
qed

lemma rem_used:
  assumes ok: "vol_ok s D" and re: "removes s s' D D' p i cs" and "q \<in> D'" "used s' q j"
  shows "(q, j) \<noteq> (p, i) \<and> used s q j \<and> slot s' q j = slot s q j"
proof -
  have i: "i < 64" using removesD(2) [OF re] by (simp add: used_def)
  have "\<not> used s' p i"
    using removesD(6) [OF re] i wf_table_length [OF wf_dir_at, of s "of_nat p"]
    by (simp add: used_def slot_def in_use_def cleared_def)
  then have ne: "(q, j) \<noteq> (p, i)" using assms(4) by auto
  then have "slot s' q j = slot s q j"
    using rem_dir_kept [OF ok re assms(3)] removesD(6) [OF re] by (cases "q = p") (auto simp: slot_def)
  with ne assms(4) show ?thesis by (simp add: used_def)
qed

lemma rem_file_kept:
  assumes ok: "vol_ok s D" and re: "removes s s' D D' p i cs"
    and q: "q \<in> D" "used s q j" "\<not> is_folder (slot s q j)" "(q, j) \<noteq> (p, i)"
  shows "content s' (slot s q j) = content s (slot s q j)"
    and "length (chain_of (cluster_map s') (entry_cluster (slot s q j))) = clusters_for (filesize (slot s q j))"
    and "clus (slot s q j) \<notin> set cs"
proof -
  note r = removesD [OF re] and v = volD [OF ok] and h = removed_head [OF ok re]
  have hq: "head_cluster (cluster_map s) (clus (slot s q j))"
    using v(7) [OF q(1,2)] q(3) by (simp add: entry_ok_def)
  have ne: "clus (slot s q j) \<noteq> clus (slot s p i)" using v(8) [OF q(1) r(1) q(2) r(2)] q(4) by auto
  have fr: "cluster_map s' ! x = cluster_map s ! x \<and> cluster_at s' x = cluster_at s x"
    if "chain (cluster_map s) (entry_cluster (slot s q j)) ds" "x \<in> set ds" "x \<notin> D" "3 \<le> x" "x < 512" for x ds
  proof -
    have "chain (cluster_map s) (of_nat (clus (slot s q j))) ds" using that(1) by (simp add: clus_def)
    then have "x \<notin> set cs" using chains_apart [OF v(1) hq h(1) ne _ h(4)] that(2) by blast
    moreover have "x \<noteq> p" "x \<noteq> 1" using that r(1) by auto
    ultimately show ?thesis using r(4) r(8) that fat_ok_length [OF v(1)] by (simp add: unlink_nth)
  qed
  show "content s' (slot s q j) = content s (slot s q j)"
    by (rule file_kept(1) [OF ok q(1-3)]) (rule fr)
  show "length (chain_of (cluster_map s') (entry_cluster (slot s q j))) = clusters_for (filesize (slot s q j))"
    by (rule file_kept(2) [OF ok q(1-3)]) (rule fr)
  obtain ds where ds: "chain (cluster_map s) (entry_cluster (slot s q j)) ds" "ds \<noteq> []" "hd ds = clus (slot s q j)"
    using vol_file [OF ok q(1-3)] by metis
  then have "chain (cluster_map s) (of_nat (clus (slot s q j))) ds" by (simp add: clus_def)
  then have "set ds \<inter> set cs = {}" using chains_apart [OF v(1) hq h(1) ne _ h(4)] by blast
  then show "clus (slot s q j) \<notin> set cs" using ds(2,3) by (metis disjoint_iff hd_in_set)
qed

theorem vol_remove:
  assumes ok: "vol_ok s D" and re: "removes s s' D D' p i cs"
  shows "vol_ok s' D'"
proof -
  let ?fat = "cluster_map s" and ?fat' = "cluster_map s'"
  note r = removesD [OF re] and v = volD [OF ok] and h = removed_head [OF ok re] and D = rem_D [OF ok re]
  have len: "length ?fat = 512" by (rule fat_ok_length [OF v(1)])
  have sig: "take 512 (cluster_at s' 0) = fs_signature"
  proof -
    have "0 \<notin> set cs" using head_chain_used [OF v(1) h(1) h(4), of 0] by linarith
    moreover have "0 \<noteq> p" using vol_folder [OF ok r(1)] by linarith
    ultimately have "cluster_at s' 0 = cluster_at s 0" by (intro r(8)) simp_all
    then show ?thesis using v(9) by (simp only:)
  qed
  have fat': "fat_ok ?fat'" unfolding r(4) by (rule fat_ok_unlink [OF v(1) h(1,4)])
  have hold: "head_cluster ?fat' x" if "head_cluster ?fat x" "x \<notin> set cs" for x
    unfolding r(4) by (rule head_unlink [OF len that])
  have folders: "q \<noteq> 2 \<longrightarrow> head_cluster ?fat' q \<and> ?fat' ! q = EOF" if q: "q \<in> D'" for q
    using v(4) [of q] D(1) D(2) [OF q] hold [of q] q r(4) len vol_folder [OF ok, of q] by (auto simp: unlink_nth)
  have tables: "tidy (dir_at s' (of_nat q)) \<and> is_folder (slot s' q 0)" if q: "q \<in> D'" for q
  proof -
    have q': "q \<in> D" using D(1) q by blast
    have "slot s' q 0 = slot s q 0"
      using rem_dir_kept [OF ok re q] r(2,6) by (cases "q = p") (auto simp: slot_def used_def)
    then show ?thesis using v(5,6) [OF q'] rem_dir_kept [OF ok re q] r(7) by (cases "q = p") auto
  qed
  have entries: "entry_ok ?fat' D' (slot s' q j)" if q: "q \<in> D'" "used s' q j" for q j
  proof -
    have o: "q \<in> D" "(q, j) \<noteq> (p, i)" "used s q j" "slot s' q j = slot s q j"
      using rem_used [OF ok re q] D(1) q by auto
    have eo: "entry_ok ?fat D (slot s q j)" by (rule v(7) [OF o(1,3)])
    show ?thesis
    proof (cases "is_folder (slot s q j)")
      case True
      moreover have "clus (slot s q j) \<noteq> clus (slot s p i)" using v(8) [OF o(1) r(1) o(3) r(2)] o(2) by auto
      ultimately show ?thesis using eo o(4) r(9,10) by (cases "is_folder (slot s p i)") (auto simp: entry_ok_def)
    next
      case False
      with eo o rem_file_kept(2,3) [OF ok re o(1,3) False o(2)] D(1) hold show ?thesis
        by (auto simp: entry_ok_def)
    qed
  qed
  have inject: "q = q' \<and> j = j'"
    if q: "q \<in> D'" "q' \<in> D'" "used s' q j" "used s' q' j'" "clus (slot s' q j) = clus (slot s' q' j')" for q q' j j'
    using rem_used [OF ok re q(1,3)] rem_used [OF ok re q(2,4)] q(5) v(8) D(1) q(1,2)
    by (metis subsetD)
  show ?thesis
    unfolding vol_ok_def using fat' r(5) D(4) sig folders tables entries inject by blast
qed

lemma rem_content_kept:
  assumes ok: "vol_ok s D" and re: "removes s s' D D' p i cs" and "q \<in> D" "used s q j" "(q, j) \<noteq> (p, i)"
  shows "content s' (slot s q j) = content s (slot s q j)"
  using rem_file_kept(1) [OF ok re assms(3,4) _ assms(5)]
  by (cases "is_folder (slot s q j)") (auto simp: content_def is_folder_def)

lemma volume_remove_other:
  assumes ok: "vol_ok s D" and re: "removes s s' D D' p i cs" and "q \<in> D'" "q \<noteq> p"
  shows "volume s' q = volume s q"
proof -
  have q: "q \<in> D" using rem_D(1) [OF ok re] assms(3) by blast
  show ?thesis
    using rem_dir_kept [OF ok re assms(3,4)] volD(5) [OF ok q] rem_content_kept [OF ok re q] assms(4)
    by (intro volume_frame) auto
qed

lemma volume_remove_parent:
  assumes ok: "vol_ok s D" and re: "removes s s' D D' p i cs" and k: "key_of (slot s p i) = k"
    and m: "dir_map (dir_at s' (of_nat p)) = (dir_map (dir_at s (of_nat p)))(k := None)"
  shows "volume s' p = (volume s p)(k := None)"
proof
  fix k'
  show "volume s' p k' = ((volume s p)(k := None)) k'"
  proof (cases "k' = k")
    case False
    show ?thesis
    proof (cases "dir_map (dir_at s (of_nat p)) k'")
      case (Some d)
      then obtain j where j: "used s p j" "d = slot s p j" "key_of d = k'"
        using dir_map_Some [OF volD(5) [OF ok removesD(1) [OF re]]] by (auto simp: used_def slot_def)
      then have "j \<noteq> i" using False k by auto
      with Some False m j rem_content_kept [OF ok re removesD(1) [OF re] j(1)] show ?thesis by (simp add: volume_def)
    qed (use False m in \<open>simp add: volume_def\<close>)
  qed (simp add: volume_def m)
qed

end
