(* ===== verification/FatRuns.thy ===== *)
theory FatRuns
  imports FatVolume
begin

text \<open>
  The successful runs of the file system's operations on a consistent volume: \<open>write\<close> adds an
  entry, \<open>delete\<close> removes one, \<open>read\<close> copies a file's bytes, formatting gives the empty volume.
\<close>

section \<open>Memory\<close>

lemma concat_data_at: "concat (map (data_at m ptr) [0..<n]) = mem_load m ptr (2048 * n)"
proof (induction n)
  case 0
  then show ?case by (simp add: mem_load_def)
next
  case (Suc n)
  have "mem_load m ptr (2048 * n) @ data_at m ptr n = mem_load m ptr (2048 * n + 2048)"
    by (rule nth_equalityI) (auto simp: nth_append mem_load_def data_at_def of_nat_diff algebra_simps)
  with Suc show ?case by (simp add: add.commute)
qed

lemma take_mem_load: "k \<le> n \<Longrightarrow> take k (mem_load m p n) = mem_load m p k"
  by (rule nth_equalityI) simp_all

lemma mem_load_store_take:
  assumes "k \<le> length bs" "length bs \<le> 2 ^ 32"
  shows "mem_load (mem_store m p bs) p k = take k bs"
  using assms by (intro nth_equalityI) (simp_all add: mem_store_same)

lemma clusters_for_enough: "unat sz \<le> 2048 * clusters_for sz"
  unfolding clusters_for_def by linarith

lemma clusters_for_pos: "sz \<noteq> 0 \<Longrightarrow> 0 < clusters_for sz"
proof -
  assume "sz \<noteq> 0"
  then have "0 < unat sz" by (simp add: unat_gt_0)
  then show ?thesis by (simp add: clusters_for_def)
qed

section \<open>Lists of cluster writes\<close>

definition word_writes :: "(nat \<times> u8 list) list \<Rightarrow> (u32 \<times> u8 list) list" where
  "word_writes xs = map (\<lambda>(x, b). (of_nat x, b)) xs"

definition good_writes :: "(nat \<times> u8 list) list \<Rightarrow> bool" where
  "good_writes xs = (distinct (map fst xs) \<and> (\<forall>(x, b) \<in> set xs. x < 512 \<and> length b = 2048))"

lemma good_writes_simps [simp]:
  "good_writes []"
  "good_writes ((x, b) # xs) \<longleftrightarrow> x \<notin> fst ` set xs \<and> x < 512 \<and> length b = 2048 \<and> good_writes xs"
  "good_writes (xs @ ys) \<longleftrightarrow> good_writes xs \<and> good_writes ys \<and> fst ` set xs \<inter> fst ` set ys = {}"
  by (auto simp: good_writes_def)

lemma word_writes_simps [simp]:
  "word_writes [] = []" "word_writes ((x, b) # xs) = (of_nat x, b) # word_writes xs"
  "word_writes (xs @ ys) = word_writes xs @ word_writes ys"
  by (simp_all add: word_writes_def)

lemma word_writes_zip: "word_writes (zip cs bs) = zip (map of_nat cs) bs"
  by (simp add: word_writes_def zip_map1)

lemma good_writes_zip:
  assumes "distinct cs" "\<forall>c \<in> set cs. c < 512" "\<forall>b \<in> set bs. length b = 2048" "length bs = length cs"
  shows "good_writes (zip cs bs)"
  using assms by (auto simp: good_writes_def dest: set_zip_leftD set_zip_rightD)

lemma fst_zip: "length bs = length cs \<Longrightarrow> fst ` set (zip cs bs) = set cs"
  by (metis list.set_map map_fst_zip)

text \<open>What such a list of writes leaves in each cluster.\<close>

lemma writes_at:
  assumes "good_writes xs" "image s' = img.wr_all (word_writes xs) (image s)"
  shows "(x, b) \<in> set xs \<Longrightarrow> cluster_at s' x = b"
    and "x < 512 \<Longrightarrow> x \<notin> fst ` set xs \<Longrightarrow> cluster_at s' x = cluster_at s x"
proof -
  have fst: "map fst (word_writes xs) = map of_nat (map fst xs)"
    by (induction xs) (auto simp: word_writes_def)
  have lt: "y < 512" if "y \<in> fst ` set xs" for y using assms(1) that by (auto simp: good_writes_def)
  have okw: "img.ok_writes (word_writes xs)"
    using assms(1) by (auto simp: img.ok_writes_def word_writes_def good_writes_def cluster_ok_below)
  have "inj_on (of_nat :: nat \<Rightarrow> u32) (set (map fst xs))"
    using lt cluster_inj by (auto simp: inj_on_def simp del: of_nat_eq_iff)
  then have dist: "distinct (map fst (word_writes xs))"
    using assms(1) unfolding fst good_writes_def by (subst distinct_map) blast
  note at = cluster_at_writes [OF okw dist _ assms(2)]
  show "cluster_at s' x = b" if x: "(x, b) \<in> set xs"
  proof -
    have "(of_nat x, b) \<in> set (word_writes xs)" using x by (force simp: word_writes_def)
    with dist at [of x] lt [of x] x show ?thesis by (force simp: map_of_is_SomeI)
  qed
  show "cluster_at s' x = cluster_at s x" if x: "x < 512" "x \<notin> fst ` set xs"
  proof -
    have "of_nat x \<notin> set (map fst (word_writes xs))"
    proof
      assume "of_nat x \<in> set (map fst (word_writes xs))"
      then obtain y where "y \<in> fst ` set xs" "(of_nat x :: u32) = of_nat y" unfolding fst by auto
      with lt [of y] x cluster_inj [of x y] show False by blast
    qed
    then have "map_of (word_writes xs) (of_nat x) = None" by (simp add: map_of_eq_None_iff)
    with at [OF x(1)] show ?thesis by simp
  qed
qed

section \<open>Write\<close>

text \<open>The parts of an addition that do not depend on what is added.\<close>

lemma can_write_facts:
  assumes ok: "vol_ok s D" and p: "p \<in> D" "parent_cluster_number r = of_nat p"
    and r: "wf_request r" "request_key r \<noteq> zero_key" and cw: "can_write r s i c"
  defines "t \<equiv> (dir_at s (of_nat p))[i := new_entry (slot s p i) r c]"
  shows "2 \<le> i" "i < 64" "\<not> used s p i" "wf_table t" "tidy t"
    "dir_map t = (dir_map (dir_at s (of_nat p)))(request_key r \<mapsto> new_entry (slot s p i) r c)"
    "in_use (new_entry (slot s p i) r c)" "clus (new_entry (slot s p i) r c) = c"
    "dir_map (dir_at s (of_nat p)) (request_key r) = None"
proof -
  show "2 \<le> i" "i < 64" "\<not> used s p i" using can_writeD(1) [OF cw] p(2) by (simp_all add: used_def slot_def)
  show "wf_table t" unfolding t_def by (intro wf_table_update wf_dir_at wf_new_entry r)
  show "tidy t" "dir_map t = (dir_map (dir_at s (of_nat p)))(request_key r \<mapsto> new_entry (slot s p i) r c)"
    using tidy_addEntry [OF volD(5) [OF ok p(1)] r, of i c] cw p(2) by (simp_all add: can_write_def t_def slot_def)
  show "in_use (new_entry (slot s p i) r c)" by (simp add: in_use_def new_entry_def)
  show "clus (new_entry (slot s p i) r c) = c" using can_writeD(2) [OF cw] by (simp add: clus_def entry_cluster_new)
  show "dir_map (dir_at s (of_nat p)) (request_key r) = None"
    using findEntry_dir_map [OF volD(5) [OF ok p(1)] wf_request_key [OF r(1)] r(2)] cw p(2)
    by (simp add: can_write_def)
qed

lemma content_new_file:
  assumes "chain (cluster_map s') (entry_cluster e) cs" "\<not> is_folder e" "length cs = clusters_for (filesize e)"
    and "\<And>k. k < length cs \<Longrightarrow> cluster_at s' (cs ! k) = data_at m ptr k"
  shows "content s' e = File (mem_load m ptr (unat (filesize e)))"
proof -
  have "map (cluster_at s') cs = map (data_at m ptr) [0..<length cs]"
    by (rule nth_equalityI) (simp_all add: assms(4))
  then have "file_bytes s' cs = mem_load m ptr (2048 * clusters_for (filesize e))"
    using assms(3) by (simp add: file_bytes_def concat_data_at)
  then show ?thesis
    using assms(2) chain_of_eq [OF assms(1)] clusters_for_enough [of "filesize e"]
    by (simp add: content_def is_folder_def take_mem_load)
qed

lemma write_file_adds:
  assumes ok: "vol_ok s D" and p: "p \<in> D" "parent_cluster_number r = of_nat p"
    and r: "wf_request r" "request_key r \<noteq> zero_key" and cw: "can_write r s i c"
    and size: "buffer_size r \<noteq> 0" "clusters_for (buffer_size r) \<le> length (free_clusters (cluster_map s))"
    and fresh: "\<not> is_folder (slot s p i)"
  shows "\<exists>s' cs. write_fat r m s = Some (0, s') \<and> adds s s' D D p i (new_entry (slot s p i) r c) cs \<and>
    dir_map (dir_at s' (of_nat p)) = (dir_map (dir_at s (of_nat p)))(request_key r \<mapsto> new_entry (slot s p i) r c) \<and>
    content s' (new_entry (slot s p i) r c) = File (mem_load m (r_buf r) (unat (buffer_size r)))"
proof -
  let ?fat = "cluster_map s" and ?n = "clusters_for (buffer_size r)" and ?e = "new_entry (slot s p i) r c"
  note v = volD [OF ok] and w = can_write_facts [OF ok p r cw]
  define cs where "cs = take ?n (free_clusters ?fat)"
  define t where "t = (dir_at s (of_nat p))[i := ?e]"
  define xs where "xs = (p, encode_table t) # zip cs (map (data_at m (r_buf r)) [0..<?n]) @ [(1, encode_fat (link ?fat cs))]"
  define s' where "s' = s\<lparr> cluster_map := link ?fat cs, dir_table_buf := t, image := img.wr_all (word_writes xs) (image s) \<rparr>"
  have run: "write_fat r m s = Some (0, s')"
    using write_file_eq [OF r(1) v(1) cw size(1), of m] size(2) p(2)
    by (simp add: s'_def xs_def cs_def t_def slot_def file_writes_def word_writes_zip)
  have len: "length cs = ?n" using size(2) by (simp add: cs_def)
  have sub: "set cs \<subseteq> set (free_clusters ?fat)" and dcs: "distinct cs" by (simp_all add: cs_def set_take_subset)
  have cs0: "cs \<noteq> []" using clusters_for_pos [OF size(1)] len by auto
  have new: "3 \<le> x \<and> x < 512 \<and> ?fat ! x = 0" if "x \<in> set cs" for x
    using that sub free_not_reserved [OF v(1), of x] free_clusters_set [of ?fat] by auto
  have p': "2 \<le> p" "p < 512" "p \<notin> set cs" using vol_folder [OF ok p(1)] new [of p] by auto
  have c: "hd cs = c" using can_writeD(2) [OF cw] cs0 by (auto simp: cs_def)
  have good: "good_writes xs"
    using p' new [of 1] new dcs len w(4) fat_ok_length [OF v(1)]
    by (auto simp: xs_def t_def fst_zip intro!: good_writes_zip)
  have img: "image s' = img.wr_all (word_writes xs) (image s)" by (simp add: s'_def)
  note at = writes_at [OF good img]
  have at1: "cluster_at s' 1 = encode_fat (cluster_map s')" by (rule at(1)) (simp add: xs_def s'_def)
  have atp: "dir_at s' (of_nat p) = t"
    using at(1) [of p "encode_table t"] w(4) by (simp add: dir_at_cluster xs_def t_def)
  have frame: "\<forall>x < 512. x \<noteq> p \<longrightarrow> x \<noteq> 1 \<longrightarrow> x \<notin> set cs \<longrightarrow> cluster_at s' x = cluster_at s x"
    using len by (auto simp: xs_def dest: set_zip_leftD intro!: at(2))
  have e1: "\<not> is_folder ?e" using fresh size(1) by (simp add: is_folder_def new_entry_def)
  have e: "\<not> is_folder ?e" "filesize ?e = buffer_size r" "entry_cluster ?e = of_nat c"
    by (rule e1, simp add: new_entry_def, rule entry_cluster_new)
  have ad: "adds s s' D D p i ?e cs"
    unfolding adds_def using p(1) w(1-3,5,7,8) dcs sub cs0 c at1 atp frame e len
    by (simp add: s'_def t_def)
  have ch: "chain (cluster_map s') (entry_cluster ?e) cs"
    using link_chain [OF cs0 dcs, of ?fat] new fat_ok_length [OF v(1)] c e by (simp add: s'_def)
  have "cluster_at s' (cs ! k) = data_at m (r_buf r) k" if k: "k < length cs" for k
  proof (rule at(1))
    have "zip cs (map (data_at m (r_buf r)) [0..<?n]) ! k = (cs ! k, data_at m (r_buf r) k)" using k len by simp
    then have "(cs ! k, data_at m (r_buf r) k) \<in> set (zip cs (map (data_at m (r_buf r)) [0..<?n]))"
      using k len by (metis length_map length_upt length_zip min.idem minus_nat.diff_0 nth_mem)
    then show "(cs ! k, data_at m (r_buf r) k) \<in> set xs" by (simp add: xs_def)
  qed
  with content_new_file [OF ch e(1), of m "r_buf r"] len e(2) have
    "content s' ?e = File (mem_load m (r_buf r) (unat (buffer_size r)))" by simp
  with run ad atp w(6) show ?thesis by (auto simp: t_def)
qed

lemma write_folder_adds:
  assumes ok: "vol_ok s D" and p: "p \<in> D" "parent_cluster_number r = of_nat p"
    and r: "wf_request r" "request_key r \<noteq> zero_key" and cw: "can_write r s i c" and size: "buffer_size r = 0"
  shows "\<exists>s'. write_fat r m s = Some (0, s') \<and> adds s s' D (insert c D) p i (new_entry (slot s p i) r c) [c] \<and>
    dir_map (dir_at s' (of_nat p)) = (dir_map (dir_at s (of_nat p)))(request_key r \<mapsto> new_entry (slot s p i) r c) \<and>
    content s' (new_entry (slot s p i) r c) = Folder (of_nat c) \<and> dir_at s' (of_nat c) = new_dir (r_name r) (of_nat p)"
proof -
  let ?fat = "cluster_map s" and ?e = "new_entry (slot s p i) r c" and ?d = "new_dir (r_name r) (of_nat p)"
  note v = volD [OF ok] and w = can_write_facts [OF ok p r cw]
  define t where "t = (dir_at s (of_nat p))[i := ?e]"
  define xs where "xs = [(p, encode_table t), (c, encode_table ?d), (1, encode_fat (?fat[c := EOF]))]"
  define s' where "s' = s\<lparr> cluster_map := ?fat[c := EOF], dir_table_buf := t, image := img.wr_all (word_writes xs) (image s) \<rparr>"
  have run: "write_fat r m s = Some (0, s')"
    using write_folder_eq [OF r(1) v(1) cw size, of m] p(2)
    by (simp add: s'_def xs_def t_def slot_def folder_writes_def)
  have c: "c \<in> set (free_clusters ?fat)" using can_writeD(2) [OF cw] by auto
  have new: "3 \<le> c \<and> c < 512 \<and> ?fat ! c = 0"
    using c free_not_reserved [OF v(1), of c] free_clusters_set [of ?fat] by auto
  have p': "2 \<le> p" "p < 512" "p \<noteq> c" using vol_folder [OF ok p(1)] new by auto
  have nm: "length (r_name r) = 8" using r(1) by (simp add: wf_request_def)
  have good: "good_writes xs"
    using p' new w(4) fat_ok_length [OF v(1)] wf_new_dir [OF nm] by (auto simp: xs_def t_def)
  have img: "image s' = img.wr_all (word_writes xs) (image s)" by (simp add: s'_def)
  note at = writes_at [OF good img]
  have at1: "cluster_at s' 1 = encode_fat (cluster_map s')" by (rule at(1)) (simp add: xs_def s'_def)
  have atp: "dir_at s' (of_nat p) = t" "dir_at s' (of_nat c) = ?d"
    using at(1) [of p "encode_table t"] at(1) [of c "encode_table ?d"] w(4) wf_new_dir [OF nm]
    by (simp_all add: dir_at_cluster xs_def t_def)
  have frame: "\<forall>x < 512. x \<noteq> p \<longrightarrow> x \<noteq> 1 \<longrightarrow> x \<notin> set [c] \<longrightarrow> cluster_at s' x = cluster_at s x"
    by (auto simp: xs_def intro!: at(2))
  have e1: "is_folder ?e" using size by (simp add: is_folder_def new_entry_def)
  have e: "is_folder ?e" "filesize ?e = 0" "entry_cluster ?e = of_nat c"
    by (rule e1, simp add: size new_entry_def, rule entry_cluster_new)
  have d: "tidy ?d" "dir_map ?d = Map.empty" "is_folder (?d ! 0)"
    using tidy_new_dir [OF nm] new_dir_self by (auto simp: is_folder_def)
  have ad: "adds s s' D (insert c D) p i ?e [c]"
    unfolding adds_def using p(1) w(1-3,5,7,8) c at1 atp frame e d
    by (simp add: s'_def t_def slot_def)
  have "content s' ?e = Folder (of_nat c)" using e by (simp add: content_def is_folder_def)
  with run ad atp w(6) show ?thesis by (auto simp: t_def)
qed

section \<open>Lookup\<close>

lemma find_slot:
  assumes ok: "vol_ok s D" and p: "p \<in> D" "parent_cluster_number r = of_nat p"
    and r: "wf_request r" "request_key r \<noteq> zero_key" and f: "findEntry (parent_dir s r) (r_name r) (r_ext r) = int i"
  shows "used s p i" "key_of (slot s p i) = request_key r" "volume s p (request_key r) = Some (content s (slot s p i))"
proof -
  have i: "2 \<le> i" "i < 64" "key_of (slot s p i) = request_key r"
    using findEntry_Some [OF wf_dir_at wf_request_key [OF r(1)]] f p(2) by (simp_all add: slot_def)
  then show u: "used s p i" "key_of (slot s p i) = request_key r"
    using tidyD [OF volD(5) [OF ok p(1)], of i] r(2) by (simp_all add: used_def slot_def)
  show "volume s p (request_key r) = Some (content s (slot s p i))"
    using findEntry_dir_map [OF volD(5) [OF ok p(1)] wf_request_key [OF r(1)] r(2)] f p(2)
    by (simp add: volume_def slot_def)
qed

lemma find_none:
  assumes ok: "vol_ok s D" and p: "p \<in> D" "parent_cluster_number r = of_nat p"
    and r: "wf_request r" "request_key r \<noteq> zero_key"
  shows "findEntry (parent_dir s r) (r_name r) (r_ext r) = - 9999 \<longleftrightarrow> volume s p (request_key r) = None"
  using findEntry_dir_map [OF volD(5) [OF ok p(1)] wf_request_key [OF r(1)] r(2)] p(2)
  by (simp add: volume_def split: if_splits)

text \<open>The bytes of a file are as many as its entry says.\<close>

lemma file_content:
  assumes ok: "vol_ok s D" and q: "q \<in> D" "used s q j" "\<not> is_folder (slot s q j)"
  obtains ds bs where "chain (cluster_map s) (entry_cluster (slot s q j)) ds" "ds \<noteq> []"
    "content s (slot s q j) = File bs" "length bs = unat (filesize (slot s q j))"
    "bs = take (unat (filesize (slot s q j))) (file_bytes s ds)"
    "length (file_bytes s ds) = 2048 * clusters_for (filesize (slot s q j))"
proof -
  obtain ds where ds: "chain (cluster_map s) (entry_cluster (slot s q j)) ds" "ds \<noteq> []"
    "length ds = clusters_for (filesize (slot s q j))"
    using vol_file [OF ok q] by metis
  then show ?thesis
    using that [OF ds(1,2), of "take (unat (filesize (slot s q j))) (file_bytes s ds)"] q(3)
      clusters_for_enough [of "filesize (slot s q j)"]
    by (simp add: content_def is_folder_def chain_of_eq)
qed

section \<open>Delete\<close>

lemma cleared_facts:
  assumes ok: "vol_ok s D" and p: "p \<in> D" "parent_cluster_number r = of_nat p"
    and r: "wf_request r" "request_key r \<noteq> zero_key" and f: "findEntry (parent_dir s r) (r_name r) (r_ext r) = int i"
  defines "t \<equiv> (dir_at s (of_nat p))[i := cleared (slot s p i)]"
  shows "wf_table t" "tidy t" "dir_map t = (dir_map (dir_at s (of_nat p)))(request_key r := None)"
  using tidy_deleteEntry [OF volD(5) [OF ok p(1)] wf_request_key [OF r(1)] r(2), of i] f p(2)
  by (simp_all add: t_def slot_def tidy_wf)

text \<open>Both ways to delete an entry end with the same writes; they differ in what the freed clusters
  are filled with.\<close>

lemma delete_removes:
  assumes ok: "vol_ok s D" and p: "p \<in> D" "parent_cluster_number r = of_nat p"
    and r: "wf_request r" "request_key r \<noteq> zero_key" and f: "findEntry (parent_dir s r) (r_name r) (r_ext r) = int i"
    and cs: "chain (cluster_map s) (entry_cluster (slot s p i)) cs" "p \<notin> set cs" "\<forall>x \<in> set cs. 3 \<le> x"
    and fill: "length fill = 2048"
    and run: "delete_fat r s = Some (0, s')"
    and s': "s' = s\<lparr> cluster_map := unlink (cluster_map s) cs, dir_table_buf := t,
      image := img.wr_all (delete_writes r t (unlink (cluster_map s) cs) (map (\<lambda>x. (x, fill)) cs)) (image s) \<rparr>"
    and t: "t = (dir_at s (of_nat p))[i := cleared (slot s p i)]"
    and D': "if is_folder (slot s p i) then D' = D - {clus (slot s p i)} \<and> isEmptyDir (dir_at s (of_nat (clus (slot s p i))))
      else D' = D"
  shows "removes s s' D D' p i cs"
    and "dir_map (dir_at s' (of_nat p)) = (dir_map (dir_at s (of_nat p)))(request_key r := None)"
proof -
  note v = volD [OF ok] and c = cleared_facts [OF ok p r f, folded t] and u = find_slot(1) [OF ok p r f]
  define xs where "xs = map (\<lambda>x. (x, fill)) cs @ [(p, encode_table t), (1, encode_fat (unlink (cluster_map s) cs))]"
  have p': "2 \<le> p" "p < 512" using vol_folder [OF ok p(1)] by simp_all
  have fx: "fst ` set (map (\<lambda>x. (x, fill)) cs) = set cs" by force
  have "good_writes (map (\<lambda>x. (x, fill)) cs)"
    using chain_distinct [OF cs(1)] chain_below [OF cs(1)] fill by (auto simp: good_writes_def comp_def)
  then have good: "good_writes xs"
    using p' cs(2,3) c(1) fat_ok_length [OF v(1)] fx by (auto simp: xs_def)
  have img: "image s' = img.wr_all (word_writes xs) (image s)"
    using p(2) by (simp add: s' delete_writes_def xs_def word_writes_def)
  note at = writes_at [OF good img]
  have at1: "cluster_at s' 1 = encode_fat (cluster_map s')" by (rule at(1)) (simp add: xs_def s')
  have atp: "dir_at s' (of_nat p) = t"
    using at(1) [of p "encode_table t"] c(1) by (simp add: dir_at_cluster xs_def)
  have frame: "\<forall>x < 512. x \<noteq> p \<longrightarrow> x \<noteq> 1 \<longrightarrow> x \<notin> set cs \<longrightarrow> cluster_at s' x = cluster_at s x"
    by (auto simp: xs_def intro!: at(2))
  show "removes s s' D D' p i cs"
    unfolding removes_def using p(1) u cs(1) at1 atp c(2) frame D' by (simp add: s' t)
  show "dir_map (dir_at s' (of_nat p)) = (dir_map (dir_at s (of_nat p)))(request_key r := None)"
    using atp c(3) by simp
qed

lemma delete_file_removes:
  assumes ok: "vol_ok s D" and p: "p \<in> D" "parent_cluster_number r = of_nat p"
    and r: "wf_request r" "request_key r \<noteq> zero_key" and f: "findEntry (parent_dir s r) (r_name r) (r_ext r) = int i"
    and nf: "\<not> is_folder (slot s p i)"
  shows "\<exists>s' cs. delete_fat r s = Some (0, s') \<and> removes s s' D D p i cs \<and>
    dir_map (dir_at s' (of_nat p)) = (dir_map (dir_at s (of_nat p)))(request_key r := None)"
proof -
  note u = find_slot(1) [OF ok p r f]
  obtain cs where cs: "chain (cluster_map s) (entry_cluster (slot s p i)) cs" "cs \<noteq> []"
    "\<forall>x \<in> set cs. 3 \<le> x \<and> x \<notin> D"
    using vol_file [OF ok p(1) u nf] by metis
  then have cs': "p \<notin> set cs" "\<forall>x \<in> set cs. 3 \<le> x" using p(1) by auto
  have sl: "slot s p i = parent_dir s r ! i" using p(2) by (simp add: slot_def)
  have "delete_fat r s = Some (0, s\<lparr> cluster_map := unlink (cluster_map s) cs,
      dir_table_buf := (dir_at s (of_nat p))[i := cleared (slot s p i)],
      image := img.wr_all (delete_writes r ((dir_at s (of_nat p))[i := cleared (slot s p i)]) (unlink (cluster_map s) cs)
        (map (\<lambda>x. (x, replicate 2048 0)) cs)) (image s) \<rparr>)"
    using delete_file_eq [OF f r(1) _ _ cs(2) fat_ok_length [OF volD(1) [OF ok]]] nf cs(1) p(2)
    by (simp add: is_folder_def slot_def)
  from delete_removes [OF ok p r f cs(1) cs' _ this refl refl, of D] nf this show ?thesis by auto
qed

lemma delete_folder_removes:
  assumes ok: "vol_ok s D" and p: "p \<in> D" "parent_cluster_number r = of_nat p"
    and r: "wf_request r" "request_key r \<noteq> zero_key" and f: "findEntry (parent_dir s r) (r_name r) (r_ext r) = int i"
    and folder: "is_folder (slot s p i)" "isEmptyDir (dir_at s (of_nat (clus (slot s p i))))"
  shows "\<exists>s'. delete_fat r s = Some (0, s') \<and> removes s s' D (D - {clus (slot s p i)}) p i [clus (slot s p i)] \<and>
    dir_map (dir_at s' (of_nat p)) = (dir_map (dir_at s (of_nat p)))(request_key r := None)"
proof -
  let ?c = "clus (slot s p i)"
  note u = find_slot(1) [OF ok p r f]
  have c: "?c \<in> D" "?c \<noteq> 2" using volD(7) [OF ok p(1) u] folder(1) by (simp_all add: entry_ok_def)
  have c': "2 \<le> ?c" "?c < 512" "cluster_map s ! ?c = EOF" using vol_folder [OF ok c(1)] by simp_all
  have ec: "entry_cluster (slot s p i) = of_nat ?c" by (simp add: clus_def)
  have ch: "chain (cluster_map s) (entry_cluster (slot s p i)) [?c]" unfolding ec using c' by simp
  have "?c \<noteq> p" using folder(2) u by (auto simp: isEmptyDir_iff used_def slot_def)
  then have cs': "p \<notin> set [?c]" "\<forall>x \<in> set [?c]. 3 \<le> x" using c c' by auto
  have "delete_fat r s = Some (0, s\<lparr> cluster_map := unlink (cluster_map s) [?c],
      dir_table_buf := (dir_at s (of_nat p))[i := cleared (slot s p i)],
      image := img.wr_all (delete_writes r ((dir_at s (of_nat p))[i := cleared (slot s p i)]) (unlink (cluster_map s) [?c])
        (map (\<lambda>x. (x, encode_table zero_table)) [?c])) (image s) \<rparr>)"
    using delete_folder_eq [OF f r(1) _ _ c'(2) folder(2) fat_ok_length [OF volD(1) [OF ok]]] folder(1) p(2) ec
    by (simp add: is_folder_def slot_def)
  from delete_removes [OF ok p r f ch cs' _ this refl refl, of "D - {?c}"] folder this show ?thesis by auto
qed

section \<open>Formatting\<close>

lemma length_fs_signature [simp]: "length fs_signature = 512"
  by (simp add: fs_signature_def)

definition empty_fat :: "u32 list" where
  "empty_fat = CLUSTER_0_VALUE # CLUSTER_1_VALUE # EOF # replicate 509 0"

lemma empty_fat_nth: "3 \<le> i \<Longrightarrow> i < 512 \<Longrightarrow> empty_fat ! i = 0"
proof -
  assume i: "3 \<le> i" "i < 512"
  then obtain j where j: "i = Suc (Suc (Suc j))" "j < 509" by (intro that [of "i - 3"]) simp_all
  then show ?thesis by (simp add: empty_fat_def)
qed

lemma empty_fat_low: "length empty_fat = 512" "empty_fat ! 0 = CLUSTER_0_VALUE" "empty_fat ! 1 = CLUSTER_1_VALUE" "empty_fat ! 2 = EOF"
  by (simp_all add: empty_fat_def)

lemma empty_fat_ok: "fat_ok empty_fat"
proof (rule fat_okI)
  fix i :: nat assume "i < 512" "3 \<le> i"
  then show "empty_fat ! i = 0 \<or> empty_fat ! i = EOF \<or>
      (3 \<le> unat (empty_fat ! i) \<and> unat (empty_fat ! i) < 512 \<and> empty_fat ! unat (empty_fat ! i) \<noteq> 0)"
    using empty_fat_nth by blast
next
  fix i j :: nat
  assume "i < 512" "j < 512" "3 \<le> i" "3 \<le> j" "empty_fat ! i \<noteq> 0"
  then show "i = j" using empty_fat_nth [of i] by simp
qed (rule empty_fat_low)+

lemma format_fat:
  assumes "length fat = 512"
  shows "for_range 3 512 (\<lambda>i fat. arr_set fat i 0) (fat[0 := CLUSTER_0_VALUE, 1 := CLUSTER_1_VALUE, 2 := EOF]) = Some empty_fat"
proof -
  let ?I = "\<lambda>k f. length f = 512 \<and> f ! 0 = CLUSTER_0_VALUE \<and> f ! 1 = CLUSTER_1_VALUE \<and> f ! 2 = EOF \<and>
    (\<forall>j. 3 \<le> j \<and> j < k \<longrightarrow> f ! j = 0)"
  have "\<exists>f. for_range 3 512 (\<lambda>i fat. arr_set fat i 0) (fat[0 := CLUSTER_0_VALUE, 1 := CLUSTER_1_VALUE, 2 := EOF]) = Some f \<and> ?I 512 f"
  proof (rule for_range_inv [where I = ?I])
    show "?I 3 (fat[0 := CLUSTER_0_VALUE, 1 := CLUSTER_1_VALUE, 2 := EOF])" using assms by auto
  next
    fix i f assume i: "3 \<le> i" "i < 512" "?I i f"
    then have "?I (Suc i) (f[i := 0])" by (auto simp: nth_list_update less_Suc_eq)
    moreover have "arr_set f i 0 = Some (f[i := 0])" using i by simp
    ultimately show "\<exists>f'. arr_set f i 0 = Some f' \<and> ?I (Suc i) f'" by blast
  qed simp
  then obtain f where f: "for_range 3 512 (\<lambda>i fat. arr_set fat i 0) (fat[0 := CLUSTER_0_VALUE, 1 := CLUSTER_1_VALUE, 2 := EOF]) = Some f"
    "?I 512 f" by blast
  have "f = empty_fat"
  proof (rule nth_equalityI)
    show "length f = length empty_fat" using f by (simp add: empty_fat_def)
    fix i assume "i < length f"
    then consider "i = 0" | "i = 1" | "i = 2" | "3 \<le> i" "i < 512" using f(2) by linarith
    then show "f ! i = empty_fat ! i"
      using f(2) empty_fat_nth [of i] empty_fat_low by cases auto
  qed
  with f show ?thesis by simp
qed

definition formatted :: "fs \<Rightarrow> fs" where
  "formatted s = s\<lparr> cluster_map := empty_fat,
     image := img.wr_all (word_writes [(1, encode_fat empty_fat), (2, encode_table root_dir)])
                (write_blocks (image s) fs_signature 0 1) \<rparr>"

lemma create_fat32_eq: "length (cluster_map s) = 512 \<Longrightarrow> create_fat32 s = Some (formatted s)"
  using format_fat [of "cluster_map s"]
  by (simp add: create_fat32_def init_directory_table_eq formatted_def root_dir_def FAT_CLUSTER_NUMBER_def
      ROOT_CLUSTER_NUMBER_def)

lemma formatted_vol_ok: "vol_ok (formatted s) {2} \<and> volume (formatted s) 2 = Map.empty"
proof -
  let ?s = "formatted s" and ?b = "s\<lparr> image := write_blocks (image s) fs_signature 0 1 \<rparr>"
  have good: "good_writes [(1, encode_fat empty_fat), (2, encode_table root_dir)]"
    using fat_ok_length [OF empty_fat_ok] tidy_wf [OF conjunct1 [OF tidy_root_dir]] by simp
  have img: "image ?s = img.wr_all (word_writes [(1, encode_fat empty_fat), (2, encode_table root_dir)]) (image ?b)"
    by (simp add: formatted_def)
  note at = writes_at [OF good img]
  have dir: "dir_at ?s 2 = root_dir"
    using at(1) [of 2 "encode_table root_dir"] dir_at_cluster [of ?s 2] tidy_wf [OF conjunct1 [OF tidy_root_dir]] by simp
  have "take 512 (cluster_at ?b 0) = fs_signature"
    by (simp add: cluster_at_def read_clusters_load write_blocks_store take_mem_load)
  then have sig: "take 512 (cluster_at ?s 0) = fs_signature" using at(2) [of 0] by simp
  have map: "cluster_map ?s = empty_fat" by (simp add: formatted_def)
  have unused: "\<not> used ?s 2 i" for i
    using tidy_root_dir dir by (auto simp: used_def slot_def isEmptyDir_iff)
  have "vol_ok ?s {2}"
    unfolding vol_ok_def using empty_fat_ok at(1) [of 1] sig map dir tidy_root_dir root_dir_self unused
    by (simp add: slot_def is_folder_def)
  moreover have "volume ?s 2 = Map.empty"
    using dir tidy_root_dir by (simp add: volume_def fun_eq_iff)
  ultimately show ?thesis by simp
qed

section \<open>Mounting\<close>

lemma boot_sector: "read_blocks (image s) 0 1 = take 512 (cluster_at s 0)"
  by (simp add: cluster_at_def read_clusters_load read_blocks_load take_mem_load)

lemma decode_encode_map: "fat_ok fat \<Longrightarrow> decode_fat (encode_fat fat) = fat"
  by (simp add: fat_ok_length)

end
