(* ===== verification/FatSteps.thy ===== *)
theory FatSteps
  imports FatRuns
begin

text \<open>
  The operations of the file system against the abstract volume: \<open>write\<close> inserts, \<open>delete\<close> removes,
  \<open>read\<close> looks up, with the result code of every case; and a formatted disk to run them on.
\<close>

section \<open>A formatted disk\<close>

definition blank :: fs where
  "blank = \<lparr> image = (\<lambda>_. 0), cluster_map = replicate 512 0, dir_table_buf = zero_table \<rparr>"

definition fs0 :: fs where
  "fs0 = formatted blank"

definition file_request :: "u32 \<Rightarrow> request" where
  "file_request n = \<lparr> r_buf = 0x1000, r_name = cstr ''a'' @ replicate 7 0, r_ext = cstr ''txt'',
                     parent_cluster_number = 2, buffer_size = n \<rparr>"

definition some_memory :: mem where
  "some_memory = (\<lambda>a. ucast a)"

lemma file_request_simps [simp]:
  "wf_request (file_request n)" "parent_cluster_number (file_request n) = of_nat 2"
  "buffer_size (file_request n) = n" "r_buf (file_request n) = 0x1000"
  by (simp_all add: file_request_def wf_request_def)

lemma file_request_key [simp]: "request_key (file_request n) \<noteq> zero_key"
proof
  assume "request_key (file_request n) = zero_key"
  then have "hd (r_name (file_request n)) = hd (replicate 8 0)" by (simp add: zero_key_def)
  then show False by (simp add: file_request_def cstr_def)
qed

lemma fs0_ok: "vol_ok fs0 {2}" "volume fs0 2 = Map.empty"
  using formatted_vol_ok [of blank] by (simp_all add: fs0_def)

lemma fs0_map: "cluster_map fs0 = empty_fat"
  by (simp add: fs0_def formatted_def)

lemma fs0_unused: "\<not> used fs0 2 i"
proof
  assume u: "used fs0 2 i"
  then have "volume fs0 2 (key_of (slot fs0 2 i)) \<noteq> None"
    using dir_map_Some [OF volD(5) [OF fs0_ok(1), of 2]] by (auto simp: volume_def used_def slot_def)
  then show False using fs0_ok(2) by simp
qed

lemma free_empty_fat: "free_clusters empty_fat = [3..<512]"
proof -
  have "filter (\<lambda>i. empty_fat ! i = 0) [0..<3] = []"
    using fat_ok_reserved [OF empty_fat_ok] by (auto simp: filter_empty_conv)
  moreover have "filter (\<lambda>i. empty_fat ! i = 0) [3..<512] = [3..<512]"
    unfolding filter_id_conv set_upt by (simp add: empty_fat_nth)
  moreover have "[0..<512] = [0..<3] @ [3..<512]"
    by (rule upt_add_eq_append [of 0 3 509, simplified numeral_plus_numeral add_num_simps]) (rule le0)
  ultimately show ?thesis by (simp only: free_clusters_def filter_append append_Nil)
qed

lemma no_slot:
  assumes "vol_ok s D" "p \<in> D" "parent_cluster_number r = of_nat p"
  shows "findIdxEmptyEntry (parent_dir s r) = - 9999 \<longleftrightarrow> (\<forall>i. 2 \<le> i \<and> i < 64 \<longrightarrow> used s p i)"
  using assms(3) by (auto simp: findIdxEmptyEntry_None used_def slot_def)

text \<open>On a consistent volume the changes start when the name is new and there is a free slot and a
  free cluster.\<close>

lemma can_write_ex:
  assumes ok: "vol_ok s D" and p: "p \<in> D" "parent_cluster_number r = of_nat p"
    and r: "wf_request r" "request_key r \<noteq> zero_key"
    and "volume s p (request_key r) = None" "\<exists>i. 2 \<le> i \<and> i < 64 \<and> \<not> used s p i" "free_clusters (cluster_map s) \<noteq> []"
  obtains i c where "can_write r s i c"
proof -
  obtain i where i: "findIdxEmptyEntry (parent_dir s r) = int i"
    using assms(7) no_slot [OF ok p] findIdxEmptyEntry_cases by metis
  obtain c cs where c: "free_clusters (cluster_map s) = c # cs" using assms(8) by (cases "free_clusters (cluster_map s)") auto
  have "attribute (parent_dir s r ! 0) = ATTR_SUBDIRECTORY"
    using volD(6) [OF ok p(1)] p(2) by (simp add: is_folder_def slot_def)
  then have "can_write r s i c"
    using i c find_none [OF ok p r] assms(6) by (simp add: can_write_def findEmptySpace_eq)
  then show ?thesis by (rule that)
qed

lemma can_write_fs0:
  "wf_request r \<Longrightarrow> request_key r \<noteq> zero_key \<Longrightarrow> parent_cluster_number r = of_nat 2 \<Longrightarrow> \<exists>i c. can_write r fs0 i c"
proof -
  assume r: "wf_request r" "request_key r \<noteq> zero_key" "parent_cluster_number r = of_nat 2"
  have "\<exists>i. 2 \<le> i \<and> i < 64 \<and> \<not> used fs0 2 i" using fs0_unused by (intro exI [of _ 2]) simp
  moreover have "volume fs0 2 (request_key r) = None" using fs0_ok(2) by simp
  moreover have "free_clusters (cluster_map fs0) \<noteq> []" using fs0_map free_empty_fat by simp
  ultimately show ?thesis
    using can_write_ex [OF fs0_ok(1) _ r(3,1,2)] by blast
qed

text \<open>The slot that the next entry goes to is marked as a folder.  A deleted folder leaves its slot so;
  formatting and creating do not.\<close>

definition slot_tainted :: "fs \<Rightarrow> nat \<Rightarrow> bool" where
  "slot_tainted s p = (\<exists>i < 64. findIdxEmptyEntry (dir_at s (of_nat p)) = int i \<and> is_folder (slot s p i))"

lemma untainted:
  assumes "\<forall>i. 2 \<le> i \<and> i < 64 \<and> \<not> used s p i \<longrightarrow> \<not> is_folder (slot s p i)"
  shows "\<not> slot_tainted s p"
  using assms findIdxEmptyEntry_Some [of "dir_at s (of_nat p)"] by (auto simp: slot_tainted_def used_def slot_def)

lemma tainted_slot:
  assumes "can_write r s i c" "parent_cluster_number r = of_nat p"
  shows "slot_tainted s p \<longleftrightarrow> is_folder (slot s p i)"
  using assms can_writeD(1) [OF assms(1)] by (auto simp: slot_tainted_def can_write_def)

lemma tainted_load [simp]: "slot_tainted (load_dir s c) p = slot_tainted s p"
proof -
  have "dir_at (load_dir s c) d = dir_at s d" for d by (simp add: dir_at_def)
  then show ?thesis by (simp add: slot_tainted_def slot_def)
qed

lemma fs0_clean: "\<not> slot_tainted fs0 2"
proof -
  have "dir_at fs0 2 = root_dir"
  proof -
    have good: "good_writes [(1, encode_fat empty_fat), (2, encode_table root_dir)]"
      using fat_ok_length [OF empty_fat_ok] tidy_wf [OF conjunct1 [OF tidy_root_dir]] by simp
    have "cluster_at fs0 2 = encode_table root_dir"
      by (rule writes_at(1) [OF good, where s = "blank\<lparr> image := write_blocks (image blank) fs_signature 0 1 \<rparr>"])
        (simp_all add: fs0_def formatted_def)
    then show ?thesis using dir_at_cluster [of fs0 2] tidy_wf [OF conjunct1 [OF tidy_root_dir]] by simp
  qed
  then show ?thesis
    by (intro untainted) (simp add: slot_def root_dir_def new_dir_nth is_folder_def zero_dirent_fields ATTR_SUBDIRECTORY_def)
qed

lemma write_file_run:
  assumes ok: "vol_ok s D" and p: "p \<in> D" "parent_cluster_number r = of_nat p"
    and r: "wf_request r" "request_key r \<noteq> zero_key"
    and cw: "can_write r s i c" and size: "buffer_size r \<noteq> 0" and w: "write_fat r m s = Some (0, s')"
  shows "clusters_for (buffer_size r) \<le> length (free_clusters (cluster_map s))"
proof (rule ccontr)
  assume "\<not> ?thesis"
  then have "\<exists>t. write_fat r m s = Some (- 1, t)"
    using write_file_eq [OF r(1) volD(1) [OF ok] cw size, of m] by (metis (no_types, lifting))
  with w show False by auto
qed

section \<open>Writing\<close>

lemma write_file_step:
  assumes "vol_ok s D" "p \<in> D" "parent_cluster_number r = of_nat p" "wf_request r" "request_key r \<noteq> zero_key"
    and "buffer_size r \<noteq> 0" "\<not> slot_tainted s p" "write_fat r m s = Some (0, s')"
  shows "volume s p (request_key r) = None \<and> vol_ok s' D \<and>
    volume s' p = (volume s p)(request_key r \<mapsto> File (mem_load m (r_buf r) (unat (buffer_size r)))) \<and>
    (\<forall>q \<in> D - {p}. volume s' q = volume s q)"
proof -
  note ok = assms(1) and p = assms(2,3) and r = assms(4,5) and size = assms(6)
  obtain i c where cw: "can_write r s i c" using write_fat_refused [of r s m] assms(8) by auto
  note w = can_write_facts [OF ok p r cw]
  have fresh: "\<not> is_folder (slot s p i)" using assms(7) tainted_slot [OF cw p(2)] by simp
  obtain cs where "adds s s' D D p i (new_entry (slot s p i) r c) cs"
    "dir_map (dir_at s' (of_nat p)) = (dir_map (dir_at s (of_nat p)))(request_key r \<mapsto> new_entry (slot s p i) r c)"
    "content s' (new_entry (slot s p i) r c) = File (mem_load m (r_buf r) (unat (buffer_size r)))"
    using write_file_adds [OF ok p r cw size write_file_run [OF ok p r cw size assms(8)] fresh, of m] assms(8)
    by auto
  then show ?thesis
    using vol_add [OF ok] volume_add_parent [OF ok] volume_add_other [OF ok] w(9)
    by (auto simp: volume_def)
qed

lemma file_run_fs0: "n \<noteq> 0 \<Longrightarrow> unat n \<le> 1000000 \<Longrightarrow> \<exists>s'. write_fat (file_request n) m fs0 = Some (0, s')"
proof -
  assume n: "n \<noteq> 0" "unat n \<le> 1000000"
  obtain i c where cw: "can_write (file_request n) fs0 i c"
    using can_write_fs0 [of "file_request n"] by auto
  have "clusters_for n \<le> 509" using n(2) unfolding clusters_for_def by simp
  then have "clusters_for n \<le> length (free_clusters (cluster_map fs0))" by (simp add: fs0_map free_empty_fat)
  moreover have "\<not> is_folder (slot fs0 2 i)"
    using fs0_clean tainted_slot [OF cw, of 2] by simp
  ultimately show ?thesis
    using write_file_adds [OF fs0_ok(1) _ _ _ _ cw, of 2 m] n(1) by auto
qed

lemma write_folder_step:
  assumes "vol_ok s D" "p \<in> D" "parent_cluster_number r = of_nat p" "wf_request r" "request_key r \<noteq> zero_key"
    and "buffer_size r = 0" "write_fat r m s = Some (0, s')"
  shows "\<exists>c. c \<notin> D \<and> vol_ok s' (insert c D) \<and> volume s' c = Map.empty \<and>
    volume s' p = (volume s p)(request_key r \<mapsto> Folder (of_nat c)) \<and>
    (\<forall>q \<in> D - {p}. volume s' q = volume s q)"
proof -
  note ok = assms(1) and p = assms(2,3) and r = assms(4,5) and size = assms(6)
  obtain i c where cw: "can_write r s i c" using write_fat_refused [of r s m] assms(7) by auto
  have ad: "adds s s' D (insert c D) p i (new_entry (slot s p i) r c) [c]"
    and m: "dir_map (dir_at s' (of_nat p)) = (dir_map (dir_at s (of_nat p)))(request_key r \<mapsto> new_entry (slot s p i) r c)"
      "content s' (new_entry (slot s p i) r c) = Folder (of_nat c)" "dir_at s' (of_nat c) = new_dir (r_name r) (of_nat p)"
    using write_folder_adds [OF ok p r cw size, of m] assms(7) by auto
  have "length (r_name r) = 8" using r(1) by (simp add: wf_request_def)
  then have "volume s' c = Map.empty" using m(3) tidy_new_dir by (simp add: volume_def fun_eq_iff)
  moreover have "c \<notin> D" using D_new [OF ok ad] by auto
  ultimately show ?thesis
    using vol_add [OF ok ad] volume_add_parent [OF ok ad m(1)] volume_add_other [OF ok ad] m(2) by auto
qed

lemma folder_run_fs0: "\<exists>s'. write_fat (file_request 0) m fs0 = Some (0, s')"
proof -
  obtain i c where cw: "can_write (file_request 0) fs0 i c"
    using can_write_fs0 [of "file_request 0"] by auto
  show ?thesis using write_folder_adds [OF fs0_ok(1) _ _ _ _ cw, of 2 m] by auto
qed

section \<open>Deleting\<close>

lemma empty_folder:
  assumes "vol_ok s D" "q \<in> D"
  shows "isEmptyDir (dir_at s (of_nat q)) \<longleftrightarrow> volume s q = Map.empty"
proof -
  have "volume s q = Map.empty \<longleftrightarrow> dir_map (dir_at s (of_nat q)) = Map.empty"
    by (simp add: volume_def fun_eq_iff)
  also have "\<dots> \<longleftrightarrow> isEmptyDir (dir_at s (of_nat q))"
    unfolding fun_eq_iff dir_map_None isEmptyDir_iff by blast
  finally show ?thesis by simp
qed

lemma delete_step:
  assumes "vol_ok s D" "p \<in> D" "parent_cluster_number r = of_nat p" "wf_request r" "request_key r \<noteq> zero_key"
  shows "case volume s p (request_key r) of
      None \<Rightarrow> delete_fat r s = Some (1, load_dir s (of_nat p))
    | Some (Folder c) \<Rightarrow>
        if volume s (unat c) = Map.empty
        then \<exists>s'. delete_fat r s = Some (0, s') \<and> vol_ok s' (D - {unat c}) \<and>
          volume s' p = (volume s p)(request_key r := None) \<and> (\<forall>q \<in> D - {unat c} - {p}. volume s' q = volume s q)
        else delete_fat r s = Some (2, load_dir s (of_nat p))
    | Some (File bs) \<Rightarrow>
        \<exists>s'. delete_fat r s = Some (0, s') \<and> vol_ok s' D \<and>
          volume s' p = (volume s p)(request_key r := None) \<and> (\<forall>q \<in> D - {p}. volume s' q = volume s q)"
proof (rule findEntry_cases [of "parent_dir s r" "r_name r" "r_ext r"])
  assume none: "findEntry (parent_dir s r) (r_name r) (r_ext r) = - 9999"
  then show ?thesis using find_none [OF assms] assms(3) by (simp add: delete_fat_def)
next
  fix i assume f: "findEntry (parent_dir s r) (r_name r) (r_ext r) = int i"
  note u = find_slot [OF assms f]
  note rem = vol_remove [OF assms(1)] volume_remove_parent [OF assms(1) _ u(2)] volume_remove_other [OF assms(1)]
  show ?thesis
  proof (cases "is_folder (slot s p i)")
    case False
    obtain s' cs where "delete_fat r s = Some (0, s')" "removes s s' D D p i cs"
      "dir_map (dir_at s' (of_nat p)) = (dir_map (dir_at s (of_nat p)))(request_key r := None)"
      using delete_file_removes [OF assms f False] by blast
    moreover obtain bs where "content s (slot s p i) = File bs"
      using False by (simp add: content_def is_folder_def)
    ultimately show ?thesis using u(3) rem by simp
  next
    case True
    let ?c = "clus (slot s p i)"
    have c: "?c \<in> D" using volD(7) [OF assms(1,2) u(1)] True by (simp add: entry_ok_def)
    have ec: "entry_cluster (slot s p i) = of_nat ?c" by (simp add: clus_def)
    have v: "volume s p (request_key r) = Some (Folder (of_nat ?c))"
      using u(3) True ec by (simp add: content_def is_folder_def)
    have lt: "unat (of_nat ?c :: u32) = ?c" using vol_folder [OF assms(1) c] by simp
    show ?thesis
    proof (cases "volume s ?c = Map.empty")
      case e: True
      then obtain s' where "delete_fat r s = Some (0, s')" "removes s s' D (D - {?c}) p i [?c]"
        "dir_map (dir_at s' (of_nat p)) = (dir_map (dir_at s (of_nat p)))(request_key r := None)"
        using delete_folder_removes [OF assms f True] empty_folder [OF assms(1) c] by blast
      then show ?thesis using v e lt rem by simp
    next
      case False
      then have "\<not> isEmptyDir (dir_at s (of_nat ?c))" using empty_folder [OF assms(1) c] by simp
      then have "delete_fat r s = Some (2, load_dir s (of_nat p))"
        using f True assms(3) ec by (simp add: delete_fat_def Let_def is_folder_def slot_def dir_at_def)
      then show ?thesis using v False lt by simp
    qed
  qed
qed

section \<open>Reading\<close>

lemma read_file_run:
  assumes ok: "vol_ok s D" and p: "p \<in> D" "parent_cluster_number r = of_nat p"
    and f: "findEntry (parent_dir s r) (r_name r) (r_ext r) = int i"
    and u: "used s p i" "\<not> is_folder (slot s p i)"
    and ds: "chain (cluster_map s) (entry_cluster (slot s p i)) ds" "\<not> buffer_size r < filesize (slot s p i)"
  shows "read_fat r m s = Some (0, mem_store m (r_buf r) (file_bytes s ds), load_dir s (of_nat p))"
proof -
  have "2048 * length ds \<le> 2 ^ 32" using chain_length [OF ds(1)] by simp
  then have "read_chain (cluster_map s) (image s) (entry_cluster (slot s p i)) (r_buf r) m
      = Some (mem_store m (r_buf r) (file_bytes s ds))"
    using read_chain_eq [OF ds(1) fat_ok_length [OF volD(1) [OF ok]]]
    by (simp add: file_bytes_def cluster_at_def [abs_def])
  then show ?thesis
    using f u(2) ds(2) p(2) by (simp add: read_fat_def Let_def slot_def is_folder_def)
qed

lemma read_step:
  assumes "vol_ok s D" "p \<in> D" "parent_cluster_number r = of_nat p" "wf_request r" "request_key r \<noteq> zero_key"
  shows "case volume s p (request_key r) of
      None \<Rightarrow> read_fat r m s = Some (3, m, load_dir s (of_nat p))
    | Some (Folder c) \<Rightarrow> read_fat r m s = Some (1, m, load_dir s (of_nat p))
    | Some (File bs) \<Rightarrow>
        if unat (buffer_size r) < length bs then read_fat r m s = Some (2, m, load_dir s (of_nat p))
        else \<exists>slack m'. read_fat r m s = Some (0, m', load_dir s (of_nat p)) \<and>
          m' = mem_store m (r_buf r) (bs @ slack) \<and> length (bs @ slack) = 2048 * clusters_for (of_nat (length bs)) \<and>
          mem_load m' (r_buf r) (length bs) = bs"
proof (rule findEntry_cases [of "parent_dir s r" "r_name r" "r_ext r"])
  assume none: "findEntry (parent_dir s r) (r_name r) (r_ext r) = - 9999"
  then show ?thesis using find_none [OF assms] assms(3) by (simp add: read_fat_def)
next
  fix i assume f: "findEntry (parent_dir s r) (r_name r) (r_ext r) = int i"
  note u = find_slot [OF assms f]
  let ?e = "slot s p i"
  have sl: "dir_at s (of_nat p) ! i = ?e" by (simp add: slot_def)
  show ?thesis
  proof (cases "is_folder ?e")
    case True
    then have "filesize ?e = 0" using volD(7) [OF assms(1,2) u(1)] by (simp add: entry_ok_def)
    then show ?thesis using f u(3) True assms(3) sl
      by (simp add: read_fat_def Let_def content_def is_folder_def)
  next
    case False
    obtain ds bs where ds: "chain (cluster_map s) (entry_cluster ?e) ds" "content s ?e = File bs"
      "length bs = unat (filesize ?e)" "bs = take (unat (filesize ?e)) (file_bytes s ds)"
      "length (file_bytes s ds) = 2048 * clusters_for (filesize ?e)"
      using file_content [OF assms(1,2) u(1) False] by metis
    have less: "unat (buffer_size r) < length bs \<longleftrightarrow> buffer_size r < filesize ?e"
      using ds(3) by (simp add: word_less_nat_alt)
    show ?thesis
    proof (cases "buffer_size r < filesize ?e")
      case True
      then show ?thesis using f u(3) ds(2) less assms(3) sl by (simp add: read_fat_def Let_def)
    next
      case small: False
      let ?slack = "drop (length bs) (file_bytes s ds)" and ?m = "mem_store m (r_buf r) (file_bytes s ds)"
      have split: "bs @ ?slack = file_bytes s ds" using ds(3,4) by simp
      have "length (file_bytes s ds) \<le> 2 ^ 32" using chain_length [OF ds(1)] by simp
      then have "mem_load ?m (r_buf r) (length bs) = bs"
        using mem_load_store_take [of "length bs" "file_bytes s ds" m "r_buf r"] ds(3,4) split
        by (metis append_eq_conv_conj length_append le_add1)
      moreover have "read_fat r m s = Some (0, ?m, load_dir s (of_nat p))"
        by (rule read_file_run [OF assms(1-3) f u(1) False ds(1) small])
      moreover have "of_nat (length bs) = filesize ?e" using ds(3) by simp
      moreover have "length (bs @ ?slack) = 2048 * clusters_for (of_nat (length bs))"
        unfolding split using ds(3,5) by simp
      ultimately show ?thesis
        using u(3) ds(2,3) less small split clusters_for_enough [of "filesize ?e"]
        by (simp, intro exI [of _ ?slack]) simp
    qed
  qed
qed

section \<open>Codes of write\<close>

text \<open>What \<open>write\<close> returns, and whether the file fits.\<close>

definition fits :: "fs \<Rightarrow> request \<Rightarrow> bool" where
  "fits s r = (buffer_size r = 0 \<or> clusters_for (buffer_size r) \<le> length (free_clusters (cluster_map s)))"

definition has_room :: "fs \<Rightarrow> nat \<Rightarrow> bool" where
  "has_room s p = ((\<exists>i. 2 \<le> i \<and> i < 64 \<and> \<not> used s p i) \<and> free_clusters (cluster_map s) \<noteq> [])"

lemma write_room:
  assumes ok: "vol_ok s D" and p: "p \<in> D" "parent_cluster_number r = of_nat p"
    and r: "wf_request r" "request_key r \<noteq> zero_key"
    and new: "volume s p (request_key r) = None" and room: "has_room s p"
  shows "\<exists>s'. write_fat r m s = Some (if fits s r then 0 else - 1, s')"
proof -
  obtain i c where cw: "can_write r s i c" using can_write_ex [OF ok p r new] room by (auto simp: has_room_def)
  show ?thesis
  proof (cases "buffer_size r = 0")
    case True
    then show ?thesis using write_folder_eq [OF r(1) volD(1) [OF ok] cw True] by (simp add: fits_def)
  next
    case False
    then show ?thesis using write_file_eq [OF r(1) volD(1) [OF ok] cw False, of m] by (auto simp: fits_def)
  qed
qed

lemma write_refused_codes:
  assumes ok: "vol_ok s D" and p: "p \<in> D" "parent_cluster_number r = of_nat p"
    and r: "wf_request r" "request_key r \<noteq> zero_key"
  shows "volume s p (request_key r) \<noteq> None \<Longrightarrow> write_fat r m s = Some (1, load_dir s (of_nat p))"
    and "volume s p (request_key r) = None \<Longrightarrow> \<not> has_room s p \<Longrightarrow> write_fat r m s = Some (- 1, load_dir s (of_nat p))"
proof -
  have a: "attribute (parent_dir s r ! 0) = ATTR_SUBDIRECTORY"
    using volD(6) [OF ok p(1)] p(2) by (simp add: is_folder_def slot_def)
  show "volume s p (request_key r) \<noteq> None \<Longrightarrow> write_fat r m s = Some (1, load_dir s (of_nat p))"
    using a find_none [OF ok p r] p(2) by (simp add: write_fat_def)
  assume "volume s p (request_key r) = None" "\<not> has_room s p"
  then have f: "findEntry (parent_dir s r) (r_name r) (r_ext r) = - 9999"
    and "findIdxEmptyEntry (parent_dir s r) = - 9999 \<or> findEmptySpace (cluster_map s) = - 9999"
    using find_none [OF ok p r] no_slot [OF ok p] by (auto simp: has_room_def findEmptySpace_eq)
  then show "write_fat r m s = Some (- 1, load_dir s (of_nat p))"
    using a p(2) by (auto simp: write_fat_def Let_def)
qed

text \<open>What holds of the file writes whether or not the file fits.\<close>

lemma write_file_dir:
  assumes ok: "vol_ok s D" and p: "p \<in> D" "parent_cluster_number r = of_nat p"
    and r: "wf_request r" "request_key r \<noteq> zero_key" and cw: "can_write r s i c" and size: "buffer_size r \<noteq> 0"
  shows "\<exists>s'. write_fat r m s = Some (if fits s r then 0 else - 1, s') \<and>
    dir_at s' (of_nat p) = (dir_at s (of_nat p))[i := new_entry (slot s p i) r c] \<and>
    cluster_map s' = link (cluster_map s) (take (clusters_for (buffer_size r)) (free_clusters (cluster_map s))) \<and>
    (\<not> fits s r \<longrightarrow> cluster_at s' 1 = cluster_at s 1)"
proof -
  let ?fat = "cluster_map s" and ?n = "clusters_for (buffer_size r)" and ?e = "new_entry (slot s p i) r c"
  note v = volD [OF ok] and w = can_write_facts [OF ok p r cw]
  define cs where "cs = take ?n (free_clusters ?fat)"
  define t where "t = (dir_at s (of_nat p))[i := ?e]"
  define ds where "ds = (p, encode_table t) # zip cs (map (data_at m (r_buf r)) [0..<?n])"
  define xs where "xs = (if fits s r then ds @ [(1, encode_fat (link ?fat cs))] else ds)"
  define s' where "s' = s\<lparr> cluster_map := link ?fat cs, dir_table_buf := t, image := img.wr_all (word_writes xs) (image s) \<rparr>"
  have run: "write_fat r m s = Some (if fits s r then 0 else - 1, s')"
    using write_file_eq [OF r(1) v(1) cw size, of m] size p(2)
    by (simp add: s'_def xs_def ds_def cs_def t_def slot_def file_writes_def word_writes_zip fits_def)
  have new: "3 \<le> x \<and> x < 512 \<and> ?fat ! x = 0" if "x \<in> set cs" for x
    using that free_not_reserved [OF v(1), of x] free_clusters_set [of ?fat] by (auto simp: cs_def dest: in_set_takeD)
  have p': "2 \<le> p" "p < 512" "p \<notin> set cs" using vol_folder [OF ok p(1)] new [of p] by auto
  have cut: "zip cs (map (data_at m (r_buf r)) [0..<?n]) = zip cs (map (data_at m (r_buf r)) [0..<length cs])"
    by (rule nth_equalityI) (simp_all add: cs_def)
  have "good_writes (zip cs (map (data_at m (r_buf r)) [0..<length cs]))"
    using new by (intro good_writes_zip) (auto simp: cs_def)
  then have gz: "good_writes (zip cs (map (data_at m (r_buf r)) [0..<?n]))" by (simp only: cut)
  have fz: "fst ` set (zip cs (map (data_at m (r_buf r)) [0..<?n])) = set cs" unfolding cut by (rule fst_zip) simp
  have good: "good_writes xs"
    using p' new [of 1] w(4) gz fz fat_ok_length [OF v(1)] by (auto simp: xs_def ds_def t_def)
  have img: "image s' = img.wr_all (word_writes xs) (image s)" by (simp add: s'_def)
  note at = writes_at [OF good img]
  have "dir_at s' (of_nat p) = t"
    using at(1) [of p "encode_table t"] w(4) by (simp add: dir_at_cluster xs_def ds_def t_def)
  moreover have "cluster_at s' 1 = cluster_at s 1" if "\<not> fits s r"
    using that p' new [of 1] fz by (intro at(2)) (auto simp: xs_def ds_def)
  moreover have "cluster_map s' = link ?fat cs" by (simp add: s'_def)
  ultimately show ?thesis using run by (auto simp: t_def cs_def)
qed

section \<open>Writing and deleting\<close>

lemma write_delete_step:
  assumes "vol_ok s D" "p \<in> D" "parent_cluster_number r = of_nat p" "wf_request r" "request_key r \<noteq> zero_key"
    and "buffer_size r \<noteq> 0" "\<not> slot_tainted s p" "write_fat r m s = Some (0, s')"
  shows "\<exists>s''. delete_fat r s' = Some (0, s'') \<and> cluster_map s'' = cluster_map s \<and>
    (\<forall>q \<in> D. volume s'' q = volume s q)"
proof -
  note ok = assms(1) and p = assms(2,3) and r = assms(4,5) and size = assms(6)
  obtain i c where cw: "can_write r s i c" using write_fat_refused [of r s m] assms(8) by auto
  note w = can_write_facts [OF ok p r cw]
  let ?e = "new_entry (slot s p i) r c"
  have fresh: "\<not> is_folder (slot s p i)" using assms(7) tainted_slot [OF cw p(2)] by simp
  obtain cs where ad: "adds s s' D D p i ?e cs"
    and m: "dir_map (dir_at s' (of_nat p)) = (dir_map (dir_at s (of_nat p)))(request_key r \<mapsto> ?e)"
    using write_file_adds [OF ok p r cw size write_file_run [OF ok p r cw size assms(8)] fresh, of m] assms(8)
    by auto
  note a = addsD [OF ad] and ok' = vol_add [OF ok ad]
  have e: "slot s' p i = ?e" "\<not> is_folder ?e"
    using slot_new [OF ad] fresh size by (simp_all add: is_folder_def new_entry_def)
  have "findEntry (parent_dir s' r) (r_name r) (r_ext r) \<noteq> - 9999"
    using find_none [OF ok' p r] m p(2) by (simp add: volume_def)
  then obtain j where f: "findEntry (parent_dir s' r) (r_name r) (r_ext r) = int j" using findEntry_cases by metis
  note u = find_slot [OF ok' p r f]
  have "used s' p i" "key_of (slot s' p i) = request_key r"
    using a(2,3,5) e(1) by (simp_all add: used_def key_of_def new_entry_def)
  then have ji: "j = i"
    using u(1,2) tidy_inj [OF volD(5) [OF ok' p(1)], of j i] by (auto simp: used_def slot_def)
  obtain s'' cs2 where d: "delete_fat r s' = Some (0, s'')" "removes s' s'' D D p i cs2"
    "dir_map (dir_at s'' (of_nat p)) = (dir_map (dir_at s' (of_nat p)))(request_key r := None)"
    using delete_file_removes [OF ok' p r f] e ji by auto
  note rr = removesD [OF d(2)]
  have new: "c \<in> set (free_clusters (cluster_map s)) \<Longrightarrow> 3 \<le> c \<and> c < 512 \<and> cluster_map s ! c = 0" for c
    using free_not_reserved [OF volD(1) [OF ok], of c] free_clusters_set [of "cluster_map s"] by auto
  have "chain (cluster_map s') (of_nat (hd cs)) cs"
    unfolding a(10) using new a(7) by (intro link_chain a(6,8) fat_ok_length [OF volD(1) [OF ok]]) auto
  moreover have "entry_cluster (slot s' p i) = of_nat (hd cs)" using a(9) e(1) by (auto simp: clus_def dest: cluster_of_unat)
  ultimately have "cs2 = cs" using chain_det rr(3) by simp
  then have "cluster_map s'' = unlink (link (cluster_map s) cs) cs" using rr(4) a(10) by simp
  also have "\<dots> = cluster_map s"
    using new a(7) by (intro unlink_link fat_ok_length [OF volD(1) [OF ok]]) auto
  finally have "cluster_map s'' = cluster_map s" .
  moreover have "volume s'' q = volume s q" if q: "q \<in> D" for q
  proof (cases "q = p")
    case True
    have "volume s p (request_key r) = None" using w(9) by (simp add: volume_def)
    then show ?thesis
      using True volume_add_parent [OF ok ad m] volume_remove_parent [OF ok' d(2) _ d(3)] u(2) ji by auto
  next
    case False
    then show ?thesis using volume_add_other [OF ok ad q] volume_remove_other [OF ok' d(2) q] by simp
  qed
  ultimately show ?thesis using d(1) by auto
qed

section \<open>Writing to a slot that is marked as a folder\<close>

text \<open>The new entry is stored as a folder: \<open>read\<close> refuses it, and \<open>delete\<close> takes the first cluster of the
  file for a table.\<close>

lemma write_tainted_step:
  assumes ok: "vol_ok s D" and p: "p \<in> D" "parent_cluster_number r = of_nat p"
    and r: "wf_request r" "request_key r \<noteq> zero_key" and size: "buffer_size r \<noteq> 0"
    and t: "slot_tainted s p" and w: "write_fat r m s = Some (0, s')"
  obtains i e c where "findEntry (parent_dir s' r) (r_name r) (r_ext r) = int i" "i < 64" "parent_dir s' r ! i = e"
    "attribute e = ATTR_SUBDIRECTORY" "filesize e = buffer_size r" "entry_cluster e = of_nat c" "c < 512" "cluster_map s ! c = 0"
    "volume s p (request_key r) = None" "volume s' p (request_key r) = Some (Folder (of_nat c))" "wf_table (parent_dir s' r)"
    "length (cluster_map s') = 512"
proof -
  obtain i c where cw: "can_write r s i c" using write_fat_refused [of r s m] w by auto
  note f = can_write_facts [OF ok p r cw]
  let ?e = "new_entry (slot s p i) r c"
  have "clusters_for (buffer_size r) \<le> length (free_clusters (cluster_map s))"
    by (rule write_file_run [OF ok p r cw size w])
  then have "fits s r" by (simp add: fits_def)
  then have s': "dir_at s' (of_nat p) = (dir_at s (of_nat p))[i := ?e]"
    "cluster_map s' = link (cluster_map s) (take (clusters_for (buffer_size r)) (free_clusters (cluster_map s)))"
    using write_file_dir [OF ok p r cw size, of m] w by auto
  have e: "attribute ?e = ATTR_SUBDIRECTORY" "filesize ?e = buffer_size r"
    using t tainted_slot [OF cw p(2)] by (simp_all add: new_entry_def is_folder_def)
  have c: "c < 512" "cluster_map s ! c = 0" using can_writeD(2) [OF cw] by blast+
  have ec: "entry_cluster ?e = of_nat c" using c(1) by (simp add: entry_cluster_new)
  have dm: "dir_map (dir_at s' (of_nat p)) (request_key r) = Some ?e" using f(6) s'(1) by simp
  have td: "tidy (dir_at s' (of_nat p))" using f(5) s'(1) by simp
  obtain j where j: "findEntry (dir_at s' (of_nat p)) (r_name r) (r_ext r) = int j" "dir_at s' (of_nat p) ! j = ?e"
    using findEntry_dir_map [OF td wf_request_key [OF r(1)] r(2)] dm findEntry_cases [of "dir_at s' (of_nat p)" "r_name r" "r_ext r"]
    by (auto split: if_splits)
  have "j < 64" using findEntry_Some [OF tidy_wf [OF td] wf_request_key [OF r(1)]] j(1) by auto
  moreover have "volume s p (request_key r) = None" using f(9) by (simp add: volume_def)
  moreover have "volume s' p (request_key r) = Some (Folder (of_nat c))" using dm e ec by (simp add: volume_def content_def)
  moreover have "wf_table (dir_at s' (of_nat p))" by (rule wf_dir_at)
  moreover have "length (cluster_map s') = 512" using s'(2) fat_ok_length [OF volD(1) [OF ok]] by simp
  ultimately show ?thesis using that [of j ?e c] j e ec c p(2) by simp
qed

lemma write_tainted_read:
  assumes "vol_ok s D" "p \<in> D" "parent_cluster_number r = of_nat p" "wf_request r" "request_key r \<noteq> zero_key"
    and "buffer_size r \<noteq> 0" "slot_tainted s p" "write_fat r m s = Some (0, s')" "buffer_size r \<le> size'"
  shows "read_fat (r\<lparr> r_buf := b, buffer_size := size' \<rparr>) m' s' = Some (1, m', load_dir s' (of_nat p))"
proof (rule write_tainted_step [OF assms(1-8)])
  fix i e c
  assume "findEntry (parent_dir s' r) (r_name r) (r_ext r) = int i" "parent_dir s' r ! i = e"
    "attribute e = ATTR_SUBDIRECTORY" "filesize e = buffer_size r"
  then show ?thesis using assms(3,9) by (simp add: read_fat_def Let_def dir_at_def not_less)
qed

lemma delete_tainted_step:
  assumes "vol_ok s D" "p \<in> D" "parent_cluster_number r = of_nat p" "wf_request r" "request_key r \<noteq> zero_key"
    and "buffer_size r \<noteq> 0" "slot_tainted s p" "write_fat r m s = Some (0, s')"
  shows "\<exists>c < 512. volume s' p (request_key r) = Some (Folder (of_nat c)) \<and>
    (if isEmptyDir (dir_at s' (of_nat c))
     then \<exists>s''. delete_fat r s' = Some (0, s'') \<and> cluster_map s'' = (cluster_map s')[c := 0]
     else delete_fat r s' = Some (2, load_dir s' (of_nat p)))"
proof (rule write_tainted_step [OF assms])
  fix i e c
  assume a: "findEntry (parent_dir s' r) (r_name r) (r_ext r) = int i" "i < 64" "parent_dir s' r ! i = e"
    "attribute e = ATTR_SUBDIRECTORY" "filesize e = buffer_size r" "entry_cluster e = of_nat c" "c < 512"
    "volume s' p (request_key r) = Some (Folder (of_nat c))" "wf_table (parent_dir s' r)" "length (cluster_map s') = 512"
  have d: "deleteEntry (dir_at s' (of_nat p)) (int i) = Some ((dir_at s' (of_nat p))[i := cleared e])"
    using deleteEntry_eq [OF a(9,2)] a(3) assms(3) by simp
  have u: "unat (of_nat c :: u32) = c" using a(7) by (simp add: unat_of_nat_u32)
  show ?thesis
    using a d u assms(3) by (intro exI [of _ c]) (simp add: delete_fat_def Let_def dir_at_def store_fat_def store_dir_def)
qed

section \<open>Formatting and mounting\<close>

lemma not_empty_storage:
  assumes "take 512 (cluster_at s 0) = fs_signature"
  shows "is_empty_storage s = Some False"
  using memcmp_eq_0 [of fs_signature 512 fs_signature] assms
  by (simp add: is_empty_storage_def boot_sector)

lemma mount_eq:
  assumes "vol_ok s D"
  shows "initialize_filesystem_fat32 (s\<lparr> cluster_map := junk \<rparr>) = Some s"
proof -
  have "cluster_at (s\<lparr> cluster_map := junk \<rparr>) c = cluster_at s c" for c by (simp add: cluster_at_def)
  then have "is_empty_storage (s\<lparr> cluster_map := junk \<rparr>) = Some False"
    by (intro not_empty_storage) (simp add: volD(9) [OF assms])
  moreover have "decode_fat (read_clusters (image s) 1 1) = cluster_map s"
    using volD(2) [OF assms] decode_encode_map [OF volD(1) [OF assms]] by (simp add: cluster_at_def)
  ultimately show ?thesis by (simp add: initialize_filesystem_fat32_def FAT_CLUSTER_NUMBER_def)
qed

lemma vol_ok_load [simp]: "vol_ok (load_dir s c) D = vol_ok s D"
proof -
  have "cluster_at (load_dir s c) x = cluster_at s x" for x by (simp add: cluster_at_def)
  moreover have "dir_at (load_dir s c) d = dir_at s d" for d by (simp add: dir_at_def)
  ultimately show ?thesis by (simp add: vol_ok_def used_def slot_def)
qed

end
