(* ===== verification/FatFind.thy ===== *)
theory FatFind
  imports FatSteps
begin

text \<open>
  The search through the folder tree (\<open>find\<close>) against an inductive breadth-first order, and the
  path of the shell's current directory (\<open>addPath\<close>, \<open>removePath\<close>).
\<close>

section \<open>Overwriting part of an array\<close>

definition overwrite :: "'a list \<Rightarrow> nat \<Rightarrow> 'a list \<Rightarrow> 'a list" where
  "overwrite xs k ys = take k xs @ ys @ drop (k + length ys) xs"

lemma overwrite_Nil [simp]: "overwrite xs k [] = xs"
  by (simp add: overwrite_def)

lemma length_overwrite [simp]: "k + length ys \<le> length xs \<Longrightarrow> length (overwrite xs k ys) = length xs"
  by (simp add: overwrite_def)

lemma overwrite_step:
  assumes "k + Suc (length ys) \<le> length xs"
  shows "overwrite (xs[k := y]) (Suc k) ys = overwrite xs k (y # ys)"
proof -
  have "take (Suc k) (xs[k := y]) = take k xs @ [y]" using assms by (simp add: take_Suc_conv_app_nth)
  then show ?thesis using assms by (simp add: overwrite_def)
qed

lemma overwrite_slice:
  assumes "f + n \<le> k" "k + length ys \<le> length xs"
  shows "take n (drop f (overwrite xs k ys)) = take n (drop f xs)"
  using assms by (intro nth_equalityI) (simp_all add: overwrite_def nth_append)

lemma overwrite_nth:
  assumes "k + length ys \<le> length xs" "j < length xs"
  shows "overwrite xs k ys ! j = (if k \<le> j \<and> j < k + length ys then ys ! (j - k) else xs ! j)"
  using assms by (auto simp: overwrite_def nth_append)

lemma overwrite_extend:
  assumes "take n (drop f xs) = zs" "length zs = n" "f + n + length ys \<le> length xs"
  shows "take (n + length ys) (drop f (overwrite xs (f + n) ys)) = zs @ ys"
proof (rule nth_equalityI)
  show "length (take (n + length ys) (drop f (overwrite xs (f + n) ys))) = length (zs @ ys)"
    using assms(2,3) by simp
  fix i assume "i < length (take (n + length ys) (drop f (overwrite xs (f + n) ys)))"
  then have i: "i < n + length ys" by simp
  then have "take (n + length ys) (drop f (overwrite xs (f + n) ys)) ! i = overwrite xs (f + n) ys ! (f + i)"
    using assms(3) by simp
  also have "\<dots> = (zs @ ys) ! i"
  proof (cases "i < n")
    case True
    then have "zs ! i = xs ! (f + i)" using assms(3) by (simp add: assms(1) [symmetric])
    then show ?thesis using True assms(2,3) by (subst overwrite_nth) (simp_all add: nth_append)
  next
    case False
    then show ?thesis using i assms(2,3) by (subst overwrite_nth) (simp_all add: nth_append)
  qed
  finally show "take (n + length ys) (drop f (overwrite xs (f + n) ys)) ! i = (zs @ ys) ! i" .
qed

lemma overwrite_last:
  assumes "j + Suc n \<le> length xs"
  shows "overwrite (xs[j + n := y]) j (replicate n y) = overwrite xs j (replicate (Suc n) y)"
proof (rule nth_equalityI)
  fix i assume "i < length (overwrite (xs[j + n := y]) j (replicate n y))"
  then have i: "i < length xs" using assms by simp
  have "overwrite (xs[j + n := y]) j (replicate n y) ! i = (if j \<le> i \<and> i < j + n then y else xs[j + n := y] ! i)"
    using overwrite_nth [of j "replicate n y" "xs[j + n := y]" i] assms i by auto
  moreover have "overwrite xs j (replicate (Suc n) y) ! i = (if j \<le> i \<and> i < j + Suc n then y else xs ! i)"
    using overwrite_nth [of j "replicate (Suc n) y" xs i] assms i by (auto simp del: replicate_Suc)
  moreover have "xs[j + n := y] ! i = (if i = j + n then y else xs ! i)"
    using i by (simp add: nth_list_update)
  ultimately show "overwrite (xs[j + n := y]) j (replicate n y) ! i = overwrite xs j (replicate (Suc n) y) ! i"
    by (simp only: less_Suc_eq add_Suc_right) presburger
qed (use assms in \<open>simp del: replicate_Suc\<close>)

section \<open>Breadth-first order\<close>

text \<open>The folders that a folder holds, in the order of its table.\<close>

definition children :: "fs \<Rightarrow> u32 \<Rightarrow> u32 list" where
  "children s c = map entry_cluster (filter (\<lambda>e. in_use e \<and> is_folder e) (drop 2 (dir_at s c)))"

inductive bfs :: "fs \<Rightarrow> u32 list \<Rightarrow> u32 list \<Rightarrow> bool" for s where
  bfs_done: "bfs s [] []"
| bfs_visit: "bfs s (cs @ children s c) q \<Longrightarrow> bfs s (c # cs) (c # q)"

inductive_cases bfs_NilE: "bfs s [] q"
inductive_cases bfs_ConsE: "bfs s (c # cs) q"

lemma bfs_det: "bfs s cs q \<Longrightarrow> bfs s cs q' \<Longrightarrow> q = q'"
proof (induction arbitrary: q' rule: bfs.induct)
  case bfs_done
  then show ?case by (rule bfs_NilE) simp
next
  case (bfs_visit cs c q)
  from bfs_visit.prems show ?case by (rule bfs_ConsE) (simp add: bfs_visit.IH)
qed

text \<open>The folders below a given one.\<close>

inductive below :: "fs \<Rightarrow> u32 \<Rightarrow> u32 \<Rightarrow> bool" for s c where
  below_refl: "below s c c"
| below_child: "below s c d \<Longrightarrow> e \<in> set (children s d) \<Longrightarrow> below s c e"

lemma below_trans: "below s d e \<Longrightarrow> below s c d \<Longrightarrow> below s c e"
  by (induction rule: below.induct) (auto intro: below.intros)

lemma bfs_closed: "bfs s cs q \<Longrightarrow> set cs \<subseteq> set q \<and> (\<forall>c \<in> set q. set (children s c) \<subseteq> set q)"
proof (induction rule: bfs.induct)
  case (bfs_visit cs c q)
  then have "set cs \<subseteq> set q" "set (children s c) \<subseteq> set q" by simp_all
  moreover have "\<forall>d \<in> set q. set (children s d) \<subseteq> set q" using bfs_visit by simp
  ultimately show ?case unfolding list.set by blast
qed simp

lemma bfs_sound: "bfs s cs q \<Longrightarrow> d \<in> set q \<Longrightarrow> \<exists>c \<in> set cs. below s c d"
proof (induction rule: bfs.induct)
  case (bfs_visit cs c q)
  show ?case
  proof (cases "d = c")
    case True
    then show ?thesis by (auto intro: below_refl)
  next
    case False
    with bfs_visit obtain x where x: "x \<in> set cs \<or> x \<in> set (children s c)" "below s x d" by auto
    from x(1) show ?thesis
    proof
      assume "x \<in> set (children s c)"
      then have "below s c x" by (intro below_child [OF below_refl])
      with x(2) show ?thesis using below_trans by auto
    qed (use x(2) in auto)
  qed
qed simp

lemma bfs_set: "bfs s [c] q \<Longrightarrow> set q = {d. below s c d}"
proof -
  assume b: "bfs s [c] q"
  note cl = bfs_closed [OF b]
  have "d \<in> set q" if "below s c d" for d using that by induction (use cl in auto)
  moreover have "below s c d" if "d \<in> set q" for d using bfs_sound [OF b that] by auto
  ultimately show ?thesis by blast
qed

section \<open>The loop\<close>

definition entry_in :: "fs \<Rightarrow> u8 list \<Rightarrow> u8 list \<Rightarrow> u32 \<Rightarrow> bool" where
  "entry_in s nm ex c = (findEntry (dir_at s c) nm ex \<noteq> - 9999)"

lemma dir_at_load [simp]: "dir_at (load_dir s c) d = dir_at s d"
  by (simp add: dir_at_def)

lemma enqueue_eq:
  assumes "k + length (filter (\<lambda>e. in_use e \<and> is_folder e) es) \<le> length queue" "b = int k - 1"
  shows "enqueue_folders es queue b =
    Some (overwrite queue k (map (\<lambda>e. sint (entry_cluster e)) (filter (\<lambda>e. in_use e \<and> is_folder e) es)),
          b + int (length (filter (\<lambda>e. in_use e \<and> is_folder e) es)))"
  using assms
proof (induction es arbitrary: queue b k)
  case Nil
  then show ?case by simp
next
  case (Cons e es)
  show ?case
  proof (cases "in_use e \<and> is_folder e")
    case False
    with Cons show ?thesis by (auto simp: in_use_def is_folder_def)
  next
    case True
    let ?es = "filter (\<lambda>e. in_use e \<and> is_folder e) es"
    have k: "k < length queue" "Suc k + length ?es \<le> length queue" using Cons.prems(1) True by simp_all
    have "enqueue_folders (e # es) queue b = enqueue_folders es (queue[k := sint (entry_cluster e)]) (b + 1)"
      using True k(1) Cons.prems(2) by (simp add: in_use_def is_folder_def)
    also have "\<dots> = Some (overwrite (queue[k := sint (entry_cluster e)]) (Suc k) (map (\<lambda>e. sint (entry_cluster e)) ?es),
        b + 1 + int (length ?es))"
      using Cons.IH [of "Suc k" "queue[k := sint (entry_cluster e)]" "b + 1"] k Cons.prems(2) by simp
    also have "overwrite (queue[k := sint (entry_cluster e)]) (Suc k) (map (\<lambda>e. sint (entry_cluster e)) ?es) =
        overwrite queue k (map (\<lambda>e. sint (entry_cluster e)) (e # ?es))"
      using overwrite_step [of k "map (\<lambda>e. sint (entry_cluster e)) ?es" queue "sint (entry_cluster e)"] k by simp
    finally show ?thesis using True by simp
  qed
qed

lemma children_queue:
  "map (\<lambda>e. sint (entry_cluster e)) (filter (\<lambda>e. in_use e \<and> is_folder e) (drop 2 (dir_at s c))) = map sint (children s c)"
  by (simp add: children_def)

lemma bfs_length: "bfs s todo q \<Longrightarrow> length todo \<le> length q"
  by (induction rule: bfs.induct) simp_all

lemma find_loop_eq:
  assumes "bfs s todo q" "f + length q \<le> length queue" "\<forall>c. dir_at t c = dir_at s c"
    and "take (length todo) (drop f queue) = map sint todo"
    and "n + length (filter (entry_in s nm ex) q) \<le> length result"
  shows "\<exists>t'. find_loop nm ex queue (int f) (int f + int (length todo) - 1) result (int n) t =
    Some (overwrite result n (map sint (filter (entry_in s nm ex) q)), int (n + length (filter (entry_in s nm ex) q)), t')"
  using assms
proof (induction todo q arbitrary: f queue n result t rule: bfs.induct)
  case bfs_done
  then show ?case by (simp add: find_loop.simps)
next
  case (bfs_visit cs c q)
  let ?t = "load_dir t c" and ?hit = "entry_in s nm ex c"
  let ?r = "if ?hit then result[n := sint c] else result" and ?n = "if ?hit then Suc n else n"
  let ?ch = "map sint (children s c)" and ?k = "f + Suc (length cs)"
  let ?queue = "overwrite queue ?k ?ch"
  have len: "length (children s c) + length cs \<le> length q" using bfs_length [OF bfs_visit.hyps] by simp
  have f: "f < length queue" "queue ! f = sint c" "take (length cs) (drop (Suc f) queue) = map sint cs"
  proof -
    show f: "f < length queue" using bfs_visit.prems(1) by simp
    then have "drop f queue = queue ! f # drop (Suc f) queue" by (simp add: Cons_nth_drop_Suc)
    with bfs_visit.prems(3) show "queue ! f = sint c" "take (length cs) (drop (Suc f) queue) = map sint cs" by simp_all
  qed
  have enq: "enqueue_folders (drop 2 (dir_at t c)) queue (int f + int (length cs)) =
      Some (?queue, int f + int (length cs) + int (length (children s c)))"
    using enqueue_eq [of ?k "drop 2 (dir_at s c)" queue "int f + int (length cs)"] bfs_visit.prems(1,2) len
    by (simp add: children_queue) (simp add: children_def)
  have hit: "(findEntry (dir_at t c) nm ex \<noteq> - 9999) = ?hit" using bfs_visit.prems(2) by (simp add: entry_in_def)
  have res: "arr_seti result (int n) (sint c) = Some (result[n := sint c])" if "?hit"
    using that bfs_visit.prems(4) by simp
  have step: "find_loop nm ex queue (int f) (int f + int (length (c # cs)) - 1) result (int n) t =
      find_loop nm ex ?queue (int (Suc f)) (int (Suc f) + int (length (cs @ children s c)) - 1) ?r (int ?n) ?t"
    using f hit res enq by (subst find_loop.simps) (simp add: Let_def algebra_simps)
  have "\<exists>t'. find_loop nm ex ?queue (int (Suc f)) (int (Suc f) + int (length (cs @ children s c)) - 1) ?r (int ?n) ?t =
    Some (overwrite ?r ?n (map sint (filter (entry_in s nm ex) q)), int (?n + length (filter (entry_in s nm ex) q)), t')"
  proof (rule bfs_visit.IH)
    show "Suc f + length q \<le> length ?queue" using bfs_visit.prems(1) len by simp
    show "\<forall>d. dir_at ?t d = dir_at s d" using bfs_visit.prems(2) by simp
    show "take (length (cs @ children s c)) (drop (Suc f) ?queue) = map sint (cs @ children s c)"
      using overwrite_extend [OF f(3), of ?ch] bfs_visit.prems(1) len by (simp add: add.commute)
    show "?n + length (filter (entry_in s nm ex) q) \<le> length ?r" using bfs_visit.prems(4) by auto
  qed
  moreover have "overwrite ?r ?n (map sint (filter (entry_in s nm ex) q)) =
      overwrite result n (map sint (filter (entry_in s nm ex) (c # q)))"
    using overwrite_step [of n "map sint (filter (entry_in s nm ex) q)" result "sint c"] bfs_visit.prems(4) by auto
  ultimately show ?case unfolding step by auto
qed

text \<open>The whole search: the clusters of the folders that hold the name, in breadth-first order.\<close>

lemma find_fat_eq:
  assumes "bfs s [2] q" "length q \<le> length queue" "n + length (filter (entry_in s nm ex) q) \<le> length result"
  shows "\<exists>t. find_fat nm ex queue result (int n) s =
    Some (overwrite result n (map sint (filter (entry_in s nm ex) q)), int (n + length (filter (entry_in s nm ex) q)), t)"
proof -
  have "length [2 :: u32] \<le> length q" by (rule bfs_length [OF assms(1)])
  then have "0 < length queue" using assms(2) by (simp add: less_eq_Suc_le)
  then obtain x xs where q: "queue = x # xs" by (cases queue) auto
  then show ?thesis
    using find_loop_eq [of s "[2]" q 0 "queue[0 := 2]" s n nm ex result] assms by (simp add: find_fat_def)
qed

section \<open>The path of the current directory\<close>

lemma addPath_loop_eq:
  assumes "0 \<notin> set nm" "i \<le> length nm" "k + (length nm - i) \<le> length dir"
  shows "addPath_loop (nm @ 0 # rest) i dir (int k) =
    Some (overwrite dir k (drop i nm), int (k + (length nm - i)))"
  using assms
proof (induction "length nm - i" arbitrary: i k dir)
  case 0
  then show ?case by (simp add: addPath_loop.simps [of _ i] nth_append)
next
  case (Suc d)
  then have i: "i < length nm" "k < length dir" by linarith+
  then have i: "i < length nm" "nm ! i \<noteq> 0" "k < length dir" using Suc.prems(1) by (simp_all, metis nth_mem)
  have "addPath_loop (nm @ 0 # rest) i dir (int k) = addPath_loop (nm @ 0 # rest) (Suc i) (dir[k := nm ! i]) (int (Suc k))"
    using i by (subst addPath_loop.simps) (simp add: nth_append add.commute)
  also have "\<dots> = Some (overwrite (dir[k := nm ! i]) (Suc k) (drop (Suc i) nm), int (Suc k + (length nm - Suc i)))"
    using Suc i by (intro Suc.hyps(1)) auto
  also have "overwrite (dir[k := nm ! i]) (Suc k) (drop (Suc i) nm) = overwrite dir k (drop i nm)"
    using overwrite_step [of k "drop (Suc i) nm" dir "nm ! i"] i Suc.prems(3) by (simp add: Cons_nth_drop_Suc)
  finally show ?case using i by simp
qed

lemma removePath_loop_eq:
  assumes "0 < j" "j + n \<le> length dir" "dir ! (j - 1) = 47" "\<forall>i. j \<le> i \<and> i < j + n \<longrightarrow> dir ! i \<noteq> 47"
  shows "removePath_loop dir (int (j + n)) = Some (overwrite dir j (replicate n 0), int j)"
  using assms
proof (induction n arbitrary: dir)
  case 0
  then obtain j' where "j = Suc j'" by (cases j) auto
  with 0 show ?case by (simp add: removePath_loop.simps [of dir])
next
  case (Suc n)
  have e: "int (j + Suc n) - 1 = int (j + n)" by simp
  have "removePath_loop dir (int (j + Suc n)) = removePath_loop (dir[j + n := 0]) (int (j + n))"
    using Suc.prems by (subst removePath_loop.simps) (simp only: e arr_geti_of_nat arr_seti_of_nat, simp)
  also have "\<dots> = Some (overwrite (dir[j + n := 0]) j (replicate n 0), int j)"
    using Suc.prems by (intro Suc.IH) (auto simp: nth_list_update)
  also have "overwrite (dir[j + n := 0]) j (replicate n 0) = overwrite dir j (replicate (Suc n) 0)"
    by (rule overwrite_last) (use Suc.prems(2) in simp)
  finally show ?case .
qed

end
