(* ===== verification/FatProps.thy ===== *)
theory FatProps
  imports FatFind
begin

text \<open>
  The properties of the file system: \<open>read\<close>, \<open>write\<close> and \<open>delete\<close> are lookup, insertion and removal in
  the abstract volume, with every result code characterised; formatting gives the empty volume and
  mounting loses nothing; every sequence of operations keeps the volume consistent.  The last
  section has the behaviours in which the code falls short of that.
\<close>

section \<open>Writing\<close>

text \<open>C1: A file that \<open>write\<close> stored in a folder of a consistent volume, in a slot that is not marked as
  a folder, is read back: \<open>read\<close>, with any buffer that is large enough, returns 0 and the buffer then
  starts with exactly the bytes that were written.  When the slot still has the mark of a deleted
  folder, \<open>write\<close> returns 0 all the same, but \<open>read\<close> answers 1 and stores nothing.\<close>

theorem write_read_back:
  assumes "vol_ok s D" "p \<in> D" "parent_cluster_number r = of_nat p" "wf_request r" "request_key r \<noteq> zero_key"
    and "buffer_size r \<noteq> 0" "write_fat r m s = Some (0, s')" "buffer_size r \<le> size'"
  shows "if slot_tainted s p
    then read_fat (r\<lparr> r_buf := b, buffer_size := size' \<rparr>) m' s' = Some (1, m', load_dir s' (of_nat p))
    else \<exists>m2. read_fat (r\<lparr> r_buf := b, buffer_size := size' \<rparr>) m' s' = Some (0, m2, load_dir s' (of_nat p)) \<and>
      mem_load m2 b (unat (buffer_size r)) = mem_load m (r_buf r) (unat (buffer_size r))"
proof (cases "slot_tainted s p")
  case True
  then show ?thesis using write_tainted_read [OF assms(1-6) True assms(7,8)] by simp
next
  case False
  let ?r = "r\<lparr> r_buf := b, buffer_size := size' \<rparr>" and ?bs = "mem_load m (r_buf r) (unat (buffer_size r))"
  have w: "vol_ok s' D" "volume s' p (request_key r) = Some (File ?bs)"
    using write_file_step [OF assms(1-6) False assms(7)] by simp_all
  have "unat (buffer_size r) \<le> unat size'" using assms(8) by (simp add: word_le_nat_alt)
  then show ?thesis
    using read_step [OF w(1) assms(2), of ?r m'] assms(3-5) w(2) False by (auto simp: wf_request_def)
qed

lemma write_read_back_witness:
  "\<exists>s' m2. write_fat (file_request 3000) some_memory fs0 = Some (0, s') \<and>
     read_fat ((file_request 3000)\<lparr> r_buf := 0x8000, buffer_size := 4000 \<rparr>) (\<lambda>_. 0) s' = Some (0, m2, load_dir s' 2) \<and>
     mem_load m2 0x8000 3000 = mem_load some_memory 0x1000 3000"
proof -
  obtain s' where s': "write_fat (file_request 3000) some_memory fs0 = Some (0, s')"
    using file_run_fs0 [of 3000 some_memory] by auto
  then show ?thesis
    using write_read_back [OF fs0_ok(1) _ _ _ _ _ s', where size' = 4000 and b = "0x8000" and m' = "\<lambda>_. 0"] fs0_clean by auto
qed

text \<open>C2: A successful write of a file to a folder of a consistent volume: the name was free before.  When
  the slot for the entry is not marked as a folder, the file is inserted in the volume with the bytes
  of the caller's buffer, every other file and folder is unchanged, and the volume is still consistent:
  the clusters of the file are its own and the allocation table on disk is up to date.  When a deleted
  folder left its mark in the slot, the name is stored as a folder in a cluster that was free.\<close>

theorem write_file_correct:
  assumes "vol_ok s D" "p \<in> D" "parent_cluster_number r = of_nat p" "wf_request r" "request_key r \<noteq> zero_key"
    and "buffer_size r \<noteq> 0" "write_fat r m s = Some (0, s')"
  shows "volume s p (request_key r) = None \<and>
    (if slot_tainted s p
     then \<exists>c < 512. cluster_map s ! c = 0 \<and> volume s' p (request_key r) = Some (Folder (of_nat c))
     else vol_ok s' D \<and>
       volume s' p = (volume s p)(request_key r \<mapsto> File (mem_load m (r_buf r) (unat (buffer_size r)))) \<and>
       (\<forall>q \<in> D - {p}. volume s' q = volume s q))"
proof (cases "slot_tainted s p")
  case True
  show ?thesis by (rule write_tainted_step [OF assms(1-6) True assms(7)]) (use True in auto)
next
  case False
  then show ?thesis using write_file_step [OF assms(1-6) False assms(7)] by simp
qed

lemma write_file_correct_witness:
  "\<exists>s'. write_fat (file_request 3000) some_memory fs0 = Some (0, s') \<and> vol_ok s' {2} \<and>
     volume s' 2 = [request_key (file_request 3000) \<mapsto> File (mem_load some_memory 0x1000 3000)]"
proof -
  obtain s' where s': "write_fat (file_request 3000) some_memory fs0 = Some (0, s')"
    using file_run_fs0 [of 3000 some_memory] by auto
  then show ?thesis
    using write_file_correct [OF fs0_ok(1) _ _ _ _ _ s'] fs0_ok(2) fs0_clean by simp
qed

text \<open>A folder created in a folder of a consistent volume is in the volume afterwards, empty, in a
  cluster that held no folder before; every other file and folder is unchanged.\<close>

theorem write_folder_correct:
  assumes "vol_ok s D" "p \<in> D" "parent_cluster_number r = of_nat p" "wf_request r" "request_key r \<noteq> zero_key"
    and "buffer_size r = 0" "write_fat r m s = Some (0, s')"
  shows "\<exists>c. c \<notin> D \<and> vol_ok s' (insert c D) \<and> volume s' c = Map.empty \<and>
    volume s' p = (volume s p)(request_key r \<mapsto> Folder (of_nat c)) \<and>
    (\<forall>q \<in> D - {p}. volume s' q = volume s q)"
  by (rule write_folder_step [OF assms])

lemma write_folder_correct_witness:
  "\<exists>s' c. write_fat (file_request 0) some_memory fs0 = Some (0, s') \<and> vol_ok s' {c, 2} \<and>
     volume s' 2 = [request_key (file_request 0) \<mapsto> Folder (of_nat c)]"
proof -
  obtain s' where s': "write_fat (file_request 0) some_memory fs0 = Some (0, s')"
    using folder_run_fs0 by auto
  then show ?thesis
    using write_folder_correct [OF fs0_ok(1) _ _ _ _ _ s', of 2] fs0_ok(2) by auto
qed

lemma link_all_free:
  assumes "fat_ok fat"
  shows "free_clusters (link fat (free_clusters fat)) = []"
proof -
  have "link fat (free_clusters fat) ! i \<noteq> 0" if "i < 512" for i
  proof (cases "i \<in> set (free_clusters fat)")
    case True
    have "\<forall>c \<in> set (free_clusters fat). 0 < c \<and> c < 512" using free_not_reserved [OF assms] by fastforce
    with True show ?thesis by (intro link_nonzero fat_ok_length [OF assms]) simp_all
  next
    case False
    with that show ?thesis by (simp add: link_other free_clusters_set)
  qed
  then show ?thesis by (simp add: free_clusters_def [of "link _ _"] filter_empty_conv)
qed

lemma write_full_step:
  assumes "vol_ok s D" "p \<in> D" "parent_cluster_number r = of_nat p" "wf_request r" "request_key r \<noteq> zero_key"
    and "volume s p (request_key r) = None" "has_room s p" "buffer_size r \<noteq> 0" "\<not> fits s r"
  shows "\<exists>s'. write_fat r m s = Some (- 1, s') \<and> findEntry (dir_at s' (of_nat p)) (r_name r) (r_ext r) \<noteq> - 9999 \<and>
    free_clusters (cluster_map s') = [] \<and> decode_fat (cluster_at s' 1) = cluster_map s"
proof -
  obtain i c where cw: "can_write r s i c"
    using can_write_ex [OF assms(1-6)] assms(7) by (auto simp: has_room_def)
  note w = can_write_facts [OF assms(1-5) cw]
  obtain s' where s': "write_fat r m s = Some (- 1, s')"
    "dir_at s' (of_nat p) = (dir_at s (of_nat p))[i := new_entry (slot s p i) r c]"
    "cluster_map s' = link (cluster_map s) (take (clusters_for (buffer_size r)) (free_clusters (cluster_map s)))"
    "cluster_at s' 1 = cluster_at s 1"
    using write_file_dir [OF assms(1-5) cw assms(8), of m] assms(9) by auto
  have "take (clusters_for (buffer_size r)) (free_clusters (cluster_map s)) = free_clusters (cluster_map s)"
    using assms(8,9) by (simp add: fits_def)
  then have "free_clusters (cluster_map s') = []" using s'(3) link_all_free [OF volD(1) [OF assms(1)]] by simp
  moreover have "decode_fat (cluster_at s' 1) = cluster_map s"
    using s'(4) volD(1,2) [OF assms(1)] decode_encode_map by simp
  moreover have "findEntry (dir_at s' (of_nat p)) (r_name r) (r_ext r) \<noteq> - 9999"
    using findEntry_dir_map [OF w(5) wf_request_key [OF assms(4)] assms(5)] w(6) s'(2) by auto
  ultimately show ?thesis using s'(1) by blast
qed

text \<open>C23: \<open>write\<close> on a consistent volume always returns, and its code is 1 for a name that exists, \<open>-1\<close>
  when the folder or the disk has no room, and 0 otherwise.  The refusals for an existing name, a
  full folder and a disk without a free cluster change neither the disk nor the allocation table.  When
  the disk fills up in the middle of a file, the code is \<open>-1\<close> too, but the name is in the folder
  afterwards and every cluster is taken in the driver's table, while the table on the disk is the old
  one.\<close>

theorem write_codes:
  assumes "vol_ok s D" "p \<in> D" "parent_cluster_number r = of_nat p" "wf_request r" "request_key r \<noteq> zero_key"
  shows "if volume s p (request_key r) \<noteq> None then write_fat r m s = Some (1, load_dir s (of_nat p))
    else if \<not> has_room s p then write_fat r m s = Some (- 1, load_dir s (of_nat p))
    else if fits s r then \<exists>s'. write_fat r m s = Some (0, s')
    else \<exists>s'. write_fat r m s = Some (- 1, s') \<and> findEntry (dir_at s' (of_nat p)) (r_name r) (r_ext r) \<noteq> - 9999 \<and>
      free_clusters (cluster_map s') = [] \<and> decode_fat (cluster_at s' 1) = cluster_map s"
proof -
  have "\<exists>s'. write_fat r m s = Some (- 1, s') \<and> findEntry (dir_at s' (of_nat p)) (r_name r) (r_ext r) \<noteq> - 9999 \<and>
      free_clusters (cluster_map s') = [] \<and> decode_fat (cluster_at s' 1) = cluster_map s"
    if "volume s p (request_key r) = None" "has_room s p" "\<not> fits s r"
    using write_full_step [OF assms that(1,2) _ that(3)] that(3) by (simp add: fits_def)
  then show ?thesis using write_refused_codes [OF assms, of m] write_room [OF assms, of m] by (cases "fits s r") simp_all
qed

lemma write_codes_witness:
  "(\<exists>s'. write_fat (file_request 0xFFFFFFFF) some_memory fs0 = Some (- 1, s') \<and> free_clusters (cluster_map s') = [] \<and>
      decode_fat (cluster_at s' 1) = empty_fat) \<and>
   (\<exists>s'. write_fat (file_request 3000) some_memory fs0 = Some (0, s') \<and>
      write_fat (file_request 3000) some_memory s' = Some (1, load_dir s' 2))"
proof -
  have "2 \<le> (2 :: nat) \<and> (2 :: nat) < 64 \<and> \<not> used fs0 2 2" by (simp add: fs0_unused)
  then have room: "has_room fs0 2" unfolding has_room_def using fs0_map free_empty_fat by (intro conjI exI [of _ 2]) simp_all
  have "\<not> fits fs0 (file_request 0xFFFFFFFF)"
    by (simp add: fits_def clusters_for_def fs0_map free_empty_fat)
  then have full: "\<exists>s'. write_fat (file_request 0xFFFFFFFF) some_memory fs0 = Some (- 1, s') \<and> free_clusters (cluster_map s') = [] \<and>
      decode_fat (cluster_at s' 1) = empty_fat"
    using write_codes [OF fs0_ok(1), of 2 "file_request 0xFFFFFFFF" some_memory] fs0_ok(2) fs0_map room by auto
  have "fits fs0 (file_request 3000)" by (simp add: fits_def clusters_for_def fs0_map free_empty_fat)
  then obtain s' where s': "write_fat (file_request 3000) some_memory fs0 = Some (0, s')"
    using write_codes [OF fs0_ok(1), of 2 "file_request 3000" some_memory] fs0_ok(2) room by auto
  have w: "vol_ok s' {2}" "volume s' 2 (request_key (file_request 3000)) \<noteq> None"
    using write_file_step [OF fs0_ok(1) _ _ _ _ _ fs0_clean s'] by simp_all
  show ?thesis using full s' write_codes [OF w(1), of 2 "file_request 3000" some_memory] w(2) by auto
qed

section \<open>Deleting\<close>

text \<open>C3: Deleting an entry of a consistent volume: the result code says what the volume holds under the
  name, a file or an empty folder is removed and nothing else changes, and the volume stays
  consistent (its clusters are free again).  The loop over the chain always ends.\<close>

theorem delete_correct:
  assumes "vol_ok s D" "p \<in> D" "parent_cluster_number r = of_nat p" "wf_request r" "request_key r \<noteq> zero_key"
  shows "case volume s p (request_key r) of
      None \<Rightarrow> delete_fat r s = Some (1, load_dir s (of_nat p))
    | Some (Folder c) \<Rightarrow>
        if volume s (unat c) = Map.empty
        then \<exists>s'. delete_fat r s = Some (0, s') \<and> vol_ok s' (D - {unat c}) \<and>
          volume s' p = (volume s p)(request_key r := None) \<and> (\<forall>q \<in> D - {unat c} - {p}. volume s' q = volume s q)
        else delete_fat r s = Some (2, load_dir s (of_nat p))
    | Some (File bs) \<Rightarrow>
        \<exists>s'. delete_fat r s = Some (0, s') \<and> vol_ok s' D \<and>
          volume s' p = (volume s p)(request_key r := None) \<and> (\<forall>q \<in> D - {p}. volume s' q = volume s q)"
  by (rule delete_step [OF assms])

lemma delete_correct_witness:
  "\<exists>s' s''. write_fat (file_request 3000) some_memory fs0 = Some (0, s') \<and>
     delete_fat (file_request 3000) s' = Some (0, s'') \<and> vol_ok s'' {2} \<and> volume s'' 2 = Map.empty"
proof -
  obtain s' where s': "write_fat (file_request 3000) some_memory fs0 = Some (0, s')"
    using file_run_fs0 [of 3000 some_memory] by auto
  have w: "vol_ok s' {2}" "volume s' 2 = [request_key (file_request 3000) \<mapsto> File (mem_load some_memory 0x1000 3000)]"
    using write_file_step [OF fs0_ok(1) _ _ _ _ _ fs0_clean s'] fs0_ok(2) by simp_all
  show ?thesis using delete_correct [OF w(1), of 2 "file_request 3000"] s' w(2) by auto
qed

text \<open>C24: Writing a file and deleting it again gives back the allocation table and the volume when the slot
  was not marked as a folder.  With the mark of a deleted folder, \<open>delete\<close> takes the first cluster of the
  file for a table: when the bytes there look like a table in use it refuses with 2, otherwise it frees
  that cluster alone, and the other clusters of the file stay allocated.\<close>

theorem write_delete_restores:
  assumes "vol_ok s D" "p \<in> D" "parent_cluster_number r = of_nat p" "wf_request r" "request_key r \<noteq> zero_key"
    and "buffer_size r \<noteq> 0" "write_fat r m s = Some (0, s')"
  shows "if slot_tainted s p
    then \<exists>c < 512. volume s' p (request_key r) = Some (Folder (of_nat c)) \<and>
      (if isEmptyDir (dir_at s' (of_nat c))
       then \<exists>s''. delete_fat r s' = Some (0, s'') \<and> cluster_map s'' = (cluster_map s')[c := 0]
       else delete_fat r s' = Some (2, load_dir s' (of_nat p)))
    else \<exists>s''. delete_fat r s' = Some (0, s'') \<and> cluster_map s'' = cluster_map s \<and>
      (\<forall>q \<in> D. volume s'' q = volume s q)"
proof (cases "slot_tainted s p")
  case True
  then show ?thesis using delete_tainted_step [OF assms(1-6) True assms(7)] by simp
next
  case False
  then show ?thesis using write_delete_step [OF assms(1-6) False assms(7)] by simp
qed

lemma write_delete_restores_witness:
  "\<exists>s' s''. write_fat (file_request 5000) some_memory fs0 = Some (0, s') \<and>
     delete_fat (file_request 5000) s' = Some (0, s'') \<and> cluster_map s'' = empty_fat"
proof -
  obtain s' where s': "write_fat (file_request 5000) some_memory fs0 = Some (0, s')"
    using file_run_fs0 [of 5000 some_memory] by auto
  then show ?thesis
    using write_delete_restores [OF fs0_ok(1) _ _ _ _ _ s'] fs0_map fs0_clean by auto
qed

section \<open>Reading\<close>

text \<open>C8: \<open>read\<close> on a consistent volume: the code says whether the name is a file, a folder or neither and
  whether the buffer is large enough; on success the buffer starts with exactly the file's bytes,
  and what is stored is padded to whole clusters, so that it can run past \<open>buffer_size\<close>.  The loop
  over the chain always ends.\<close>

theorem read_correct:
  assumes "vol_ok s D" "p \<in> D" "parent_cluster_number r = of_nat p" "wf_request r" "request_key r \<noteq> zero_key"
  shows "case volume s p (request_key r) of
      None \<Rightarrow> read_fat r m s = Some (3, m, load_dir s (of_nat p))
    | Some (Folder c) \<Rightarrow> read_fat r m s = Some (1, m, load_dir s (of_nat p))
    | Some (File bs) \<Rightarrow>
        if unat (buffer_size r) < length bs then read_fat r m s = Some (2, m, load_dir s (of_nat p))
        else \<exists>slack m'. read_fat r m s = Some (0, m', load_dir s (of_nat p)) \<and>
          m' = mem_store m (r_buf r) (bs @ slack) \<and> length (bs @ slack) = 2048 * clusters_for (of_nat (length bs)) \<and>
          mem_load m' (r_buf r) (length bs) = bs"
  by (rule read_step [OF assms])

lemma read_correct_witness:
  "\<exists>s'. write_fat (file_request 3000) some_memory fs0 = Some (0, s') \<and>
     read_fat (file_request 2999) some_memory s' = Some (2, some_memory, load_dir s' 2)"
proof -
  obtain s' where s': "write_fat (file_request 3000) some_memory fs0 = Some (0, s')"
    using file_run_fs0 [of 3000 some_memory] by auto
  have w: "vol_ok s' {2}" "volume s' 2 = [request_key (file_request 3000) \<mapsto> File (mem_load some_memory 0x1000 3000)]"
    using write_file_step [OF fs0_ok(1) _ _ _ _ _ fs0_clean s'] fs0_ok(2) by simp_all
  have "request_key (file_request 2999) = request_key (file_request 3000)" by (simp add: file_request_def)
  then show ?thesis using read_correct [OF w(1), of 2 "file_request 2999" some_memory] s' w(2) by auto
qed

text \<open>\<open>read_directory\<close> returns the table of the folder with the name, 1 for a file and 2 for no entry.\<close>

theorem read_directory_correct:
  assumes "vol_ok s D" "p \<in> D" "parent_cluster_number r = of_nat p" "wf_request r" "request_key r \<noteq> zero_key"
  shows "case volume s p (request_key r) of
      None \<Rightarrow> read_directory r m s = (2, m, load_dir s (of_nat p))
    | Some (File bs) \<Rightarrow> read_directory r m s = (1, m, load_dir s (of_nat p))
    | Some (Folder c) \<Rightarrow> \<exists>m'. read_directory r m s = (0, m', load_dir s (of_nat p)) \<and>
        decode_table (mem_load m' (r_buf r) 2048) = dir_at s c \<and> unat c \<in> D"
proof (rule findEntry_cases [of "parent_dir s r" "r_name r" "r_ext r"])
  assume none: "findEntry (parent_dir s r) (r_name r) (r_ext r) = - 9999"
  then show ?thesis using find_none [OF assms] assms(3) by (simp add: read_directory_def)
next
  fix i assume f: "findEntry (parent_dir s r) (r_name r) (r_ext r) = int i"
  note u = find_slot [OF assms f]
  have sl: "dir_at s (of_nat p) ! i = slot s p i" by (simp add: slot_def)
  show ?thesis
  proof (cases "is_folder (slot s p i)")
    case True
    then have "clus (slot s p i) \<in> D" using volD(7) [OF assms(1,2) u(1)] by (simp add: entry_ok_def)
    then show ?thesis using True f u(3) assms(3) sl
      by (simp add: read_directory_def Let_def content_def is_folder_def dir_at_def clus_def)
  next
    case False
    then show ?thesis using f u(3) assms(3) sl
      by (simp add: read_directory_def Let_def content_def is_folder_def)
  qed
qed

lemma read_directory_correct_witness:
  "read_directory (file_request 2048) some_memory fs0 = (2, some_memory, load_dir fs0 2)"
  using read_directory_correct [OF fs0_ok(1), of 2 "file_request 2048" some_memory] fs0_ok(2) by simp

section \<open>Formatting and mounting\<close>

text \<open>C22: Formatting any disk succeeds and gives the consistent volume whose only folder is the root, which
  is empty; the storage is then recognised as formatted.\<close>

theorem create_fat32_correct:
  assumes "length (cluster_map s) = 512"
  shows "\<exists>s'. create_fat32 s = Some s' \<and> vol_ok s' {2} \<and> volume s' 2 = Map.empty \<and> is_empty_storage s' = Some False"
  using create_fat32_eq [OF assms] formatted_vol_ok [of s] not_empty_storage [OF volD(9), of "formatted s" "{2}"]
  by simp

lemma create_fat32_correct_witness:
  "\<exists>s'. create_fat32 blank = Some s' \<and> vol_ok s' {2} \<and> is_empty_storage s' = Some False"
  using create_fat32_correct [of blank] by (auto simp: blank_def)

text \<open>Mounting a consistent volume gives back exactly the driver state it had, whatever the driver's
  copy of the allocation table was before: nothing that the operations did is lost.\<close>

theorem mount_restores:
  assumes "vol_ok s D"
  shows "initialize_filesystem_fat32 (s\<lparr> cluster_map := junk \<rparr>) = Some s"
  by (rule mount_eq [OF assms])

lemma mount_restores_witness:
  "initialize_filesystem_fat32 (fs0\<lparr> cluster_map := replicate 512 7 \<rparr>) = Some fs0"
  by (rule mount_restores [OF fs0_ok(1)])

section \<open>Sequences of operations\<close>

text \<open>The folders of the disk are the root and what the entries in use of a folder name as folders.\<close>

inductive folder_of :: "fs \<Rightarrow> nat \<Rightarrow> bool" for s where
  folder_root: "folder_of s 2"
| folder_sub: "folder_of s p \<Longrightarrow> used s p i \<Longrightarrow> is_folder (slot s p i) \<Longrightarrow> folder_of s (clus (slot s p i))"

lemma folder_of_in: "folder_of s p \<Longrightarrow> vol_ok s D \<Longrightarrow> p \<in> D"
proof (induction rule: folder_of.induct)
  case folder_root
  then show ?case by (rule volD(3))
next
  case (folder_sub p i)
  then show ?case using volD(7) [of s D p i] by (simp add: entry_ok_def)
qed

text \<open>A call of the driver: on a request for a folder of the disk and a name that is not zero.  A write is
  refused for its name or for want of a slot or cluster, or what it writes fits and is not a file for a
  slot that a deleted folder left marked; the last section shows what the other writes do.\<close>

definition request_for :: "fs \<Rightarrow> request \<Rightarrow> nat \<Rightarrow> bool" where
  "request_for s r p = (folder_of s p \<and> parent_cluster_number r = of_nat p \<and> wf_request r \<and> request_key r \<noteq> zero_key)"

inductive fs_call :: "fs \<Rightarrow> fs \<Rightarrow> bool" where
  call_write: "request_for s r p \<Longrightarrow>
    volume s p (request_key r) \<noteq> None \<or> \<not> has_room s p \<or> fits s r \<and> (buffer_size r = 0 \<or> \<not> slot_tainted s p) \<Longrightarrow>
    write_fat r m s = Some (code, s') \<Longrightarrow> fs_call s s'"
| call_delete: "request_for s r p \<Longrightarrow> delete_fat r s = Some (code, s') \<Longrightarrow> fs_call s s'"
| call_read: "request_for s r p \<Longrightarrow> read_fat r m s = Some (code, m', s') \<Longrightarrow> fs_call s s'"
| call_mount: "initialize_filesystem_fat32 s = Some s' \<Longrightarrow> fs_call s s'"

lemma request_forD:
  assumes "vol_ok s D" "request_for s r p"
  shows "p \<in> D" "parent_cluster_number r = of_nat p" "wf_request r" "request_key r \<noteq> zero_key"
  using assms folder_of_in [of s p D] by (simp_all add: request_for_def)

lemma fs_call_ok:
  assumes "vol_ok s D" "fs_call s s'"
  shows "\<exists>D'. vol_ok s' D'"
  using assms(2)
proof (cases rule: fs_call.cases)
  case c: (call_write r p m code)
  note q = request_forD [OF assms(1) c(1)]
  consider "volume s p (request_key r) \<noteq> None \<or> \<not> has_room s p"
    | "write_fat r m s = Some (0, s')" "buffer_size r = 0 \<or> \<not> slot_tainted s p"
  proof (cases "volume s p (request_key r) \<noteq> None \<or> \<not> has_room s p")
    case False
    then have "fits s r" "buffer_size r = 0 \<or> \<not> slot_tainted s p" using c(2) by blast+
    then show ?thesis using that(2) c(3) False write_room [OF assms(1) q, of m] by simp
  qed (use that(1) in blast)
  then show ?thesis
  proof cases
    case 1
    then have "s' = load_dir s (of_nat p)" using write_refused_codes [OF assms(1) q, of m] c(3) by auto
    then show ?thesis using assms(1) by auto
  next
    case w: 2
    show ?thesis
    proof (cases "buffer_size r = 0")
      case True
      then show ?thesis using write_folder_step [OF assms(1) q True w(1)] by blast
    next
      case False
      then show ?thesis using write_file_step [OF assms(1) q False _ w(1)] w(2) False by blast
    qed
  qed
next
  case c: (call_delete r p code)
  note q = request_forD [OF assms(1) c(1)]
  show ?thesis using delete_step [OF assms(1) q] c(2) assms(1)
    by (auto split: option.splits node.splits if_splits)
next
  case c: (call_read r p m code m')
  note q = request_forD [OF assms(1) c(1)]
  show ?thesis using read_step [OF assms(1) q, of m] c(2) assms(1)
    by (auto split: option.splits node.splits if_splits)
next
  case c: call_mount
  have "s\<lparr> cluster_map := cluster_map s \<rparr> = s" by simp
  then show ?thesis using mount_eq [OF assms(1), of "cluster_map s"] c assms(1) by auto
qed

text \<open>C7: After formatting, every sequence of reads, deletions, mounts and writes (\<open>fs_call\<close>) leaves a
  consistent volume, as long as the requests are for folders of the disk and names that are not zero, and
  no file is written that fills the disk before its end or goes to a slot that is still marked as a
  folder: a valid allocation table that is also the one on disk, tidy
  folders, and files with chains of their own of the right length.\<close>

theorem calls_keep_volume:
  assumes "length (cluster_map s) = 512" "create_fat32 s = Some s0" "fs_call\<^sup>*\<^sup>* s0 s'"
  shows "\<exists>D. vol_ok s' D \<and> {p. folder_of s' p} \<subseteq> D"
proof -
  have "\<exists>D. vol_ok s' D"
    using assms(3)
  proof (induction rule: rtranclp_induct)
    case base
    then show ?case using create_fat32_eq [OF assms(1)] assms(2) formatted_vol_ok [of s] by auto
  next
    case (step y z)
    then show ?case using fs_call_ok by blast
  qed
  then show ?thesis using folder_of_in by blast
qed

lemma calls_keep_volume_witness:
  "\<exists>s'. write_fat (file_request 3000) some_memory fs0 = Some (0, s') \<and> (\<exists>D. vol_ok s' D \<and> {p. folder_of s' p} \<subseteq> D)"
proof -
  obtain s' where s': "write_fat (file_request 3000) some_memory fs0 = Some (0, s')"
    using file_run_fs0 [of 3000 some_memory] by auto
  have "request_for fs0 (file_request 3000) 2" by (simp add: request_for_def folder_root)
  moreover have "fits fs0 (file_request 3000)"
    by (simp add: fits_def clusters_for_def fs0_map free_empty_fat)
  ultimately have "fs_call fs0 s'" using fs0_clean by (intro call_write [OF _ _ s', of 2] disjI2 conjI)
  moreover have "create_fat32 blank = Some fs0" unfolding fs0_def by (rule create_fat32_eq) (simp add: blank_def)
  moreover have "length (cluster_map blank) = 512" by (simp add: blank_def)
  ultimately show ?thesis using calls_keep_volume [of blank fs0 s'] s' by blast
qed

section \<open>Searching the tree\<close>

text \<open>C25: \<open>find\<close> returns the clusters of exactly the folders below the root that hold the name, in
  breadth-first order, when there are at most 100 folders and the results fit in the caller's array.
  (With more of either the code writes past its arrays: there is no result.)\<close>

theorem find_correct:
  assumes "bfs s [2] q" "length q \<le> length queue" "n + length (filter (entry_in s nm ex) q) \<le> length result"
  shows "(\<exists>t. find_fat nm ex queue result (int n) s =
      Some (overwrite result n (map sint (filter (entry_in s nm ex) q)), int (n + length (filter (entry_in s nm ex) q)), t)) \<and>
    set (filter (entry_in s nm ex) q) = {c. below s 2 c \<and> entry_in s nm ex c}"
  using find_fat_eq [OF assms] bfs_set [OF assms(1)] by auto

lemma bfs_fs0: "bfs fs0 [2] [2]"
proof -
  have "children fs0 2 = []"
    using fs0_unused unfolding children_def
    by (auto simp: filter_empty_conv in_set_conv_nth used_def slot_def wf_table_length [OF wf_dir_at])
  then show ?thesis by (auto intro!: bfs.intros)
qed

lemma find_correct_witness:
  "\<exists>t. find_fat (r_name (file_request 1)) (r_ext (file_request 1)) (replicate 100 0) (replicate 50 0) 0 fs0 =
     Some (replicate 50 0, 0, t)"
proof -
  have "\<not> entry_in fs0 (r_name (file_request 1)) (r_ext (file_request 1)) 2"
    using find_none [OF fs0_ok(1), of 2 "file_request 1"] fs0_ok(2) by (simp add: entry_in_def)
  then show ?thesis
    using find_correct [OF bfs_fs0, of "replicate 100 0" 0 "r_name (file_request 1)" "r_ext (file_request 1)" "replicate 50 0"]
    by simp
qed

section \<open>The current directory\<close>

text \<open>Entering a folder and leaving it again gives back the path: \<open>addPath\<close> appends the name and a
  slash, and \<open>removePath\<close> stops at the slash before them.\<close>

theorem path_round_trip:
  assumes "length (cur_dir sh) = 100" "sh_idx sh = int k" "0 < k" "cur_dir sh ! (k - 1) = 47"
    and "0 \<notin> set nm" "47 \<notin> set nm" "k + length nm < 100"
  shows "\<exists>sh'. addPath (nm @ 0 # rest) sh = Some sh' \<and> take (k + length nm + 1) (cur_dir sh') = take k (cur_dir sh) @ nm @ [47] \<and>
    (\<exists>sh''. removePath sh' = Some sh'' \<and> sh_idx sh'' = sh_idx sh \<and> take k (cur_dir sh'') = take k (cur_dir sh))"
proof -
  let ?n = "length nm" and ?d = "overwrite (cur_dir sh) k nm"
  let ?d' = "?d[k + ?n := 47]"
  let ?sh = "sh\<lparr> cur_dir := ?d', sh_idx := int (k + ?n) + 1 \<rparr>" and ?z = "?d[k + ?n := 0]"
  have len: "length ?d = 100" using assms(1,7) by simp
  have "addPath_loop (nm @ 0 # rest) 0 (cur_dir sh) (int k) = Some (?d, int (k + ?n))"
    using addPath_loop_eq [OF assms(5), of 0 k "cur_dir sh" rest] assms(1,7) by simp
  then have add: "addPath (nm @ 0 # rest) sh = Some ?sh"
    using len assms(2,7) by (simp add: addPath_def del: of_nat_add)
  have "take (Suc (k + ?n)) ?d' = take (k + ?n) ?d @ [47]" using len assms(7) by (simp add: take_Suc_conv_app_nth)
  moreover have "take (k + ?n) ?d = take k (cur_dir sh) @ nm" using assms(1,7) by (simp add: overwrite_def)
  ultimately have path: "take (k + ?n + 1) ?d' = take k (cur_dir sh) @ nm @ [47]" by simp
  have z: "?d'[k + ?n := 0] = ?z" by simp
  have "removePath_loop ?z (int (k + ?n)) = Some (overwrite ?z k (replicate ?n 0), int k)"
  proof (rule removePath_loop_eq)
    show "?z ! (k - 1) = 47" using assms(1,3,4,7) by (cases k) (simp_all add: overwrite_nth)
    show "\<forall>i. k \<le> i \<and> i < k + ?n \<longrightarrow> ?z ! i \<noteq> 47"
      using assms(1,6,7) by (auto simp: overwrite_nth) (metis add.commute less_diff_conv2 nth_mem)
  qed (use assms(3,7) len in simp_all)
  then have rem: "removePath ?sh = Some (?sh\<lparr> cur_dir := overwrite ?z k (replicate ?n 0), sh_idx := int k \<rparr>)"
    using len assms(7) z by (simp add: removePath_def del: of_nat_add)
  have "take k (overwrite ?z k (replicate ?n 0)) = take k (cur_dir sh)"
    using assms(1,7) len by (simp add: overwrite_def)
  with add path rem show ?thesis using assms(2) by simp
qed

lemma path_round_trip_witness:
  "\<exists>sh'. addPath (cstr ''docs'' @ 0 # []) shell_state = Some sh' \<and> take 10 (cur_dir sh') = cstr ''Root/docs/''"
  using path_round_trip [of shell_state 5 "cstr ''docs''" "[]"]
  by (auto simp: shell_state_def cstr_def)

section \<open>Where the code falls short\<close>

text \<open>A file that does not fit: \<open>write\<close> returns \<open>-1\<close> but has already stored the directory entry with
  the full size and taken every free cluster; it does not store the allocation table.  So the name
  exists from then on, the driver's table has no free cluster, and the table on disk, which the next
  mount loads, still has the entry's clusters as free.\<close>

theorem write_disk_full:
  assumes "vol_ok s D" "p \<in> D" "parent_cluster_number r = of_nat p" "wf_request r" "request_key r \<noteq> zero_key"
    and "volume s p (request_key r) = None" "has_room s p" "buffer_size r \<noteq> 0" "\<not> fits s r"
  shows "\<exists>s'. write_fat r m s = Some (- 1, s') \<and> findEntry (dir_at s' (of_nat p)) (r_name r) (r_ext r) \<noteq> - 9999 \<and>
    free_clusters (cluster_map s') = [] \<and> decode_fat (cluster_at s' 1) = cluster_map s"
  by (rule write_full_step [OF assms])

lemma write_disk_full_witness:
  "\<exists>s'. write_fat (file_request 0xFFFFFFFF) some_memory fs0 = Some (- 1, s') \<and>
     free_clusters (cluster_map s') = [] \<and> decode_fat (cluster_at s' 1) = empty_fat"
proof -
  have "2 \<le> (2 :: nat) \<and> (2 :: nat) < 64 \<and> \<not> used fs0 2 2" by (simp add: fs0_unused)
  then have "has_room fs0 2" unfolding has_room_def using fs0_map free_empty_fat by (intro conjI exI [of _ 2]) simp_all
  moreover have "\<not> fits fs0 (file_request 0xFFFFFFFF)"
    by (simp add: fits_def clusters_for_def fs0_map free_empty_fat)
  ultimately show ?thesis
    using write_disk_full [OF fs0_ok(1), of 2 "file_request 0xFFFFFFFF" some_memory] fs0_ok(2) fs0_map by auto
qed

text \<open>\<open>deleteEntry\<close> does not clear the attribute and \<open>addEntry\<close> sets it only for folders.  When a
  folder is deleted from the first slot that is then free, the next file created in the same parent
  goes to that slot and is marked as a folder: \<open>read\<close> refuses it with code 1.\<close>

theorem deleted_folder_taints_slot:
  assumes "vol_ok s D" "p \<in> D" "parent_cluster_number r = of_nat p" "wf_request r" "request_key r \<noteq> zero_key"
    and "findEntry (parent_dir s r) (r_name r) (r_ext r) = int i" "is_folder (slot s p i)"
    and "isEmptyDir (dir_at s (of_nat (clus (slot s p i))))" "\<forall>j. 2 \<le> j \<and> j < i \<longrightarrow> used s p j"
    and "delete_fat r s = Some (0, s1)" "n \<noteq> 0" "fits s1 (r\<lparr> buffer_size := n \<rparr>)"
  shows "\<exists>s2. write_fat (r\<lparr> buffer_size := n \<rparr>) m s1 = Some (0, s2) \<and>
    read_fat (r\<lparr> buffer_size := n \<rparr>) m' s2 = Some (1, m', load_dir s2 (of_nat p))"
proof -
  let ?r = "r\<lparr> buffer_size := n \<rparr>" and ?D = "D - {clus (slot s p i)}"
  have r: "wf_request ?r" "request_key ?r \<noteq> zero_key" "parent_cluster_number ?r = of_nat p"
    using assms(3-5) by (simp_all add: wf_request_def)
  have re: "removes s s1 D ?D p i [clus (slot s p i)]"
    and gone: "dir_map (dir_at s1 (of_nat p)) = (dir_map (dir_at s (of_nat p)))(request_key r := None)"
    using delete_folder_removes [OF assms(1-8)] assms(10) by auto
  note ok1 = vol_remove [OF assms(1) re] and p1 = rem_D(3) [OF assms(1) re] and d = removesD [OF re]
  have i: "2 \<le> i" "i < 64" using d(2) by (simp_all add: used_def)
  have sl: "slot s1 p j = (if j = i then cleared (slot s p i) else slot s p j)" for j
    using d(6) i wf_table_length [OF wf_dir_at, of s "of_nat p"] by (simp add: slot_def)
  have none: "volume s1 p (request_key ?r) = None" using gone by (simp add: volume_def)
  have "\<not> in_use (slot s1 p i)" by (simp add: sl in_use_def cleared_def)
  moreover have "in_use (slot s1 p j)" if "2 \<le> j" "j < i" for j using assms(9) that by (simp add: sl used_def)
  ultimately have idx: "findIdxEmptyEntry (parent_dir s1 ?r) = int i"
    unfolding findIdxEmptyEntry_def found_def using i assms(3)
    by (subst scan_eqI [of _ i]) (auto simp: in_use_def slot_def)
  have cl: "clus (slot s p i) \<in> set (free_clusters (cluster_map s1))"
    using d(4) vol_folder [OF assms(1)] removed_head(2) [OF assms(1) re assms(7)] fat_ok_length [OF volD(1) [OF assms(1)]]
    by (simp add: free_clusters_set)
  have "has_room s1 p"
    unfolding has_room_def using i cl by (auto simp: used_def sl in_use_def cleared_def intro!: exI [of _ i])
  then obtain j c where cw: "can_write ?r s1 j c"
    using can_write_ex [OF ok1 p1 r(3,1,2) none] by (auto simp: has_room_def)
  then have ji: "j = i" using idx by (simp add: can_write_def)
  obtain s2 where s2: "write_fat ?r m s1 = Some (0, s2)"
    "dir_at s2 (of_nat p) = (dir_at s1 (of_nat p))[i := new_entry (slot s1 p i) ?r c]"
    using write_file_dir [OF ok1 p1 r(3,1,2) cw, of m] assms(11,12) ji by auto
  let ?e = "new_entry (cleared (slot s p i)) ?r c"
  note w = can_write_facts [OF ok1 p1 r(3,1,2) cw]
  have e: "attribute ?e = ATTR_SUBDIRECTORY" "filesize ?e = n"
    using assms(7,11) by (simp_all add: new_entry_def cleared_def is_folder_def)
  have "dir_map (dir_at s2 (of_nat p)) (request_key r) = Some ?e" "tidy (dir_at s2 (of_nat p))"
    using w(5,6) s2(2) ji by (simp_all add: sl)
  then have "findEntry (dir_at s2 (of_nat p)) (r_name r) (r_ext r) \<noteq> - 9999"
    "dir_at s2 (of_nat p) ! nat (findEntry (dir_at s2 (of_nat p)) (r_name r) (r_ext r)) = ?e"
    using findEntry_dir_map [OF _ wf_request_key [OF assms(4)] assms(5)] by (auto split: if_splits)
  then have "read_fat ?r m' s2 = Some (1, m', load_dir s2 (of_nat p))"
    using e assms(3) by (simp add: read_fat_def Let_def)
  with s2(1) show ?thesis by blast
qed

lemma deleted_folder_taints_slot_witness:
  "\<exists>s1 s2 s3. write_fat (file_request 0) some_memory fs0 = Some (0, s1) \<and> delete_fat (file_request 0) s1 = Some (0, s2) \<and>
     write_fat (file_request 100) some_memory s2 = Some (0, s3) \<and>
     read_fat (file_request 100) some_memory s3 = Some (1, some_memory, load_dir s3 2)"
proof -
  let ?r = "file_request 0"
  obtain i c where cw: "can_write ?r fs0 i c" using can_write_fs0 [of ?r] by auto
  obtain s1 where s1: "write_fat ?r some_memory fs0 = Some (0, s1)"
    and ad: "adds fs0 s1 {2} (insert c {2}) 2 i (new_entry (slot fs0 2 i) ?r c) [c]"
    and m: "dir_map (dir_at s1 (of_nat 2)) = (dir_map (dir_at fs0 (of_nat 2)))(request_key ?r \<mapsto> new_entry (slot fs0 2 i) ?r c)"
      "dir_at s1 (of_nat c) = new_dir (r_name ?r) (of_nat 2)"
    using write_folder_adds [OF fs0_ok(1) _ _ _ _ cw, of 2 some_memory] by auto
  have ok1: "vol_ok s1 (insert c {2})" by (rule vol_add [OF fs0_ok(1) ad])
  have two: "2 \<in> insert c {2}" and req: "wf_request ?r" "request_key ?r \<noteq> zero_key" "parent_cluster_number ?r = of_nat 2"
    by simp_all
  have "findIdxEmptyEntry (parent_dir fs0 ?r) = int i" using cw by (simp add: can_write_def)
  then have "2 \<le> i \<and> i < 64 \<and> (\<forall>j. 2 \<le> j \<and> j < i \<longrightarrow> in_use (slot fs0 2 j))"
    using findIdxEmptyEntry_Some [of "parent_dir fs0 ?r" i] by (simp add: slot_def)
  then have "2 < i \<Longrightarrow> used fs0 2 2" by (simp add: used_def)
  then have i: "i = 2" using fs0_unused [of 2] \<open>2 \<le> i \<and> _\<close> by linarith
  have "volume s1 2 (request_key ?r) \<noteq> None" using m(1) by (simp add: volume_def)
  then obtain j where f: "findEntry (parent_dir s1 ?r) (r_name ?r) (r_ext ?r) = int j"
    using find_none [OF ok1 two req(3,1,2)] findEntry_cases by metis
  have j: "j = 2"
    using add_used [OF fs0_ok(1) ad two find_slot(1) [OF ok1 two req(3,1,2) f]] i fs0_unused by auto
  have e: "slot s1 2 2 = new_entry (slot fs0 2 i) ?r c" using slot_new [OF ad] i by simp
  have c: "clus (slot s1 2 2) = c" using addsD(9) [OF ad] e by simp
  have fold: "is_folder (slot s1 2 j)" unfolding j e by (simp add: is_folder_def new_entry_def)
  have emp: "isEmptyDir (dir_at s1 (of_nat (clus (slot s1 2 j))))"
    unfolding j c m(2) using tidy_new_dir [of "r_name ?r" "of_nat 2"] req(1) by (simp add: wf_request_def)
  obtain s2 where s2: "delete_fat ?r s1 = Some (0, s2)" "removes s1 s2 (insert c {2}) (insert c {2} - {c}) 2 j [c]"
    using delete_folder_removes [OF ok1 two req(3,1,2) f fold emp] c j by auto
  have "c \<in> set (free_clusters (cluster_map s2))"
    using removesD(4) [OF s2(2)] vol_folder [OF ok1, of c] fat_ok_length [OF volD(1) [OF ok1]]
    by (simp add: free_clusters_set)
  then have "0 < length (free_clusters (cluster_map s2))" by (rule length_pos_if_in_set)
  then have fit: "fits s2 (?r\<lparr> buffer_size := 100 \<rparr>)" by (simp add: fits_def clusters_for_def Suc_le_eq)
  have below: "\<forall>k. 2 \<le> k \<and> k < j \<longrightarrow> used s1 2 k" using j by auto
  have "?r\<lparr> buffer_size := 100 \<rparr> = file_request 100" by (simp add: file_request_def)
  then show ?thesis
    using deleted_folder_taints_slot [OF ok1 two req(3,1,2) f fold emp below s2(1) _ fit, of some_memory some_memory] s1 s2(1)
    by auto
qed

end
