(* ===== verification/Paging.thy ===== *)
theory Paging
  imports Prelude
begin

text \<open>
  Page frames and page directories, \<open>src/src/paging.c\<close>: the frame map with its free count and its
  hint for the next free frame, the 32 page directories with their used marks, and the operations
  that map and unmap 4 MiB user pages.  \<open>invlpg\<close> and \<open>cr3\<close> are recorded, not interpreted.

  A frame that is handed out is really free as long as the last free frame is never taken
  (\<open>alloc_ok\<close>); \<open>frame_shared\<close> and \<open>directories_leak\<close> in \<open>FrameProps\<close> show what happens otherwise.
\<close>

section \<open>Data\<close>

record pd_flag =
  present_bit :: bool
  write_bit :: bool
  user_bit :: bool
  pwt_bit :: bool
  pcd_bit :: bool
  acc_bit :: bool
  dirty_bit :: bool
  use_pagesize_4_mb :: bool

record pde =
  flag :: pd_flag
  global_page :: "1 word"
  ignored_bit :: "3 word"
  pat_bit :: "1 word"
  higher_address :: "8 word"
  reserved_bit :: "1 word"
  lower_address :: "10 word"

type_synonym page_directory = "pde list"

text \<open>A \<open>struct PageDirectory *\<close>: null, an element of \<open>page_directory_list\<close>, or the kernel's own.\<close>

datatype pd_ptr = PdNull | Listed nat | PdKernel

record paging =
  page_directory_list :: "page_directory list"
  page_directory_used :: "bool list"
  page_dir_free :: int
  kernel_page_directory :: page_directory
  page_frame_map :: "bool list"
  free_page_frame_count :: u32
  next_free_frame :: u32
  invlpg :: "u32 list"

definition no_flag :: pd_flag where
  "no_flag = \<lparr> present_bit = False, write_bit = False, user_bit = False, pwt_bit = False, pcd_bit = False,
              acc_bit = False, dirty_bit = False, use_pagesize_4_mb = False \<rparr>"

definition zero_pde :: pde where
  "zero_pde = \<lparr> flag = no_flag, global_page = 0, ignored_bit = 0, pat_bit = 0, higher_address = 0,
               reserved_bit = 0, lower_address = 0 \<rparr>"

definition kernel_entry :: pde where
  "kernel_entry = zero_pde\<lparr> flag := no_flag\<lparr> present_bit := True, write_bit := True, use_pagesize_4_mb := True \<rparr>,
                           lower_address := 0 \<rparr>"

definition initial_paging :: paging where
  "initial_paging =
     \<lparr> page_directory_list = replicate 32 (replicate 1024 zero_pde),
       page_directory_used = replicate 32 False, page_dir_free = 32,
       kernel_page_directory = (replicate 1024 zero_pde)[0 := kernel_entry, 0x300 := kernel_entry],
       page_frame_map = True # replicate 31 False, free_page_frame_count = 31, next_free_frame = 1,
       invlpg = [] \<rparr>"

section \<open>Entries\<close>

definition get_dir :: "paging \<Rightarrow> pd_ptr \<Rightarrow> page_directory option" where
  "get_dir s p = (case p of PdNull \<Rightarrow> None | Listed i \<Rightarrow> arr_get (page_directory_list s) i
                 | PdKernel \<Rightarrow> Some (kernel_page_directory s))"

definition set_dir :: "pd_ptr \<Rightarrow> page_directory \<Rightarrow> paging \<Rightarrow> paging" where
  "set_dir p pd s = (case p of PdNull \<Rightarrow> s
     | Listed i \<Rightarrow> s\<lparr> page_directory_list := (page_directory_list s)[i := pd] \<rparr>
     | PdKernel \<Rightarrow> s\<lparr> kernel_page_directory := pd \<rparr>)"

text \<open>\<open>((uint32_t) virtual_addr >> 22) & 0x3FF\<close>\<close>

definition page_index :: "u32 \<Rightarrow> nat" where
  "page_index virtual_addr = unat (drop_bit 22 virtual_addr AND 0x3FF)"

definition flush_single_tlb :: "u32 \<Rightarrow> paging \<Rightarrow> paging" where
  "flush_single_tlb virtual_addr s = s\<lparr> invlpg := invlpg s @ [virtual_addr] \<rparr>"

definition update_page_directory_entry :: "pd_ptr \<Rightarrow> u32 \<Rightarrow> u32 \<Rightarrow> pd_flag \<Rightarrow> paging \<Rightarrow> paging option" where
  "update_page_directory_entry page_dir physical_addr virtual_addr fl s =
     do { pd \<leftarrow> get_dir s page_dir;
          e \<leftarrow> arr_get pd (page_index virtual_addr);
          pd \<leftarrow> arr_set pd (page_index virtual_addr)
                 (e\<lparr> flag := fl, lower_address := ucast (drop_bit 22 physical_addr AND 0x3FF) \<rparr>);
          Some (flush_single_tlb virtual_addr (set_dir page_dir pd s)) }"

section \<open>Frames\<close>

definition PAGE_FRAME_SIZE :: u32 where
  "PAGE_FRAME_SIZE = 2 ^ 22"

definition paging_allocate_check :: "u32 \<Rightarrow> paging \<Rightarrow> bool" where
  "paging_allocate_check amount s =
     (let req_page = amount div PAGE_FRAME_SIZE;
          req_page = (if amount mod PAGE_FRAME_SIZE \<noteq> 0 then req_page + 1 else req_page)
      in req_page \<le> free_page_frame_count s)"

definition user_flag :: pd_flag where
  "user_flag = no_flag\<lparr> present_bit := True, write_bit := True, user_bit := True, use_pagesize_4_mb := True \<rparr>"

definition paging_allocate_user_page_frame :: "pd_ptr \<Rightarrow> u32 \<Rightarrow> paging \<Rightarrow> (bool \<times> paging) option" where
  "paging_allocate_user_page_frame page_dir virtual_addr s =
     (if free_page_frame_count s = 0 then Some (False, s)
      else do {
        let phy_mem_free = sint (next_free_frame s);
        let phy_addr_free = PAGE_FRAME_SIZE * word_of_int phy_mem_free;
        let s = s\<lparr> free_page_frame_count := free_page_frame_count s - 1 \<rparr>;
        fm \<leftarrow> arr_seti (page_frame_map s) phy_mem_free True;
        let s = s\<lparr> page_frame_map := fm \<rparr>;
        let s = (case scan (\<lambda>i. \<not> fm ! i) (nat phy_mem_free + 1) 32 of
                   Some i \<Rightarrow> s\<lparr> next_free_frame := of_nat i \<rparr> | None \<Rightarrow> s);
        s \<leftarrow> update_page_directory_entry page_dir phy_addr_free virtual_addr user_flag s;
        Some (True, s) })"

definition paging_free_user_page_frame :: "pd_ptr \<Rightarrow> u32 \<Rightarrow> paging \<Rightarrow> (bool \<times> paging) option" where
  "paging_free_user_page_frame page_dir virtual_addr s =
     do { pd \<leftarrow> get_dir s page_dir;
          e \<leftarrow> arr_get pd (page_index virtual_addr);
          let phy_mapped = unat (lower_address e);
          if \<not> present_bit (flag e) then Some (False, s)
          else do {
            let s = s\<lparr> free_page_frame_count := free_page_frame_count s + 1 \<rparr>;
            fm \<leftarrow> arr_set (page_frame_map s) phy_mapped False;
            let s = s\<lparr> page_frame_map := fm \<rparr>;
            let s = (if next_free_frame s > of_nat phy_mapped
                     then s\<lparr> next_free_frame := of_nat phy_mapped \<rparr> else s);
            s \<leftarrow> update_page_directory_entry page_dir 0 virtual_addr
                  (no_flag\<lparr> write_bit := True, user_bit := True, use_pagesize_4_mb := True \<rparr>) s;
            Some (True, s) } }"

section \<open>Directories\<close>

text \<open>\<open>idx\<close> is not initialised when no directory is unused; reading it then has no result.\<close>

definition paging_create_new_page_directory :: "paging \<Rightarrow> (pd_ptr \<times> paging) option" where
  "paging_create_new_page_directory s =
     (if page_dir_free s = 0 then Some (PdNull, s)
      else do {
        idx \<leftarrow> scan (\<lambda>i. \<not> page_directory_used s ! i) 0 32;
        let s = s\<lparr> page_directory_used := (page_directory_used s)[idx := True], page_dir_free := page_dir_free s - 1 \<rparr>;
        pd \<leftarrow> arr_get (page_directory_list s) idx;
        pd \<leftarrow> arr_set pd 0x300 kernel_entry;
        Some (Listed idx, set_dir (Listed idx) pd s) })"

definition paging_free_page_directory :: "pd_ptr \<Rightarrow> paging \<Rightarrow> (bool \<times> paging) option" where
  "paging_free_page_directory page_dir s =
     (case page_dir of
        Listed i \<Rightarrow>
          if i < 32
          then do {
            let s = s\<lparr> page_directory_used := (page_directory_used s)[i := False] \<rparr>;
            s \<leftarrow> for_range 0 1024 (\<lambda>j s.
                   if j = 0x300 then Some s
                   else do { pd \<leftarrow> get_dir s (Listed i);
                             e \<leftarrow> arr_get pd j;
                             if present_bit (flag e)
                             then map_option snd (paging_free_user_page_frame (Listed i) (push_bit 22 (of_nat j)) s)
                             else Some s }) s;
            Some (True, s) }
          else Some (False, s)
      | _ \<Rightarrow> Some (False, s))"

section \<open>The active directory\<close>

definition KERNEL_VIRTUAL_ADDRESS_BASE :: u32 where
  "KERNEL_VIRTUAL_ADDRESS_BASE = 0xC0000000"

text \<open>What is loaded to and computed from \<open>cr3\<close>.\<close>

definition paging_use_page_directory :: "u32 \<Rightarrow> u32" where
  "paging_use_page_directory page_dir_virtual_addr =
     (if page_dir_virtual_addr > KERNEL_VIRTUAL_ADDRESS_BASE
      then page_dir_virtual_addr - KERNEL_VIRTUAL_ADDRESS_BASE else page_dir_virtual_addr)"

definition paging_get_current_page_directory_addr :: "u32 \<Rightarrow> u32" where
  "paging_get_current_page_directory_addr cr3 = cr3 + KERNEL_VIRTUAL_ADDRESS_BASE"

section \<open>What an entry maps\<close>

definition entry :: "paging \<Rightarrow> nat \<Rightarrow> nat \<Rightarrow> pde" where
  "entry s d j = page_directory_list s ! d ! j"

definition present :: "paging \<Rightarrow> nat \<Rightarrow> nat \<Rightarrow> bool" where
  "present s d j = (d < 32 \<and> j < 1024 \<and> j \<noteq> 0x300 \<and> present_bit (flag (entry s d j)))"

definition frame :: "paging \<Rightarrow> nat \<Rightarrow> nat \<Rightarrow> nat" where
  "frame s d j = unat (lower_address (entry s d j))"

definition is_free :: "paging \<Rightarrow> nat \<Rightarrow> bool" where
  "is_free s f = (f < 32 \<and> \<not> page_frame_map s ! f)"

definition free_frames :: "paging \<Rightarrow> nat set" where
  "free_frames s = {f. f < 32 \<and> \<not> page_frame_map s ! f}"

text \<open>Well-formed: the arrays have their lengths, the count counts, frame 0 is the kernel's, every
  present entry maps a frame of its own that is marked as used, every used frame is mapped, and
  directories not in use map nothing.\<close>

definition pg_core :: "paging \<Rightarrow> bool" where
  "pg_core s =
     (length (page_directory_list s) = 32 \<and> (\<forall>d < 32. length (page_directory_list s ! d) = 1024) \<and>
      length (page_directory_used s) = 32 \<and> length (page_frame_map s) = 32 \<and>
      unat (free_page_frame_count s) = card (free_frames s) \<and> page_frame_map s ! 0 \<and>
      (\<forall>d j. present s d j \<longrightarrow> 0 < frame s d j \<and> frame s d j < 32 \<and> page_frame_map s ! frame s d j) \<and>
      (\<forall>d j d' j'. present s d j \<longrightarrow> present s d' j' \<longrightarrow> frame s d j = frame s d' j' \<longrightarrow> d = d' \<and> j = j') \<and>
      (\<forall>f. 0 < f \<and> f < 32 \<and> page_frame_map s ! f \<longrightarrow> (\<exists>d j. present s d j \<and> frame s d j = f)))"

definition pg_ok :: "paging \<Rightarrow> bool" where
  "pg_ok s = (pg_core s \<and> (\<forall>d j. d < 32 \<longrightarrow> \<not> page_directory_used s ! d \<longrightarrow> \<not> present s d j))"

text \<open>The hint is the lowest free frame.\<close>

definition hint_ok :: "paging \<Rightarrow> bool" where
  "hint_ok s = (is_free s (unat (next_free_frame s)) \<and> (\<forall>f < unat (next_free_frame s). \<not> is_free s f))"

end
