(* ===== verification/PagingProps.thy ===== *)
theory PagingProps
  imports Paging
begin

text \<open>
  What the page-frame operations do to the mapping: allocation maps a frame that was free and
  nothing else, freeing gives the frame back, a freed directory maps nothing, and the well-formedness
  \<open>pg_ok\<close> is kept.
\<close>

section \<open>Entries after an update\<close>

lemma unat_drop_22: "unat (drop_bit 22 (w :: u32)) = unat w div 4194304"
  by (simp add: drop_bit_eq_div unat_div)

lemma page_index_less: "page_index va < 1024"
proof -
  have "(0x3FF :: u32) = mask 10" by (simp add: mask_eq_exp_minus_1)
  then have "page_index va = unat (take_bit 10 (drop_bit 22 va))" by (simp add: page_index_def take_bit_eq_mask)
  then show ?thesis using take_bit_nat_less_exp [of 10 "unat (drop_bit 22 va)"] by (simp add: unsigned_take_bit_eq)
qed

lemma page_index_page: "j < 1024 \<Longrightarrow> page_index (push_bit 22 (of_nat j)) = j"
proof -
  assume j: "j < 1024"
  have m: "(0x3FF :: u32) = mask 10" by (simp add: mask_eq_exp_minus_1)
  have "unat (push_bit 22 (of_nat j) :: u32) = 2 ^ 22 * j"
    using j by (simp add: push_bit_eq_mult unat_word_ariths unat_of_nat take_bit_eq_mod)
  then have "unat (drop_bit 22 (push_bit 22 (of_nat j) :: u32)) = j"
    by (simp only: unat_drop_22) simp
  then show ?thesis using j
    by (simp add: page_index_def m take_bit_eq_mask [symmetric] unat_mod take_bit_eq_mod)
qed

lemma update_entry:
  assumes "length (page_directory_list s) = 32" "d < 32" "length (page_directory_list s ! d) = 1024"
  shows "update_page_directory_entry (Listed d) pa va fl s = Some (s\<lparr> page_directory_list :=
      (page_directory_list s)[d := (page_directory_list s ! d)[page_index va :=
        (entry s d (page_index va))\<lparr> flag := fl, lower_address := ucast (drop_bit 22 pa AND 0x3FF) \<rparr>]],
      invlpg := invlpg s @ [va] \<rparr>)"
  using assms page_index_less [of va]
  by (simp add: update_page_directory_entry_def get_dir_def set_dir_def flush_single_tlb_def entry_def)

lemma frame_address: "f < 32 \<Longrightarrow> unat (ucast (drop_bit 22 (PAGE_FRAME_SIZE * of_nat f) AND 0x3FF) :: 10 word) = f"
proof -
  assume f: "f < 32"
  have m: "(0x3FF :: u32) = mask 10" by (simp add: mask_eq_exp_minus_1)
  have "unat (PAGE_FRAME_SIZE * of_nat f) = 2 ^ 22 * f"
    using f by (simp add: PAGE_FRAME_SIZE_def unat_word_ariths unat_of_nat take_bit_eq_mod)
  then have "unat (drop_bit 22 (PAGE_FRAME_SIZE * of_nat f)) = f"
    by (simp only: unat_drop_22) simp
  then show ?thesis using f
    by (simp add: m take_bit_eq_mask [symmetric] unsigned_ucast_eq unat_mod take_bit_eq_mod)
qed

section \<open>Well-formed states\<close>

lemma pg_coreD:
  assumes "pg_core s"
  shows "length (page_directory_list s) = 32" "d < 32 \<Longrightarrow> length (page_directory_list s ! d) = 1024"
    "length (page_directory_used s) = 32" "length (page_frame_map s) = 32"
    "unat (free_page_frame_count s) = card (free_frames s)" "page_frame_map s ! 0"
    "present s d j \<Longrightarrow> 0 < frame s d j \<and> frame s d j < 32 \<and> page_frame_map s ! frame s d j"
    "present s d j \<Longrightarrow> present s d' j' \<Longrightarrow> frame s d j = frame s d' j' \<Longrightarrow> d = d' \<and> j = j'"
    "0 < f \<Longrightarrow> f < 32 \<Longrightarrow> page_frame_map s ! f \<Longrightarrow> \<exists>d j. present s d j \<and> frame s d j = f"
  using assms unfolding pg_core_def by blast+

lemma pg_okD:
  assumes "pg_ok s"
  shows "pg_core s" "d < 32 \<Longrightarrow> \<not> page_directory_used s ! d \<Longrightarrow> \<not> present s d j"
  using assms unfolding pg_ok_def by blast+

lemma finite_free [simp]: "finite (free_frames s)"
  by (simp add: free_frames_def)

lemma card_free_le: "card (free_frames s) \<le> 32"
proof -
  have "free_frames s \<subseteq> {..<32}" by (auto simp: free_frames_def)
  then have "card (free_frames s) \<le> card {..<32::nat}" by (intro card_mono) auto
  then show ?thesis by simp
qed

lemma is_free_iff: "is_free s f \<longleftrightarrow> f \<in> free_frames s"
  by (simp add: is_free_def free_frames_def)

text \<open>How an operation changes the mapping: entry \<open>(d, j)\<close> becomes \<open>e\<close>, the frame map becomes \<open>fm\<close>.\<close>

definition remap :: "paging \<Rightarrow> paging \<Rightarrow> nat \<Rightarrow> nat \<Rightarrow> pde \<Rightarrow> bool list \<Rightarrow> bool" where
  "remap s s' d j e fm =
     (page_directory_list s' = (page_directory_list s)[d := (page_directory_list s ! d)[j := e]] \<and>
      page_directory_used s' = page_directory_used s \<and> page_dir_free s' = page_dir_free s \<and>
      page_frame_map s' = fm)"

lemma remap_entry:
  assumes "remap s s' d j e fm" "pg_core s" "d < 32" "j < 1024"
  shows "entry s' d' j' = (if (d', j') = (d, j) then e else entry s d' j')"
  using assms pg_coreD(1,2) [OF assms(2)] by (auto simp: remap_def entry_def nth_list_update)

lemma remap_lengths:
  assumes "remap s s' d j e fm" "pg_core s" "d < 32"
  shows "length (page_directory_list s') = 32" "d' < 32 \<Longrightarrow> length (page_directory_list s' ! d') = 1024"
    "length (page_directory_used s') = 32"
  using assms pg_coreD(1,2,3) [OF assms(2)] by (auto simp: remap_def nth_list_update)

section \<open>Allocation\<close>

lemma sint_small: "unat (w :: u32) < 2 ^ 31 \<Longrightarrow> sint w = int (unat w)"
proof -
  assume w: "unat w < 2 ^ 31"
  then have "int (unat w) < int (2 ^ 31)" by (simp only: of_nat_less_iff)
  then have "uint w < 2 ^ 31" by simp
  moreover have "- (2 ^ 31) \<le> uint w" by (rule order_trans [of _ 0]) simp_all
  ultimately have "signed_take_bit 31 (uint w) = uint w" by (rule signed_take_bit_int_eq_self [rotated])
  then show ?thesis by (simp add: sint_uint)
qed

text \<open>The frame that is taken is the one the hint names, free or not, and it is marked.\<close>

lemma alloc_eq:
  assumes ok: "pg_core s" and h: "unat (next_free_frame s) < 32" "free_page_frame_count s \<noteq> 0" and d: "d < 32"
  defines "f \<equiv> unat (next_free_frame s)"
  shows "\<exists>s'. paging_allocate_user_page_frame (Listed d) va s = Some (True, s') \<and>
    remap s s' d (page_index va) ((entry s d (page_index va))\<lparr> flag := user_flag, lower_address := of_nat f \<rparr>)
      ((page_frame_map s)[f := True]) \<and>
    unat (free_page_frame_count s') + 1 = unat (free_page_frame_count s) \<and>
    next_free_frame s' = (case scan (\<lambda>i. \<not> (page_frame_map s)[f := True] ! i) (f + 1) 32 of
      Some i \<Rightarrow> of_nat i | None \<Rightarrow> next_free_frame s)"
proof -
  have f: "f < 32" using h(1) by (simp add: f_def)
  note n0 = h(2)
  then have "0 < unat (free_page_frame_count s)" by (simp add: unat_gt_0)
  have count: "unat (free_page_frame_count s - 1) + 1 = unat (free_page_frame_count s)"
    using \<open>0 < unat _\<close> n0 by (simp add: unat_minus_one)
  have si: "sint (next_free_frame s) = int f" using f by (simp add: sint_small f_def)
  have la: "ucast (drop_bit 22 (PAGE_FRAME_SIZE * of_nat f) AND 0x3FF) = (of_nat f :: 10 word)"
  proof (rule word_unat_eq_iff [THEN iffD2])
    show "unat (ucast (drop_bit 22 (PAGE_FRAME_SIZE * of_nat f) AND 0x3FF) :: 10 word) = unat (of_nat f :: 10 word)"
      using frame_address [OF f] f by (simp add: unat_of_nat take_bit_eq_mod)
  qed
  note up = update_entry [OF pg_coreD(1) [OF ok] d pg_coreD(2) [OF ok d]]
  show ?thesis
    using n0 si f pg_coreD(4) [OF ok] count la pg_coreD(1) [OF ok] pg_coreD(2) [OF ok d] d
    by (cases "scan (\<lambda>i. \<not> (page_frame_map s)[f := True] ! i) (f + 1) 32")
      (simp_all add: paging_allocate_user_page_frame_def Let_def update_entry entry_def remap_def)
qed

lemma remap_present:
  assumes "remap s s' d j e fm" "pg_core s" "d < 32" "j < 1024" "j \<noteq> 0x300"
  shows "present s' d' j' = (if (d', j') = (d, j) then present_bit (flag e) else present s d' j')"
    and "frame s' d' j' = (if (d', j') = (d, j) then unat (lower_address e) else frame s d' j')"
  using remap_entry [OF assms(1-4), of d' j'] assms(3-5) by (auto simp: present_def frame_def)

lemma remap_alloc:
  assumes re: "remap s s' d j e ((page_frame_map s)[f := True])" and ok: "pg_core s"
    and d: "d < 32" "j < 1024" "j \<noteq> 0x300" and new: "\<not> present s d j"
    and e: "present_bit (flag e)" "unat (lower_address e) = f" and f: "f \<in> free_frames s"
    and count: "unat (free_page_frame_count s') + 1 = unat (free_page_frame_count s)"
  shows "pg_core s'" "free_frames s' = free_frames s - {f}"
proof -
  note k = pg_coreD [OF ok] and p = remap_present [OF re ok d]
  have f': "f < 32" "\<not> page_frame_map s ! f" "0 < f" using f k(6) by (auto simp: free_frames_def intro: gr0I)
  have m: "page_frame_map s' ! i = (i = f \<or> page_frame_map s ! i)" if "i < 32" for i
    using re that k(4) f'(1) by (auto simp: remap_def nth_list_update)
  show fr: "free_frames s' = free_frames s - {f}" using m f' by (auto simp: free_frames_def)
  have "card (free_frames s') + 1 = card (free_frames s)"
    unfolding fr using card_Suc_Diff1 [OF finite_free f] by simp
  then have c: "unat (free_page_frame_count s') = card (free_frames s')" using count k(5) by simp
  have nf: "frame s d' j' \<noteq> f" if "present s d' j'" for d' j' using k(7) [OF that] f'(2) by auto
  show "pg_core s'"
    unfolding pg_core_def
  proof (intro conjI allI impI)
    show "length (page_frame_map s') = 32" using re k(4) by (simp add: remap_def)
    show "page_frame_map s' ! 0" using m [of 0] k(6) by simp
  next
    fix d' j' assume pr: "present s' d' j'"
    have "0 < frame s' d' j' \<and> frame s' d' j' < 32 \<and> page_frame_map s' ! frame s' d' j'"
      using pr p e f' k(7) [of d' j'] m by (auto split: if_splits)
    then show "0 < frame s' d' j'" "frame s' d' j' < 32" "page_frame_map s' ! frame s' d' j'" by simp_all
  next
    fix d1 j1 d2 j2 assume "present s' d1 j1" "present s' d2 j2" "frame s' d1 j1 = frame s' d2 j2"
    then have "d1 = d2 \<and> j1 = j2" using p e nf [of d1 j1] nf [of d2 j2] k(8) [of d1 j1 d2 j2] by (auto split: if_splits)
    then show "d1 = d2" "j1 = j2" by simp_all
  next
    fix g assume g: "0 < g \<and> g < 32 \<and> page_frame_map s' ! g"
    show "\<exists>d' j'. present s' d' j' \<and> frame s' d' j' = g"
    proof (cases "g = f")
      case True
      then show ?thesis using p e by (intro exI [of _ d] exI [of _ j]) simp
    next
      case False
      then obtain d' j' where "present s d' j'" "frame s d' j' = g" using g m k(9) [of g] by auto
      then show ?thesis using p new by (intro exI [of _ d'] exI [of _ j']) auto
    qed
  qed (use remap_lengths [OF re ok d(1)] c in simp_all)
qed

text \<open>The effect of one allocation.\<close>

lemma alloc_step:
  assumes pg: "pg_ok s" and h: "hint_ok s" and d: "d < 32" "page_directory_used s ! d"
    and j: "page_index va \<noteq> 0x300" "\<not> present s d (page_index va)"
  defines "f \<equiv> unat (next_free_frame s)"
  shows "\<exists>s'. paging_allocate_user_page_frame (Listed d) va s = Some (True, s') \<and> pg_ok s' \<and>
    is_free s f \<and> free_frames s' = free_frames s - {f} \<and>
    present s' d (page_index va) \<and> frame s' d (page_index va) = f \<and> flag (entry s' d (page_index va)) = user_flag \<and>
    (\<forall>d' j'. (d', j') \<noteq> (d, page_index va) \<longrightarrow> entry s' d' j' = entry s d' j') \<and>
    page_directory_used s' = page_directory_used s \<and> page_dir_free s' = page_dir_free s \<and>
    (2 \<le> card (free_frames s) \<longrightarrow> hint_ok s')"
proof -
  let ?j = "page_index va" and ?e = "(entry s d (page_index va))\<lparr> flag := user_flag, lower_address := of_nat f \<rparr>"
  note ok = pg_okD(1) [OF pg]
  have f: "f \<in> free_frames s" "f < 32" "is_free s f" and low: "\<forall>g < f. g \<notin> free_frames s"
    using h by (simp_all add: hint_ok_def f_def is_free_iff) (simp_all add: free_frames_def)
  then have "0 < card (free_frames s)" by (auto simp: card_gt_0_iff)
  then have n0: "free_page_frame_count s \<noteq> 0" using pg_coreD(5) [OF ok] by auto
  obtain s' where run: "paging_allocate_user_page_frame (Listed d) va s = Some (True, s')"
    and re: "remap s s' d ?j ?e ((page_frame_map s)[f := True])"
    and count: "unat (free_page_frame_count s') + 1 = unat (free_page_frame_count s)"
    and nx: "next_free_frame s' = (case scan (\<lambda>i. \<not> (page_frame_map s)[f := True] ! i) (f + 1) 32 of
      Some i \<Rightarrow> of_nat i | None \<Rightarrow> next_free_frame s)"
    using alloc_eq [OF ok _ n0 d(1), of va] f(2) by (auto simp: f_def)
  have e: "present_bit (flag ?e)" "unat (lower_address ?e) = f"
    using f(2) by (simp_all add: user_flag_def no_flag_def unat_of_nat take_bit_eq_mod)
  note al = remap_alloc [OF re ok d(1) page_index_less j(1,2) e f(1) count]
  note pr = remap_present [OF re ok d(1) page_index_less j(1)]
  have m: "(page_frame_map s)[f := True] = page_frame_map s'" using re by (simp add: remap_def)
  have hint: "hint_ok s'" if two: "2 \<le> card (free_frames s)"
  proof -
    have "card (free_frames s - {f}) \<noteq> 0" using two f(1) by (simp add: card_Diff_singleton)
    then obtain g where g: "g \<in> free_frames s'" unfolding al(2) by (metis card.empty ex_in_conv)
    then have "g \<in> free_frames s" "g \<noteq> f" unfolding al(2) by auto
    then have "f + 1 \<le> g" using low by (metis Suc_eq_plus1 Suc_leI linorder_neqE_nat)
    moreover have "g < 32" "\<not> page_frame_map s' ! g" using g by (simp_all add: free_frames_def)
    ultimately obtain i where i: "scan (\<lambda>i. \<not> page_frame_map s' ! i) (f + 1) 32 = Some i"
      using scan_None [of "\<lambda>i. \<not> page_frame_map s' ! i" "f + 1" 32] by fastforce
    note i' = scan_Some [OF i]
    then have n: "unat (next_free_frame s') = i" using nx i m by (simp add: unat_of_nat_u32)
    have "\<not> is_free s' g" if "g < i" for g
    proof
      assume "is_free s' g"
      then have "g \<in> free_frames s'" "\<not> page_frame_map s' ! g" by (simp_all add: is_free_iff is_free_def free_frames_def)
      then have "g \<in> free_frames s" "g \<noteq> f" unfolding al(2) by auto
      then have "f + 1 \<le> g" using low by (metis Suc_eq_plus1 Suc_leI linorder_neqE_nat)
      with i' that \<open>\<not> page_frame_map s' ! g\<close> show False by blast
    qed
    moreover have "is_free s' i" using i' by (simp add: is_free_def)
    ultimately show ?thesis by (simp add: hint_ok_def n)
  qed
  have "entry s' d' j' = entry s d' j'" if "(d', j') \<noteq> (d, ?j)" for d' j'
    using remap_entry [OF re ok d(1) page_index_less, of d' j'] that by auto
  moreover have "flag (entry s' d ?j) = user_flag"
    using remap_entry [OF re ok d(1) page_index_less, of d ?j] by simp
  moreover have "pg_ok s'"
    unfolding pg_ok_def
  proof (intro conjI allI impI al(1))
    fix d' j' assume "d' < 32" "\<not> page_directory_used s' ! d'"
    then show "\<not> present s' d' j'" using pr [of d' j'] d(2) pg_okD(2) [OF pg, of d' j'] re by (auto simp: remap_def)
  qed
  ultimately show ?thesis
    using run al(2) f(3) pr [of d ?j] e hint re by (auto simp: remap_def)
qed

section \<open>Freeing a page\<close>

lemma remap_free:
  assumes re: "remap s s' d j e ((page_frame_map s)[f := False])" and ok: "pg_core s"
    and d: "d < 32" "j < 1024" "j \<noteq> 0x300" and pre: "present s d j" "frame s d j = f"
    and e: "\<not> present_bit (flag e)"
    and count: "unat (free_page_frame_count s') = unat (free_page_frame_count s) + 1"
  shows "pg_core s'" "free_frames s' = insert f (free_frames s)"
proof -
  note k = pg_coreD [OF ok] and p = remap_present [OF re ok d]
  have f': "f < 32" "page_frame_map s ! f" "0 < f" using k(7) [OF pre(1)] pre(2) by auto
  have m: "page_frame_map s' ! i = (i \<noteq> f \<and> page_frame_map s ! i)" if "i < 32" for i
    using re that k(4) f'(1) by (auto simp: remap_def nth_list_update)
  show fr: "free_frames s' = insert f (free_frames s)" using m f' by (auto simp: free_frames_def)
  have "f \<notin> free_frames s" using f' by (simp add: free_frames_def)
  then have c: "unat (free_page_frame_count s') = card (free_frames s')" using count k(5) fr by simp
  have other: "frame s d' j' \<noteq> f" if "present s d' j'" "(d', j') \<noteq> (d, j)" for d' j'
    using k(8) [OF that(1) pre(1)] pre(2) that(2) by auto
  show "pg_core s'"
    unfolding pg_core_def
  proof (intro conjI allI impI)
    show "length (page_frame_map s') = 32" using re k(4) by (simp add: remap_def)
    show "page_frame_map s' ! 0" using m [of 0] k(6) f' by simp
  next
    fix d' j' assume pr: "present s' d' j'"
    then have q: "present s d' j'" "(d', j') \<noteq> (d, j)" using p e by (auto split: if_splits)
    have "0 < frame s' d' j' \<and> frame s' d' j' < 32 \<and> page_frame_map s' ! frame s' d' j'"
      using q p k(7) [OF q(1)] m other [OF q] by auto
    then show "0 < frame s' d' j'" "frame s' d' j' < 32" "page_frame_map s' ! frame s' d' j'" by simp_all
  next
    fix d1 j1 d2 j2 assume "present s' d1 j1" "present s' d2 j2" "frame s' d1 j1 = frame s' d2 j2"
    then have "d1 = d2 \<and> j1 = j2" using p e k(8) [of d1 j1 d2 j2] by (auto split: if_splits)
    then show "d1 = d2" "j1 = j2" by simp_all
  next
    fix g assume g: "0 < g \<and> g < 32 \<and> page_frame_map s' ! g"
    then obtain d' j' where q: "present s d' j'" "frame s d' j' = g" using m k(9) [of g] by auto
    have "g \<noteq> f" using g m by auto
    then have "(d', j') \<noteq> (d, j)" using q pre by auto
    then show "\<exists>d' j'. present s' d' j' \<and> frame s' d' j' = g" using p q by (intro exI [of _ d'] exI [of _ j']) auto
  qed (use remap_lengths [OF re ok d(1)] c in simp_all)
qed

lemma free_not_present:
  assumes "pg_core s" "d < 32" "\<not> present_bit (flag (entry s d (page_index va)))"
  shows "paging_free_user_page_frame (Listed d) va s = Some (False, s)"
  using assms pg_coreD(1) [OF assms(1)] pg_coreD(2) [OF assms(1,2)] page_index_less [of va]
  by (simp add: paging_free_user_page_frame_def get_dir_def entry_def Let_def)

lemma free_step:
  assumes ok: "pg_core s" and d: "d < 32" and j: "page_index va \<noteq> 0x300" and pre: "present s d (page_index va)"
  defines "f \<equiv> frame s d (page_index va)"
  shows "\<exists>s'. paging_free_user_page_frame (Listed d) va s = Some (True, s') \<and> pg_core s' \<and>
    free_frames s' = insert f (free_frames s) \<and> \<not> present s' d (page_index va) \<and>
    (\<forall>d' j'. (d', j') \<noteq> (d, page_index va) \<longrightarrow> entry s' d' j' = entry s d' j') \<and>
    page_directory_used s' = page_directory_used s \<and> page_dir_free s' = page_dir_free s \<and>
    next_free_frame s' = (if f < unat (next_free_frame s) then of_nat f else next_free_frame s) \<and>
    (hint_ok s \<longrightarrow> hint_ok s')"
proof -
  let ?j = "page_index va" and ?fl = "no_flag\<lparr> write_bit := True, user_bit := True, use_pagesize_4_mb := True \<rparr>"
  let ?e = "(entry s d ?j)\<lparr> flag := ?fl, lower_address := 0 \<rparr>"
  note k = pg_coreD [OF ok]
  have f: "0 < f" "f < 32" "page_frame_map s ! f" using k(7) [OF pre] by (simp_all add: f_def)
  define s' where "s' = s\<lparr> free_page_frame_count := free_page_frame_count s + 1,
    page_frame_map := (page_frame_map s)[f := False],
    next_free_frame := (if f < unat (next_free_frame s) then of_nat f else next_free_frame s),
    page_directory_list := (page_directory_list s)[d := (page_directory_list s ! d)[?j := ?e]],
    invlpg := invlpg s @ [va] \<rparr>"
  have less: "of_nat f < next_free_frame s \<longleftrightarrow> f < unat (next_free_frame s)"
    using f(2) by (simp add: word_less_nat_alt unat_of_nat_u32)
  have run: "paging_free_user_page_frame (Listed d) va s = Some (True, s')"
    using k(1) k(2) [OF d] k(4) d f(2) less pre page_index_less [of va]
    by (simp add: paging_free_user_page_frame_def get_dir_def Let_def update_entry s'_def f_def frame_def entry_def
        present_def)
  have re: "remap s s' d ?j ?e ((page_frame_map s)[f := False])" by (simp add: remap_def s'_def)
  have "card (free_frames s) < 2 ^ 32 - 1" using card_free_le [of s] by simp
  then have "unat (free_page_frame_count s) + unat (1 :: u32) < 2 ^ 32" using k(5) by simp
  then have count: "unat (free_page_frame_count s') = unat (free_page_frame_count s) + 1"
    using unat_add_u32 [of "free_page_frame_count s" 1] by (simp add: s'_def)
  have e: "\<not> present_bit (flag ?e)" by (simp add: no_flag_def)
  have fe: "frame s d ?j = f" by (simp add: f_def)
  note fr = remap_free [OF re ok d page_index_less j pre fe e count]
  note pr = remap_present [OF re ok d page_index_less j]
  have hint: "hint_ok s'" if h: "hint_ok s"
  proof -
    have free: "is_free s' g \<longleftrightarrow> g = f \<or> is_free s g" for g using fr(2) by (auto simp: is_free_iff)
    have n: "unat (next_free_frame s') = (if f < unat (next_free_frame s) then f else unat (next_free_frame s))"
      using f(2) by (simp add: s'_def unat_of_nat_u32)
    show ?thesis using h free n by (auto simp: hint_ok_def split: if_splits)
  qed
  have "entry s' d' j' = entry s d' j'" if "(d', j') \<noteq> (d, ?j)" for d' j'
    using remap_entry [OF re ok d page_index_less, of d' j'] that by auto
  then show ?thesis using run fr pr [of d ?j] e hint by (auto simp: s'_def)
qed

section \<open>Directories\<close>

lemma free_directory_step:
  assumes ok: "pg_ok s" and h: "hint_ok s" and d: "d < 32"
  shows "\<exists>s'. paging_free_page_directory (Listed d) s = Some (True, s') \<and> pg_ok s' \<and> hint_ok s' \<and>
    page_directory_used s' = (page_directory_used s)[d := False] \<and>
    (\<forall>j. \<not> present s' d j) \<and> (\<forall>d' j. d' \<noteq> d \<longrightarrow> entry s' d' j = entry s d' j) \<and>
    free_frames s' = free_frames s \<union> {frame s d j | j. present s d j} \<and> page_dir_free s' = page_dir_free s"
proof -
  let ?s = "s\<lparr> page_directory_used := (page_directory_used s)[d := False] \<rparr>"
  let ?body = "\<lambda>j s. if j = 0x300 then Some s
     else do { pd \<leftarrow> get_dir s (Listed d); e \<leftarrow> arr_get pd j;
               if present_bit (flag e)
               then map_option snd (paging_free_user_page_frame (Listed d) (push_bit 22 (of_nat j)) s)
               else Some s }"
  let ?I = "\<lambda>k t. pg_core t \<and> hint_ok t \<and> page_directory_used t = (page_directory_used s)[d := False] \<and>
    page_dir_free t = page_dir_free s \<and> (\<forall>j < k. \<not> present t d j) \<and> (\<forall>j. k \<le> j \<longrightarrow> entry t d j = entry s d j) \<and>
    (\<forall>d' j. d' \<noteq> d \<longrightarrow> entry t d' j = entry s d' j) \<and>
    free_frames t = free_frames s \<union> {frame s d j | j. j < k \<and> present s d j}"
  have "\<exists>t. for_range 0 1024 ?body ?s = Some t \<and> ?I 1024 t"
  proof (rule for_range_inv [where I = ?I])
    have "present ?s = present s" "frame ?s = frame s" "free_frames ?s = free_frames s" "entry ?s = entry s"
      by (simp_all add: fun_eq_iff present_def frame_def entry_def free_frames_def)
    then show "?I 0 ?s" using pg_okD(1) [OF ok] h by (simp add: pg_core_def hint_ok_def is_free_def)
  next
    fix j t assume j: "(0::nat) \<le> j" "j < 1024" and I: "?I j t"
    note k = pg_coreD [OF conjunct1 [OF I]]
    show "\<exists>t'. ?body j t = Some t' \<and> ?I (Suc j) t'"
    proof (cases "present s d j")
      case False
      have e: "entry t d j = entry s d j" using I by simp
      then have np: "\<not> present t d j" using False by (simp add: present_def)
      have "?body j t = Some t"
        using j d k(1) k(2) [OF d] np by (auto simp: get_dir_def present_def entry_def)
      moreover have "?I (Suc j) t" using I np False by (auto simp: less_Suc_eq)
      ultimately show ?thesis by blast
    next
      case True
      let ?va = "push_bit 22 (of_nat j) :: u32"
      have pj: "page_index ?va = j" by (rule page_index_page [OF j(2)])
      have e: "entry t d j = entry s d j" using I by simp
      then have pr: "present t d j" and fr: "frame t d j = frame s d j" using True by (simp_all add: present_def frame_def)
      have j3: "j \<noteq> 0x300" using True by (simp add: present_def)
      obtain t' where t': "paging_free_user_page_frame (Listed d) ?va t = Some (True, t')" "pg_core t'"
        "free_frames t' = insert (frame s d j) (free_frames t)" "\<not> present t' d j"
        "\<forall>d' j'. (d', j') \<noteq> (d, j) \<longrightarrow> entry t' d' j' = entry t d' j'"
        "page_directory_used t' = page_directory_used t" "page_dir_free t' = page_dir_free t" "hint_ok t'"
        using free_step [OF conjunct1 [OF I] d, of ?va] pj pr j3 fr I by auto
      have "?body j t = Some t'"
        using j d k(1) k(2) [OF d] pr j3 t'(1) by (auto simp: get_dir_def present_def entry_def)
      moreover have "\<not> present t' d j'" if "j' < Suc j" for j'
        using that I t'(4,5) by (cases "j' = j") (auto simp: present_def)
      moreover have "free_frames t' = free_frames s \<union> {frame s d j' | j'. j' < Suc j \<and> present s d j'}"
        using t'(3) I True by (auto simp: less_Suc_eq)
      ultimately show ?thesis using t' I by auto
    qed
  qed simp
  then obtain t where t: "for_range 0 1024 ?body ?s = Some t" "?I 1024 t" by blast
  then have run: "paging_free_page_directory (Listed d) s = Some (True, t)"
    using d by (simp add: paging_free_page_directory_def)
  have np: "\<not> present t d j" for j using t(2) by (cases "j < 1024") (auto simp: present_def)
  have "pg_ok t"
    unfolding pg_ok_def
  proof (intro conjI allI impI)
    show "pg_core t" using t(2) by blast
    fix d' j assume d': "d' < 32" "\<not> page_directory_used t ! d'"
    show "\<not> present t d' j"
    proof (cases "d' = d")
      case False
      then have "\<not> present s d' j" using d' t(2) pg_okD(2) [OF ok, of d' j] by simp
      then show ?thesis using False t(2) by (simp add: present_def)
    qed (simp add: np)
  qed
  moreover have "{frame s d j | j. j < 1024 \<and> present s d j} = {frame s d j | j. present s d j}"
    by (auto simp: present_def)
  ultimately show ?thesis using run t(2) np by auto
qed

text \<open>Creating a directory takes an unused one, which maps nothing but the kernel.\<close>

definition dirs_ok :: "paging \<Rightarrow> bool" where
  "dirs_ok s = (0 \<le> page_dir_free s \<and> page_dir_free s \<le> int (card {d. d < 32 \<and> \<not> page_directory_used s ! d}))"

lemma create_step:
  assumes ok: "pg_ok s" and dirs: "dirs_ok s" and pos: "page_dir_free s \<noteq> 0"
  shows "\<exists>d s'. paging_create_new_page_directory s = Some (Listed d, s') \<and> d < 32 \<and> \<not> page_directory_used s ! d \<and>
    page_directory_used s' = (page_directory_used s)[d := True] \<and> page_dir_free s' = page_dir_free s - 1 \<and>
    entry s' d 0x300 = kernel_entry \<and> (\<forall>j. \<not> present s' d j) \<and> pg_ok s' \<and> dirs_ok s' \<and>
    free_frames s' = free_frames s \<and> (hint_ok s \<longrightarrow> hint_ok s') \<and> present s' = present s \<and>
    (\<forall>d' j. present s d' j \<longrightarrow> frame s' d' j = frame s d' j)"
proof -
  let ?U = "{d. d < 32 \<and> \<not> page_directory_used s ! d}"
  note k = pg_coreD [OF pg_okD(1) [OF ok]]
  have "card ?U \<noteq> 0" using dirs pos unfolding dirs_ok_def by linarith
  then have "?U \<noteq> {}" by (metis card.empty)
  then obtain d where sc: "scan (\<lambda>i. \<not> page_directory_used s ! i) 0 32 = Some d"
    using scan_None [of "\<lambda>i. \<not> page_directory_used s ! i" 0 32] by auto
  then have d: "d < 32" "\<not> page_directory_used s ! d" using scan_Some [OF sc] by simp_all
  define s' where "s' = s\<lparr> page_directory_used := (page_directory_used s)[d := True], page_dir_free := page_dir_free s - 1,
    page_directory_list := (page_directory_list s)[d := (page_directory_list s ! d)[0x300 := kernel_entry]] \<rparr>"
  have run: "paging_create_new_page_directory s = Some (Listed d, s')"
    using pos sc d(1) k(1) k(2) [OF d(1)] by (simp add: paging_create_new_page_directory_def Let_def s'_def set_dir_def)
  have ent: "entry s' d' j = (if d' = d \<and> j = 0x300 then kernel_entry else entry s d' j)" for d' j
    using d(1) k(1) k(2) [OF d(1)] by (auto simp: s'_def entry_def nth_list_update)
  have pr: "present s' = present s" by (auto simp: fun_eq_iff present_def ent)
  have fr: "present s d' j \<Longrightarrow> frame s' d' j = frame s d' j" for d' j by (auto simp: frame_def ent present_def)
  have ff: "free_frames s' = free_frames s" by (simp add: free_frames_def s'_def)
  have "pg_core s'"
    unfolding pg_core_def
  proof (intro conjI allI impI)
    fix d1 j1 d2 j2 assume "present s' d1 j1" "present s' d2 j2" "frame s' d1 j1 = frame s' d2 j2"
    then have "d1 = d2 \<and> j1 = j2" using pr fr k(8) [of d1 j1 d2 j2] by auto
    then show "d1 = d2" "j1 = j2" by simp_all
  next
    fix f assume "0 < f \<and> f < 32 \<and> page_frame_map s' ! f"
    then obtain d' j where "present s d' j" "frame s d' j = f" using k(9) [of f] by (auto simp: s'_def)
    then show "\<exists>d j. present s' d j \<and> frame s' d j = f" using pr fr by auto
  next
    fix d' j assume "present s' d' j"
    then show "0 < frame s' d' j" "frame s' d' j < 32" "page_frame_map s' ! frame s' d' j"
      using pr fr k(7) [of d' j] by (simp_all add: s'_def)
  next
    fix d' :: nat assume "d' < 32"
    then show "length (page_directory_list s' ! d') = 1024" using k(1) k(2) [of d'] by (cases "d' = d") (simp_all add: s'_def)
  qed (use k ff in \<open>simp_all add: s'_def\<close>)
  moreover have "\<not> present s' d' j" if "d' < 32" "\<not> page_directory_used s' ! d'" for d' j
    using that pg_okD(2) [OF ok, of d' j] pr d(1) k(3) by (auto simp: s'_def nth_list_update split: if_splits)
  ultimately have pg: "pg_ok s'" by (simp add: pg_ok_def)
  have "{d'. d' < 32 \<and> \<not> page_directory_used s' ! d'} = ?U - {d}"
    using d k(3) by (auto simp: s'_def nth_list_update)
  then have "card {d'. d' < 32 \<and> \<not> page_directory_used s' ! d'} = card ?U - 1" using d by simp
  moreover have "0 < card ?U" using d by (auto simp: card_gt_0_iff)
  ultimately have "dirs_ok s'" using dirs pos by (simp add: dirs_ok_def) (simp add: s'_def)
  moreover have "hint_ok s'" if "hint_ok s" using that by (simp add: hint_ok_def is_free_def s'_def)
  moreover have "\<not> present s' d j" for j using pr pg_okD(2) [OF ok d] by simp
  ultimately have "paging_create_new_page_directory s = Some (Listed d, s') \<and> d < 32 \<and> \<not> page_directory_used s ! d \<and>
    page_directory_used s' = (page_directory_used s)[d := True] \<and> page_dir_free s' = page_dir_free s - 1 \<and>
    entry s' d 0x300 = kernel_entry \<and> (\<forall>j. \<not> present s' d j) \<and> pg_ok s' \<and> dirs_ok s' \<and>
    free_frames s' = free_frames s \<and> (hint_ok s \<longrightarrow> hint_ok s')"
    using run d pg ent ff by (auto simp: s'_def)
  then show ?thesis using pr fr by blast
qed

section \<open>The initial state\<close>

lemma initial_ok: "pg_ok initial_paging" "hint_ok initial_paging" "dirs_ok initial_paging"
  "free_frames initial_paging = {1..<32}"
proof -
  have m: "page_frame_map initial_paging ! f = (f = 0)" if "f < 32" for f
    using that by (cases f) (simp_all add: initial_paging_def)
  then show ff: "free_frames initial_paging = {1..<32}" by (auto simp: free_frames_def)
  have e: "entry initial_paging d j = zero_pde" if "d < 32" "j < 1024" for d j
    using that by (simp add: entry_def initial_paging_def)
  then have np: "\<not> present initial_paging d j" for d j by (auto simp: present_def zero_pde_def no_flag_def)
  have "pg_core initial_paging"
    unfolding pg_core_def using np ff m by (auto simp: initial_paging_def)
  with np show "pg_ok initial_paging" by (simp add: pg_ok_def)
  show "hint_ok initial_paging" using m by (simp add: hint_ok_def is_free_def) (simp add: initial_paging_def)
  have "{d. d < 32 \<and> \<not> page_directory_used initial_paging ! d} = {..<32}" by (auto simp: initial_paging_def)
  then show "dirs_ok initial_paging" by (simp add: dirs_ok_def) (simp add: initial_paging_def)
qed

section \<open>The interface to processes\<close>

text \<open>What the creation of a process relies on: as long as a frame is left over, allocating a page that
  is not mapped maps it to a frame that no page had, and changes no other page.  Keys \<open>'k\<close> are what a
  page is asked for with, \<open>'p\<close> the pages, \<open>'f\<close> the frames.\<close>

locale frame_store =
  fixes okay :: "'s \<Rightarrow> bool" and room :: "'s \<Rightarrow> nat" and maps :: "'s \<Rightarrow> 'p \<Rightarrow> 'f option"
    and page :: "'k \<Rightarrow> 'p" and can :: "'s \<Rightarrow> 'k \<Rightarrow> bool" and alloc :: "'k \<Rightarrow> 's \<Rightarrow> 's option"
  assumes alloc_law: "okay s \<Longrightarrow> 2 \<le> room s \<Longrightarrow> can s k \<Longrightarrow> maps s (page k) = None \<Longrightarrow>
    \<exists>s' f. alloc k s = Some s' \<and> okay s' \<and> room s' + 1 = room s \<and> maps s' = (maps s)(page k \<mapsto> f) \<and>
      f \<notin> ran (maps s) \<and> can s' = can s"
begin

fun alloc_all :: "'k list \<Rightarrow> 's \<Rightarrow> 's option" where
  "alloc_all [] s = Some s"
| "alloc_all (k # ks) s = Option.bind (alloc k s) (alloc_all ks)"

lemma alloc_all_append: "alloc_all (ks @ [k]) s = Option.bind (alloc_all ks s) (alloc k)"
  by (induction ks arbitrary: s) (auto split: Option.bind_splits)

text \<open>Several pages: each gets a frame of its own that was in nobody's use.\<close>

lemma alloc_all_fresh:
  assumes "okay s" "length ks < room s" "distinct (map page ks)" "\<forall>k \<in> set ks. can s k \<and> maps s (page k) = None"
  shows "\<exists>s'. alloc_all ks s = Some s' \<and> okay s' \<and> room s' + length ks = room s \<and> can s' = can s \<and>
    (\<forall>p. p \<notin> page ` set ks \<longrightarrow> maps s' p = maps s p) \<and>
    (\<forall>k \<in> set ks. \<exists>f. maps s' (page k) = Some f \<and> f \<notin> ran (maps s)) \<and>
    (\<forall>k \<in> set ks. \<forall>l \<in> set ks. maps s' (page k) = maps s' (page l) \<longrightarrow> page k = page l)"
  using assms
proof (induction ks arbitrary: s)
  case Nil
  then show ?case by simp
next
  case (Cons k ks)
  then obtain s1 f where s1: "alloc k s = Some s1" "okay s1" "room s1 + 1 = room s"
    "maps s1 = (maps s)(page k \<mapsto> f)" "f \<notin> ran (maps s)" "can s1 = can s"
    using alloc_law [of s k] by auto
  have "\<forall>l \<in> set ks. page l \<noteq> page k" using Cons.prems(3) by (auto simp: image_iff)
  then have pre: "\<forall>l \<in> set ks. can s1 l \<and> maps s1 (page l) = None" using Cons.prems(4) s1(4,6) by simp
  have more: "length ks < room s1" "distinct (map page ks)" using Cons.prems(2,3) s1(3) by simp_all
  then obtain s' where s': "alloc_all ks s1 = Some s'" "okay s'" "room s' + length ks = room s1" "can s' = can s1"
    "\<forall>p. p \<notin> page ` set ks \<longrightarrow> maps s' p = maps s1 p"
    "\<forall>l \<in> set ks. \<exists>f. maps s' (page l) = Some f \<and> f \<notin> ran (maps s1)"
    "\<forall>l \<in> set ks. \<forall>n \<in> set ks. maps s' (page l) = maps s' (page n) \<longrightarrow> page l = page n"
    using Cons.IH [OF s1(2) more pre] by blast
  have none: "maps s (page k) = None" using Cons.prems(4) by simp
  have ran: "ran (maps s1) = insert f (ran (maps s))" unfolding s1(4) by (rule ran_map_upd) (rule none)
  have k: "maps s' (page k) = Some f" using s'(5) Cons.prems(3) s1(4) by (auto simp: image_iff)
  have apart: "maps s' (page l) \<noteq> Some f" if "l \<in> set ks" for l using s'(6) that ran by fastforce
  have "maps s' p = maps s p" if "p \<notin> page ` set (k # ks)" for p using s'(5) s1(4) that by auto
  moreover have "\<exists>g. maps s' (page l) = Some g \<and> g \<notin> ran (maps s)" if "l \<in> set (k # ks)" for l
    using that k s1(5) s'(6) ran by auto
  moreover have "page l = page n" if "l \<in> set (k # ks)" "n \<in> set (k # ks)" "maps s' (page l) = maps s' (page n)" for l n
    using that k apart [of l] apart [of n] s'(7) by auto
  moreover have "alloc_all (k # ks) s = Some s'" "room s' + length (k # ks) = room s" "can s' = can s"
    using s1(1,3,6) s'(1,3,4) by simp_all
  ultimately show ?case using s'(2) by blast
qed

end

definition mapping :: "paging \<Rightarrow> nat \<times> nat \<Rightarrow> nat option" where
  "mapping s p = (if present s (fst p) (snd p) then Some (frame s (fst p) (snd p)) else None)"

definition paging_ok :: "paging \<Rightarrow> bool" where
  "paging_ok s = (pg_ok s \<and> hint_ok s \<and> dirs_ok s)"

definition user_page :: "paging \<Rightarrow> nat \<times> u32 \<Rightarrow> bool" where
  "user_page s k = (fst k < 32 \<and> page_directory_used s ! fst k \<and> page_index (snd k) \<noteq> 0x300)"

interpretation pages: frame_store paging_ok "\<lambda>s. card (free_frames s)" mapping
  "\<lambda>(d, va). (d, page_index va)" user_page
  "\<lambda>(d, va) s. map_option snd (paging_allocate_user_page_frame (Listed d) va s)"
proof
  fix s :: paging and k :: "nat \<times> u32"
  assume ok: "paging_ok s" and room: "2 \<le> card (free_frames s)" and can: "user_page s k"
    and none: "mapping s (case k of (d, va) \<Rightarrow> (d, page_index va)) = None"
  obtain d va where k: "k = (d, va)" by (cases k)
  let ?f = "unat (next_free_frame s)"
  have pg: "pg_ok s" "hint_ok s" "dirs_ok s" using ok by (simp_all add: paging_ok_def)
  have c: "d < 32" "page_directory_used s ! d" "page_index va \<noteq> 0x300" "\<not> present s d (page_index va)"
    using can none k by (auto simp: user_page_def mapping_def split: if_splits)
  obtain s' where s': "paging_allocate_user_page_frame (Listed d) va s = Some (True, s')" "pg_ok s'"
    "is_free s ?f" "free_frames s' = free_frames s - {?f}" "present s' d (page_index va)" "frame s' d (page_index va) = ?f"
    "\<forall>d' j'. (d', j') \<noteq> (d, page_index va) \<longrightarrow> entry s' d' j' = entry s d' j'"
    "page_directory_used s' = page_directory_used s" "page_dir_free s' = page_dir_free s" "hint_ok s'"
    using alloc_step [OF pg(1,2) c] room by blast
  have f: "?f \<in> free_frames s" using s'(3) by (simp add: is_free_iff)
  have "card (free_frames s') + 1 = card (free_frames s)" unfolding s'(4) using card_Suc_Diff1 [OF finite_free f] by simp
  moreover have "paging_ok s'" using s' pg by (simp add: paging_ok_def dirs_ok_def)
  moreover have "mapping s' p = ((mapping s)((d, page_index va) \<mapsto> ?f)) p" for p
  proof (cases "p = (d, page_index va)")
    case False
    then have "entry s' (fst p) (snd p) = entry s (fst p) (snd p)" using s'(7) by (metis prod.collapse)
    with False show ?thesis by (simp add: mapping_def present_def frame_def)
  qed (use s' in \<open>simp add: mapping_def\<close>)
  then have "mapping s' = (mapping s)((d, page_index va) \<mapsto> ?f)" by blast
  moreover have "frame s d' j' \<noteq> ?f" if "present s d' j'" for d' j'
    using pg_coreD(7) [OF pg_okD(1) [OF pg(1)] that] f by (auto simp: free_frames_def)
  then have "?f \<notin> ran (mapping s)" by (auto simp: ran_def mapping_def split: if_splits)
  moreover have "user_page s' = user_page s" by (simp add: fun_eq_iff user_page_def s'(8))
  ultimately show "\<exists>s' f. (case k of (d, va) \<Rightarrow> \<lambda>s. map_option snd (paging_allocate_user_page_frame (Listed d) va s)) s = Some s' \<and>
      paging_ok s' \<and> card (free_frames s') + 1 = card (free_frames s) \<and>
      mapping s' = (mapping s)((case k of (d, va) \<Rightarrow> (d, page_index va)) \<mapsto> f) \<and> f \<notin> ran (mapping s) \<and> user_page s' = user_page s"
    using s'(1) k by auto
qed

end
