(* ===== verification/FrameProps.thy ===== *)
theory FrameProps
  imports PagingProps
begin

text \<open>
  Properties of the page frames and the page directories: an allocated frame was free and belongs to
  nobody else, freeing undoes allocating, the invariant holds for every sequence of operations, and
  the two ways in which the manager fails: with its last frame and after 32 directories.
\<close>

section \<open>Allocation\<close>

lemma hint_unique: "hint_ok s \<Longrightarrow> hint_ok t \<Longrightarrow> free_frames s = free_frames t \<Longrightarrow> next_free_frame s = next_free_frame t"
  unfolding hint_ok_def is_free_iff by (metis linorder_neqE_nat word_unat_eq_iff)

lemma last_page: "page_index 0x400000 = 1" "page_index 0x800000 = 2"
  by (simp_all add: page_index_def)

text \<open>The first directory taken from the initial state.\<close>

lemma first_directory:
  obtains s where "paging_create_new_page_directory initial_paging = Some (Listed 0, s)" "paging_ok s"
    "page_directory_used s ! 0" "\<forall>j. \<not> present s 0 j" "free_frames s = {1..<32}"
proof -
  have pos: "page_dir_free initial_paging \<noteq> 0" by (simp add: initial_paging_def)
  obtain d s where s: "paging_create_new_page_directory initial_paging = Some (Listed d, s)" "d < 32"
    "page_directory_used s = (page_directory_used initial_paging)[d := True]" "\<forall>j. \<not> present s d j" "pg_ok s" "dirs_ok s"
    "free_frames s = free_frames initial_paging" "hint_ok initial_paging \<longrightarrow> hint_ok s"
    using create_step [OF initial_ok(1,3) pos] by blast
  have "scan (\<lambda>i. \<not> page_directory_used initial_paging ! i) 0 32 = Some 0"
    by (rule scan_eqI) (simp_all add: initial_paging_def)
  then have "d = 0" using s(1) by (auto simp: paging_create_new_page_directory_def initial_paging_def Let_def split: Option.bind_splits)
  with s initial_ok show ?thesis by (intro that [of s]) (simp_all add: paging_ok_def initial_paging_def)
qed

lemma fresh_step:
  assumes "paging_ok s" "2 \<le> card (free_frames s)" "user_page s (d, va)" "\<not> present s d (page_index va)"
  shows "\<exists>s' f. paging_allocate_user_page_frame (Listed d) va s = Some (True, s') \<and> paging_ok s' \<and>
    f \<in> free_frames s \<and> free_frames s' = free_frames s - {f} \<and> f \<notin> ran (mapping s) \<and>
    mapping s' = (mapping s)((d, page_index va) \<mapsto> f) \<and> flag (entry s' d (page_index va)) = user_flag \<and>
    (\<forall>d' j. (d', j) \<noteq> (d, page_index va) \<longrightarrow> entry s' d' j = entry s d' j)"
proof -
  let ?f = "unat (next_free_frame s)"
  have c: "d < 32" "page_directory_used s ! d" "page_index va \<noteq> 0x300" using assms(3) by (simp_all add: user_page_def)
  have ok: "pg_ok s" "hint_ok s" using assms(1) by (simp_all add: paging_ok_def)
  have none: "mapping s (d, page_index va) = None" using assms(4) by (simp add: mapping_def)
  obtain s' where s': "paging_allocate_user_page_frame (Listed d) va s = Some (True, s')" "is_free s ?f"
    "free_frames s' = free_frames s - {?f}" "present s' d (page_index va)" "frame s' d (page_index va) = ?f"
    "flag (entry s' d (page_index va)) = user_flag"
    "\<forall>d' j'. (d', j') \<noteq> (d, page_index va) \<longrightarrow> entry s' d' j' = entry s d' j'"
    using alloc_step [OF ok c assms(4)] by blast
  obtain f where f: "paging_ok s'" "mapping s' = (mapping s)((d, page_index va) \<mapsto> f)" "f \<notin> ran (mapping s)"
    using pages.alloc_law [of s "(d, va)"] assms(1-3) none s'(1) by auto
  have "f = ?f" using s'(4,5) fun_cong [OF f(2), of "(d, page_index va)"] by (simp add: mapping_def)
  then show ?thesis using s' f by (auto simp: is_free_iff)
qed

text \<open>C13: With a frame to spare, allocating an unmapped user page of a directory in use succeeds: the
  page is mapped, for the user, to a frame that was free and that no page of any directory was mapped
  to; exactly that frame leaves the free frames, every other entry of every directory is unchanged,
  and the invariant of the manager holds again.\<close>

theorem allocation_fresh:
  assumes "paging_ok s" "2 \<le> card (free_frames s)" "user_page s (d, va)" "\<not> present s d (page_index va)"
  shows "\<exists>s' f. paging_allocate_user_page_frame (Listed d) va s = Some (True, s') \<and> paging_ok s' \<and>
    f \<in> free_frames s \<and> free_frames s' = free_frames s - {f} \<and> f \<notin> ran (mapping s) \<and>
    mapping s' = (mapping s)((d, page_index va) \<mapsto> f) \<and> flag (entry s' d (page_index va)) = user_flag \<and>
    (\<forall>d' j. (d', j) \<noteq> (d, page_index va) \<longrightarrow> entry s' d' j = entry s d' j)"
  by (rule fresh_step [OF assms])

lemma allocation_fresh_witness:
  "\<exists>s s'. paging_create_new_page_directory initial_paging = Some (Listed 0, s) \<and>
    paging_allocate_user_page_frame (Listed 0) 0x400000 s = Some (True, s') \<and> mapping s' (0, 1) \<noteq> None"
proof -
  obtain s where s: "paging_create_new_page_directory initial_paging = Some (Listed 0, s)" "paging_ok s"
    "page_directory_used s ! 0" "\<forall>j. \<not> present s 0 j" "free_frames s = {1..<32}" by (rule first_directory)
  then show ?thesis using allocation_fresh [of s 0 "0x400000"] by (auto simp: user_page_def last_page)
qed

text \<open>Freeing the page again gives back the whole mapping, the free frames and the hint, and the
  page is reported as not mapped if it is freed twice.\<close>

theorem allocate_free_restores:
  assumes "paging_ok s" "2 \<le> card (free_frames s)" "user_page s (d, va)" "\<not> present s d (page_index va)"
  shows "\<exists>s1 s2. paging_allocate_user_page_frame (Listed d) va s = Some (True, s1) \<and>
    paging_free_user_page_frame (Listed d) va s1 = Some (True, s2) \<and> paging_ok s2 \<and> mapping s2 = mapping s \<and>
    free_frames s2 = free_frames s \<and> free_page_frame_count s2 = free_page_frame_count s \<and>
    next_free_frame s2 = next_free_frame s \<and> paging_free_user_page_frame (Listed d) va s2 = Some (False, s2)"
proof -
  let ?j = "page_index va"
  have c: "d < 32" "?j \<noteq> 0x300" using assms(3) by (simp_all add: user_page_def)
  obtain s1 f where s1: "paging_allocate_user_page_frame (Listed d) va s = Some (True, s1)" "paging_ok s1"
    "f \<in> free_frames s" "free_frames s1 = free_frames s - {f}" "mapping s1 = (mapping s)((d, ?j) \<mapsto> f)"
    using fresh_step [OF assms] by blast
  have p: "present s1 d ?j" "frame s1 d ?j = f"
    using fun_cong [OF s1(5), of "(d, ?j)"] by (auto simp: mapping_def split: if_splits)
  have ok1: "pg_ok s1" "hint_ok s1" "dirs_ok s1" using s1(2) by (simp_all add: paging_ok_def)
  obtain s2 where s2: "paging_free_user_page_frame (Listed d) va s1 = Some (True, s2)" "pg_core s2"
    "free_frames s2 = insert f (free_frames s1)" "\<not> present s2 d ?j"
    "\<forall>d' j'. (d', j') \<noteq> (d, ?j) \<longrightarrow> entry s2 d' j' = entry s1 d' j'"
    "page_directory_used s2 = page_directory_used s1" "page_dir_free s2 = page_dir_free s1" "hint_ok s2"
    using free_step [OF pg_okD(1) [OF ok1(1)] c p(1)] p(2) ok1(2) by blast
  have ff: "free_frames s2 = free_frames s" using s2(3) s1(3,4) by auto
  have pr: "present s2 d' j \<longleftrightarrow> (d', j) \<noteq> (d, ?j) \<and> present s1 d' j" for d' j
    using s2(4) spec [OF spec [OF s2(5)], of d' j] by (cases "(d', j) = (d, ?j)") (auto simp: present_def)
  have m: "mapping s2 = mapping s"
  proof
    fix q
    show "mapping s2 q = mapping s q"
    proof (cases "q = (d, ?j)")
      case True
      then show ?thesis using s2(4) assms(4) by (simp add: mapping_def)
    next
      case False
      then have "entry s2 (fst q) (snd q) = entry s1 (fst q) (snd q)" using s2(5) by (metis prod.collapse)
      then have "mapping s2 q = mapping s1 q" using False pr [of "fst q" "snd q"] by (simp add: mapping_def frame_def)
      then show ?thesis using False s1(5) by simp
    qed
  qed
  have "pg_ok s2" using s2(2,6) pr pg_okD(2) [OF ok1(1)] by (simp add: pg_ok_def)
  then have ok: "paging_ok s2" using s2(6-8) ok1(3) by (simp add: paging_ok_def dirs_ok_def)
  have "free_page_frame_count s2 = free_page_frame_count s"
    using pg_coreD(5) [OF s2(2)] pg_coreD(5) [of s] assms(1) ff by (simp add: paging_ok_def pg_ok_def word_unat_eq_iff)
  moreover have "next_free_frame s2 = next_free_frame s"
    using hint_unique [OF s2(8) _ ff] assms(1) by (simp add: paging_ok_def)
  moreover have "paging_free_user_page_frame (Listed d) va s2 = Some (False, s2)"
    using s2(4) c page_index_less [of va] by (intro free_not_present [OF s2(2)]) (simp_all add: present_def)
  ultimately show ?thesis using s1(1) s2(1) ok m ff by blast
qed

lemma allocate_free_restores_witness:
  "\<exists>s s1 s2. paging_create_new_page_directory initial_paging = Some (Listed 0, s) \<and>
    paging_allocate_user_page_frame (Listed 0) 0x400000 s = Some (True, s1) \<and>
    paging_free_user_page_frame (Listed 0) 0x400000 s1 = Some (True, s2) \<and> mapping s2 = mapping s"
proof -
  obtain s where s: "paging_create_new_page_directory initial_paging = Some (Listed 0, s)" "paging_ok s"
    "page_directory_used s ! 0" "\<forall>j. \<not> present s 0 j" "free_frames s = {1..<32}" by (rule first_directory)
  then show ?thesis using allocate_free_restores [of s 0 "0x400000"] by (auto simp: user_page_def last_page)
qed

section \<open>Sequences of calls\<close>

text \<open>The calls that are admitted in a sequence: a page of a directory in use, other than the kernel's own, is
  allocated when it is not mapped and at least two frames are free, and freed at any time; directories
  are created and freed at any time.  The last section shows what the last free frame does.\<close>

inductive pg_call :: "paging \<Rightarrow> paging \<Rightarrow> bool" where
  page_alloc: "user_page s (d, va) \<Longrightarrow> \<not> present s d (page_index va) \<Longrightarrow> 2 \<le> card (free_frames s) \<Longrightarrow>
     paging_allocate_user_page_frame (Listed d) va s = Some (b, s') \<Longrightarrow> pg_call s s'"
| page_free: "user_page s (d, va) \<Longrightarrow> paging_free_user_page_frame (Listed d) va s = Some (b, s') \<Longrightarrow> pg_call s s'"
| dir_create: "paging_create_new_page_directory s = Some (p, s') \<Longrightarrow> pg_call s s'"
| dir_free: "paging_free_page_directory p s = Some (b, s') \<Longrightarrow> pg_call s s'"

lemma free_page_ok:
  assumes "paging_ok s" "user_page s (d, va)"
  shows "\<exists>b s'. paging_free_user_page_frame (Listed d) va s = Some (b, s') \<and> paging_ok s' \<and> b = present s d (page_index va) \<and>
    mapping s' = (mapping s)((d, page_index va) := None) \<and> page_directory_used s' = page_directory_used s \<and>
    page_dir_free s' = page_dir_free s"
proof -
  let ?j = "page_index va"
  have c: "d < 32" "?j \<noteq> 0x300" using assms(2) by (simp_all add: user_page_def)
  have ok: "pg_ok s" "hint_ok s" "dirs_ok s" using assms(1) by (simp_all add: paging_ok_def)
  show ?thesis
  proof (cases "present s d ?j")
    case False
    then show ?thesis
      using free_not_present [OF pg_okD(1) [OF ok(1)] c(1), of va] c page_index_less [of va] assms(1)
      by (intro exI [of _ False] exI [of _ s]) (auto simp: present_def mapping_def fun_eq_iff)
  next
    case True
    obtain s' where s': "paging_free_user_page_frame (Listed d) va s = Some (True, s')" "pg_core s'" "\<not> present s' d ?j"
      "\<forall>d' j'. (d', j') \<noteq> (d, ?j) \<longrightarrow> entry s' d' j' = entry s d' j'"
      "page_directory_used s' = page_directory_used s" "page_dir_free s' = page_dir_free s" "hint_ok s'"
      using free_step [OF pg_okD(1) [OF ok(1)] c True] ok(2) by blast
    have "present s' d' j \<Longrightarrow> present s d' j" for d' j
      using s'(3) spec [OF spec [OF s'(4)], of d' j] by (cases "(d', j) = (d, ?j)") (auto simp: present_def)
    then have "pg_ok s'" using s'(2,5) pg_okD(2) [OF ok(1)] by (auto simp: pg_ok_def)
    moreover have "mapping s' q = ((mapping s)((d, ?j) := None)) q" for q
    proof (cases "q = (d, ?j)")
      case False
      then have "entry s' (fst q) (snd q) = entry s (fst q) (snd q)" using s'(4) by (metis prod.collapse)
      then show ?thesis using False by (simp add: mapping_def present_def frame_def)
    qed (use s'(3) in \<open>simp add: mapping_def\<close>)
    ultimately show ?thesis using s' ok(3) True by (auto simp: paging_ok_def dirs_ok_def)
  qed
qed

lemma free_directory_ok:
  assumes "paging_ok s" "d < 32"
  shows "\<exists>s'. paging_free_page_directory (Listed d) s = Some (True, s') \<and> paging_ok s' \<and>
    page_directory_used s' = (page_directory_used s)[d := False] \<and> page_dir_free s' = page_dir_free s \<and>
    mapping s' = mapping s |` {q. fst q \<noteq> d} \<and> free_frames s' = free_frames s \<union> {frame s d j | j. present s d j}"
proof -
  have ok: "pg_ok s" "hint_ok s" "dirs_ok s" using assms(1) by (simp_all add: paging_ok_def)
  obtain s' where s': "paging_free_page_directory (Listed d) s = Some (True, s')" "pg_ok s'" "hint_ok s'"
    "page_directory_used s' = (page_directory_used s)[d := False]" "\<forall>j. \<not> present s' d j"
    "\<forall>d' j. d' \<noteq> d \<longrightarrow> entry s' d' j = entry s d' j" "page_dir_free s' = page_dir_free s"
    "free_frames s' = free_frames s \<union> {frame s d j | j. present s d j}"
    using free_directory_step [OF ok(1,2) assms(2)] by blast
  let ?U = "\<lambda>s. {d. d < 32 \<and> \<not> page_directory_used s ! d}"
  have "?U s \<subseteq> ?U s'"
    using s'(4) assms(2) pg_coreD(3) [OF pg_okD(1) [OF ok(1)]] by (auto simp: nth_list_update)
  then have "card (?U s) \<le> card (?U s')" by (intro card_mono) auto
  then have "dirs_ok s'" using ok(3) s'(7) by (simp add: dirs_ok_def)
  moreover have "mapping s' q = (mapping s |` {q. fst q \<noteq> d}) q" for q
    using s'(5,6) by (cases q) (auto simp: mapping_def restrict_map_def present_def frame_def)
  ultimately show ?thesis using s' by (auto simp: paging_ok_def)
qed

lemma allocate_used:
  "paging_allocate_user_page_frame p va s = Some (b, s') \<Longrightarrow> page_directory_used s' = page_directory_used s"
  by (cases p) (auto simp: paging_allocate_user_page_frame_def update_page_directory_entry_def set_dir_def flush_single_tlb_def Let_def
      bind_eq_Some_conv split: if_splits option.splits)

lemma pg_call_ok:
  assumes "pg_call s s'" "paging_ok s"
  shows "paging_ok s'"
  using assms
proof (induction rule: pg_call.induct)
  case (page_alloc s d va b s')
  then show ?case using fresh_step [of s d va] by auto
next
  case (page_free s d va b s')
  then show ?case using free_page_ok [of s d va] by auto
next
  case (dir_create s p s')
  then have ok: "pg_ok s" "dirs_ok s" "hint_ok s" by (simp_all add: paging_ok_def)
  show ?case
  proof (cases "page_dir_free s = 0")
    case True
    with dir_create show ?thesis by (simp add: paging_create_new_page_directory_def)
  next
    case False
    then show ?thesis using create_step [OF ok(1,2)] dir_create ok(3) by (auto simp: paging_ok_def)
  qed
next
  case (dir_free p s b s')
  show ?case
  proof (cases "\<exists>d < 32. p = Listed d")
    case True
    then obtain d where "d < 32" "p = Listed d" by blast
    then show ?thesis using free_directory_ok [OF dir_free(2), of d] dir_free(1) by auto
  next
    case False
    then show ?thesis using dir_free by (cases p) (auto simp: paging_free_page_directory_def)
  qed
qed

lemma ran_mapping: "ran (mapping s) = {frame s d j | d j. present s d j}"
  by (auto simp: ran_def mapping_def)

lemma frames_split:
  assumes "pg_ok s"
  shows "ran (mapping s) \<inter> free_frames s = {}" "ran (mapping s) \<union> free_frames s = {1..<32}"
proof -
  note k = pg_coreD [OF pg_okD(1) [OF assms]]
  show "ran (mapping s) \<inter> free_frames s = {}" using k(7) by (auto simp: ran_mapping free_frames_def)
  show "ran (mapping s) \<union> free_frames s = {1..<32}"
  proof (intro equalityI subsetI)
    fix f assume "f \<in> ran (mapping s) \<union> free_frames s"
    then show "f \<in> {1..<32}" using k(6,7) by (auto simp: ran_mapping free_frames_def Suc_le_eq intro: gr0I)
  next
    fix f :: nat assume "f \<in> {1..<32}"
    then show "f \<in> ran (mapping s) \<union> free_frames s" using k(9) [of f] by (auto simp: ran_mapping free_frames_def)
  qed
qed

text \<open>C9: Through every sequence of allocating and freeing user pages and of creating and freeing
  directories, from the initial state on, in which each allocation is of a page that is not mapped and
  leaves at least one frame free (\<open>pg_call\<close>), the manager is consistent: the count of
  free frames is the number of free frames, no frame is mapped twice, every frame that is not free is
  mapped, no page is mapped to the kernel's frame, unused directories map nothing, and the hint is
  the lowest free frame.\<close>

theorem paging_invariant:
  assumes "pg_call\<^sup>*\<^sup>* initial_paging s"
  shows "paging_ok s \<and> unat (free_page_frame_count s) = card (free_frames s) \<and> inj_on (mapping s) (dom (mapping s)) \<and>
    ran (mapping s) \<inter> free_frames s = {} \<and> ran (mapping s) \<union> free_frames s = {1..<32} \<and>
    (\<forall>d < 32. \<not> page_directory_used s ! d \<longrightarrow> (\<forall>j. mapping s (d, j) = None)) \<and>
    unat (next_free_frame s) = Min (free_frames s)"
proof -
  have ok: "paging_ok s"
    using assms by (induction rule: rtranclp_induct) (use initial_ok in \<open>simp add: paging_ok_def\<close>, rule pg_call_ok)
  then have pg: "pg_ok s" "hint_ok s" by (simp_all add: paging_ok_def)
  note k = pg_coreD [OF pg_okD(1) [OF pg(1)]]
  have "inj_on (mapping s) (dom (mapping s))"
    using k(8) by (intro inj_onI) (auto simp: mapping_def dom_def split: if_splits)
  moreover have "Min (free_frames s) = unat (next_free_frame s)"
    using pg(2) by (intro Min_eqI) (auto simp: hint_ok_def is_free_iff not_less [symmetric])
  ultimately show ?thesis using ok k(5) pg_okD(2) [OF pg(1)] frames_split [OF pg(1)] by (simp add: mapping_def)
qed

lemma paging_invariant_witness:
  "\<exists>s1 s2 s3. paging_create_new_page_directory initial_paging = Some (Listed 0, s1) \<and>
    paging_allocate_user_page_frame (Listed 0) 0x400000 s1 = Some (True, s2) \<and>
    paging_allocate_user_page_frame (Listed 0) 0x800000 s2 = Some (True, s3) \<and>
    {(0, 1), (0, 2)} \<subseteq> dom (mapping s3) \<and> inj_on (mapping s3) (dom (mapping s3)) \<and>
    unat (next_free_frame s3) = Min (free_frames s3)"
proof -
  obtain s1 where s1: "paging_create_new_page_directory initial_paging = Some (Listed 0, s1)" "paging_ok s1"
    "page_directory_used s1 ! 0" "\<forall>j. \<not> present s1 0 j" "free_frames s1 = {1..<32}" by (rule first_directory)
  have a1: "user_page s1 (0, 0x400000)" "2 \<le> card (free_frames s1)" "\<not> present s1 0 (page_index 0x400000)"
    using s1(3-5) by (simp_all add: user_page_def last_page)
  obtain s2 f where s2: "paging_allocate_user_page_frame (Listed 0) 0x400000 s1 = Some (True, s2)" "paging_ok s2"
    "f \<in> free_frames s1" "free_frames s2 = free_frames s1 - {f}" "mapping s2 = (mapping s1)((0, page_index 0x400000) \<mapsto> f)"
    using fresh_step [OF s1(2) a1(2,1,3)] by blast
  have used: "page_directory_used s2 = page_directory_used s1" by (rule allocate_used [OF s2(1)])
  have "mapping s2 (0, 2) = None" using s2(5) s1(4) by (simp add: last_page mapping_def)
  then have a2: "user_page s2 (0, 0x800000)" "2 \<le> card (free_frames s2)" "\<not> present s2 0 (page_index 0x800000)"
    using s1(3,5) s2(3,4) used by (simp_all add: user_page_def last_page mapping_def split: if_splits)
  obtain s3 g where s3: "paging_allocate_user_page_frame (Listed 0) 0x800000 s2 = Some (True, s3)"
    "mapping s3 = (mapping s2)((0, page_index 0x800000) \<mapsto> g)"
    using fresh_step [OF s2(2) a2(2,1,3)] by blast
  have "pg_call initial_paging s1" "pg_call s1 s2" "pg_call s2 s3"
    by (rule dir_create [OF s1(1)], rule page_alloc [OF a1(1,3,2) s2(1)], rule page_alloc [OF a2(1,3,2) s3(1)])
  then have "pg_call\<^sup>*\<^sup>* initial_paging s3" by (meson converse_rtranclp_into_rtranclp rtranclp.rtrancl_refl)
  from paging_invariant [OF this] show ?thesis using s1(1) s2(1,5) s3 by (auto simp: last_page)
qed

section \<open>Where the manager fails\<close>

text \<open>The last free frame is given out twice.  The search for the next free frame finds none and the
  hint stays on the frame just taken; freeing a frame above it does not correct the hint.  The next
  allocation succeeds, but maps the new page to the frame in use: two pages, possibly of two
  processes, share their memory, while the frame that was freed stays marked as free and is lost.\<close>

theorem frame_shared:
  assumes "pg_ok s" "hint_ok s" "free_frames s = {f}"
    and "user_page s (d, va)" "\<not> present s d (page_index va)"
    and "user_page s (d', va')" "present s d' (page_index va')" "f < frame s d' (page_index va')"
    and "user_page s (e, vb)" "\<not> present s e (page_index vb)" "(e, page_index vb) \<noteq> (d, page_index va)"
  shows "\<exists>s1 s2 s3. paging_allocate_user_page_frame (Listed d) va s = Some (True, s1) \<and>
    paging_free_user_page_frame (Listed d') va' s1 = Some (True, s2) \<and>
    paging_allocate_user_page_frame (Listed e) vb s2 = Some (True, s3) \<and>
    mapping s3 (d, page_index va) = Some f \<and> mapping s3 (e, page_index vb) = Some f \<and>
    frame s d' (page_index va') \<in> free_frames s3 \<and> free_page_frame_count s3 = 0"
proof -
  let ?j = "page_index va" and ?j' = "page_index va'" and ?jb = "page_index vb"
  let ?g = "frame s d' ?j'"
  note k = pg_coreD [OF pg_okD(1) [OF assms(1)]]
  have c: "d < 32" "page_directory_used s ! d" "?j \<noteq> 0x300" "d' < 32" "?j' \<noteq> 0x300" "e < 32" "?jb \<noteq> 0x300"
    using assms(4,6,9) by (simp_all add: user_page_def)
  have f: "unat (next_free_frame s) = f" "f < 32"
    using assms(2,3) by (auto simp: hint_ok_def is_free_iff free_frames_def)
  have g: "?g < 32" using k(7) [OF assms(7)] by simp
  obtain s1 where s1: "paging_allocate_user_page_frame (Listed d) va s = Some (True, s1)" "pg_ok s1"
    "free_frames s1 = {}" "present s1 d ?j" "frame s1 d ?j = f"
    "\<forall>d' j'. (d', j') \<noteq> (d, ?j) \<longrightarrow> entry s1 d' j' = entry s d' j'"
    using alloc_step [OF assms(1,2) c(1-3) assms(5)] f(1) assms(3) by auto
  have "free_page_frame_count s \<noteq> 0" using k(5) assms(3) by auto
  then have "page_frame_map s1 = (page_frame_map s)[f := True]"
    and nx: "next_free_frame s1 = (case scan (\<lambda>i. \<not> (page_frame_map s)[f := True] ! i) (f + 1) 32 of
      Some i \<Rightarrow> of_nat i | None \<Rightarrow> next_free_frame s)"
    using alloc_eq [OF pg_okD(1) [OF assms(1)] _ _ c(1), of va] f s1(1) by (auto simp: remap_def)
  moreover have "scan (\<lambda>i. \<not> page_frame_map s1 ! i) (f + 1) 32 = None"
    using s1(3) by (cases "scan (\<lambda>i. \<not> page_frame_map s1 ! i) (f + 1) 32") (auto simp: free_frames_def dest: scan_Some)
  ultimately have n1: "unat (next_free_frame s1) = f" using f by simp
  have ne: "(d', ?j') \<noteq> (d, ?j)" using assms(5,7) by auto
  have q: "present s1 d' ?j'" "frame s1 d' ?j' = ?g"
    using spec [OF spec [OF s1(6)], of d' ?j'] ne assms(7) by (auto simp: present_def frame_def)
  obtain s2 where s2: "paging_free_user_page_frame (Listed d') va' s1 = Some (True, s2)" "pg_core s2"
    "free_frames s2 = {?g}" "next_free_frame s2 = next_free_frame s1"
    "\<forall>d'' j'. (d'', j') \<noteq> (d', ?j') \<longrightarrow> entry s2 d'' j' = entry s1 d'' j'"
    using free_step [OF pg_okD(1) [OF s1(2)] c(4,5) q(1)] q(2) s1(3) n1 assms(8) by auto
  note k2 = pg_coreD [OF s2(2)]
  have count: "unat (free_page_frame_count s2) = 1" using k2(5) s2(3) by simp
  then have "free_page_frame_count s2 \<noteq> 0" by auto
  moreover have n2: "unat (next_free_frame s2) = f" using s2(4) n1 by simp
  ultimately obtain s3 where s3: "paging_allocate_user_page_frame (Listed e) vb s2 = Some (True, s3)"
    "remap s2 s3 e ?jb ((entry s2 e ?jb)\<lparr> flag := user_flag, lower_address := of_nat f \<rparr>) ((page_frame_map s2)[f := True])"
    "unat (free_page_frame_count s3) + 1 = unat (free_page_frame_count s2)"
    using alloc_eq [OF s2(2) _ _ c(6), of vb] f(2) by auto
  note pr = remap_present [OF s3(2) s2(2) c(6) page_index_less c(7)]
  have "present s2 d ?j" "frame s2 d ?j = f"
    using spec [OF spec [OF s2(5)], of d ?j] ne s1(4,5) by (auto simp: present_def frame_def)
  then have "mapping s3 (d, ?j) = Some f" using pr [of d ?j] assms(11) by (auto simp: mapping_def)
  moreover have "unat (of_nat f :: 10 word) = f" using f(2) by (simp add: unat_of_nat take_bit_eq_mod)
  then have "mapping s3 (e, ?jb) = Some f" using pr [of e ?jb] by (simp add: mapping_def user_flag_def)
  moreover have "?g \<in> free_frames s3" using s3(2) s2(3) assms(8) by (auto simp: free_frames_def remap_def nth_list_update)
  moreover have "free_page_frame_count s3 = 0" using s3(3) count by (simp add: word_unat_eq_iff)
  ultimately show ?thesis using s1(1) s2(1) s3(1) by blast
qed

text \<open>A full memory but for frame 1: directory 0 maps pages 1 to 30 to the frames 2 to 31.\<close>

definition full_paging :: paging where
  "full_paging = initial_paging\<lparr>
     page_directory_list := (page_directory_list initial_paging)[0 := map (\<lambda>j. if 1 \<le> j \<and> j \<le> 30
       then zero_pde\<lparr> flag := user_flag, lower_address := of_nat (Suc j) \<rparr> else zero_pde) [0..<1024]],
     page_directory_used := (page_directory_used initial_paging)[0 := True],
     page_frame_map := True # False # replicate 30 True, free_page_frame_count := 1 \<rparr>"

lemma full_paging_ok: "pg_ok full_paging" "hint_ok full_paging" "free_frames full_paging = {1}"
  "page_directory_used full_paging ! 0" "present full_paging d j \<longleftrightarrow> d = 0 \<and> 1 \<le> j \<and> j \<le> 30"
  "1 \<le> j \<Longrightarrow> j \<le> 30 \<Longrightarrow> frame full_paging 0 j = j + 1"
proof -
  have m: "page_frame_map full_paging ! f = (f \<noteq> 1)" if "f < 32" for f
    using that by (auto simp: full_paging_def nth_Cons split: nat.splits)
  show ff: "free_frames full_paging = {1}" using m by (auto simp: free_frames_def)
  show "hint_ok full_paging" using m by (simp add: hint_ok_def is_free_def) (simp add: full_paging_def initial_paging_def)
  show u: "page_directory_used full_paging ! 0" by (simp add: full_paging_def initial_paging_def)
  have e: "entry full_paging d j = (if d = 0 \<and> 1 \<le> j \<and> j \<le> 30 then zero_pde\<lparr> flag := user_flag, lower_address := of_nat (Suc j) \<rparr> else zero_pde)"
    if "d < 32" "j < 1024" for d j
    using that by (simp add: entry_def full_paging_def initial_paging_def nth_list_update)
  show pr: "present full_paging d j \<longleftrightarrow> d = 0 \<and> 1 \<le> j \<and> j \<le> 30" for d j
    by (cases "d = 0 \<and> 1 \<le> j \<and> j \<le> 30") (auto simp: present_def e user_flag_def zero_pde_def no_flag_def)
  show fr: "frame full_paging 0 j = j + 1" if "1 \<le> j" "j \<le> 30" for j
    using that by (simp add: frame_def e unat_of_nat take_bit_eq_mod del: of_nat_Suc)
  have "pg_core full_paging"
    unfolding pg_core_def
  proof (intro conjI allI impI)
    fix f assume "0 < f \<and> f < 32 \<and> page_frame_map full_paging ! f"
    then have "2 \<le> f" "f \<le> 31" using m [of f] by auto
    then show "\<exists>d j. present full_paging d j \<and> frame full_paging d j = f"
      using pr [of 0 "f - 1"] fr [of "f - 1"] by auto
  qed (use pr fr m ff in \<open>auto simp: full_paging_def initial_paging_def nth_list_update\<close>)
  then show "pg_ok full_paging" using pr u by (auto simp: pg_ok_def)
qed

lemma frame_shared_witness:
  "\<exists>s1 s2 s3. paging_allocate_user_page_frame (Listed 0) 0x10000000 full_paging = Some (True, s1) \<and>
    paging_free_user_page_frame (Listed 0) 0x400000 s1 = Some (True, s2) \<and>
    paging_allocate_user_page_frame (Listed 0) 0x20000000 s2 = Some (True, s3) \<and>
    mapping s3 (0, 64) = Some 1 \<and> mapping s3 (0, 128) = Some 1"
proof -
  have "page_index 0x10000000 = 64" "page_index 0x20000000 = 128" "page_index 0x400000 = 1" by (simp_all add: page_index_def)
  then show ?thesis
    using frame_shared [OF full_paging_ok(1-3), of 0 "0x10000000" 0 "0x400000" 0 "0x20000000"] full_paging_ok(4-6)
    by (auto simp: user_page_def)
qed

text \<open>Directories: \<open>paging_free_page_directory\<close> does not count the directory as free again.\<close>

fun recycle :: "nat \<Rightarrow> paging \<Rightarrow> paging option" where
  "recycle 0 s = Some s"
| "recycle (Suc n) s = do { (p, s) \<leftarrow> paging_create_new_page_directory s;
                            (_, s) \<leftarrow> paging_free_page_directory p s; recycle n s }"

lemma recycle_step:
  assumes "paging_ok s" "page_directory_used s = replicate 32 False" "int n \<le> page_dir_free s"
  shows "\<exists>s'. recycle n s = Some s' \<and> paging_ok s' \<and> page_directory_used s' = replicate 32 False \<and>
    page_dir_free s' = page_dir_free s - int n"
  using assms
proof (induction n arbitrary: s)
  case (Suc n)
  have ok: "pg_ok s" "hint_ok s" "dirs_ok s" using Suc.prems(1) by (simp_all add: paging_ok_def)
  have pos: "page_dir_free s \<noteq> 0" using Suc.prems(3) by simp
  obtain d s1 where s1: "paging_create_new_page_directory s = Some (Listed d, s1)" "d < 32"
    "page_directory_used s1 = (page_directory_used s)[d := True]" "page_dir_free s1 = page_dir_free s - 1"
    "pg_ok s1" "dirs_ok s1" "hint_ok s1"
    using create_step [OF ok(1,3) pos] ok(2) by blast
  then have "paging_ok s1" by (simp add: paging_ok_def)
  then obtain s2 where s2: "paging_free_page_directory (Listed d) s1 = Some (True, s2)" "paging_ok s2"
    "page_directory_used s2 = (page_directory_used s1)[d := False]" "page_dir_free s2 = page_dir_free s1"
    using free_directory_ok [of s1 d] s1(2) by blast
  have "page_directory_used s2 = replicate 32 False"
    using s2(3) s1(2,3) Suc.prems(2) by (simp add: list_eq_iff_nth_eq nth_list_update)
  then show ?case using Suc.IH [of s2] Suc.prems(3) s1 s2 by (simp add: diff_diff_eq)
qed simp

text \<open>After 32 directories have been created and freed, one after the other, no directory is in use,
  every entry is free, and still no directory can be created any more: the caller gets a null pointer,
  and mapping a page through it has no result.\<close>

theorem directories_leak:
  "\<exists>s. recycle 32 initial_paging = Some s \<and> page_directory_used s = replicate 32 False \<and> paging_ok s \<and>
    paging_create_new_page_directory s = Some (PdNull, s) \<and>
    paging_allocate_user_page_frame PdNull va s = None"
proof -
  obtain s where s: "recycle 32 initial_paging = Some s" "paging_ok s" "page_directory_used s = replicate 32 False" "page_dir_free s = 0"
    using recycle_step [of initial_paging 32] initial_ok by (auto simp: paging_ok_def initial_paging_def)
  have k: "pg_core s" "hint_ok s" using s(2) by (simp_all add: paging_ok_def pg_ok_def)
  have "unat (next_free_frame s) \<in> free_frames s" using k(2) by (simp add: hint_ok_def is_free_iff)
  then have "free_page_frame_count s \<noteq> 0" "unat (next_free_frame s) < 32"
    using pg_coreD(5) [OF k(1)] card_gt_0_iff [of "free_frames s"] by (auto simp: free_frames_def)
  then have "paging_allocate_user_page_frame PdNull va s = None"
    by (auto simp: paging_allocate_user_page_frame_def Let_def update_page_directory_entry_def get_dir_def
        split: Option.bind_splits option.split)
  then show ?thesis using s by (intro exI [of _ s]) (simp add: paging_create_new_page_directory_def)
qed

end
