(* ===== verification/Process.thy ===== *)
theory Process
  imports Paging Fat32
begin

text \<open>
  Processes, \<open>src/src/process.c\<close> and the data of its header: the 16 process control blocks, creation
  (frames, page directory, program text read from the file system, initial context) and destruction.
  A page directory is known by its pointer; what a user program's addresses hold is kept per
  directory (\<open>space\<close>), and the active directory is \<open>cr3\<close>.  Theory \<open>Memory\<close> shows that one physical memory
  behind the page tables gives the same, as long as frames are not shared; the bytes of a page before
  they are first stored are not described.  The \<open>outw\<close> that shuts the machine down
  when the last process ends is recorded in \<open>power_off\<close>.
\<close>

section \<open>Data\<close>

record cpu_register =
  edi :: u32
  esi :: u32
  ebp :: u32
  esp :: u32
  ebx :: u32
  edx :: u32
  ecx :: u32
  eax :: u32
  gs :: u32
  fs_seg :: u32
  es :: u32
  ds :: u32

record context_t =
  cpu :: cpu_register
  eip :: u32
  eflags :: u32
  page_directory_virtual_addr :: pd_ptr

datatype process_state = READY | RUNNING | BLOCKED

record pcb =
  pid :: u32
  cur_state :: process_state
  active :: bool
  p_name :: "u8 list"
  p_context :: context_t
  virtual_addr_used :: "u32 list"
  page_frame_used_count :: u32

record kernel =
  process_list :: "pcb list"
  active_process_count :: int
  cur_idx :: int
  total_pid :: int
  pg :: paging
  cr3 :: pd_ptr
  k_fs :: fs
  space :: "pd_ptr \<Rightarrow> mem"
  power_off :: bool

definition PROCESS_COUNT_MAX :: int where
  "PROCESS_COUNT_MAX = 16"

definition zero_cpu :: cpu_register where
  "zero_cpu = \<lparr> edi = 0, esi = 0, ebp = 0, esp = 0, ebx = 0, edx = 0, ecx = 0, eax = 0,
               gs = 0, fs_seg = 0, es = 0, ds = 0 \<rparr>"

definition zero_pcb :: pcb where
  "zero_pcb = \<lparr> pid = 0, cur_state = READY, active = False, p_name = replicate 8 0,
               p_context = \<lparr> cpu = zero_cpu, eip = 0, eflags = 0, page_directory_virtual_addr = PdNull \<rparr>,
               virtual_addr_used = replicate 8 0, page_frame_used_count = 0 \<rparr>"

definition initial_kernel :: "fs \<Rightarrow> kernel" where
  "initial_kernel f =
     \<lparr> process_list = replicate 16 zero_pcb, active_process_count = 0, cur_idx = - 1, total_pid = 0,
       pg = initial_paging, cr3 = PdKernel, k_fs = f, space = (\<lambda>_ _. 0), power_off = False \<rparr>"

section \<open>The process list\<close>

text \<open>The blocks of the active processes, copied to the caller's array from index 0 on.\<close>

definition getActivePCB :: "kernel \<Rightarrow> pcb list \<Rightarrow> (pcb list \<times> nat) option" where
  "getActivePCB k ptr =
     for_range 0 16 (\<lambda>i (ptr, count).
       do { p \<leftarrow> arr_get (process_list k) i;
            if active p then map_option (\<lambda>ptr. (ptr, count + 1)) (arr_set ptr count p)
            else Some (ptr, count) }) (ptr, 0)"

text \<open>\<open>while (!hit(xs[i])) i = step(i);\<close>  The loop need not end.\<close>

partial_function (option) probe :: "'a list \<Rightarrow> ('a \<Rightarrow> bool) \<Rightarrow> (int \<Rightarrow> int) \<Rightarrow> int \<Rightarrow> int option" where
  "probe xs hit step i =
     do { x \<leftarrow> arr_geti xs i; if hit x then Some i else probe xs hit step (step i) }"

definition prev_index :: "int \<Rightarrow> int" where
  "prev_index idx = (let idx = idx - 1 in if idx = - 1 then PROCESS_COUNT_MAX - 1 else idx)"

definition process_list_get_inactive_index :: "kernel \<Rightarrow> int option" where
  "process_list_get_inactive_index k =
     (if active_process_count k = 0 then Some 0
      else probe (process_list k) (\<lambda>p. \<not> active p) prev_index (prev_index (cur_idx k)))"

definition process_generate_new_pid :: "kernel \<Rightarrow> (int \<times> kernel) option" where
  "process_generate_new_pid k =
     do { n \<leftarrow> (if total_pid k + 1 < 2 ^ 31 then Some (total_pid k + 1) else None);
          Some (n, k\<lparr> total_pid := n \<rparr>) }"

definition ceil_div :: "u32 \<Rightarrow> u32 \<Rightarrow> u32" where
  "ceil_div a b =
     (if b = 0 then 0
      else let result = a div b in if a mod b \<noteq> 0 then result + 1 else result)"

section \<open>Releasing memory\<close>

definition update_pcb :: "nat \<Rightarrow> (pcb \<Rightarrow> pcb) \<Rightarrow> kernel \<Rightarrow> kernel" where
  "update_pcb i f k = k\<lparr> process_list := (process_list k)[i := f (process_list k ! i)] \<rparr>"

text \<open>\<open>i\<close> is the index of the block that \<open>pcb\<close> points to.\<close>

definition release_memory :: "nat \<Rightarrow> kernel \<Rightarrow> (bool \<times> kernel) option" where
  "release_memory i k =
     do { p \<leftarrow> arr_get (process_list k) i;
          let dir = page_directory_virtual_addr (p_context p);
          k \<leftarrow> for_range 0 (unat (page_frame_used_count p)) (\<lambda>n k.
                 do { addr \<leftarrow> arr_get (virtual_addr_used (process_list k ! i)) n;
                      (_, pg') \<leftarrow> paging_free_user_page_frame dir addr (pg k);
                      Some (update_pcb i (\<lambda>p. p\<lparr> virtual_addr_used := (virtual_addr_used p)[n := 0] \<rparr>)
                              (k\<lparr> pg := pg' \<rparr>)) }) k;
          let cur_run = cr3 k;
          let k = k\<lparr> cr3 := dir \<rparr>;
          (_, pg') \<leftarrow> paging_free_page_directory dir (pg k);
          let k = k\<lparr> pg := pg' \<rparr>;
          let k = (if cur_run \<noteq> dir then k\<lparr> cr3 := cur_run \<rparr> else k);
          Some (True, update_pcb i (\<lambda>p. p\<lparr> page_frame_used_count := 0 \<rparr>) k) }"

section \<open>Creation\<close>

text \<open>The frames of the new process, and the addresses recorded in its block.  The result of the
  allocation is not looked at.\<close>

definition allocate_frames :: "nat \<Rightarrow> u32 \<Rightarrow> u32 \<Rightarrow> kernel \<Rightarrow> kernel option" where
  "allocate_frames p_index buf page_frame_count_needed k =
     for_range 0 (unat page_frame_count_needed) (\<lambda>n k.
       do { let va = buf + of_nat n * PAGE_FRAME_SIZE;
            used \<leftarrow> arr_set (virtual_addr_used (process_list k ! p_index)) n va;
            let k = update_pcb p_index (\<lambda>p. p\<lparr> virtual_addr_used := used \<rparr>) k;
            (_, pg') \<leftarrow> paging_allocate_user_page_frame
                          (page_directory_virtual_addr (p_context (process_list k ! p_index))) va (pg k);
            Some (k\<lparr> pg := pg' \<rparr>) }) k"

text \<open>The file is read through the new directory; its result code is not looked at.\<close>

definition load_program :: "request \<Rightarrow> kernel \<Rightarrow> kernel option" where
  "load_program r k =
     do { (_, m, f) \<leftarrow> read_fat r (space k (cr3 k)) (k_fs k);
          Some (k\<lparr> k_fs := f, space := (space k)(cr3 k := m) \<rparr>) }"

definition GDT_USER_DATA_SEGMENT_SELECTOR :: u32 where
  "GDT_USER_DATA_SEGMENT_SELECTOR = 0x20"

definition CPU_EFLAGS_BASE_FLAG :: u32 where
  "CPU_EFLAGS_BASE_FLAG = 0x2"

definition CPU_EFLAGS_FLAG_INTERRUPT_ENABLE :: u32 where
  "CPU_EFLAGS_FLAG_INTERRUPT_ENABLE = 0x200"

definition user_context :: "u32 \<Rightarrow> context_t \<Rightarrow> context_t" where
  "user_context buf ctx =
     ctx\<lparr> eip := buf,
          eflags := eflags ctx OR (CPU_EFLAGS_BASE_FLAG OR CPU_EFLAGS_FLAG_INTERRUPT_ENABLE),
          cpu := (cpu ctx)\<lparr> ds := GDT_USER_DATA_SEGMENT_SELECTOR, es := GDT_USER_DATA_SEGMENT_SELECTOR,
                            fs_seg := GDT_USER_DATA_SEGMENT_SELECTOR, gs := GDT_USER_DATA_SEGMENT_SELECTOR,
                            esp := 0x400000 \<rparr> \<rparr>"

definition process_create_user_process :: "request \<Rightarrow> kernel \<Rightarrow> (int \<times> kernel) option" where
  "process_create_user_process r k =
     (if active_process_count k \<ge> PROCESS_COUNT_MAX then Some (1, k)
      else if r_buf r \<ge> KERNEL_VIRTUAL_ADDRESS_BASE then Some (2, k)
      else let needed = ceil_div (buffer_size r + PAGE_FRAME_SIZE) PAGE_FRAME_SIZE
      in if \<not> paging_allocate_check needed (pg k) \<or> needed > 8 then Some (3, k)
      else do {
        p_index \<leftarrow> process_list_get_inactive_index k;
        p \<leftarrow> arr_geti (process_list k) p_index;
        let i = nat p_index;
        nm \<leftarrow> memcpy (p_name p) (r_name r) 8;
        let k = update_pcb i (\<lambda>p. p\<lparr> p_name := nm \<rparr>) k;
        let cur_active = cr3 k;
        (dir, pg') \<leftarrow> paging_create_new_page_directory (pg k);
        let k = update_pcb i (\<lambda>p. p\<lparr> p_context := (p_context p)\<lparr> page_directory_virtual_addr := dir \<rparr> \<rparr>)
                  (k\<lparr> pg := pg', cr3 := dir \<rparr>);
        k \<leftarrow> allocate_frames i (r_buf r) needed k;
        let k = update_pcb i (\<lambda>p. p\<lparr> page_frame_used_count := needed \<rparr>) k;
        k \<leftarrow> load_program r k;
        let k = k\<lparr> cr3 := cur_active \<rparr>;
        let k = update_pcb i (\<lambda>p. p\<lparr> p_context := user_context (r_buf r) (p_context p) \<rparr>) k;
        (new_pid, k) \<leftarrow> process_generate_new_pid k;
        let k = update_pcb i (\<lambda>p. p\<lparr> pid := word_of_int new_pid, active := True, cur_state := READY \<rparr>) k;
        Some (0, k\<lparr> active_process_count := active_process_count k + 1 \<rparr>) })"

definition process_get_current_running_pcb_pointer :: "kernel \<Rightarrow> int option" where
  "process_get_current_running_pcb_pointer k = (if cur_idx k = - 1 then None else Some (cur_idx k))"

section \<open>Destruction\<close>

text \<open>The first block with the \<open>pid\<close>, active or not.\<close>

definition process_destroy :: "u32 \<Rightarrow> kernel \<Rightarrow> (bool \<times> kernel) option" where
  "process_destroy p k =
     (case scan (\<lambda>i. pid (process_list k ! i) = p) 0 16 of
        None \<Rightarrow> Some (False, k)
      | Some i \<Rightarrow>
          do { (released, k) \<leftarrow> release_memory i k;
               if \<not> released then Some (False, k)
               else do {
                 let k = (if active_process_count k = 1 then k\<lparr> power_off := True \<rparr> else k);
                 let k = update_pcb i (\<lambda>p. p\<lparr> active := False \<rparr>) k;
                 Some (True, k\<lparr> active_process_count := active_process_count k - 1 \<rparr>) } })"

section \<open>Blocks\<close>

definition is_active :: "kernel \<Rightarrow> nat \<Rightarrow> bool" where
  "is_active k i = (i < 16 \<and> active (process_list k ! i))"

lemma length_update_pcb [simp]: "length (process_list (update_pcb i f k)) = length (process_list k)"
  by (simp add: update_pcb_def)

lemma update_pcb_nth:
  "i < length (process_list k) \<Longrightarrow>
     process_list (update_pcb i f k) ! j = (if j = i then f (process_list k ! i) else process_list k ! j)"
  by (simp add: update_pcb_def nth_list_update)

lemma update_pcb_fields [simp]:
  "cur_idx (update_pcb i f k) = cur_idx k" "active_process_count (update_pcb i f k) = active_process_count k"
  "total_pid (update_pcb i f k) = total_pid k" "pg (update_pcb i f k) = pg k" "cr3 (update_pcb i f k) = cr3 k"
  "k_fs (update_pcb i f k) = k_fs k" "space (update_pcb i f k) = space k" "power_off (update_pcb i f k) = power_off k"
  by (simp_all add: update_pcb_def)

end
