(* ===== verification/Ring.thy ===== *)
theory Ring
  imports Process
begin

text \<open>
  Searching a table in a circle.  The scheduler looks for the next active process upwards, the process
  table for a free block downwards; both are \<open>probe\<close> with a step that goes round the table.  The
  locale \<open>ring\<close> has the laws of such a step, and its lemmas (the search ends when there is something
  to find, and finds the nearest) are used through the interpretations \<open>up\<close> and \<open>down\<close>.
\<close>

lemma probe_hit: "0 \<le> i \<Longrightarrow> i < int (length xs) \<Longrightarrow> hit (xs ! nat i) \<Longrightarrow> probe xs hit step i = Some i"
  by (subst probe.simps) (simp add: arr_geti_def)

lemma probe_miss:
  "0 \<le> i \<Longrightarrow> i < int (length xs) \<Longrightarrow> \<not> hit (xs ! nat i) \<Longrightarrow> probe xs hit step i = probe xs hit step (step i)"
  by (subst probe.simps) (simp add: arr_geti_def)

locale ring =
  fixes step :: "int \<Rightarrow> int" and size :: nat
  assumes step_in: "0 \<le> i \<Longrightarrow> i < int size \<Longrightarrow> 0 \<le> step i \<and> step i < int size"
    and step_reach: "0 \<le> i \<Longrightarrow> i < int size \<Longrightarrow> 0 \<le> j \<Longrightarrow> j < int size \<Longrightarrow> \<exists>n < size. (step ^^ n) i = j"
begin

lemma steps_in: "0 \<le> i \<Longrightarrow> i < int size \<Longrightarrow> 0 \<le> (step ^^ n) i \<and> (step ^^ n) i < int size"
  by (induction n) (simp_all add: step_in)

text \<open>The number of steps from one index to another.\<close>

definition dist :: "int \<Rightarrow> int \<Rightarrow> nat" where
  "dist i j = (LEAST n. (step ^^ n) i = j)"

lemma dist_step:
  assumes "0 \<le> i" "i < int size" "0 \<le> j" "j < int size"
  shows "(step ^^ dist i j) i = j \<and> dist i j < size"
proof -
  obtain n where n: "n < size" "(step ^^ n) i = j" using step_reach [OF assms] by blast
  then have "(step ^^ dist i j) i = j" unfolding dist_def by (intro LeastI)
  moreover have "dist i j \<le> n" unfolding dist_def using n(2) by (rule Least_le)
  ultimately show ?thesis using n(1) by simp
qed

lemma dist_least: "(step ^^ n) i = j \<Longrightarrow> dist i j \<le> n"
  unfolding dist_def by (rule Least_le)

lemma dist_after:
  assumes "n \<le> dist i j" "0 \<le> i" "i < int size" "0 \<le> j" "j < int size"
  shows "dist ((step ^^ n) i) j = dist i j - n"
proof (rule antisym)
  have "(step ^^ (dist i j - n)) ((step ^^ n) i) = j"
    using dist_step [OF assms(2-5)] assms(1) by (simp add: funpow_add [symmetric, unfolded o_def, THEN fun_cong])
  then show "dist ((step ^^ n) i) j \<le> dist i j - n" by (rule dist_least)
  have "(step ^^ dist ((step ^^ n) i) j) ((step ^^ n) i) = j"
    using dist_step [of "(step ^^ n) i" j] steps_in [OF assms(2,3), of n] assms(4,5) by blast
  then have "(step ^^ (dist ((step ^^ n) i) j + n)) i = j" by (simp add: funpow_add)
  then have "dist i j \<le> dist ((step ^^ n) i) j + n" by (rule dist_least)
  then show "dist i j - n \<le> dist ((step ^^ n) i) j" by simp
qed

text \<open>The search ends at the nearest hit.\<close>

lemma probe_nearest:
  assumes "length xs = size" "0 \<le> i" "i < int size" "0 \<le> j" "j < int size" "hit (xs ! nat j)"
  shows "\<exists>n \<le> dist i j. probe xs hit step i = Some ((step ^^ n) i) \<and> hit (xs ! nat ((step ^^ n) i)) \<and>
    (\<forall>m < n. \<not> hit (xs ! nat ((step ^^ m) i)))"
  using assms
proof (induction "dist i j" arbitrary: i)
  case 0
  then have "i = j" using dist_step [of i j] by simp
  with 0 show ?case by (intro exI [of _ 0]) (simp add: probe_hit)
next
  case (Suc d)
  show ?case
  proof (cases "hit (xs ! nat i)")
    case True
    with Suc show ?thesis by (intro exI [of _ 0]) (simp add: probe_hit)
  next
    case False
    have s: "0 \<le> step i" "step i < int size" using step_in Suc.prems by blast+
    have d: "d = dist (step i) j" using dist_after [of 1 i j] Suc by simp
    obtain n where n: "n \<le> dist (step i) j" "probe xs hit step (step i) = Some ((step ^^ n) (step i))"
      "hit (xs ! nat ((step ^^ n) (step i)))" "\<forall>m < n. \<not> hit (xs ! nat ((step ^^ m) (step i)))"
      using Suc.hyps(1) [OF d] Suc.prems s by blast
    have "\<forall>m < Suc n. \<not> hit (xs ! nat ((step ^^ m) i))"
      using n(4) False by (auto simp: less_Suc_eq_0_disj funpow_swap1)
    then show ?thesis
      using n Suc False d by (intro exI [of _ "Suc n"]) (simp add: probe_miss funpow_swap1)
  qed
qed

text \<open>Moving to the next hit and asking for the one after it, again and again, visits every hit: each
  move brings the index closer to it.\<close>

definition move :: "'a list \<Rightarrow> ('a \<Rightarrow> bool) \<Rightarrow> int \<Rightarrow> int option" where
  "move xs hit i = probe xs hit step (step i)"

lemma move_in:
  assumes "length xs = size" "0 \<le> i" "i < int size" "0 \<le> j" "j < int size" "hit (xs ! nat j)"
  shows "\<exists>i'. move xs hit i = Some i' \<and> 0 \<le> i' \<and> i' < int size \<and> hit (xs ! nat i') \<and>
    (i' = j \<or> dist (step i') j < dist (step i) j)"
proof -
  have s: "0 \<le> step i" "step i < int size" using step_in assms by blast+
  obtain n where n: "n \<le> dist (step i) j" "probe xs hit step (step i) = Some ((step ^^ n) (step i))"
    "hit (xs ! nat ((step ^^ n) (step i)))"
    using probe_nearest [of xs "step i" j hit] assms(1,4-6) s by blast
  let ?i = "(step ^^ n) (step i)"
  have i': "0 \<le> ?i" "?i < int size" using steps_in [OF s] by blast+
  show ?thesis
  proof (cases "?i = j")
    case True
    with n i' show ?thesis by (auto simp: move_def)
  next
    case False
    with n(1) dist_step [OF s assms(4,5)] have lt: "n < dist (step i) j" by (metis le_neq_implies_less)
    have "dist (step ?i) j = dist ((step ^^ Suc n) (step i)) j" by simp
    also have "\<dots> = dist (step i) j - Suc n" using lt s assms(4,5) by (intro dist_after) simp_all
    finally show ?thesis using n i' lt by (auto simp: move_def)
  qed
qed

end

section \<open>Downwards through the process table\<close>

lemma prev_index_eq: "0 \<le> i \<Longrightarrow> i < 16 \<Longrightarrow> prev_index i = (i - 1) mod 16"
  by (cases "i = 0") (simp_all add: prev_index_def PROCESS_COUNT_MAX_def)

lemma prev_index_power: "0 \<le> i \<Longrightarrow> i < 16 \<Longrightarrow> (prev_index ^^ n) i = (i - int n) mod 16"
proof (induction n)
  case (Suc n)
  then have "(prev_index ^^ Suc n) i = ((i - int n) mod 16 - 1) mod 16" by (simp add: prev_index_eq)
  then show ?case by (simp add: mod_simps algebra_simps)
qed simp

interpretation down: ring prev_index 16
proof
  fix i assume "0 \<le> i" "i < int 16"
  then show "0 \<le> prev_index i \<and> prev_index i < int 16" by (simp add: prev_index_eq)
next
  fix i j assume "0 \<le> i" "i < int 16" "0 \<le> j" "j < int 16"
  then show "\<exists>n < 16. (prev_index ^^ n) i = j"
    by (intro exI [of _ "nat ((i - j) mod 16)"]) (simp add: prev_index_power mod_simps)
qed

end
