(* ===== verification/Scheduler.thy ===== *)
theory Scheduler
  imports Ring
begin

text \<open>
  The round-robin scheduler, \<open>src/src/scheduler.c\<close>.  \<open>process_context_switch\<close>, written in assembly,
  does not return: the context it loads is the result of the switch.
\<close>

definition scheduler_save_context_to_current_running_pcb :: "context_t \<Rightarrow> kernel \<Rightarrow> kernel option" where
  "scheduler_save_context_to_current_running_pcb ctx k =
     do { p \<leftarrow> arr_geti (process_list k) (cur_idx k);
          Some (update_pcb (nat (cur_idx k)) (\<lambda>p. p\<lparr> p_context := (p_context p)\<lparr>
                  cpu := cpu ctx, eflags := eflags ctx, eip := eip ctx \<rparr> \<rparr>) k) }"

definition next_index :: "int \<Rightarrow> int" where
  "next_index idx = (idx + 1) mod PROCESS_COUNT_MAX"

definition scheduler_switch_to_next_process :: "kernel \<Rightarrow> (context_t \<times> kernel) option" where
  "scheduler_switch_to_next_process k =
     do { idx \<leftarrow> probe (process_list k) active next_index (next_index (cur_idx k));
          _ \<leftarrow> arr_geti (process_list k) (cur_idx k);
          let k = update_pcb (nat (cur_idx k)) (\<lambda>p. p\<lparr> cur_state := READY \<rparr>) k;
          let ctx = p_context (process_list k ! nat idx);
          let k = k\<lparr> cr3 := page_directory_virtual_addr ctx, cur_idx := idx \<rparr>;
          let k = update_pcb (nat idx) (\<lambda>p. p\<lparr> cur_state := RUNNING \<rparr>) k;
          Some (p_context (process_list k ! nat idx), k) }"

text \<open>The timer interrupt: only with more than one process is there a switch.\<close>

definition timer_tick :: "context_t \<Rightarrow> kernel \<Rightarrow> kernel option" where
  "timer_tick ctx k =
     (if active_process_count k > 1
      then do { k \<leftarrow> scheduler_save_context_to_current_running_pcb ctx k;
                map_option snd (scheduler_switch_to_next_process k) }
      else Some k)"

section \<open>Upwards through the process table\<close>

lemma next_index_power: "0 \<le> i \<Longrightarrow> i < 16 \<Longrightarrow> (next_index ^^ n) i = (i + int n) mod 16"
  by (induction n) (simp_all add: next_index_def PROCESS_COUNT_MAX_def mod_simps add.commute add.left_commute)

interpretation up: ring next_index 16
proof
  fix i assume "0 \<le> i" "i < int 16"
  then show "0 \<le> next_index i \<and> next_index i < int 16" by (simp add: next_index_def PROCESS_COUNT_MAX_def)
next
  fix i j assume "0 \<le> i" "i < int 16" "0 \<le> j" "j < int 16"
  then show "\<exists>n < 16. (next_index ^^ n) i = j"
    by (intro exI [of _ "nat ((j - i) mod 16)"]) (simp add: next_index_power mod_simps)
qed

section \<open>One switch\<close>

definition sched_ok :: "kernel \<Rightarrow> bool" where
  "sched_ok k = (length (process_list k) = 16 \<and> 0 \<le> cur_idx k \<and> cur_idx k < 16)"

lemma switch_step:
  assumes ok: "sched_ok k" and act: "is_active k j"
  shows "\<exists>i ctx k'. scheduler_switch_to_next_process k = Some (ctx, k') \<and> cur_idx k' = int i \<and> is_active k i \<and>
    (i = j \<or> up.dist (next_index (int i)) (int j) < up.dist (next_index (cur_idx k)) (int j)) \<and>
    sched_ok k' \<and> is_active k' = is_active k \<and>
    (\<forall>n < 16. p_context (process_list k' ! n) = p_context (process_list k ! n)) \<and>
    ctx = p_context (process_list k ! i) \<and> cr3 k' = page_directory_virtual_addr ctx \<and>
    cur_state (process_list k' ! i) = RUNNING \<and>
    (\<forall>n < 16. n \<noteq> i \<longrightarrow> cur_state (process_list k' ! n) = (if int n = cur_idx k then READY else cur_state (process_list k ! n)))"
proof -
  have len: "length (process_list k) = 16" and c: "0 \<le> cur_idx k" "cur_idx k < 16" using ok by (simp_all add: sched_ok_def)
  have j: "j < 16" "active (process_list k ! j)" using act by (simp_all add: is_active_def)
  obtain i' where i': "up.move (process_list k) active (cur_idx k) = Some i'" "0 \<le> i'" "i' < 16"
    "active (process_list k ! nat i')"
    "i' = int j \<or> up.dist (next_index i') (int j) < up.dist (next_index (cur_idx k)) (int j)"
    using up.move_in [of "process_list k" "cur_idx k" "int j" active] len c j by auto
  define i where "i = nat i'"
  have i: "i < 16" "int i = i'" "active (process_list k ! i)" using i' by (simp_all add: i_def)
  define k1 where "k1 = update_pcb (nat (cur_idx k)) (\<lambda>p. p\<lparr> cur_state := READY \<rparr>) k"
  define ctx where "ctx = p_context (process_list k1 ! i)"
  define k2 where "k2 = update_pcb i (\<lambda>p. p\<lparr> cur_state := RUNNING \<rparr>)
    (k1\<lparr> cr3 := page_directory_virtual_addr ctx, cur_idx := int i \<rparr>)"
  have "arr_geti (process_list k) (cur_idx k) = Some (process_list k ! nat (cur_idx k))"
    using c len by (simp add: arr_geti_def)
  then have run: "scheduler_switch_to_next_process k = Some (p_context (process_list k2 ! i), k2)"
    using i' i by (simp add: scheduler_switch_to_next_process_def up.move_def k1_def [symmetric] Let_def ctx_def k2_def i_def)
  have l1: "length (process_list k1) = 16" using len by (simp add: k1_def)
  have p1: "process_list k1 ! n = (if int n = cur_idx k then (process_list k ! n)\<lparr> cur_state := READY \<rparr> else process_list k ! n)" for n
    using c len by (auto simp: k1_def update_pcb_nth)
  have p2: "process_list k2 ! n = (if n = i then (process_list k1 ! n)\<lparr> cur_state := RUNNING \<rparr> else process_list k1 ! n)" for n
    using i l1 by (auto simp: k2_def update_pcb_nth)
  have "is_active k2 = is_active k" by (simp add: fun_eq_iff is_active_def p2 p1)
  moreover have "sched_ok k2" using l1 i by (simp add: sched_ok_def k2_def)
  moreover have "cur_idx k2 = int i" "cr3 k2 = page_directory_virtual_addr ctx" by (simp_all add: k2_def)
  moreover have "p_context (process_list k2 ! n) = p_context (process_list k ! n)" for n by (simp add: p2 p1)
  moreover have "ctx = p_context (process_list k ! i)" by (simp add: ctx_def p1)
  moreover have "is_active k i" using i by (simp add: is_active_def)
  moreover have "cur_state (process_list k2 ! i) = RUNNING" by (simp add: p2)
  moreover have "n \<noteq> i \<Longrightarrow> cur_state (process_list k2 ! n) = (if int n = cur_idx k then READY else cur_state (process_list k ! n))" for n
    by (simp add: p2 p1)
  ultimately show ?thesis using run i'(5) i(2) by (intro exI [of _ i]) auto
qed

section \<open>A sequence of switches\<close>

fun switches :: "nat \<Rightarrow> kernel \<Rightarrow> kernel option" where
  "switches 0 k = Some k"
| "switches (Suc n) k = do { (_, k) \<leftarrow> scheduler_switch_to_next_process k; switches n k }"

lemma switches_context:
  assumes "sched_ok k" "is_active k j" "switches n k = Some k'"
  shows "sched_ok k' \<and> is_active k' = is_active k \<and> (\<forall>i < 16. p_context (process_list k' ! i) = p_context (process_list k ! i))"
  using assms
proof (induction n arbitrary: k)
  case (Suc n)
  obtain ctx k1 where k1: "scheduler_switch_to_next_process k = Some (ctx, k1)" "sched_ok k1" "is_active k1 = is_active k"
    "\<forall>i < 16. p_context (process_list k1 ! i) = p_context (process_list k ! i)"
    using switch_step [OF Suc.prems(1,2)] by blast
  moreover have "switches n k1 = Some k'" using Suc.prems(3) k1(1) by simp
  ultimately show ?case using Suc.IH [of k1] Suc.prems(2) by simp
qed simp

lemma switches_reach:
  assumes "sched_ok k" "is_active k j"
  shows "\<exists>n k'. 1 \<le> n \<and> n \<le> Suc (up.dist (next_index (cur_idx k)) (int j)) \<and> switches n k = Some k' \<and> cur_idx k' = int j"
  using assms
proof (induction "up.dist (next_index (cur_idx k)) (int j)" arbitrary: k rule: less_induct)
  case less
  obtain i ctx k1 where k1: "scheduler_switch_to_next_process k = Some (ctx, k1)" "cur_idx k1 = int i"
    "i = j \<or> up.dist (next_index (int i)) (int j) < up.dist (next_index (cur_idx k)) (int j)"
    "sched_ok k1" "is_active k1 = is_active k"
    using switch_step [OF less.prems] by blast
  show ?case
  proof (cases "i = j")
    case True
    with k1 show ?thesis by (intro exI [of _ 1] exI [of _ k1]) simp
  next
    case False
    with k1 less.hyps [of k1] less.prems(2) obtain n k' where n: "1 \<le> n"
      "n \<le> Suc (up.dist (next_index (int i)) (int j))" "switches n k1 = Some k'" "cur_idx k' = int j" by auto
    then show ?thesis using k1 False by (intro exI [of _ "Suc n"] exI [of _ k']) simp
  qed
qed

end
