(* ===== verification/SchedProps.thy ===== *)
theory SchedProps
  imports Scheduler
begin

text \<open>
  Properties of the scheduler: every active process gets its turn within 16 switches and with its own
  context, a preempted process finds the registers it had, at most one process is marked as running,
  and the first switch of the system writes outside the process table.
\<close>

section \<open>Examples\<close>

text \<open>A process table with processes in blocks 2 and 9, of which 2 runs.\<close>

definition example_kernel :: kernel where
  "example_kernel = (initial_kernel undefined)\<lparr> cur_idx := 2, active_process_count := 2,
     process_list := (replicate 16 zero_pcb)[2 := zero_pcb\<lparr> active := True, cur_state := RUNNING \<rparr>,
                                             9 := zero_pcb\<lparr> active := True \<rparr>], cr3 := PdNull \<rparr>"

lemma example_kernel_ok: "sched_ok example_kernel" "is_active example_kernel 2" "is_active example_kernel 9"
  by (simp_all add: example_kernel_def sched_ok_def is_active_def)

section \<open>Fairness\<close>

lemma switches_turn:
  assumes "sched_ok k" "is_active k j"
  shows "\<exists>n k' ctx k''. n \<le> up.dist (next_index (cur_idx k)) (int j) \<and> switches n k = Some k' \<and>
    scheduler_switch_to_next_process k' = Some (ctx, k'') \<and> cur_idx k'' = int j \<and>
    ctx = p_context (process_list k ! j) \<and> cr3 k'' = page_directory_virtual_addr ctx \<and>
    cur_state (process_list k'' ! j) = RUNNING"
  using assms
proof (induction "up.dist (next_index (cur_idx k)) (int j)" arbitrary: k rule: less_induct)
  case less
  obtain i ctx k1 where k1: "scheduler_switch_to_next_process k = Some (ctx, k1)" "cur_idx k1 = int i" "is_active k i"
    "i = j \<or> up.dist (next_index (int i)) (int j) < up.dist (next_index (cur_idx k)) (int j)"
    "sched_ok k1" "is_active k1 = is_active k"
    "\<forall>n < 16. p_context (process_list k1 ! n) = p_context (process_list k ! n)"
    "ctx = p_context (process_list k ! i)" "cr3 k1 = page_directory_virtual_addr ctx"
    "cur_state (process_list k1 ! i) = RUNNING"
    using switch_step [OF less.prems] by blast
  have j: "j < 16" using less.prems(2) by (simp add: is_active_def)
  show ?case
  proof (cases "i = j")
    case True
    with k1 show ?thesis by (intro exI [of _ 0] exI [of _ k] exI [of _ ctx] exI [of _ k1]) simp
  next
    case False
    then obtain n k' c k'' where n: "n \<le> up.dist (next_index (int i)) (int j)" "switches n k1 = Some k'"
      "scheduler_switch_to_next_process k' = Some (c, k'')" "cur_idx k'' = int j"
      "c = p_context (process_list k1 ! j)" "cr3 k'' = page_directory_virtual_addr c"
      "cur_state (process_list k'' ! j) = RUNNING"
      using less.hyps [of k1] less.prems(2) k1 by auto
    then show ?thesis
      using k1 False j by (intro exI [of _ "Suc n"] exI [of _ k'] exI [of _ c] exI [of _ k'']) auto
  qed
qed

text \<open>C11: Round robin: every active process is switched to after at most 15 other switches, with exactly
  the context its block holds and its own page directory, and it is then the running process.\<close>

theorem round_robin_fair:
  assumes "sched_ok k" "is_active k j"
  shows "\<exists>n k' ctx k''. n < 16 \<and> switches n k = Some k' \<and>
    scheduler_switch_to_next_process k' = Some (ctx, k'') \<and> cur_idx k'' = int j \<and>
    ctx = p_context (process_list k ! j) \<and> cr3 k'' = page_directory_virtual_addr ctx \<and>
    cur_state (process_list k'' ! j) = RUNNING"
proof -
  have "0 \<le> cur_idx k" "cur_idx k < 16" "j < 16" using assms by (simp_all add: sched_ok_def is_active_def)
  then have "up.dist (next_index (cur_idx k)) (int j) < 16"
    using up.dist_step [of "next_index (cur_idx k)" "int j"] up.step_in [of "cur_idx k"] by simp
  with switches_turn [OF assms] show ?thesis by (meson le_less_trans)
qed

lemma round_robin_fair_witness:
  "\<exists>n k' ctx k''. n < 16 \<and> switches n example_kernel = Some k' \<and>
    scheduler_switch_to_next_process k' = Some (ctx, k'') \<and> cur_idx k'' = 9"
  using round_robin_fair [OF example_kernel_ok(1,3)] by auto

section \<open>Preemption\<close>

text \<open>What a process finds when it runs again: the registers that were saved, in its own address space.\<close>

definition saved :: "context_t \<Rightarrow> context_t \<Rightarrow> context_t" where
  "saved ctx c = c\<lparr> cpu := cpu ctx, eflags := eflags ctx, eip := eip ctx \<rparr>"

lemma tick_step:
  assumes ok: "sched_ok k" and act: "is_active k j" and many: "active_process_count k > 1"
  shows "\<exists>i k'. timer_tick ctx k = Some k' \<and> cur_idx k' = int i \<and> is_active k i \<and> sched_ok k' \<and>
    is_active k' = is_active k \<and> active_process_count k' = active_process_count k \<and>
    (\<forall>n < 16. p_context (process_list k' ! n) =
       (if int n = cur_idx k then saved ctx (p_context (process_list k ! n)) else p_context (process_list k ! n))) \<and>
    cr3 k' = page_directory_virtual_addr (p_context (process_list k' ! i)) \<and>
    cur_state (process_list k' ! i) = RUNNING \<and>
    (\<forall>n < 16. n \<noteq> i \<longrightarrow> cur_state (process_list k' ! n) = (if int n = cur_idx k then READY else cur_state (process_list k ! n)))"
proof -
  let ?c = "nat (cur_idx k)"
  have c: "0 \<le> cur_idx k" "?c < 16" "length (process_list k) = 16" using ok by (simp_all add: sched_ok_def nat_less_iff)
  define k1 where "k1 = update_pcb ?c (\<lambda>p. p\<lparr> p_context := saved ctx (p_context p) \<rparr>) k"
  have save: "scheduler_save_context_to_current_running_pcb ctx k = Some k1"
    using c by (simp add: scheduler_save_context_to_current_running_pcb_def arr_geti_def k1_def saved_def)
  have p: "process_list k1 ! n = (if int n = cur_idx k then (process_list k ! n)\<lparr> p_context := saved ctx (p_context (process_list k ! n)) \<rparr>
      else process_list k ! n)" for n
    using c by (auto simp: k1_def update_pcb_nth)
  have ok1: "sched_ok k1" using ok by (simp add: sched_ok_def k1_def)
  have act1: "is_active k1 = is_active k" by (simp add: fun_eq_iff is_active_def p)
  have count: "active_process_count k' = active_process_count k1"
    if "scheduler_switch_to_next_process k1 = Some (x, k')" for x k'
    using that by (auto simp: scheduler_switch_to_next_process_def Let_def split: Option.bind_splits)
  obtain i x k' where k': "scheduler_switch_to_next_process k1 = Some (x, k')" "cur_idx k' = int i" "is_active k1 i"
    "sched_ok k'" "is_active k' = is_active k1"
    "\<forall>n < 16. p_context (process_list k' ! n) = p_context (process_list k1 ! n)"
    "x = p_context (process_list k1 ! i)" "cr3 k' = page_directory_virtual_addr x" "cur_state (process_list k' ! i) = RUNNING"
    "\<forall>n < 16. n \<noteq> i \<longrightarrow> cur_state (process_list k' ! n) = (if int n = cur_idx k1 then READY else cur_state (process_list k1 ! n))"
    using switch_step [OF ok1, of j] act act1 by auto
  have "i < 16" using k'(3) by (simp add: is_active_def)
  moreover have "timer_tick ctx k = Some k'" using many save k'(1) by (simp add: timer_tick_def)
  moreover have "active_process_count k' = active_process_count k" "cur_idx k1 = cur_idx k"
    using count [OF k'(1)] by (simp_all add: k1_def)
  ultimately show ?thesis using k' act1 p by (intro exI [of _ i] exI [of _ k']) simp
qed

text \<open>Ticks of the timer while the process of block \<open>i\<close> waits.\<close>

inductive waits :: "nat \<Rightarrow> kernel \<Rightarrow> kernel \<Rightarrow> bool" for i where
  "waits i k k"
| "waits i k k' \<Longrightarrow> cur_idx k' \<noteq> int i \<Longrightarrow> timer_tick ctx k' = Some k'' \<Longrightarrow> waits i k k''"

lemma waits_keeps:
  assumes "waits i k k'" "sched_ok k" "is_active k i" "active_process_count k > 1"
  shows "sched_ok k' \<and> is_active k' = is_active k \<and> active_process_count k' = active_process_count k \<and>
    p_context (process_list k' ! i) = p_context (process_list k ! i)"
  using assms
proof (induction rule: waits.induct)
  case (2 k k' ctx k'')
  then have IH: "sched_ok k'" "is_active k' = is_active k" "active_process_count k' = active_process_count k"
    "p_context (process_list k' ! i) = p_context (process_list k ! i)" by simp_all
  have "i < 16" using 2 by (simp add: is_active_def)
  then show ?case using tick_step [of k' i ctx] IH 2 by auto
qed simp

text \<open>C10: Preemption is transparent: the registers, the flags and the instruction pointer that the timer
  interrupt found when it took the processor from a process are exactly what is loaded when the
  process is switched to again, whatever the other processes did to their own in between, and the
  page directory is its own.\<close>

theorem preemption_transparent:
  assumes "sched_ok k" "cur_idx k = int i" "is_active k i" "active_process_count k > 1"
    and "timer_tick ctx k = Some k1" "waits i k1 k2" "cur_idx k2 \<noteq> int i" "timer_tick ctx' k2 = Some k3" "cur_idx k3 = int i"
  shows "p_context (process_list k3 ! i) = saved ctx (p_context (process_list k ! i)) \<and>
    cr3 k3 = page_directory_virtual_addr (p_context (process_list k ! i)) \<and> cur_state (process_list k3 ! i) = RUNNING"
proof -
  have i: "i < 16" using assms(3) by (simp add: is_active_def)
  have one: "sched_ok k1" "is_active k1 i" "active_process_count k1 > 1"
    "p_context (process_list k1 ! i) = saved ctx (p_context (process_list k ! i))"
    using tick_step [OF assms(1,3,4), of ctx] assms(2,3,4,5) i by auto
  have two: "sched_ok k2" "is_active k2 i" "active_process_count k2 > 1"
    "p_context (process_list k2 ! i) = saved ctx (p_context (process_list k ! i))"
    using waits_keeps [OF assms(6) one(1-3)] one by simp_all
  show ?thesis using tick_step [OF two(1-3), of ctx'] two(4) assms(7-9) i by (auto simp: saved_def)
qed

lemma preemption_transparent_witness:
  "\<exists>k1 k3. timer_tick ((p_context zero_pcb)\<lparr> eip := 77 \<rparr>) example_kernel = Some k1 \<and>
    timer_tick (p_context zero_pcb) k1 = Some k3 \<and> eip (p_context (process_list k3 ! 2)) = 77"
proof -
  let ?c = "(p_context zero_pcb)\<lparr> eip := 77 \<rparr>"
  have many: "active_process_count example_kernel > 1" by (simp add: example_kernel_def)
  have cur: "cur_idx example_kernel = int 2" by (simp add: example_kernel_def)
  have p: "arr_geti (process_list (k :: kernel)) i = Some (process_list k ! nat i)" if "length (process_list k) = 16" "0 \<le> i" "i < 16" for k i
    using that by (simp add: arr_geti_def)
  obtain k1 where k1: "timer_tick ?c example_kernel = Some k1" "cur_idx k1 = 9" "length (process_list k1) = 16"
    "active (process_list k1 ! 2)" "\<forall>n. n \<in> {0, 1, 10, 11, 12, 13, 14, 15} \<longrightarrow> \<not> active (process_list k1 ! n)" "active_process_count k1 = 2"
    by (simp add: timer_tick_def example_kernel_def scheduler_save_context_to_current_running_pcb_def arr_geti_def
        scheduler_switch_to_next_process_def next_index_def PROCESS_COUNT_MAX_def probe_hit probe_miss update_pcb_def
        zero_pcb_def nth_list_update)
  obtain k3 where k3: "timer_tick (p_context zero_pcb) k1 = Some k3" "cur_idx k3 = 2"
    using k1 by (simp add: timer_tick_def scheduler_save_context_to_current_running_pcb_def arr_geti_def
        scheduler_switch_to_next_process_def next_index_def PROCESS_COUNT_MAX_def probe_hit probe_miss update_pcb_def
        nth_list_update)
  have "cur_idx k1 \<noteq> int 2" using k1(2) by simp
  then show ?thesis
    using preemption_transparent [OF example_kernel_ok(1) cur example_kernel_ok(2) many k1(1) waits.intros(1) _ k3(1)] k1 k3
    by (auto simp: saved_def)
qed

section \<open>One running process\<close>

text \<open>The invariant of the timer: the current process, and no other, is marked as running, it is active,
  and its directory is loaded.\<close>

definition one_runs :: "kernel \<Rightarrow> bool" where
  "one_runs k =
     (sched_ok k \<and> is_active k (nat (cur_idx k)) \<and>
      (\<forall>n < 16. cur_state (process_list k ! n) = RUNNING \<longleftrightarrow> int n = cur_idx k) \<and>
      cr3 k = page_directory_virtual_addr (p_context (process_list k ! nat (cur_idx k))))"

text \<open>Any number of ticks, with any register contents.\<close>

fun ticks :: "context_t list \<Rightarrow> kernel \<Rightarrow> kernel option" where
  "ticks [] k = Some k"
| "ticks (ctx # cs) k = Option.bind (timer_tick ctx k) (ticks cs)"

lemma tick_one_runs:
  assumes "one_runs k"
  shows "\<exists>k'. timer_tick ctx k = Some k' \<and> one_runs k' \<and> is_active k' = is_active k"
proof (cases "active_process_count k > 1")
  case False
  then show ?thesis using assms by (simp add: timer_tick_def)
next
  case True
  have ok: "sched_ok k" "is_active k (nat (cur_idx k))" using assms by (simp_all add: one_runs_def)
  obtain i k' where k': "timer_tick ctx k = Some k'" "cur_idx k' = int i" "is_active k i" "sched_ok k'" "is_active k' = is_active k"
    "cr3 k' = page_directory_virtual_addr (p_context (process_list k' ! i))" "cur_state (process_list k' ! i) = RUNNING"
    "\<forall>n < 16. n \<noteq> i \<longrightarrow> cur_state (process_list k' ! n) = (if int n = cur_idx k then READY else cur_state (process_list k ! n))"
    using tick_step [OF ok True, of ctx] by blast
  have "cur_state (process_list k' ! n) = RUNNING \<longleftrightarrow> n = i" if "n < 16" for n
    using k'(7,8) assms that by (cases "n = i") (simp_all add: one_runs_def)
  then show ?thesis using k' by (intro exI [of _ k']) (simp add: one_runs_def)
qed

text \<open>However often the timer ticks and whatever the registers hold, the kernel goes on: every tick
  returns, the set of active processes stays, and exactly one block, an active one, is marked as
  running: the one that \<open>cur_idx\<close> names, whose page directory is loaded.\<close>

theorem one_process_runs:
  assumes "one_runs k"
  shows "\<exists>k'. ticks cs k = Some k' \<and> one_runs k' \<and> is_active k' = is_active k"
  using assms
proof (induction cs arbitrary: k)
  case (Cons ctx cs)
  obtain k1 where k1: "timer_tick ctx k = Some k1" "one_runs k1" "is_active k1 = is_active k"
    using tick_one_runs [OF Cons.prems] by blast
  with Cons.IH [OF k1(2)] show ?case by simp
qed simp

lemma one_process_runs_witness:
  "\<exists>k'. ticks [p_context zero_pcb, p_context zero_pcb] example_kernel = Some k' \<and> one_runs k'"
proof -
  have "one_runs example_kernel"
    using example_kernel_ok by (simp add: one_runs_def) (auto simp: example_kernel_def nth_list_update zero_pcb_def)
  from one_process_runs [OF this] show ?thesis by blast
qed

section \<open>The limits of the scheduler\<close>

text \<open>C40: Before the first process runs, \<open>cur_idx\<close> is -1, and the first switch marks block -1 as ready: it
  finds the process to run but writes before the start of \<open>_process_list\<close>.  \<open>kernel_setup\<close> always makes
  its first switch in this state.\<close>

theorem first_switch_out_of_bounds:
  assumes "length (process_list k) = 16" "is_active k j" "cur_idx k = - 1"
  shows "(\<exists>i. probe (process_list k) active next_index (next_index (cur_idx k)) = Some i \<and> is_active k (nat i)) \<and>
    arr_geti (process_list k) (cur_idx k) = None \<and> scheduler_switch_to_next_process k = None"
proof -
  have j: "j < 16" "active (process_list k ! nat (int j))" using assms(2) by (simp_all add: is_active_def)
  obtain n where n: "probe (process_list k) active next_index 0 = Some ((next_index ^^ n) 0)"
    "active (process_list k ! nat ((next_index ^^ n) 0))"
    using up.probe_nearest [of "process_list k" 0 "int j" active] assms(1) j by auto
  have "0 \<le> (next_index ^^ n) 0" "(next_index ^^ n) 0 < 16" using up.steps_in [of 0 n] by simp_all
  then have "is_active k (nat ((next_index ^^ n) 0))" using n(2) by (simp add: is_active_def nat_less_iff)
  moreover have "next_index (cur_idx k) = 0" by (simp add: assms(3) next_index_def PROCESS_COUNT_MAX_def)
  ultimately show ?thesis using n(1) assms(3) by (simp add: scheduler_switch_to_next_process_def)
qed

lemma first_switch_out_of_bounds_witness:
  "scheduler_switch_to_next_process (example_kernel\<lparr> cur_idx := - 1 \<rparr>) = None"
proof -
  have "length (process_list (example_kernel\<lparr> cur_idx := - 1 \<rparr>)) = 16" "is_active (example_kernel\<lparr> cur_idx := - 1 \<rparr>) 2"
    by (simp_all add: example_kernel_def is_active_def)
  from first_switch_out_of_bounds [OF this] show ?thesis by simp
qed

end
