(* ===== verification/ProcessProps.thy ===== *)
theory ProcessProps
  imports Scheduler PagingProps FatSteps
begin

text \<open>
  Creating and destroying processes: the well-formedness of the process table together with the
  page directories, that a new process gets a block, a directory and frames that nobody has, and
  that destroying it gives all of them back.
\<close>

section \<open>Well-formed process tables\<close>

definition proc :: "kernel \<Rightarrow> nat \<Rightarrow> pcb" where
  "proc k i = process_list k ! i"

definition dir_of :: "kernel \<Rightarrow> nat \<Rightarrow> pd_ptr" where
  "dir_of k i = page_directory_virtual_addr (p_context (proc k i))"

text \<open>The pages that the block of a process lists.\<close>

definition pages_of :: "kernel \<Rightarrow> nat \<Rightarrow> nat set" where
  "pages_of k i = page_index ` set (take (unat (page_frame_used_count (proc k i))) (virtual_addr_used (proc k i)))"

definition owns :: "kernel \<Rightarrow> nat \<Rightarrow> nat \<Rightarrow> bool" where
  "owns k i d =
     (dir_of k i = Listed d \<and> d < 32 \<and> page_directory_used (pg k) ! d \<and> unat (page_frame_used_count (proc k i)) \<le> 8 \<and>
      distinct (map page_index (take (unat (page_frame_used_count (proc k i))) (virtual_addr_used (proc k i)))) \<and>
      (\<forall>j. present (pg k) d j \<longleftrightarrow> j \<in> pages_of k i) \<and> 0x300 \<notin> pages_of k i)"

definition proc_ok :: "kernel \<Rightarrow> bool" where
  "proc_ok k =
     (length (process_list k) = 16 \<and> (\<forall>i < 16. length (p_name (proc k i)) = 8 \<and> length (virtual_addr_used (proc k i)) = 8) \<and>
      active_process_count k = int (card {i. is_active k i}) \<and> paging_ok (pg k) \<and>
      - 1 \<le> cur_idx k \<and> cur_idx k < 16 \<and> 0 \<le> total_pid k \<and> total_pid k < 2 ^ 31 \<and>
      (\<forall>i. is_active k i \<longrightarrow> (\<exists>d. owns k i d) \<and> pid (proc k i) \<noteq> 0) \<and>
      (\<forall>i j. is_active k i \<longrightarrow> is_active k j \<longrightarrow> dir_of k i = dir_of k j \<longrightarrow> i = j) \<and>
      (\<forall>i < 16. int (unat (pid (proc k i))) \<le> total_pid k) \<and>
      (\<forall>i < 16. \<forall>j < 16. pid (proc k i) = pid (proc k j) \<longrightarrow> pid (proc k i) \<noteq> 0 \<longrightarrow> i = j))"

lemma proc_okD:
  assumes "proc_ok k"
  shows "length (process_list k) = 16" "i < 16 \<Longrightarrow> length (p_name (proc k i)) = 8"
    "i < 16 \<Longrightarrow> length (virtual_addr_used (proc k i)) = 8"
    "active_process_count k = int (card {i. is_active k i})" "paging_ok (pg k)"
    "- 1 \<le> cur_idx k" "cur_idx k < 16" "0 \<le> total_pid k" "total_pid k < 2 ^ 31"
    "is_active k i \<Longrightarrow> \<exists>d. owns k i d" "is_active k i \<Longrightarrow> pid (proc k i) \<noteq> 0"
    "is_active k i \<Longrightarrow> is_active k j \<Longrightarrow> dir_of k i = dir_of k j \<Longrightarrow> i = j"
    "i < 16 \<Longrightarrow> int (unat (pid (proc k i))) \<le> total_pid k"
    "i < 16 \<Longrightarrow> j < 16 \<Longrightarrow> pid (proc k i) = pid (proc k j) \<Longrightarrow> pid (proc k i) \<noteq> 0 \<Longrightarrow> i = j"
  using assms unfolding proc_ok_def by blast+

lemma finite_active [simp]: "finite {i. is_active k i}"
  by (rule finite_subset [of _ "{..<16}"]) (auto simp: is_active_def)

lemma initial_proc_ok: "proc_ok (initial_kernel f)"
proof -
  have "\<not> is_active (initial_kernel f) i" for i by (auto simp: is_active_def initial_kernel_def zero_pcb_def)
  then show ?thesis
    using initial_ok by (simp add: proc_ok_def paging_ok_def) (simp add: initial_kernel_def proc_def zero_pcb_def)
qed

section \<open>A free block\<close>

lemma inactive_exists:
  assumes "proc_ok k" "active_process_count k < 16"
  shows "\<exists>i < 16. \<not> is_active k i"
proof (rule ccontr)
  assume "\<not> ?thesis"
  then have "{..<16} \<subseteq> {i. is_active k i}" by auto
  then have "card {..<16::nat} \<le> card {i. is_active k i}" by (intro card_mono) simp_all
  with assms(2) proc_okD(4) [OF assms(1)] show False by simp
qed

lemma inactive_index:
  assumes ok: "proc_ok k" and n: "active_process_count k < 16" and cur: "active_process_count k = 0 \<or> 0 \<le> cur_idx k"
  shows "\<exists>i < 16. process_list_get_inactive_index k = Some (int i) \<and> \<not> is_active k i"
proof (cases "active_process_count k = 0")
  case True
  then have "{i. is_active k i} = {}" using proc_okD(4) [OF ok] by simp
  with True show ?thesis by (intro exI [of _ 0]) (auto simp: process_list_get_inactive_index_def)
next
  case False
  have len: "length (process_list k) = 16" by (rule proc_okD(1) [OF ok])
  obtain j where j: "j < 16" "\<not> is_active k j" using inactive_exists [OF ok n] by blast
  have c: "0 \<le> cur_idx k" "cur_idx k < 16" using cur False proc_okD(7) [OF ok] by simp_all
  then have s: "0 \<le> prev_index (cur_idx k)" "prev_index (cur_idx k) < 16" using down.step_in [of "cur_idx k"] by simp_all
  have "\<not> active (process_list k ! nat (int j))" using j by (simp add: is_active_def)
  then obtain m where m: "probe (process_list k) (\<lambda>p. \<not> active p) prev_index (prev_index (cur_idx k)) =
      Some ((prev_index ^^ m) (prev_index (cur_idx k)))"
    "\<not> active (process_list k ! nat ((prev_index ^^ m) (prev_index (cur_idx k))))"
    using down.probe_nearest [of "process_list k" "prev_index (cur_idx k)" "int j" "\<lambda>p. \<not> active p"] len s j by auto
  let ?i = "(prev_index ^^ m) (prev_index (cur_idx k))"
  have "0 \<le> ?i" "?i < 16" using down.steps_in [of "prev_index (cur_idx k)" m] s by simp_all
  then show ?thesis
    using m False by (intro exI [of _ "nat ?i"]) (auto simp: process_list_get_inactive_index_def is_active_def nat_less_iff)
qed

section \<open>Frames for a process\<close>

text \<open>The addresses of a program of \<open>n\<close> pages.\<close>

definition addrs :: "u32 \<Rightarrow> nat \<Rightarrow> u32 list" where
  "addrs buf n = map (\<lambda>i. buf + of_nat i * PAGE_FRAME_SIZE) [0..<n]"

lemma update_pcb_twice: "i < length (process_list k) \<Longrightarrow> update_pcb i g (update_pcb i f k) = update_pcb i (g \<circ> f) k"
  by (simp add: update_pcb_def)

lemma update_pcb_pg: "update_pcb i f (k\<lparr> pg := p \<rparr>) = (update_pcb i f k)\<lparr> pg := p \<rparr>"
  by (simp add: update_pcb_def)

lemma allocate_frames_eq:
  assumes i: "i < length (process_list k)" and dir: "dir_of k i = Listed d"
    and n: "unat needed \<le> length (virtual_addr_used (proc k i))"
    and run: "pages.alloc_all (map (Pair d) (addrs buf (unat needed))) (pg k) = Some pg'"
  shows "allocate_frames i buf needed k = Some (update_pcb i
    (\<lambda>p. p\<lparr> virtual_addr_used := addrs buf (unat needed) @ drop (unat needed) (virtual_addr_used p) \<rparr>) (k\<lparr> pg := pg' \<rparr>))"
proof -
  define f where "f n = (\<lambda>p::pcb. p\<lparr> virtual_addr_used := addrs buf n @ drop n (virtual_addr_used p) \<rparr>)" for n
  let ?ks = "\<lambda>n. map (Pair d) (addrs buf n)"
  let ?body = "\<lambda>n k. do {
    let va = buf + of_nat n * PAGE_FRAME_SIZE;
    used \<leftarrow> arr_set (virtual_addr_used (process_list k ! i)) n va;
    let k = update_pcb i (\<lambda>p. p\<lparr> virtual_addr_used := used \<rparr>) k;
    (_, pg') \<leftarrow> paging_allocate_user_page_frame (page_directory_virtual_addr (p_context (process_list k ! i))) va (pg k);
    Some (k\<lparr> pg := pg' \<rparr>) }"
  let ?I = "\<lambda>n k'. \<exists>q. pages.alloc_all (?ks n) (pg k) = Some q \<and> k' = update_pcb i (f n) (k\<lparr> pg := q \<rparr>)"
  have "\<exists>k'. for_range 0 (unat needed) ?body k = Some k' \<and> ?I (unat needed) k'"
  proof (rule for_range_inv [where I = ?I])
    have "f 0 = (\<lambda>p. p)" by (simp add: f_def addrs_def fun_eq_iff)
    then show "?I 0 k" by (simp add: addrs_def update_pcb_def)
  next
    fix n k' assume n': "0 \<le> n" "n < unat needed" and I: "?I n k'"
    then obtain q where q: "pages.alloc_all (?ks n) (pg k) = Some q" "k' = update_pcb i (f n) (k\<lparr> pg := q \<rparr>)" by blast
    let ?va = "buf + of_nat n * PAGE_FRAME_SIZE"
    have p: "process_list k' ! i = f n (process_list k ! i)" using i by (simp add: q(2) update_pcb_def)
    have len: "n < length (virtual_addr_used (process_list k' ! i))"
      using n n'(2) by (simp add: p f_def proc_def addrs_def)
    have upd: "(virtual_addr_used (process_list k' ! i))[n := ?va] = addrs buf (Suc n) @ drop (Suc n) (virtual_addr_used (process_list k ! i))"
    proof -
      have "drop n (virtual_addr_used (process_list k ! i)) = virtual_addr_used (process_list k ! i) ! n # drop (Suc n) (virtual_addr_used (process_list k ! i))"
        using n n'(2) by (simp add: Cons_nth_drop_Suc proc_def)
      then show ?thesis by (simp add: p f_def addrs_def list_update_append)
    qed
    have ks: "?ks (Suc n) = ?ks n @ [(d, ?va)]" by (simp add: addrs_def)
    have split: "addrs buf (unat needed) = addrs buf (Suc n) @ map (\<lambda>i. buf + of_nat i * PAGE_FRAME_SIZE) [Suc n..<unat needed]"
      unfolding addrs_def map_append [symmetric] using upt_add_eq_append [of 0 "Suc n" "unat needed - Suc n"] n'(2) by simp
    have pre: "pages.alloc_all (xs @ ys) s = Option.bind (pages.alloc_all xs s) (pages.alloc_all ys)" for xs ys s
      by (induction xs arbitrary: s) (auto split: Option.bind_splits)
    have "pages.alloc_all (?ks (Suc n)) (pg k) \<noteq> None"
      using run by (cases "pages.alloc_all (?ks (Suc n)) (pg k)") (simp_all add: split pre del: upt_Suc)
    then obtain q' where q': "pages.alloc_all (?ks (Suc n)) (pg k) = Some q'" by blast
    then have "map_option snd (paging_allocate_user_page_frame (Listed d) ?va q) = Some q'"
      unfolding ks pages.alloc_all_append q(1) by simp
    then obtain b where b: "paging_allocate_user_page_frame (Listed d) ?va q = Some (b, q')" by auto
    have fin: "update_pcb i (\<lambda>p. p\<lparr> virtual_addr_used := addrs buf (Suc n) @ drop (Suc n) (virtual_addr_used (process_list k ! i)) \<rparr>) k'\<lparr> pg := q' \<rparr>
        = update_pcb i (f (Suc n)) (k\<lparr> pg := q' \<rparr>)"
      using i by (simp add: q(2) update_pcb_def f_def)
    have "?body n k' = Some (update_pcb i (f (Suc n)) (k\<lparr> pg := q' \<rparr>))"
      using len upd dir b fin i by (simp add: Let_def update_pcb_nth q(2) dir_of_def proc_def) (simp add: p f_def)
    with q' show "\<exists>k''. ?body n k' = Some k'' \<and> ?I (Suc n) k''" by blast
  qed simp
  then show ?thesis using run by (auto simp: allocate_frames_def f_def)
qed

end
