(* ===== verification/Creation.thy ===== *)
theory Creation
  imports ProcessProps FrameProps
begin

text \<open>
  The run of \<open>process_create_user_process\<close> and of \<open>process_destroy\<close> as equations and their effect on the
  invariant of the process table; the properties rest on \<open>create_step_ok\<close> and \<open>destroy_step\<close>.
\<close>

section \<open>The pages of a program\<close>

lemma page_index_div: "page_index va = unat va div 4194304"
proof -
  have m: "(0x3FF :: u32) = mask 10" by (simp add: mask_eq_exp_minus_1)
  have "unat va < 4294967296" using unsigned_less [where ?'a = nat, of va] by simp
  then have "unat va div 4194304 < 1024" by (simp add: less_mult_imp_div_less)
  then show ?thesis
    by (simp add: page_index_def m take_bit_eq_mask [symmetric] unsigned_take_bit_eq take_bit_eq_mod unat_mod unat_drop_22)
qed

lemma addr_page:
  assumes "unat buf + 4194304 * n \<le> 0xC0000000" "i < n"
  shows "page_index (buf + of_nat i * PAGE_FRAME_SIZE) = unat buf div 4194304 + i" "unat buf div 4194304 + i < 0x300"
proof -
  have b: "unat buf + 4194304 * i < 0xC0000000" using assms by linarith
  then have "unat (of_nat i * PAGE_FRAME_SIZE :: u32) = 4194304 * i"
    by (simp add: PAGE_FRAME_SIZE_def unat_word_ariths unat_of_nat take_bit_eq_mod)
  then have "unat (buf + of_nat i * PAGE_FRAME_SIZE) = unat buf + 4194304 * i"
    using b by (simp add: unat_word_ariths)
  then show "page_index (buf + of_nat i * PAGE_FRAME_SIZE) = unat buf div 4194304 + i" by (simp add: page_index_div)
  have "(unat buf + 4194304 * i) div 4194304 < 0x300" using b by (intro less_mult_imp_div_less) simp
  then show "unat buf div 4194304 + i < 0x300" by simp
qed

lemma length_addrs [simp]: "length (addrs buf n) = n"
  by (simp add: addrs_def)

lemma addrs_pages:
  assumes "unat buf + 4194304 * n \<le> 0xC0000000"
  shows "map page_index (addrs buf n) = map (\<lambda>i. unat buf div 4194304 + i) [0..<n]"
  using addr_page(1) [OF assms] by (simp add: addrs_def)

definition program_pages :: "u32 \<Rightarrow> nat \<Rightarrow> nat set" where
  "program_pages buf n = {unat buf div 4194304 ..< unat buf div 4194304 + n}"

lemma addrs_set:
  assumes "unat buf + 4194304 * n \<le> 0xC0000000"
  shows "page_index ` set (addrs buf n) = program_pages buf n" "distinct (map page_index (addrs buf n))"
    "\<forall>j \<in> program_pages buf n. j < 0x300"
proof -
  have "page_index ` set (addrs buf n) = set (map page_index (addrs buf n))" by simp
  also have "\<dots> = program_pages buf n" unfolding addrs_pages [OF assms] by (simp add: program_pages_def add.commute)
  finally show "page_index ` set (addrs buf n) = program_pages buf n" .
  show "distinct (map page_index (addrs buf n))" unfolding addrs_pages [OF assms] by (simp add: distinct_map inj_on_def)
  show "\<forall>j \<in> program_pages buf n. j < 0x300"
    using addr_page(2) [OF assms] by (auto simp: program_pages_def) (metis add_diff_inverse_nat add_less_cancel_left not_less)
qed

section \<open>Creating a process\<close>

definition pages_needed :: "request \<Rightarrow> nat" where
  "pages_needed r = unat (ceil_div (buffer_size r + PAGE_FRAME_SIZE) PAGE_FRAME_SIZE)"

text \<open>When a process can be created: a block, a directory, the frames with one to spare, and an address
  below the kernel.\<close>

definition can_create :: "request \<Rightarrow> kernel \<Rightarrow> bool" where
  "can_create r k =
     (active_process_count k < 16 \<and> (active_process_count k = 0 \<or> 0 \<le> cur_idx k) \<and>
      unat (r_buf r) + 4194304 * pages_needed r \<le> 0xC0000000 \<and> 0 < pages_needed r \<and> pages_needed r \<le> 8 \<and>
      pages_needed r < card (free_frames (pg k)) \<and> page_dir_free (pg k) \<noteq> 0 \<and> total_pid k + 1 < 2 ^ 31 \<and>
      wf_request r)"

definition new_pcb :: "request \<Rightarrow> nat \<Rightarrow> int \<Rightarrow> pcb \<Rightarrow> pcb" where
  "new_pcb r d n p = p\<lparr> p_name := r_name r,
     virtual_addr_used := addrs (r_buf r) (pages_needed r) @ drop (pages_needed r) (virtual_addr_used p),
     page_frame_used_count := of_nat (pages_needed r),
     p_context := user_context (r_buf r) ((p_context p)\<lparr> page_directory_virtual_addr := Listed d \<rparr>),
     pid := word_of_int n, active := True, cur_state := READY \<rparr>"

lemma needed_small: "pages_needed r \<le> 8 \<Longrightarrow> ceil_div (buffer_size r + PAGE_FRAME_SIZE) PAGE_FRAME_SIZE = of_nat (pages_needed r)"
  by (simp add: pages_needed_def)

lemma check_passes:
  assumes "0 < n" "n \<le> 8" "free_page_frame_count s \<noteq> 0"
  shows "paging_allocate_check (of_nat n) s"
proof -
  have n: "unat (of_nat n :: u32) = n" using assms(2) by (simp add: unat_of_nat_u32)
  have z: "(of_nat n :: u32) div PAGE_FRAME_SIZE = 0"
    using assms(2) n by (intro word_unat_eq_iff [THEN iffD2]) (simp add: unat_div PAGE_FRAME_SIZE_def)
  have "(1 :: u32) \<le> free_page_frame_count s" using assms(3) by (simp add: word_le_nat_alt Suc_le_eq unat_gt_0)
  then show ?thesis by (simp add: paging_allocate_check_def z)
qed

lemma create_eq:
  assumes ok: "proc_ok k" and can: "can_create r k"
    and idx: "process_list_get_inactive_index k = Some (int i)" "i < 16"
    and dir: "paging_create_new_page_directory (pg k) = Some (Listed d, pg1)"
    and alloc: "pages.alloc_all (map (Pair d) (addrs (r_buf r) (pages_needed r))) pg1 = Some pg2"
    and load: "read_fat r (space k (Listed d)) (k_fs k) = Some (c, m, f)"
  shows "process_create_user_process r k = Some (0, k\<lparr> pg := pg2, k_fs := f, space := (space k)(Listed d := m), total_pid := total_pid k + 1,
      process_list := (process_list k)[i := new_pcb r d (total_pid k + 1) (proc k i)],
      active_process_count := active_process_count k + 1 \<rparr>)"
proof -
  note c = can [unfolded can_create_def] and K = proc_okD [OF ok]
  let ?n = "pages_needed r" and ?w = "of_nat (pages_needed r) :: u32"
  have n: "unat ?w = ?n" using c by (simp add: unat_of_nat_u32)
  have w: "ceil_div (buffer_size r + PAGE_FRAME_SIZE) PAGE_FRAME_SIZE = ?w" using needed_small c by blast
  have "unat (r_buf r) < unat KERNEL_VIRTUAL_ADDRESS_BASE" using c by (simp add: KERNEL_VIRTUAL_ADDRESS_BASE_def)
  then have g2: "\<not> r_buf r \<ge> KERNEL_VIRTUAL_ADDRESS_BASE" by (simp add: word_le_nat_alt)
  have "card (free_frames (pg k)) = unat (free_page_frame_count (pg k))"
    using K(5) pg_coreD(5) [of "pg k"] by (simp add: paging_ok_def pg_ok_def)
  then have "free_page_frame_count (pg k) \<noteq> 0" using c by auto
  then have g3: "paging_allocate_check ?w (pg k)" "\<not> ?w > 8"
    using check_passes c n by (auto simp: word_less_nat_alt)
  have i: "arr_geti (process_list k) (int i) = Some (proc k i)" using idx K(1) by (simp add: arr_geti_def proc_def)
  have nm: "memcpy (p_name (proc k i)) (r_name r) 8 = Some (r_name r)"
    using K(2) [OF idx(2)] c by (simp add: wf_request_def)
  define k1 where "k1 = update_pcb i (\<lambda>p. p\<lparr> p_context := (p_context p)\<lparr> page_directory_virtual_addr := Listed d \<rparr> \<rparr>)
    ((update_pcb i (\<lambda>p. p\<lparr> p_name := r_name r \<rparr>) k)\<lparr> pg := pg1, cr3 := Listed d \<rparr>)"
  have p1: "proc k1 i = (proc k i)\<lparr> p_name := r_name r, p_context := (p_context (proc k i))\<lparr> page_directory_virtual_addr := Listed d \<rparr> \<rparr>"
    using idx(2) K(1) by (simp add: k1_def proc_def update_pcb_def)
  have fr: "allocate_frames i (r_buf r) ?w k1 = Some (update_pcb i
      (\<lambda>p. p\<lparr> virtual_addr_used := addrs (r_buf r) ?n @ drop ?n (virtual_addr_used p) \<rparr>) (k1\<lparr> pg := pg2 \<rparr>))"
    using allocate_frames_eq [of i k1 d ?w "r_buf r" pg2] alloc n p1 idx(2) K(1) K(3) [OF idx(2)] c
    by (simp add: dir_of_def) (simp add: k1_def)
  have pid: "process_generate_new_pid k' = Some (total_pid k' + 1, k'\<lparr> total_pid := total_pid k' + 1 \<rparr>)"
    if "total_pid k' = total_pid k" for k'
    using that c by (simp add: process_generate_new_pid_def)
  show ?thesis
    unfolding process_create_user_process_def w Let_def
    using c g2 g3 idx i nm dir fr load K(1) pid
    by (simp add: PROCESS_COUNT_MAX_def k1_def [symmetric] load_program_def)
      (simp add: k1_def update_pcb_def new_pcb_def proc_def pid)
qed

text \<open>Entries of other directories stay while pages are allocated in directory \<open>d\<close>.\<close>

lemma alloc_pages:
  assumes ok: "paging_ok s" and n: "n < card (free_frames s)" and d: "d < 32" "page_directory_used s ! d" "\<forall>j. \<not> present s d j"
    and buf: "unat buf + 4194304 * n \<le> 0xC0000000"
  shows "\<exists>s'. pages.alloc_all (map (Pair d) (addrs buf n)) s = Some s' \<and> paging_ok s' \<and>
    card (free_frames s') + n = card (free_frames s) \<and> user_page s' = user_page s \<and>
    (\<forall>d' j. d' \<noteq> d \<longrightarrow> mapping s' (d', j) = mapping s (d', j)) \<and>
    (\<forall>j. mapping s' (d, j) \<noteq> None \<longleftrightarrow> j \<in> program_pages buf n) \<and>
    (\<forall>j \<in> program_pages buf n. the (mapping s' (d, j)) \<notin> ran (mapping s)) \<and>
    (\<forall>j \<in> program_pages buf n. \<forall>j' \<in> program_pages buf n. mapping s' (d, j) = mapping s' (d, j') \<longrightarrow> j = j')"
proof -
  note A = addrs_set [OF buf]
  let ?ks = "map (Pair d) (addrs buf n)" and ?page = "\<lambda>(d, va). (d, page_index va)"
  have pg: "?page ` set ?ks = Pair d ` program_pages buf n" by (auto simp: A(1) [symmetric] image_iff)
  have "map ?page ?ks = map (Pair d) (map page_index (addrs buf n))" by simp
  then have dist: "distinct (map ?page ?ks)" using A(2) by (simp add: distinct_map inj_on_def)
  have idx: "page_index va < 0x300" if "va \<in> set (addrs buf n)" for va using A(1,3) that by blast
  have can: "\<forall>k \<in> set ?ks. user_page s k \<and> mapping s (?page k) = None"
    using d idx by (auto simp: user_page_def mapping_def dest: less_imp_neq)
  obtain s' where s': "pages.alloc_all ?ks s = Some s'" "paging_ok s'" "card (free_frames s') + length ?ks = card (free_frames s)"
    "user_page s' = user_page s" "\<forall>p. p \<notin> ?page ` set ?ks \<longrightarrow> mapping s' p = mapping s p"
    "\<forall>k \<in> set ?ks. \<exists>f. mapping s' (?page k) = Some f \<and> f \<notin> ran (mapping s)"
    "\<forall>k \<in> set ?ks. \<forall>l \<in> set ?ks. mapping s' (?page k) = mapping s' (?page l) \<longrightarrow> ?page k = ?page l"
    using pages.alloc_all_fresh [OF ok _ dist can] n by auto
  have ks: "\<exists>k \<in> set ?ks. ?page k = (d, j)" if "j \<in> program_pages buf n" for j
    using that pg by (metis (no_types, lifting) image_iff)
  have own: "\<exists>f. mapping s' (d, j) = Some f \<and> f \<notin> ran (mapping s)" if "j \<in> program_pages buf n" for j
    using ks [OF that] s'(6) by metis
  have out: "mapping s' (d', j) = mapping s (d', j)" if "d' \<noteq> d \<or> j \<notin> program_pages buf n" for d' j
    by (rule s'(5) [rule_format]) (use that in \<open>auto simp only: pg\<close>)
  have "mapping s' (d, j) = None" if "j \<notin> program_pages buf n" for j
    using out [of d j] that d(3) by (simp add: mapping_def)
  then have dom: "mapping s' (d, j) \<noteq> None \<longleftrightarrow> j \<in> program_pages buf n" for j
    using own [of j] by (cases "j \<in> program_pages buf n") auto
  have inj: "j = j'" if "j \<in> program_pages buf n" "j' \<in> program_pages buf n" "mapping s' (d, j) = mapping s' (d, j')" for j j'
    using ks [OF that(1)] ks [OF that(2)] s'(7) that(3) by (metis Pair_inject)
  show ?thesis using s'(1-4) dom own inj out by (intro exI [of _ s']) fastforce
qed

lemma mapping_None: "mapping s (d, j) = None \<longleftrightarrow> \<not> present s d j"
  by (simp add: mapping_def)

lemma user_page_used: "user_page s' = user_page s \<Longrightarrow> d < 32 \<Longrightarrow> page_directory_used s' ! d = page_directory_used s ! d"
  by (drule fun_cong [where x = "(d, 0)"]) (simp add: user_page_def page_index_def)

text \<open>What a new process changes: its own block \<open>i\<close> and its own directory \<open>d\<close>.\<close>

definition born :: "request \<Rightarrow> kernel \<Rightarrow> kernel \<Rightarrow> nat \<Rightarrow> nat \<Rightarrow> bool" where
  "born r k k' i d =
     (i < 16 \<and> \<not> is_active k i \<and> d < 32 \<and> \<not> page_directory_used (pg k) ! d \<and>
      process_list k' = (process_list k)[i := new_pcb r d (total_pid k + 1) (proc k i)] \<and>
      active_process_count k' = active_process_count k + 1 \<and> cur_idx k' = cur_idx k \<and> cr3 k' = cr3 k \<and>
      total_pid k' = total_pid k + 1 \<and> power_off k' = power_off k \<and> paging_ok (pg k') \<and>
      (\<forall>d' < 32. page_directory_used (pg k') ! d' = (d' = d \<or> page_directory_used (pg k) ! d')) \<and>
      (\<forall>d' j. d' \<noteq> d \<longrightarrow> mapping (pg k') (d', j) = mapping (pg k) (d', j)) \<and>
      (\<forall>j. mapping (pg k') (d, j) \<noteq> None \<longleftrightarrow> j \<in> program_pages (r_buf r) (pages_needed r)) \<and>
      (\<forall>j \<in> program_pages (r_buf r) (pages_needed r). the (mapping (pg k') (d, j)) \<notin> ran (mapping (pg k))))"

lemma create_born:
  assumes ok: "proc_ok k" and can: "can_create r k" and load: "\<forall>m. \<exists>c m' f. read_fat r m (k_fs k) = Some (c, m', f)"
  shows "\<exists>k' i d c m f. process_create_user_process r k = Some (0, k') \<and> born r k k' i d \<and>
    read_fat r (space k (Listed d)) (k_fs k) = Some (c, m, f) \<and> k_fs k' = f \<and> space k' = (space k)(Listed d := m)"
proof -
  note c = can [unfolded can_create_def] and K = proc_okD [OF ok]
  have buf: "unat (r_buf r) + 4194304 * pages_needed r \<le> 0xC0000000" using c by blast
  obtain i where i: "i < 16" "process_list_get_inactive_index k = Some (int i)" "\<not> is_active k i"
    using inactive_index [OF ok] c by blast
  have pg: "pg_ok (pg k)" "hint_ok (pg k)" "dirs_ok (pg k)" using K(5) by (simp_all add: paging_ok_def)
  obtain d p1 where p1: "paging_create_new_page_directory (pg k) = Some (Listed d, p1)" "d < 32"
    "\<not> page_directory_used (pg k) ! d" "page_directory_used p1 = (page_directory_used (pg k))[d := True]"
    "\<forall>j. \<not> present p1 d j" "pg_ok p1" "dirs_ok p1" "free_frames p1 = free_frames (pg k)" "hint_ok p1"
    "present p1 = present (pg k)" "\<forall>d' j. present (pg k) d' j \<longrightarrow> frame p1 d' j = frame (pg k) d' j"
    using create_step [OF pg(1,3)] c pg(2) by blast
  have m1: "mapping p1 = mapping (pg k)" using p1(10,11) by (auto simp: fun_eq_iff mapping_def)
  have used: "page_directory_used p1 ! d" "length (page_directory_used (pg k)) = 32"
    using p1(2,4) pg_coreD(3) [OF pg_okD(1) [OF pg(1)]] by simp_all
  have n: "pages_needed r < card (free_frames p1)" using c p1(8) by simp
  have ok1: "paging_ok p1" using p1(6,7,9) by (simp add: paging_ok_def)
  obtain p2 where p2: "pages.alloc_all (map (Pair d) (addrs (r_buf r) (pages_needed r))) p1 = Some p2" "paging_ok p2"
    "user_page p2 = user_page p1" "\<forall>d' j. d' \<noteq> d \<longrightarrow> mapping p2 (d', j) = mapping p1 (d', j)"
    "\<forall>j. mapping p2 (d, j) \<noteq> None \<longleftrightarrow> j \<in> program_pages (r_buf r) (pages_needed r)"
    "\<forall>j \<in> program_pages (r_buf r) (pages_needed r). the (mapping p2 (d, j)) \<notin> ran (mapping p1)"
    using alloc_pages [OF ok1 n p1(2) used(1) p1(5) buf] by blast
  obtain c m f where m: "read_fat r (space k (Listed d)) (k_fs k) = Some (c, m, f)" using load by blast
  have "page_directory_used p2 ! d' = (d' = d \<or> page_directory_used (pg k) ! d')" if "d' < 32" for d'
    using user_page_used [OF p2(3) that] p1(4) used(2) that by (cases "d' = d") simp_all
  note used2 = this
  define k' where "k' = k\<lparr> pg := p2, k_fs := f, space := (space k)(Listed d := m), total_pid := total_pid k + 1,
      process_list := (process_list k)[i := new_pcb r d (total_pid k + 1) (proc k i)],
      active_process_count := active_process_count k + 1 \<rparr>"
  have "born r k k' i d" using i p1(2,3) p2 m1 used2 by (simp add: born_def k'_def)
  moreover have "process_create_user_process r k = Some (0, k')"
    unfolding k'_def by (rule create_eq [OF ok can i(2,1) p1(1) p2(1) m])
  moreover have "k_fs k' = f" "space k' = (space k)(Listed d := m)" by (simp_all add: k'_def)
  ultimately show ?thesis using m by blast
qed

lemma word_of_pid: "0 \<le> n \<Longrightarrow> n < 2 ^ 32 \<Longrightarrow> int (unat (word_of_int n :: u32)) = n"
  by (simp add: uint_word_of_int_eq take_bit_int_eq_self)

lemma born_ok:
  assumes ok: "proc_ok k" and can: "can_create r k" and b: "born r k k' i d"
  shows "proc_ok k' \<and> is_active k' i \<and> owns k' i d \<and> (\<forall>j. j \<noteq> i \<longrightarrow> proc k' j = proc k j \<and> is_active k' j = is_active k j)"
proof -
  note c = can [unfolded can_create_def] and K = proc_okD [OF ok] and B = b [unfolded born_def]
  let ?n = "pages_needed r" and ?p = "new_pcb r d (total_pid k + 1) (proc k i)"
  have buf: "unat (r_buf r) + 4194304 * ?n \<le> 0xC0000000" using c by blast
  note A = addrs_set [OF buf]
  have len: "length (process_list k') = 16" using B K(1) by simp
  have p: "proc k' j = (if j = i then ?p else proc k j)" for j
    using B K(1) by (simp add: proc_def nth_list_update)
  have act: "is_active k' j \<longleftrightarrow> j = i \<or> is_active k j" for j
    using p [of j] B by (auto simp: is_active_def proc_def new_pcb_def)
  have pid: "int (unat (pid ?p)) = total_pid k + 1" using word_of_pid [of "total_pid k + 1"] K(8,9) by (simp add: new_pcb_def)
  have cnt: "unat (page_frame_used_count ?p) = ?n" using c by (simp add: new_pcb_def unat_of_nat_u32)
  have own_i: "owns k' i d"
  proof -
    have v: "take ?n (virtual_addr_used ?p) = addrs (r_buf r) ?n" "dir_of k' i = Listed d"
      using p [of i] by (simp_all add: new_pcb_def dir_of_def user_context_def)
    then have pages: "pages_of k' i = program_pages (r_buf r) ?n"
      using p [of i] cnt A(1) by (simp add: pages_of_def)
    have "\<forall>j. present (pg k') d j \<longleftrightarrow> j \<in> program_pages (r_buf r) ?n" using B by (metis mapping_None)
    moreover have "0x300 \<notin> program_pages (r_buf r) ?n" using A(3) by blast
    moreover have "page_directory_used (pg k') ! d" "d < 32" using B by simp_all
    moreover have "unat (page_frame_used_count (proc k' i)) \<le> 8" using p [of i] cnt c by simp
    moreover have "distinct (map page_index (take (unat (page_frame_used_count (proc k' i))) (virtual_addr_used (proc k' i))))"
      using p [of i] cnt v(1) A(2) by simp
    ultimately show ?thesis unfolding owns_def pages using v(2) by blast
  qed
  have own: "owns k' j e" if "is_active k j" "owns k j e" for j e
  proof -
    have ne: "j \<noteq> i" "e \<noteq> d" using that B by (auto simp: owns_def)
    then have "present (pg k') e n \<longleftrightarrow> present (pg k) e n" for n using B by (metis mapping_None)
    then show ?thesis using that(2) p [of j] ne B by (simp add: owns_def dir_of_def pages_of_def)
  qed
  have dirs: "dir_of k' j = (if j = i then Listed d else dir_of k j)" for j
    using p [of j] by (simp add: dir_of_def new_pcb_def user_context_def)
  have nd: "dir_of k j \<noteq> Listed d" if "is_active k j" for j
    using K(10) [OF that] B by (auto simp: owns_def)
  have "proc_ok k'"
    unfolding proc_ok_def
  proof (intro conjI allI impI)
    have "{j. is_active k' j} = insert i {j. is_active k j}" using act by auto
    then show "active_process_count k' = int (card {j. is_active k' j})" using K(4) B by simp
  next
    fix j :: nat assume j: "j < 16"
    show "length (p_name (proc k' j)) = 8" using p [of j] K(2) [OF j] c by (simp add: new_pcb_def wf_request_def)
    show "length (virtual_addr_used (proc k' j)) = 8" using p [of j] K(3) [OF j] K(3) [of i] B c by (simp add: new_pcb_def)
    show "int (unat (pid (proc k' j))) \<le> total_pid k'" using p [of j] K(13) [OF j] pid B by simp
  next
    fix j assume j: "is_active k' j"
    show "\<exists>d. owns k' j d"
    proof (cases "j = i")
      case True
      then show ?thesis using own_i by blast
    next
      case False
      then have a: "is_active k j" using j act by simp
      then show ?thesis using K(10) [OF a] own by blast
    qed
    show "pid (proc k' j) \<noteq> 0" using j act [of j] p [of j] K(8) K(11) [of j] pid by (cases "j = i") auto
  next
    fix j l assume "is_active k' j" "is_active k' l" "dir_of k' j = dir_of k' l"
    then show "j = l" using act dirs nd K(12) [of j l] by (metis (full_types))
  next
    fix j l :: nat assume j: "j < 16" "l < 16" "pid (proc k' j) = pid (proc k' l)" "pid (proc k' j) \<noteq> 0"
    have big: "pid (proc k n) \<noteq> pid ?p" if "n < 16" for n using K(13) [OF that] pid by auto
    show "j = l" using j p [of j] p [of l] big K(14) [OF j(1,2)] by (metis (full_types))
  qed (use len B K(6-9) c in simp_all)
  then show ?thesis using own_i act p B by auto
qed

section \<open>Destroying a process\<close>

definition released :: "nat \<Rightarrow> pcb \<Rightarrow> pcb" where
  "released n p = p\<lparr> virtual_addr_used := replicate n 0 @ drop n (virtual_addr_used p) \<rparr>"

text \<open>The pages that the block lists are freed one by one.\<close>

lemma release_pages:
  assumes ok: "paging_ok (pg k)" and i: "i < length (process_list k)" and dir: "dir_of k i = Listed d"
    and d: "d < 32" "page_directory_used (pg k) ! d" and n: "n \<le> length (virtual_addr_used (proc k i))"
    and idx: "\<forall>va \<in> set (take n (virtual_addr_used (proc k i))). page_index va \<noteq> 0x300"
  shows "\<exists>q. for_range 0 n (\<lambda>m k'.
      do { addr \<leftarrow> arr_get (virtual_addr_used (process_list k' ! i)) m;
           (_, pg') \<leftarrow> paging_free_user_page_frame (Listed d) addr (pg k');
           Some (update_pcb i (\<lambda>p. p\<lparr> virtual_addr_used := (virtual_addr_used p)[m := 0] \<rparr>) (k'\<lparr> pg := pg' \<rparr>)) }) k
      = Some (update_pcb i (released n) (k\<lparr> pg := q \<rparr>)) \<and> paging_ok q \<and>
    page_directory_used q = page_directory_used (pg k) \<and> page_dir_free q = page_dir_free (pg k) \<and>
    mapping q = mapping (pg k) |` {x. \<not> (fst x = d \<and> snd x \<in> page_index ` set (take n (virtual_addr_used (proc k i))))}"
    (is "\<exists>q. for_range 0 n ?body k = Some (?st n q) \<and> ?P n q")
proof -
  let ?vas = "virtual_addr_used (proc k i)"
  have "\<exists>k'. for_range 0 n ?body k = Some k' \<and> (\<exists>q. k' = ?st n q \<and> ?P n q)"
  proof (rule for_range_inv [where I = "\<lambda>m k'. \<exists>q. k' = ?st m q \<and> ?P m q"])
    have "released 0 = (\<lambda>p. p)" by (simp add: released_def fun_eq_iff)
    then show "\<exists>q. k = ?st 0 q \<and> ?P 0 q" using ok by (intro exI [of _ "pg k"]) (simp add: update_pcb_def)
  next
    fix m k' assume m: "0 \<le> m" "m < n" and "\<exists>q. k' = ?st m q \<and> ?P m q"
    then obtain q where q: "k' = ?st m q" "?P m q" by blast
    let ?va = "?vas ! m"
    have p: "process_list k' ! i = released m (proc k i)" using i by (simp add: q(1) update_pcb_def proc_def)
    have len: "m < length ?vas" using m n by simp
    then have dr: "drop m ?vas = ?va # drop (Suc m) ?vas" by (simp add: Cons_nth_drop_Suc)
    have get: "arr_get (virtual_addr_used (process_list k' ! i)) m = Some ?va"
      using len dr by (simp add: p released_def nth_append)
    have "?va \<in> set (take n ?vas)" using m(2) len by (metis in_set_conv_nth length_take min_less_iff_conj nth_take)
    then have up: "user_page q (d, ?va)" using idx d q(2) by (simp add: user_page_def)
    obtain b q' where q': "paging_free_user_page_frame (Listed d) ?va q = Some (b, q')" "paging_ok q'"
      "mapping q' = (mapping q)((d, page_index ?va) := None)" "page_directory_used q' = page_directory_used q"
      "page_dir_free q' = page_dir_free q"
      using free_page_ok [OF conjunct1 [OF q(2)] up] by blast
    have "update_pcb i (\<lambda>p. p\<lparr> virtual_addr_used := (virtual_addr_used p)[m := 0] \<rparr>) (k'\<lparr> pg := q' \<rparr>) = ?st (Suc m) q'"
      using i len dr by (simp add: q(1) update_pcb_def released_def list_update_append proc_def replicate_append_same [symmetric])
    then have "?body m k' = Some (?st (Suc m) q')" using get q'(1) q(1) by simp
    moreover have "?P (Suc m) q'"
      using q(2) q'(2-5) len by (auto simp: take_Suc_conv_app_nth fun_eq_iff restrict_map_def)
    ultimately show "\<exists>k''. ?body m k' = Some k'' \<and> (\<exists>q. k'' = ?st (Suc m) q \<and> ?P (Suc m) q)" by blast
  qed simp
  then show ?thesis by blast
qed

text \<open>The whole release of an active process.\<close>

lemma release_run:
  assumes ok: "proc_ok k" and act: "is_active k i" and own: "owns k i d"
  shows "\<exists>q. release_memory i k = Some (True, update_pcb i (\<lambda>p. (released (unat (page_frame_used_count p)) p)\<lparr> page_frame_used_count := 0 \<rparr>) (k\<lparr> pg := q \<rparr>)) \<and>
    paging_ok q \<and> page_directory_used q = (page_directory_used (pg k))[d := False] \<and>
    page_dir_free q = page_dir_free (pg k) \<and> mapping q = mapping (pg k) |` {x. fst x \<noteq> d}"
proof -
  note K = proc_okD [OF ok] and O = own [unfolded owns_def]
  let ?n = "unat (page_frame_used_count (proc k i))"
  have i: "i < 16" using act by (simp add: is_active_def)
  have n: "?n \<le> length (virtual_addr_used (proc k i))" using O K(3) [OF i] by simp
  have idx: "\<forall>va \<in> set (take ?n (virtual_addr_used (proc k i))). page_index va \<noteq> 0x300"
    using O by (auto simp: pages_of_def)
  have dir: "page_directory_virtual_addr (p_context (process_list k ! i)) = Listed d"
    using O by (simp add: dir_of_def proc_def)
  have ln: "i < length (process_list k)" using K(1) i by simp
  have d: "d < 32" using O by simp
  obtain q where q: "for_range 0 ?n (\<lambda>m k'.
      do { addr \<leftarrow> arr_get (virtual_addr_used (process_list k' ! i)) m;
           (_, pg') \<leftarrow> paging_free_user_page_frame (Listed d) addr (pg k');
           Some (update_pcb i (\<lambda>p. p\<lparr> virtual_addr_used := (virtual_addr_used p)[m := 0] \<rparr>) (k'\<lparr> pg := pg' \<rparr>)) }) k
      = Some (update_pcb i (released ?n) (k\<lparr> pg := q \<rparr>))" "paging_ok q"
    "page_directory_used q = page_directory_used (pg k)" "page_dir_free q = page_dir_free (pg k)"
    "mapping q = mapping (pg k) |` {x. \<not> (fst x = d \<and> snd x \<in> page_index ` set (take ?n (virtual_addr_used (proc k i))))}"
    using release_pages [OF K(5) ln _ d _ n idx] O by blast
  obtain q' where q': "paging_free_page_directory (Listed d) q = Some (True, q')" "paging_ok q'"
    "page_directory_used q' = (page_directory_used q)[d := False]" "page_dir_free q' = page_dir_free q"
    "mapping q' = mapping q |` {x. fst x \<noteq> d}"
    using free_directory_ok [OF q(2) d] by blast
  have "mapping q' = mapping (pg k) |` {x. fst x \<noteq> d}" unfolding q'(5) q(5) by (auto simp: fun_eq_iff restrict_map_def)
  moreover have "release_memory i k = Some (True, update_pcb i (\<lambda>p. (released (unat (page_frame_used_count p)) p)\<lparr> page_frame_used_count := 0 \<rparr>) (k\<lparr> pg := q' \<rparr>))"
    using q(1) q'(1) ln dir by (simp add: release_memory_def Let_def proc_def) (simp add: update_pcb_def)
  ultimately show ?thesis using q' q(3,4) by auto
qed

definition dead :: "pcb \<Rightarrow> pcb" where
  "dead p = (released (unat (page_frame_used_count p)) p)\<lparr> page_frame_used_count := 0, active := False \<rparr>"

text \<open>What the end of a process changes: its own block \<open>i\<close> and its own directory \<open>d\<close>.\<close>

definition died :: "kernel \<Rightarrow> kernel \<Rightarrow> nat \<Rightarrow> nat \<Rightarrow> bool" where
  "died k k' i d =
     (process_list k' = (process_list k)[i := dead (proc k i)] \<and> paging_ok (pg k') \<and>
      page_directory_used (pg k') = (page_directory_used (pg k))[d := False] \<and>
      mapping (pg k') = mapping (pg k) |` {x. fst x \<noteq> d} \<and>
      active_process_count k' = active_process_count k - 1 \<and> cur_idx k' = cur_idx k \<and> cr3 k' = cr3 k \<and>
      total_pid k' = total_pid k \<and> k_fs k' = k_fs k \<and> space k' = space k \<and>
      power_off k' = (power_off k \<or> active_process_count k = 1))"

lemma destroy_died:
  assumes ok: "proc_ok k" and act: "is_active k i" and own: "owns k i d"
  shows "\<exists>k'. process_destroy (pid (proc k i)) k = Some (True, k') \<and> died k k' i d"
proof -
  note K = proc_okD [OF ok]
  have i: "i < 16" using act by (simp add: is_active_def)
  have ln: "i < length (process_list k)" using K(1) i by simp
  have sc: "scan (\<lambda>j. pid (process_list k ! j) = pid (proc k i)) 0 16 = Some i"
  proof (rule scan_eqI)
    fix j assume "j < i"
    then show "pid (process_list k ! j) \<noteq> pid (proc k i)" using K(14) [of j i] K(11) [OF act] i by (auto simp: proc_def)
  qed (use i in \<open>simp_all add: proc_def\<close>)
  obtain q where q: "release_memory i k = Some (True, update_pcb i (\<lambda>p. (released (unat (page_frame_used_count p)) p)\<lparr> page_frame_used_count := 0 \<rparr>) (k\<lparr> pg := q \<rparr>))"
    "paging_ok q" "page_directory_used q = (page_directory_used (pg k))[d := False]" "mapping q = mapping (pg k) |` {x. fst x \<noteq> d}"
    using release_run [OF ok act own] by blast
  let ?k = "update_pcb i dead (k\<lparr> pg := q, power_off := power_off k \<or> active_process_count k = 1 \<rparr>)"
  let ?k' = "?k\<lparr> active_process_count := active_process_count k - 1 \<rparr>"
  have "process_destroy (pid (proc k i)) k = Some (True, ?k')"
    using ln by (simp add: process_destroy_def sc q(1) Let_def) (simp add: update_pcb_def dead_def)
  moreover have "died k ?k' i d" using q by (simp add: died_def) (simp add: update_pcb_def proc_def)
  ultimately show ?thesis by blast
qed

lemma died_ok:
  assumes ok: "proc_ok k" and act: "is_active k i" and own: "owns k i d" and dd: "died k k' i d"
  shows "proc_ok k' \<and> \<not> is_active k' i \<and> (\<forall>j. j \<noteq> i \<longrightarrow> proc k' j = proc k j \<and> is_active k' j = is_active k j)"
proof -
  note K = proc_okD [OF ok] and D = dd [unfolded died_def]
  have i: "i < 16" using act by (simp add: is_active_def)
  have p: "proc k' j = (if j = i then dead (proc k i) else proc k j)" for j
    using D K(1) i by (simp add: proc_def nth_list_update)
  have fields: "p_name (dead x) = p_name x" "pid (dead x) = pid x" "active (dead x) = False" for x
    by (simp_all add: dead_def released_def)
  have len: "length (virtual_addr_used (dead (proc k i))) = 8"
    using own K(3) [OF i] by (simp add: dead_def released_def owns_def)
  have act': "is_active k' j \<longleftrightarrow> j \<noteq> i \<and> is_active k j" for j
    using p [of j] fields by (auto simp: is_active_def proc_def)
  have own': "owns k' j e" if "j \<noteq> i" "is_active k j" "owns k j e" for j e
  proof -
    have "e \<noteq> d" using K(12) [OF that(2) act] that own by (auto simp: owns_def)
    moreover have "present (pg k') e n \<longleftrightarrow> present (pg k) e n" for n
      using D \<open>e \<noteq> d\<close> mapping_None [of "pg k'" e n] mapping_None [of "pg k" e n] by (simp add: restrict_map_def)
    ultimately show ?thesis using that p [of j] D by (simp add: owns_def dir_of_def pages_of_def)
  qed
  have pidj: "pid (proc k' j) = pid (proc k j)" for j using p [of j] fields by simp
  have "proc_ok k'"
    unfolding proc_ok_def
  proof (intro conjI allI impI)
    have "{j. is_active k' j} = {j. is_active k j} - {i}" using act' by auto
    moreover have "card ({j. is_active k j} - {i}) + 1 = card {j. is_active k j}"
      using card_Suc_Diff1 [of "{j. is_active k j}" i] act by simp
    ultimately show "active_process_count k' = int (card {j. is_active k' j})" using K(4) D by simp
  next
    fix j :: nat assume j: "j < 16"
    show "length (p_name (proc k' j)) = 8" using p [of j] K(2) [OF j] K(2) [OF i] fields by simp
    show "length (virtual_addr_used (proc k' j)) = 8" using p [of j] K(3) [OF j] len by simp
    show "int (unat (pid (proc k' j))) \<le> total_pid k'" using pidj K(13) [OF j] D by simp
  next
    fix j assume j: "is_active k' j"
    then have a: "is_active k j" "j \<noteq> i" using act' by auto
    then show "\<exists>d. owns k' j d" using own' K(10) [OF a(1)] by blast
    show "pid (proc k' j) \<noteq> 0" using pidj K(11) [OF a(1)] by simp
  next
    fix j l assume a: "is_active k' j" "is_active k' l" "dir_of k' j = dir_of k' l"
    then show "j = l" using act' p [of j] p [of l] K(12) [of j l] by (simp add: dir_of_def)
  next
    fix j l :: nat assume "j < 16" "l < 16" "pid (proc k' j) = pid (proc k' l)" "pid (proc k' j) \<noteq> 0"
    then show "j = l" using pidj K(14) [of j l] by simp
  qed (use K D in simp_all)
  then show ?thesis using act' p by auto
qed

text \<open>The frames that come free when a directory is no longer mapped.\<close>

lemma freed_frames:
  assumes "pg_ok s" "pg_ok s'" "mapping s' = mapping s |` {x. fst x \<noteq> d}"
  shows "free_frames s' = free_frames s \<union> {frame s d j | j. present s d j}"
proof -
  have inj: "d' = d'' \<and> j = j'" if "present s d' j" "present s d'' j'" "frame s d' j = frame s d'' j'" for d' d'' j j'
    by (rule pg_coreD(8) [OF pg_okD(1) [OF assms(1)] that])
  have ran: "ran (mapping s') = {frame s d' j | d' j. present s d' j \<and> d' \<noteq> d}"
    unfolding assms(3) by (auto simp: ran_def restrict_map_def mapping_def)
  note a = frames_split [OF assms(1)] and b = frames_split [OF assms(2)]
  have f: "free_frames s = {1..<32} - ran (mapping s)" "free_frames s' = {1..<32} - ran (mapping s')" using a b by blast+
  have "frame s d j \<in> {1..<32}" if "present s d j" for j using a(2) that unfolding ran_mapping by blast
  then show ?thesis unfolding f ran unfolding ran_mapping using inj by blast
qed

end
