(* ===== verification/LifeProps.thy ===== *)
theory LifeProps
  imports Creation SchedProps FatProps
begin

text \<open>
  Properties of the life of a process: what creating and destroying one does, that nothing else
  changes, the codes of a refused creation, the invariant of the whole process table through creations,
  destructions and ticks of the timer, and what destroying a process a second time does.
\<close>

section \<open>Examples\<close>

text \<open>A kernel with a formatted disk and no process, and a program of the file system.\<close>

definition kernel0 :: kernel where
  "kernel0 = initial_kernel fs0"

lemma kernel0_ok: "proc_ok kernel0" "k_fs kernel0 = fs0" "active_process_count kernel0 = 0" "total_pid kernel0 = 0"
  by (simp_all add: kernel0_def initial_proc_ok) (simp_all add: initial_kernel_def)

lemma can_create0: "can_create (file_request 3000) kernel0"
proof -
  have "pages_needed (file_request 3000) = 2"
    by (simp add: pages_needed_def ceil_div_def PAGE_FRAME_SIZE_def file_request_def Let_def)
  then show ?thesis
    using initial_ok(4) by (simp add: can_create_def kernel0_def initial_kernel_def initial_paging_def file_request_def [of 3000] wf_request_def cstr_def)
qed

section \<open>Creation\<close>

lemma read_total:
  assumes "vol_ok s D" "p \<in> D" "parent_cluster_number r = of_nat p" "wf_request r" "request_key r \<noteq> zero_key"
  shows "\<exists>c m'. read_fat r m s = Some (c, m', load_dir s (of_nat p))"
  using read_step [OF assms, of m] by (auto split: option.splits node.splits if_splits)

lemma create_loads:
  assumes "proc_ok k" "can_create r k"
    and "vol_ok (k_fs k) D" "p \<in> D" "parent_cluster_number r = of_nat p" "request_key r \<noteq> zero_key"
  shows "\<exists>k' i d. process_create_user_process r k = Some (0, k') \<and> born r k k' i d \<and> proc_ok k' \<and>
    is_active k' i \<and> owns k' i d \<and> (\<forall>j. j \<noteq> i \<longrightarrow> proc k' j = proc k j \<and> is_active k' j = is_active k j) \<and>
    k_fs k' = load_dir (k_fs k) (of_nat p) \<and> (\<forall>x. x \<noteq> Listed d \<longrightarrow> space k' x = space k x) \<and>
    (\<forall>bs. volume (k_fs k) p (request_key r) = Some (File bs) \<longrightarrow> length bs \<le> unat (buffer_size r) \<longrightarrow>
       mem_load (space k' (Listed d)) (r_buf r) (length bs) = bs)"
proof -
  have wf: "wf_request r" using assms(2) by (simp add: can_create_def)
  note R = read_total [OF assms(3-5) wf assms(6)]
  obtain k' i d c m f where k': "process_create_user_process r k = Some (0, k')" "born r k k' i d"
    "read_fat r (space k (Listed d)) (k_fs k) = Some (c, m, f)" "k_fs k' = f" "space k' = (space k)(Listed d := m)"
    using create_born [OF assms(1,2)] R by blast
  have f: "f = load_dir (k_fs k) (of_nat p)" using R [of "space k (Listed d)"] k'(3) by auto
  have "mem_load (space k' (Listed d)) (r_buf r) (length bs) = bs"
    if "volume (k_fs k) p (request_key r) = Some (File bs)" "length bs \<le> unat (buffer_size r)" for bs
    using read_step [OF assms(3-5) wf assms(6), of "space k (Listed d)"] that k'(3,5) by auto
  then show ?thesis using k' f born_ok [OF assms(1,2) k'(2)] by (intro exI [of _ k'] exI [of _ i] exI [of _ d]) auto
qed

text \<open>C4: Creating a process from a file of the volume, when there is room, returns 0 and adds exactly one
  process: in a block that was not active, with a page directory that was not in use, the next pid,
  the file's name, the entry point and the stack of the request; its pages, and no others, are mapped
  in its directory, all to frames that no page had; the program's bytes are in its memory at the
  entry point; all other blocks, directories and memories are unchanged, the directory that was active
  is active again, and the process table is consistent.\<close>

theorem process_create_correct:
  assumes "proc_ok k" "can_create r k"
    and "vol_ok (k_fs k) D" "p \<in> D" "parent_cluster_number r = of_nat p" "request_key r \<noteq> zero_key"
    and "volume (k_fs k) p (request_key r) = Some (File bs)" "length bs \<le> unat (buffer_size r)"
  shows "\<exists>k' i d. process_create_user_process r k = Some (0, k') \<and> proc_ok k' \<and>
    \<not> is_active k i \<and> is_active k' i \<and> (\<forall>j. j \<noteq> i \<longrightarrow> proc k' j = proc k j \<and> is_active k' j = is_active k j) \<and>
    pid (proc k' i) = word_of_int (total_pid k + 1) \<and> p_name (proc k' i) = r_name r \<and> cur_state (proc k' i) = READY \<and>
    eip (p_context (proc k' i)) = r_buf r \<and> esp (cpu (p_context (proc k' i))) = 0x400000 \<and>
    dir_of k' i = Listed d \<and> \<not> page_directory_used (pg k) ! d \<and>
    (\<forall>j. mapping (pg k') (d, j) \<noteq> None \<longleftrightarrow> j \<in> program_pages (r_buf r) (pages_needed r)) \<and>
    (\<forall>j \<in> program_pages (r_buf r) (pages_needed r). the (mapping (pg k') (d, j)) \<notin> ran (mapping (pg k))) \<and>
    (\<forall>d' j. d' \<noteq> d \<longrightarrow> mapping (pg k') (d', j) = mapping (pg k) (d', j)) \<and>
    mem_load (space k' (Listed d)) (r_buf r) (length bs) = bs \<and> (\<forall>x. x \<noteq> Listed d \<longrightarrow> space k' x = space k x) \<and>
    cr3 k' = cr3 k \<and> active_process_count k' = active_process_count k + 1"
proof -
  obtain k' i d where k': "process_create_user_process r k = Some (0, k')" "born r k k' i d" "proc_ok k'" "is_active k' i"
    "\<forall>j. j \<noteq> i \<longrightarrow> proc k' j = proc k j \<and> is_active k' j = is_active k j" "\<forall>x. x \<noteq> Listed d \<longrightarrow> space k' x = space k x"
    "mem_load (space k' (Listed d)) (r_buf r) (length bs) = bs"
    using create_loads [OF assms(1-6)] assms(7,8) by blast
  have p: "proc k' i = new_pcb r d (total_pid k + 1) (proc k i)"
    using k'(2) proc_okD(1) [OF assms(1)] by (simp add: born_def proc_def)
  then have "dir_of k' i = Listed d" by (simp add: dir_of_def new_pcb_def user_context_def)
  moreover have "eip (p_context (proc k' i)) = r_buf r" "esp (cpu (p_context (proc k' i))) = 0x400000"
    "pid (proc k' i) = word_of_int (total_pid k + 1)" "p_name (proc k' i) = r_name r" "cur_state (proc k' i) = READY"
    unfolding p by (simp_all add: new_pcb_def user_context_def)
  ultimately show ?thesis using k' by (intro exI [of _ k'] exI [of _ i] exI [of _ d]) (simp add: born_def)
qed

text \<open>A kernel whose disk holds the program.\<close>

lemma kernel_with_program:
  obtains k bs where "proc_ok k" "can_create (file_request 3000) k" "vol_ok (k_fs k) {2}" "active_process_count k = 0" "total_pid k = 0"
    "volume (k_fs k) 2 (request_key (file_request 3000)) = Some (File bs)" "length bs = 3000"
proof -
  obtain s where s: "write_fat (file_request 3000) some_memory fs0 = Some (0, s)"
    using file_run_fs0 [of 3000 some_memory] by auto
  have b: "buffer_size (file_request 3000) = 3000" "r_buf (file_request 3000) = 0x1000" by (simp_all add: file_request_def)
  have w: "vol_ok s {2}" "volume s 2 (request_key (file_request 3000)) = Some (File (mem_load some_memory 0x1000 3000))"
    using write_file_step [OF fs0_ok(1) _ _ _ _ _ fs0_clean s] b by simp_all
  show ?thesis
  proof (rule that [of "kernel0\<lparr> k_fs := s \<rparr>" "mem_load some_memory 0x1000 3000"])
    show "proc_ok (kernel0\<lparr> k_fs := s \<rparr>)" using initial_proc_ok [of s] by (simp add: kernel0_def initial_kernel_def)
    show "can_create (file_request 3000) (kernel0\<lparr> k_fs := s \<rparr>)" using can_create0 by (simp add: can_create_def)
  qed (use w kernel0_ok in simp_all)
qed

lemma process_create_correct_witness:
  "\<exists>k k' i. process_create_user_process (file_request 3000) k = Some (0, k') \<and> is_active k' i \<and> eip (p_context (proc k' i)) = 0x1000"
proof -
  obtain k bs where k: "proc_ok k" "can_create (file_request 3000) k" "vol_ok (k_fs k) {2}"
    "volume (k_fs k) 2 (request_key (file_request 3000)) = Some (File bs)" "length bs = 3000"
    by (rule kernel_with_program)
  have b: "buffer_size (file_request 3000) = 3000" "r_buf (file_request 3000) = 0x1000" by (simp_all add: file_request_def)
  show ?thesis
    using process_create_correct [OF k(1-3) _ _ _ k(4)] k(5) b by fastforce
qed

section \<open>Destruction\<close>

lemma active_pid_of:
  assumes "proc_ok k" "is_active k i" "dir_of k i = Listed d"
  shows "owns k i d"
  using proc_okD(10) [OF assms(1,2)] assms(3) by (auto simp: owns_def)

text \<open>C12: Destroying an active process by its pid succeeds: its block is free, its directory is not in use
  and maps nothing, exactly the frames of its pages are free again, the others keep their blocks, pages
  and the loaded directory, the table is consistent, and the machine is switched off if and only if it
  was the last process.\<close>

theorem process_destroy_correct:
  assumes "proc_ok k" "is_active k i" "dir_of k i = Listed d"
  shows "\<exists>k'. process_destroy (pid (proc k i)) k = Some (True, k') \<and> proc_ok k' \<and> \<not> is_active k' i \<and>
    (\<forall>j. j \<noteq> i \<longrightarrow> proc k' j = proc k j \<and> is_active k' j = is_active k j) \<and>
    \<not> page_directory_used (pg k') ! d \<and> mapping (pg k') = mapping (pg k) |` {x. fst x \<noteq> d} \<and>
    free_frames (pg k') = free_frames (pg k) \<union> {frame (pg k) d j | j. present (pg k) d j} \<and>
    cr3 k' = cr3 k \<and> active_process_count k' = active_process_count k - 1 \<and>
    power_off k' = (power_off k \<or> active_process_count k = 1)"
proof -
  note own = active_pid_of [OF assms]
  obtain k' where k': "process_destroy (pid (proc k i)) k = Some (True, k')" "died k k' i d"
    using destroy_died [OF assms(1,2) own] by blast
  have ok: "pg_ok (pg k)" "pg_ok (pg k')"
    using proc_okD(5) [OF assms(1)] k'(2) by (simp_all add: died_def paging_ok_def)
  have "\<not> page_directory_used (pg k') ! d"
    using k'(2) own pg_coreD(3) [OF pg_okD(1) [OF ok(1)]] by (simp add: died_def owns_def)
  moreover have "free_frames (pg k') = free_frames (pg k) \<union> {frame (pg k) d j | j. present (pg k) d j}"
    by (rule freed_frames [OF ok]) (use k'(2) in \<open>simp add: died_def\<close>)
  ultimately show ?thesis
    using k' died_ok [OF assms(1,2) own k'(2)] by (intro exI [of _ k']) (simp add: died_def)
qed

lemma process_destroy_correct_witness:
  "\<exists>k k'. process_destroy 1 k = Some (True, k') \<and> active_process_count k = 1 \<and> active_process_count k' = 0 \<and> power_off k'"
proof -
  obtain k bs where k: "proc_ok k" "can_create (file_request 3000) k" "vol_ok (k_fs k) {2}" "active_process_count k = 0" "total_pid k = 0"
    by (rule kernel_with_program)
  obtain k' i d where k': "process_create_user_process (file_request 3000) k = Some (0, k')" "born (file_request 3000) k k' i d"
    "proc_ok k'" "is_active k' i" "owns k' i d"
    using create_loads [OF k(1-3), of 2] by auto
  have p: "proc k' i = new_pcb (file_request 3000) d (total_pid k + 1) (proc k i)"
    using k'(2) proc_okD(1) [OF k(1)] by (simp add: born_def proc_def)
  then have "pid (proc k' i) = 1" "active_process_count k' = 1" using k(4,5) k'(2) by (simp_all add: new_pcb_def born_def)
  then show ?thesis
    using process_destroy_correct [OF k'(3,4), of d] k'(5) by (fastforce simp: owns_def)
qed

section \<open>Refusals\<close>

lemma check_enough: "n \<le> 8 \<Longrightarrow> paging_allocate_check (of_nat n) s \<longleftrightarrow> n = 0 \<or> free_page_frame_count s \<noteq> 0"
proof -
  assume n: "n \<le> 8"
  then have "(of_nat n :: u32) div PAGE_FRAME_SIZE = 0" "(of_nat n :: u32) mod PAGE_FRAME_SIZE = of_nat n"
    by (simp_all add: word_unat_eq_iff unat_div unat_mod unat_of_nat_u32 PAGE_FRAME_SIZE_def)
  moreover have "(of_nat n :: u32) = 0 \<longleftrightarrow> n = 0" using n by (simp add: word_unat_eq_iff unat_of_nat_u32)
  ultimately show ?thesis by (simp add: paging_allocate_check_def word_le_nat_alt Suc_le_eq unat_gt_0)
qed

lemma null_directory: "unat (free_page_frame_count s) \<noteq> 0 \<Longrightarrow> paging_allocate_user_page_frame PdNull va s = None"
  by (auto simp: paging_allocate_user_page_frame_def Let_def update_page_directory_entry_def get_dir_def
      split: Option.bind_splits option.split)

text \<open>A process is refused with code 1 when the table is full, with 2 when its address is in the
  kernel's half, and with 3 when it needs more than 8 pages or no frame at all is free; then nothing
  changes.  The check does not compare with the number of pages needed: with a single free frame every
  program of up to 8 pages is accepted.  That no page directory is left is not checked at all: the
  creation then maps pages through a null pointer and has no result.\<close>

theorem process_create_codes:
  assumes "proc_ok k" "active_process_count k = 0 \<or> 0 \<le> cur_idx k" "wf_request r"
  shows "(16 \<le> active_process_count k \<longrightarrow> process_create_user_process r k = Some (1, k)) \<and>
    (active_process_count k < 16 \<and> KERNEL_VIRTUAL_ADDRESS_BASE \<le> r_buf r \<longrightarrow> process_create_user_process r k = Some (2, k)) \<and>
    (active_process_count k < 16 \<and> r_buf r < KERNEL_VIRTUAL_ADDRESS_BASE \<longrightarrow>
      (if 8 < pages_needed r \<or> pages_needed r \<noteq> 0 \<and> free_frames (pg k) = {}
       then process_create_user_process r k = Some (3, k)
       else page_dir_free (pg k) = 0 \<and> pages_needed r \<noteq> 0 \<longrightarrow> process_create_user_process r k = None))"
proof (intro conjI impI)
  assume "16 \<le> active_process_count k"
  then show "process_create_user_process r k = Some (1, k)"
    by (simp add: process_create_user_process_def PROCESS_COUNT_MAX_def)
next
  assume "active_process_count k < 16 \<and> KERNEL_VIRTUAL_ADDRESS_BASE \<le> r_buf r"
  then show "process_create_user_process r k = Some (2, k)"
    by (simp add: process_create_user_process_def PROCESS_COUNT_MAX_def)
next
  assume a: "active_process_count k < 16 \<and> r_buf r < KERNEL_VIRTUAL_ADDRESS_BASE"
  note K = proc_okD [OF assms(1)]
  let ?n = "pages_needed r" and ?w = "ceil_div (buffer_size r + PAGE_FRAME_SIZE) PAGE_FRAME_SIZE"
  have n: "unat ?w = ?n" by (simp add: pages_needed_def)
  have core: "pg_core (pg k)" using K(5) by (simp add: paging_ok_def pg_ok_def)
  have empty: "free_frames (pg k) = {} \<longleftrightarrow> free_page_frame_count (pg k) = 0"
    using pg_coreD(5) [OF core] card_gt_0_iff [of "free_frames (pg k)"] by (auto simp: word_unat_eq_iff)
  have below: "\<not> KERNEL_VIRTUAL_ADDRESS_BASE \<le> r_buf r" using a by (simp add: not_le)
  have g: "process_create_user_process r k = Some (3, k)" if "\<not> paging_allocate_check ?w (pg k) \<or> ?w > 8"
    using a below that by (simp add: process_create_user_process_def PROCESS_COUNT_MAX_def Let_def)
  show "if 8 < ?n \<or> ?n \<noteq> 0 \<and> free_frames (pg k) = {}
    then process_create_user_process r k = Some (3, k)
    else page_dir_free (pg k) = 0 \<and> ?n \<noteq> 0 \<longrightarrow> process_create_user_process r k = None"
  proof (cases "8 < ?n \<or> ?n \<noteq> 0 \<and> free_frames (pg k) = {}")
    case True
    have "\<not> paging_allocate_check ?w (pg k) \<or> ?w > 8"
    proof (cases "8 < ?n")
      case False
      then have "\<not> paging_allocate_check ?w (pg k)"
        using True check_enough [of ?n "pg k"] empty needed_small [of r] by simp
      then show ?thesis ..
    qed (simp add: word_less_nat_alt n)
    then show ?thesis using g True by simp
  next
    case False
    then have pass: "paging_allocate_check ?w (pg k)" "\<not> ?w > 8"
      using check_enough [of ?n "pg k"] empty needed_small [of r] by (auto simp: word_less_nat_alt n)
    have "process_create_user_process r k = None" if z: "page_dir_free (pg k) = 0" "?n \<noteq> 0"
    proof -
      obtain i where i: "i < 16" "process_list_get_inactive_index k = Some (int i)"
        using inactive_index [OF assms(1) _ assms(2)] a by blast
      have dir: "paging_create_new_page_directory (pg k) = Some (PdNull, pg k)"
        using z by (simp add: paging_create_new_page_directory_def)
      have nn: "paging_allocate_user_page_frame PdNull va (pg k) = None" for va
        by (rule null_directory) (use False z empty in \<open>simp add: word_unat_eq_iff\<close>)
      have none: "allocate_frames i (r_buf r) ?w k' = None"
        if "pg k' = pg k" "page_directory_virtual_addr (p_context (process_list k' ! i)) = PdNull" "i < length (process_list k')" for k'
        using that z n nn by (simp add: allocate_frames_def for_range_step Let_def update_pcb_nth split: Option.bind_split)
      have "memcpy (p_name (process_list k ! i)) (r_name r) 8 = Some (r_name r)"
        using K(2) [OF i(1)] assms(3) by (simp add: wf_request_def proc_def)
      then show ?thesis
        using a below pass i K(1) dir
        by (simp add: process_create_user_process_def PROCESS_COUNT_MAX_def Let_def none update_pcb_nth)
    qed
    with False show ?thesis by auto
  qed
qed

lemma process_create_codes_witness:
  "process_create_user_process ((file_request 3000)\<lparr> r_buf := 0xC0000000 \<rparr>) kernel0 = Some (2, kernel0)"
  using process_create_codes [OF kernel0_ok(1), of "(file_request 3000)\<lparr> r_buf := 0xC0000000 \<rparr>"] kernel0_ok(3)
  by (simp add: KERNEL_VIRTUAL_ADDRESS_BASE_def wf_request_def file_request_def cstr_def)

section \<open>The life of the kernel\<close>

definition kernel_ok :: "kernel \<Rightarrow> bool" where
  "kernel_ok k = (proc_ok k \<and> 0 \<le> cur_idx k \<and> (\<exists>D. vol_ok (k_fs k) D))"

text \<open>What happens to the kernel's state while it runs: the timer ticks; a process is created, which is
  refused or finds a block, a directory and its frames with one to spare; a pid is destroyed, which is
  unknown or that of an active process; files are read, written and deleted (\<open>fs_call\<close>).\<close>

inductive kernel_step :: "kernel \<Rightarrow> kernel \<Rightarrow> bool" where
  step_tick: "timer_tick ctx k = Some k' \<Longrightarrow> kernel_step k k'"
| step_create: "c \<noteq> 0 \<or> can_create r k \<and> request_for (k_fs k) r p \<Longrightarrow> process_create_user_process r k = Some (c, k') \<Longrightarrow>
    kernel_step k k'"
| step_destroy: "\<not> b \<or> is_active k i \<and> n = pid (proc k i) \<Longrightarrow> process_destroy n k = Some (b, k') \<Longrightarrow> kernel_step k k'"
| step_files: "fs_call (k_fs k) f \<Longrightarrow> kernel_step k (k\<lparr> k_fs := f \<rparr>)"

lemma create_refused: "process_create_user_process r k = Some (c, k') \<Longrightarrow> c \<noteq> 0 \<Longrightarrow> k' = k"
  by (auto simp: process_create_user_process_def Let_def bind_eq_Some_conv split: if_splits prod.splits)

lemma destroy_unknown: "process_destroy n k = Some (b, k') \<Longrightarrow> \<not> b \<Longrightarrow> k' = k"
  by (auto simp: process_destroy_def release_memory_def Let_def bind_eq_Some_conv split: if_splits option.splits prod.splits)

text \<open>A tick changes registers and states in the table and what is loaded, nothing else.\<close>

lemma tick_frame:
  assumes "timer_tick ctx k = Some k'" "sched_ok k"
  shows "pg k' = pg k \<and> total_pid k' = total_pid k \<and> k_fs k' = k_fs k \<and> active_process_count k' = active_process_count k \<and>
    length (process_list k') = 16 \<and> (\<forall>n. \<exists>c st. proc k' n = (proc k n)\<lparr> cur_state := st, p_context := c \<rparr> \<and>
      page_directory_virtual_addr c = dir_of k n)"
proof (cases "active_process_count k > 1")
  case False
  then have "k' = k" using assms(1) by (simp add: timer_tick_def)
  moreover have "proc k n = (proc k n)\<lparr> cur_state := cur_state (proc k n), p_context := p_context (proc k n) \<rparr>" for n by simp
  ultimately show ?thesis using assms(2) unfolding sched_ok_def dir_of_def by metis
next
  case True
  define ch where "ch q q' = (\<exists>c st. q' = q\<lparr> cur_state := st, p_context := c \<rparr> \<and>
    page_directory_virtual_addr c = page_directory_virtual_addr (p_context q))" for q q' :: pcb
  have ch_refl: "ch q q" for q unfolding ch_def by (intro exI [of _ "p_context q"] exI [of _ "cur_state q"]) simp
  have ch_trans: "ch q q2" if one: "ch q q1" and two: "ch q1 q2" for q q1 q2
  proof -
    obtain c st where 1: "q1 = q\<lparr> cur_state := st, p_context := c \<rparr>"
      "page_directory_virtual_addr c = page_directory_virtual_addr (p_context q)" using one unfolding ch_def by blast
    obtain c' st' where 2: "q2 = q1\<lparr> cur_state := st', p_context := c' \<rparr>"
      "page_directory_virtual_addr c' = page_directory_virtual_addr (p_context q1)" using two unfolding ch_def by blast
    have "q2 = q\<lparr> cur_state := st', p_context := c' \<rparr>" "page_directory_virtual_addr c' = page_directory_virtual_addr (p_context q)"
      using 1 2 by simp_all
    then show ?thesis unfolding ch_def by blast
  qed
  have upd: "ch (process_list k ! n) (process_list (update_pcb i f k1) ! n)"
    if "\<forall>q. ch q (f q)" "ch (process_list k ! n) (process_list k1 ! n)" for i f k1 n
  proof (cases "n = i \<and> i < length (process_list k1)")
    case True
    then show ?thesis using that ch_trans by (simp add: update_pcb_def)
  next
    case False
    then have "process_list (update_pcb i f k1) ! n = process_list k1 ! n"
      by (cases "i < length (process_list k1)") (simp_all add: update_pcb_def list_update_beyond)
    then show ?thesis using that(2) by simp
  qed
  have chs: "ch q (q\<lparr> cur_state := st \<rparr>)" for q st
    unfolding ch_def by (intro exI [of _ "p_context q"] exI [of _ st]) simp
  have chc: "ch q (q\<lparr> p_context := (p_context q)\<lparr> cpu := a, eflags := b, eip := e \<rparr> \<rparr>)" for q a b e
    unfolding ch_def by (intro exI [of _ "(p_context q)\<lparr> cpu := a, eflags := b, eip := e \<rparr>"] exI [of _ "cur_state q"]) simp
  obtain idx k1 k2 k3 where k1: "k1 = update_pcb (nat (cur_idx k)) (\<lambda>p. p\<lparr> p_context := (p_context p)\<lparr>
        cpu := cpu ctx, eflags := eflags ctx, eip := eip ctx \<rparr> \<rparr>) k"
    and k2: "k2 = update_pcb (nat (cur_idx k)) (\<lambda>p. p\<lparr> cur_state := READY \<rparr>) k1"
    and k3: "k3 = k2\<lparr> cr3 := page_directory_virtual_addr (p_context (process_list k2 ! nat idx)), cur_idx := idx \<rparr>"
    and k': "k' = update_pcb (nat idx) (\<lambda>p. p\<lparr> cur_state := RUNNING \<rparr>) k3"
    using assms(1) True
    by (auto simp: timer_tick_def scheduler_save_context_to_current_running_pcb_def scheduler_switch_to_next_process_def Let_def
        split: Option.bind_splits)
  have "ch (process_list k ! n) (process_list k' ! n)" for n
    unfolding k'
  proof (rule upd)
    show "ch (process_list k ! n) (process_list k3 ! n)" unfolding k3 using upd [OF _ upd [OF _ ch_refl]] chs chc by (simp add: k2 k1)
  qed (simp add: chs)
  then have "\<forall>n. \<exists>c st. proc k' n = (proc k n)\<lparr> cur_state := st, p_context := c \<rparr> \<and> page_directory_virtual_addr c = dir_of k n"
    unfolding ch_def proc_def dir_of_def by blast
  moreover have "length (process_list k') = 16" using assms(2) by (simp add: k' k3 k2 k1 sched_ok_def)
  ultimately show ?thesis by (simp add: k' k3 k2 k1)
qed

lemma tick_proc_ok:
  assumes "timer_tick ctx k = Some k'" "proc_ok k" "0 \<le> cur_idx k"
  shows "proc_ok k' \<and> 0 \<le> cur_idx k' \<and> k_fs k' = k_fs k"
proof -
  note K = proc_okD [OF assms(2)]
  have sched: "sched_ok k" using K(1,7) assms(3) by (simp add: sched_ok_def)
  note F = tick_frame [OF assms(1) sched]
  have same: "p_name (proc k' n) = p_name (proc k n)" "virtual_addr_used (proc k' n) = virtual_addr_used (proc k n)"
    "pid (proc k' n) = pid (proc k n)" "active (proc k' n) = active (proc k n)"
    "page_frame_used_count (proc k' n) = page_frame_used_count (proc k n)" "dir_of k' n = dir_of k n" for n
  proof -
    obtain c st where "proc k' n = (proc k n)\<lparr> cur_state := st, p_context := c \<rparr>" "page_directory_virtual_addr c = dir_of k n"
      using F by blast
    then show "p_name (proc k' n) = p_name (proc k n)" "virtual_addr_used (proc k' n) = virtual_addr_used (proc k n)"
      "pid (proc k' n) = pid (proc k n)" "active (proc k' n) = active (proc k n)"
      "page_frame_used_count (proc k' n) = page_frame_used_count (proc k n)" "dir_of k' n = dir_of k n"
      by (simp_all add: dir_of_def)
  qed
  have act: "is_active k' = is_active k" using same(4) by (simp add: fun_eq_iff is_active_def proc_def)
  have own: "owns k' = owns k" using same F by (simp add: fun_eq_iff owns_def pages_of_def)
  have "sched_ok k'"
  proof (cases "active_process_count k > 1")
    case True
    then have "card {i. is_active k i} \<noteq> 0" using K(4) by linarith
    then have "{i. is_active k i} \<noteq> {}" by (metis card.empty)
    then obtain j where j: "is_active k j" by blast
    show ?thesis using tick_step [OF sched j True, of ctx] assms(1) by auto
  qed (use assms sched in \<open>simp add: timer_tick_def\<close>)
  then show ?thesis using assms(2) F same own unfolding proc_ok_def act by (simp add: sched_ok_def)
qed

lemma kernel_step_ok:
  assumes "kernel_step k k'" "kernel_ok k"
  shows "kernel_ok k'"
  using assms
proof (induction rule: kernel_step.induct)
  case (step_tick ctx k k')
  then show ?case using tick_proc_ok [of ctx k k'] by (simp add: kernel_ok_def)
next
  case (step_create c r k p k')
  show ?case
  proof (cases "c = 0")
    case False
    then show ?thesis using step_create create_refused by blast
  next
    case True
    then have can: "can_create r k" "request_for (k_fs k) r p" using step_create(1) by blast+
    obtain D where D: "proc_ok k" "0 \<le> cur_idx k" "vol_ok (k_fs k) D" using step_create(3) by (auto simp: kernel_ok_def)
    note q = request_forD [OF D(3) can(2)]
    show ?thesis using create_loads [OF D(1) can(1) D(3) q(1,2,4)] step_create(2) D
      by (auto simp: kernel_ok_def born_def)
  qed
next
  case (step_destroy b k i n k')
  show ?case
  proof (cases b)
    case False
    then show ?thesis using step_destroy destroy_unknown by blast
  next
    case True
    then have a: "is_active k i" "n = pid (proc k i)" using step_destroy(1) by blast+
    have ok: "proc_ok k" "0 \<le> cur_idx k" "\<exists>D. vol_ok (k_fs k) D" using step_destroy(3) by (auto simp: kernel_ok_def)
    obtain d where d: "owns k i d" using proc_okD(10) [OF ok(1) a(1)] by blast
    obtain k'' where k'': "process_destroy (pid (proc k i)) k = Some (True, k'')" "died k k'' i d"
      using destroy_died [OF ok(1) a(1) d] by blast
    then have "k' = k''" using step_destroy(2) a(2) by simp
    then show ?thesis using died_ok [OF ok(1) a(1) d k''(2)] k''(2) ok by (simp add: kernel_ok_def died_def)
  qed
next
  case (step_files k f)
  then have "\<exists>D. vol_ok f D" using fs_call_ok by (auto simp: kernel_ok_def)
  then show ?case using step_files(2) by (simp add: kernel_ok_def proc_ok_def is_active_def owns_def pages_of_def dir_of_def proc_def)
qed

text \<open>C5: While the kernel runs, from a consistent state after the first switch, the process table, the paging
  and the volume stay consistent: through every sequence of ticks, creations, destructions and file
  operations (\<open>kernel_step\<close>) in which requests are for folders of the disk and names that are not zero,
  each creation is refused or finds a block and a directory and leaves a frame free, each destruction is
  of an active process or finds no block, and no file is written that fills the disk before its end or
  goes to a slot still marked as a folder, the count of processes is that of the active blocks, their directories and
  frames are their own, and the disk's volume is valid.\<close>

theorem kernel_invariant:
  assumes "kernel_ok k" "kernel_step\<^sup>*\<^sup>* k k'"
  shows "kernel_ok k' \<and> active_process_count k' = int (card {i. is_active k' i}) \<and>
    (\<forall>i j n m. is_active k' i \<longrightarrow> is_active k' j \<longrightarrow> (\<exists>d e. dir_of k' i = Listed d \<and> dir_of k' j = Listed e \<and>
       (present (pg k') d n \<longrightarrow> present (pg k') e m \<longrightarrow> frame (pg k') d n = frame (pg k') e m \<longrightarrow> i = j \<and> n = m)))"
proof -
  have ok: "kernel_ok k'" using assms(2,1) by (induction rule: rtranclp_induct) (auto intro: kernel_step_ok)
  then have P: "proc_ok k'" by (simp add: kernel_ok_def)
  have core: "pg_core (pg k')" using proc_okD(5) [OF P] by (simp add: paging_ok_def pg_ok_def)
  have "\<exists>d e. dir_of k' i = Listed d \<and> dir_of k' j = Listed e \<and>
       (present (pg k') d n \<longrightarrow> present (pg k') e m \<longrightarrow> frame (pg k') d n = frame (pg k') e m \<longrightarrow> i = j \<and> n = m)"
    if a: "is_active k' i" "is_active k' j" for i j n m
  proof -
    obtain d e where "dir_of k' i = Listed d" "dir_of k' j = Listed e"
      using proc_okD(10) [OF P a(1)] proc_okD(10) [OF P a(2)] by (auto simp: owns_def)
    then show ?thesis using proc_okD(12) [OF P a] pg_coreD(8) [OF core, of d n e m] by auto
  qed
  then show ?thesis using ok proc_okD(4) [OF P] by blast
qed

lemma kernel_invariant_witness:
  "\<exists>k'. process_create_user_process (file_request 3000) (kernel0\<lparr> cur_idx := 0 \<rparr>) = Some (0, k') \<and> kernel_ok k'"
proof -
  let ?k = "kernel0\<lparr> cur_idx := 0 \<rparr>"
  have ok: "proc_ok ?k"
    using kernel0_ok(1) by (simp add: proc_ok_def is_active_def owns_def pages_of_def dir_of_def proc_def)
  have can: "can_create (file_request 3000) ?k" using can_create0 by (simp add: can_create_def)
  have "k_fs ?k = fs0" using kernel0_ok by simp
  moreover have rf: "request_for fs0 (file_request 3000) 2" by (simp add: request_for_def folder_root)
  ultimately obtain k' where k': "process_create_user_process (file_request 3000) ?k = Some (0, k')"
    using create_loads [OF ok can, of "{2}" 2] fs0_ok(1) by auto
  have "kernel_ok ?k" using ok fs0_ok(1) kernel0_ok(2) by (auto simp: kernel_ok_def)
  moreover have "kernel_step ?k k'" using can rf k' kernel0_ok(2) by (intro step_create [of 0 _ _ 2]) simp_all
  ultimately show ?thesis using kernel_invariant [of ?k k'] k' by blast
qed

section \<open>Destroying a process twice\<close>

text \<open>C39: \<open>process_destroy\<close> takes the first block with the pid, whether it is active or not.  A pid of a
  process that has ended is found in its free block: the call reports success, one process less is
  counted although none has ended, the machine is switched off if only one was left, and the pages of
  the process that got the old page directory in the meantime are all unmapped while it is active.\<close>

theorem destroy_twice:
  assumes "proc_ok k" "i < 16" "\<not> is_active k i" "pid (proc k i) \<noteq> 0" "dir_of k i = Listed d" "page_frame_used_count (proc k i) = 0"
    and "is_active k j" "owns k j d"
  shows "\<exists>k'. process_destroy (pid (proc k i)) k = Some (True, k') \<and> is_active k' = is_active k \<and> proc k' j = proc k j \<and>
    active_process_count k' = int (card {i. is_active k' i}) - 1 \<and> (\<forall>n. \<not> present (pg k') d n) \<and>
    (active_process_count k = 1 \<longrightarrow> power_off k')"
proof -
  note K = proc_okD [OF assms(1)]
  have ln: "i < length (process_list k)" using K(1) assms(2) by simp
  have d: "d < 32" using assms(8) by (simp add: owns_def)
  have sc: "scan (\<lambda>n. pid (process_list k ! n) = pid (proc k i)) 0 16 = Some i"
  proof (rule scan_eqI)
    fix n assume "n < i"
    then show "pid (process_list k ! n) \<noteq> pid (proc k i)" using K(14) [of n i] assms(2,4) by (auto simp: proc_def)
  qed (use assms(2) in \<open>simp_all add: proc_def\<close>)
  obtain q where q: "paging_free_page_directory (Listed d) (pg k) = Some (True, q)" "mapping q = mapping (pg k) |` {x. fst x \<noteq> d}"
    using free_directory_ok [OF K(5) d] by blast
  have dir: "page_directory_virtual_addr (p_context (process_list k ! i)) = Listed d" "page_frame_used_count (process_list k ! i) = 0"
    using assms(5,6) by (simp_all add: dir_of_def proc_def)
  define k1 where "k1 = update_pcb i (\<lambda>p. p\<lparr> page_frame_used_count := 0 \<rparr>) (k\<lparr> pg := q \<rparr>)"
  have rel: "release_memory i k = Some (True, k1)"
    using ln dir q(1) by (simp add: release_memory_def Let_def k1_def) (simp add: update_pcb_def)
  let ?k = "(update_pcb i (\<lambda>p. p\<lparr> active := False \<rparr>) (if active_process_count k = 1 then k1\<lparr> power_off := True \<rparr> else k1))
    \<lparr> active_process_count := active_process_count k - 1 \<rparr>"
  have run: "process_destroy (pid (proc k i)) k = Some (True, ?k)"
    using sc rel by (simp add: process_destroy_def Let_def k1_def)
  have p: "process_list ?k ! n = (if n = i then (proc k i)\<lparr> page_frame_used_count := 0, active := False \<rparr> else proc k n)" for n
    using ln by (simp add: k1_def update_pcb_def proc_def nth_list_update)
  have act: "is_active ?k = is_active k"
    using assms(3) p by (simp add: fun_eq_iff is_active_def) (auto simp: proc_def)
  have "j \<noteq> i" using assms(3,7) by auto
  then have "proc ?k j = proc k j" using p by (simp add: proc_def)
  moreover have "pg ?k = q" by (simp add: k1_def)
  then have "\<not> present (pg ?k) d n" for n using fun_cong [OF q(2), of "(d, n)"] mapping_None [of q d n] by simp
  moreover have "active_process_count ?k = int (card {i. is_active ?k i}) - 1" using K(4) act by simp
  moreover have "active_process_count k = 1 \<longrightarrow> power_off ?k" by simp
  ultimately show ?thesis using run act by blast
qed

text \<open>Block 3 has the directory 0 that the process of block 5, which has ended, had before.\<close>

lemma reused_directory:
  obtains k where "proc_ok k" "\<not> is_active k 5" "pid (proc k 5) = 1" "dir_of k 5 = Listed 0"
    "page_frame_used_count (proc k 5) = 0" "is_active k 3" "owns k 3 0"
proof -
  obtain s where s: "paging_create_new_page_directory initial_paging = Some (Listed 0, s)" "paging_ok s"
    "page_directory_used s ! 0" "\<forall>j. \<not> present s 0 j" "free_frames s = {1..<32}" by (rule first_directory)
  obtain s' where s': "paging_allocate_user_page_frame (Listed 0) 0x400000 s = Some (True, s')" "paging_ok s'"
    "mapping s' (0, 1) \<noteq> None" "\<forall>j. j \<noteq> 1 \<longrightarrow> \<not> present s' 0 j" "page_directory_used s' ! 0"
  proof -
    obtain t f where t: "paging_allocate_user_page_frame (Listed 0) 0x400000 s = Some (True, t)" "paging_ok t"
      "mapping t = (mapping s)((0, 1) \<mapsto> f)"
      using fresh_step [of s 0 "0x400000"] s by (auto simp: user_page_def last_page)
    have "\<forall>j. j \<noteq> 1 \<longrightarrow> \<not> present t 0 j" if "\<forall>j. present t 0 j \<longrightarrow> j = 1" using that by blast
    moreover have "present t 0 j \<longrightarrow> j = 1" for j
      using fun_cong [OF t(3), of "(0, j)"] s(4) by (auto simp: mapping_def split: if_splits)
    ultimately have only: "\<forall>j. j \<noteq> 1 \<longrightarrow> \<not> present t 0 j" by blast
    have one: "mapping t (0, 1) \<noteq> None" using t(3) by simp
    then have "present t 0 1" using mapping_None by simp
    then have "page_directory_used t ! 0" using pg_okD(2) [of t 0 1] t(2) by (auto simp: paging_ok_def)
    then show ?thesis by (rule that [OF t(1,2) one only])
  qed
  define ctx where "ctx = (p_context zero_pcb)\<lparr> page_directory_virtual_addr := Listed 0 \<rparr>"
  define p3 where "p3 = zero_pcb\<lparr> pid := 2, active := True, p_context := ctx, virtual_addr_used := 0x400000 # replicate 7 0,
    page_frame_used_count := 1 \<rparr>"
  define p5 where "p5 = zero_pcb\<lparr> pid := 1, p_context := ctx \<rparr>"
  define k where "k = kernel0\<lparr> process_list := (replicate 16 zero_pcb)[5 := p5, 3 := p3],
    active_process_count := 1, cur_idx := 3, total_pid := 2, pg := s' \<rparr>"
  have p: "proc k n = (if n = 3 then p3 else if n = 5 then p5 else zero_pcb)" if "n < 16" for n
    using that by (simp add: proc_def k_def nth_list_update)
  have c: "page_directory_virtual_addr ctx = Listed 0" by (simp add: ctx_def)
  have f3: "pid p3 = 2" "active p3" "p_context p3 = ctx" "virtual_addr_used p3 = 0x400000 # replicate 7 0"
    "page_frame_used_count p3 = 1" "length (p_name p3) = 8" by (simp_all add: p3_def zero_pcb_def)
  have f5: "pid p5 = 1" "\<not> active p5" "p_context p5 = ctx" "length (virtual_addr_used p5) = 8" "page_frame_used_count p5 = 0"
    "length (p_name p5) = 8" by (simp_all add: p5_def zero_pcb_def)
  have z: "pid zero_pcb = 0" "\<not> active zero_pcb" "length (p_name zero_pcb) = 8" "length (virtual_addr_used zero_pcb) = 8"
    by (simp_all add: zero_pcb_def)
  have act: "is_active k n \<longleftrightarrow> n = 3" for n
    using p [of n] f3(2) f5(2) z(2) by (cases "n < 16") (auto simp: is_active_def proc_def)
  have dir: "dir_of k 3 = Listed 0" "dir_of k 5 = Listed 0" using p [of 3] p [of 5] f3 f5 c by (simp_all add: dir_of_def)
  have pg: "pg k = s'" by (simp add: k_def)
  have pages: "pages_of k 3 = {1}" using p [of 3] f3 last_page by (simp add: pages_of_def)
  have pres: "present s' 0 j \<longleftrightarrow> j = 1" for j
    using s'(3,4) by (cases "j = 1") (auto simp: mapping_def split: if_splits)
  have own: "owns k 3 0"
    unfolding owns_def pages pg using p [of 3] f3 last_page dir pres s'(5) by simp
  have fields: "length (process_list k) = 16" "cur_idx k = 3" "total_pid k = 2" "active_process_count k = 1" by (simp_all add: k_def)
  have pids: "pid (proc k n) = (if n = 3 then 2 else if n = 5 then 1 else 0)" if "n < 16" for n
    using p [OF that] f3 f5 z by simp
  have lens: "length (p_name (proc k n)) = 8" "length (virtual_addr_used (proc k n)) = 8" if "n < 16" for n
    using p [OF that] f3 f5 z by simp_all
  have "proc_ok k"
    unfolding proc_ok_def pg fields act
    using own s'(2) pids lens by (auto split: if_splits)
  then show ?thesis using that [of k] act p [of 5] f5 dir own by simp
qed

lemma destroy_twice_witness:
  "\<exists>k k'. process_destroy 1 k = Some (True, k') \<and> \<not> is_active k 5 \<and> is_active k' 3 \<and> (\<forall>n. \<not> present (pg k') 0 n)"
proof -
  obtain k where k: "proc_ok k" "\<not> is_active k 5" "pid (proc k 5) = 1" "dir_of k 5 = Listed 0"
    "page_frame_used_count (proc k 5) = 0" "is_active k 3" "owns k 3 0" by (rule reused_directory)
  then show ?thesis using destroy_twice [of k 5 0 3] by fastforce
qed

end
