(* ===== verification/Ports.thy ===== *)
theory Ports
  imports Prelude
begin

text \<open>
  Port input and output, \<open>src/src/portio.c\<close>.  What the code sends to the ports is kept as the list
  of accesses in their order.  The devices are not part of the program: a device is a function from
  the accesses so far and the port to the value that the next \<open>in\<close> returns, and an argument of the
  operations that read a port.
\<close>

datatype io_event = Out u16 u8 | In u16 u8 | Out16 u16 u16 | In16 u16 u16

type_synonym bus = "io_event list"
type_synonym device = "bus \<Rightarrow> u16 \<Rightarrow> u16"

definition out :: "u16 \<Rightarrow> u8 \<Rightarrow> bus \<Rightarrow> bus" where
  "out port data b = b @ [Out port data]"

definition inb :: "device \<Rightarrow> u16 \<Rightarrow> bus \<Rightarrow> u8 \<times> bus" where
  "inb dev port b = (let result = ucast (dev b port) in (result, b @ [In port result]))"

definition out16 :: "u16 \<Rightarrow> u16 \<Rightarrow> bus \<Rightarrow> bus" where
  "out16 port data b = b @ [Out16 port data]"

definition in16 :: "device \<Rightarrow> u16 \<Rightarrow> bus \<Rightarrow> u16 \<times> bus" where
  "in16 dev port b = (let result = dev b port in (result, b @ [In16 port result]))"

end
