(* ===== verification/Framebuffer.thy ===== *)
theory Framebuffer
  imports Ports CString
begin

text \<open>
  The text screen, \<open>src/src/framebuffer.c\<close>: 25 rows of 80 cells of two bytes, character and colour,
  and the cursor.  \<open>framebuffer_write\<close> scrolls with \<open>framebuffer_auto_down\<close>, which blanks the last
  row with \<open>framebuffer_write\<close>.  The two functions are written as one step each, over the other
  (\<open>write_via\<close>, \<open>auto_down_via\<close>), and tied by the number of nested calls (\<open>fb_write\<close>); three
  nested calls are always enough, and then both satisfy the equations of the code.
\<close>

unbundle bit_operations_syntax

section \<open>The screen\<close>

record terminal =
  vram :: "u8 list"
  cursor_row :: u8
  cursor_col :: u8
  bus :: bus

definition TERMINAL_HEIGHT :: u8 where
  "TERMINAL_HEIGHT = 25"

definition TERMINAL_WIDTH :: u8 where
  "TERMINAL_WIDTH = 80"

definition CURSOR_PORT_CMD :: u16 where
  "CURSOR_PORT_CMD = 0x3D4"

definition CURSOR_PORT_DATA :: u16 where
  "CURSOR_PORT_DATA = 0x3D5"

definition cursor_events :: "u8 \<Rightarrow> u8 \<Rightarrow> bus" where
  "cursor_events r c =
     (let loc = ucast r * 80 + ucast c :: u16
      in [Out CURSOR_PORT_CMD 0x0F, Out CURSOR_PORT_DATA (ucast (loc AND 0xFF)),
          Out CURSOR_PORT_CMD 0x0E, Out CURSOR_PORT_DATA (ucast (drop_bit 8 loc AND 0xFF))])"

definition framebuffer_set_cursor :: "u8 \<Rightarrow> u8 \<Rightarrow> terminal \<Rightarrow> terminal" where
  "framebuffer_set_cursor r c t =
     t\<lparr> bus := bus t @ cursor_events r c, cursor_row := r, cursor_col := c \<rparr>"

text \<open>The second read replaces what the first one put into \<open>pos\<close>.\<close>

definition framebuffer_get_cursor :: "device \<Rightarrow> terminal \<Rightarrow> u16 \<times> terminal" where
  "framebuffer_get_cursor dev t =
     (let b = out CURSOR_PORT_CMD 0x0F (bus t);
          (low, b) = inb dev CURSOR_PORT_DATA b;
          pos = 0 OR ucast low :: u16;
          b = out CURSOR_PORT_CMD 0x0E b;
          (high, b) = inb dev CURSOR_PORT_DATA b;
          pos = push_bit 8 (ucast high)
      in (pos, t\<lparr> bus := b \<rparr>))"

definition write_exact_loc :: "u8 \<Rightarrow> u8 \<Rightarrow> u8 \<Rightarrow> u8 \<Rightarrow> u8 \<Rightarrow> terminal \<Rightarrow> terminal option" where
  "write_exact_loc row col c fg bg t =
     do { let loc = (unat row * 80 + unat col) * 2;
          let color = push_bit 4 bg OR (fg AND 0x0F);
          v \<leftarrow> arr_set (vram t) loc c;
          v \<leftarrow> arr_set v (loc + 1) color;
          Some (t\<lparr> vram := v \<rparr>) }"

section \<open>Writing and scrolling\<close>

text \<open>\<open>down\<close> is the call of \<open>framebuffer_auto_down\<close>.\<close>

definition clip_row :: "(terminal \<Rightarrow> terminal option) \<Rightarrow> terminal \<Rightarrow> terminal option" where
  "clip_row down t =
     (if cursor_row t \<ge> TERMINAL_HEIGHT
      then do { t \<leftarrow> down t; Some (t\<lparr> cursor_row := TERMINAL_HEIGHT - 1 \<rparr>) } else Some t)"

definition write_via :: "(terminal \<Rightarrow> terminal option) \<Rightarrow> u8 \<Rightarrow> u8 \<Rightarrow> u8 \<Rightarrow> u8 \<Rightarrow> u8 \<Rightarrow> terminal \<Rightarrow> terminal option" where
  "write_via down row col c fg bg t =
     (if c = 10
      then do {
        let t = t\<lparr> cursor_col := 0, cursor_row := cursor_row t + 1 \<rparr>;
        t \<leftarrow> clip_row down t;
        Some (framebuffer_set_cursor (cursor_row t) (cursor_col t) t) }
      else do {
        let (row, col) = (if col \<ge> TERMINAL_WIDTH then (row + 1, 0) else (row, col));
        (row, t) \<leftarrow> (if row \<ge> TERMINAL_HEIGHT
                     then do { t \<leftarrow> down t; Some (TERMINAL_HEIGHT - 1, t) } else Some (row, t));
        t \<leftarrow> write_exact_loc row col c fg bg t;
        t \<leftarrow> (if cursor_col t \<ge> TERMINAL_WIDTH
              then clip_row down (t\<lparr> cursor_col := 0, cursor_row := cursor_row t + 1 \<rparr>)
              else Some t);
        Some (framebuffer_set_cursor (cursor_row t) (cursor_col t) t) })"

text \<open>\<open>wr\<close> is the call of \<open>framebuffer_write\<close>.\<close>

definition auto_down_via :: "(u8 \<Rightarrow> u8 \<Rightarrow> u8 \<Rightarrow> u8 \<Rightarrow> u8 \<Rightarrow> terminal \<Rightarrow> terminal option) \<Rightarrow> terminal \<Rightarrow> terminal option" where
  "auto_down_via wr t =
     do { v \<leftarrow> memmove (vram t) 0 (80 * 2) (2 * 80 * (25 - 1));
          t \<leftarrow> for_range 0 80 (\<lambda>col. wr (TERMINAL_HEIGHT - 1) (of_nat col) 32 0x07 0x00) (t\<lparr> vram := v \<rparr>);
          Some (framebuffer_set_cursor (TERMINAL_HEIGHT - 1) 0 t) }"

primrec fb_write :: "nat \<Rightarrow> u8 \<Rightarrow> u8 \<Rightarrow> u8 \<Rightarrow> u8 \<Rightarrow> u8 \<Rightarrow> terminal \<Rightarrow> terminal option" where
  "fb_write 0 = (\<lambda>row col c fg bg t. None)"
| "fb_write (Suc n) = write_via (auto_down_via (fb_write n))"

definition framebuffer_write :: "u8 \<Rightarrow> u8 \<Rightarrow> u8 \<Rightarrow> u8 \<Rightarrow> u8 \<Rightarrow> terminal \<Rightarrow> terminal option" where
  "framebuffer_write = fb_write 3"

definition framebuffer_auto_down :: "terminal \<Rightarrow> terminal option" where
  "framebuffer_auto_down = auto_down_via framebuffer_write"

definition framebuffer_clear :: "terminal \<Rightarrow> terminal option" where
  "framebuffer_clear t =
     do { v \<leftarrow> memset (vram t) 0 0 (80 * 25 * 2);
          Some (framebuffer_set_cursor 0 0 (t\<lparr> vram := v, cursor_row := 0, cursor_col := 0 \<rparr>)) }"

section \<open>One cell\<close>

text \<open>The screen memory with one cell set.\<close>

definition set_cell :: "u8 list \<Rightarrow> nat \<Rightarrow> nat \<Rightarrow> u8 \<Rightarrow> u8 \<Rightarrow> u8 list" where
  "set_cell v r c ch color = v[(r * 80 + c) * 2 := ch, (r * 80 + c) * 2 + 1 := color]"

definition cell :: "u8 list \<Rightarrow> nat \<Rightarrow> nat \<Rightarrow> u8 \<times> u8" where
  "cell v r c = (v ! ((r * 80 + c) * 2), v ! ((r * 80 + c) * 2 + 1))"

definition color_of :: "u8 \<Rightarrow> u8 \<Rightarrow> u8" where
  "color_of fg bg = push_bit 4 bg OR (fg AND 0x0F)"

lemma length_set_cell [simp]: "length (set_cell v r c ch color) = length v"
  by (simp add: set_cell_def)

lemma less_not_le: "x < y \<Longrightarrow> \<not> y \<le> x" for x y :: "'a :: linorder"
  by simp

lemma digits_eq: "c < n \<Longrightarrow> c' < n \<Longrightarrow> r * n + c = r' * n + c' \<longleftrightarrow> r = r' \<and> c = c'" for n :: nat
  by (metis div_mult_self3 div_less add_0_right mod_mult_self3 mod_less bot_nat_0.extremum_strict)

lemma cell_set_cell:
  assumes "length v = 4000" "r < 25" "c < 80" "r' < 25" "c' < 80"
  shows "cell (set_cell v r c ch color) r' c' = (if r' = r \<and> c' = c then (ch, color) else cell v r' c')"
proof -
  have in_range: "(r * 80 + c) * 2 + 1 < 4000" using assms by simp
  have "(r * 80 + c = r' * 80 + c') = (r = r' \<and> c = c')"
    using assms(3,5) by (rule digits_eq)
  moreover have "(r * 80 + c) * 2 \<noteq> (r' * 80 + c') * 2 + 1" "(r' * 80 + c') * 2 \<noteq> (r * 80 + c) * 2 + 1"
    by (metis even_mult_iff even_plus_one_iff even_numeral)+
  ultimately show ?thesis
    using in_range assms(1) add_lessD1 [OF in_range]
    by (cases "r = r' \<and> c = c'") (auto simp: cell_def set_cell_def nth_list_update simp del: distrib_right_numeral)
qed

lemma vram_ext:
  assumes "length v = 4000" "length w = 4000" "\<And>r c. r < 25 \<Longrightarrow> c < 80 \<Longrightarrow> cell v r c = cell w r c"
  shows "v = w"
proof (rule nth_equalityI)
  fix i assume "i < length v"
  then have i: "i < 4000" using assms(1) by simp
  define r where "r = i div 160"
  define c where "c = (i div 2) mod 80"
  have "i div 2 div 80 = r" by (simp add: r_def div_mult2_eq [symmetric])
  then have half: "i div 2 = r * 80 + c" using div_mult_mod_eq [of "i div 2" 80] by (simp add: c_def)
  have "i = i div 2 * 2 + i mod 2" "i mod 2 = 0 \<or> i mod 2 = 1" by auto
  then have "i = (r * 80 + c) * 2 \<or> i = (r * 80 + c) * 2 + 1" unfolding half by fastforce
  moreover have "r < 25" "c < 80" using i by (simp_all add: r_def c_def)
  then have "cell v r c = cell w r c" by (rule assms(3))
  then have "v ! ((r * 80 + c) * 2) = w ! ((r * 80 + c) * 2)" "v ! ((r * 80 + c) * 2 + 1) = w ! ((r * 80 + c) * 2 + 1)"
    unfolding cell_def prod.inject by blast+
  ultimately show "v ! i = w ! i" by metis
qed (simp add: assms)

lemma write_exact_loc_eq:
  assumes "length (vram t) = 4000" "unat row < 25" "unat col < 80"
  shows "write_exact_loc row col c fg bg t = Some (t\<lparr> vram := set_cell (vram t) (unat row) (unat col) c (color_of fg bg) \<rparr>)"
proof -
  have "(unat row * 80 + unat col) * 2 + 1 < 4000" using assms by simp
  then show ?thesis using assms by (simp add: write_exact_loc_def set_cell_def color_of_def Let_def)
qed

section \<open>Scrolling\<close>

text \<open>The screen one row up, and the last row blank from column \<open>k\<close> on.\<close>

definition moved_up :: "u8 list \<Rightarrow> u8 list" where
  "moved_up v = take 3840 (drop 160 v) @ drop 3840 v"

definition blanked :: "nat \<Rightarrow> u8 list \<Rightarrow> u8 list" where
  "blanked k v = take (3840 + 2 * k) v @ concat (replicate (80 - k) [32, 7])"

lemma length_blanks [simp]: "length (concat (replicate n [a, b])) = 2 * n"
  by (induction n) simp_all

lemma nth_blanks:
  "i < n \<Longrightarrow> concat (replicate n [a, b]) ! (2 * i) = a \<and> concat (replicate n [a, b]) ! Suc (2 * i) = b"
proof (induction n arbitrary: i)
  case (Suc n)
  then show ?case by (cases i) (auto simp: nth_append)
qed simp

lemma length_moved_up [simp]: "length v = 4000 \<Longrightarrow> length (moved_up v) = 4000"
  by (simp add: moved_up_def)

lemma length_blanked [simp]: "length v = 4000 \<Longrightarrow> k \<le> 80 \<Longrightarrow> length (blanked k v) = 4000"
  by (simp add: blanked_def)

lemma cell_moved_up:
  assumes "length v = 4000" "r < 25" "c < 80"
  shows "cell (moved_up v) r c = (if r < 24 then cell v (r + 1) c else cell v 24 c)"
proof (cases "r < 24")
  case True
  then have "(r * 80 + c) * 2 + 1 < 3840" using assms by simp
  then show ?thesis using True assms by (simp add: cell_def moved_up_def nth_append ac_simps)
next
  case False
  then have "r = 24" using assms by simp
  then show ?thesis using assms by (simp add: cell_def moved_up_def nth_append)
qed

lemma cell_blanked:
  assumes "length v = 4000" "k \<le> 80" "r < 25" "c < 80"
  shows "cell (blanked k v) r c = (if r = 24 \<and> k \<le> c then (32, 7) else cell v r c)"
proof (cases "r = 24 \<and> k \<le> c")
  case True
  then show ?thesis
    using assms nth_blanks [of "c - k" "80 - k" "32 :: u8" 7]
    by (auto simp: cell_def blanked_def nth_append diff_mult_distrib diff_mult_distrib2 Suc_diff_le mult.commute)
next
  case False
  then have "(r * 80 + c) * 2 + 1 < 3840 + 2 * k" using assms by auto
  then show ?thesis using False assms by (auto simp: cell_def blanked_def nth_append)
qed

lemma blanked_Suc:
  assumes "length v = 4000" "k < 80"
  shows "blanked (Suc k) (set_cell v 24 k 32 7) = blanked k v"
  by (rule vram_ext) (use assms in \<open>auto simp: cell_blanked cell_set_cell\<close>)

lemma blanked_80 [simp]: "length v = 4000 \<Longrightarrow> blanked 80 v = v"
  by (simp add: blanked_def)

lemma memmove_up: "length v = 4000 \<Longrightarrow> memmove v 0 (80 * 2) (2 * 80 * (25 - 1)) = Some (moved_up v)"
  by (simp add: memmove_eq moved_up_def)

lemma write_calm:
  assumes "length (vram t) = 4000" "c \<noteq> 10" "row < 25" "col < 80" "cursor_col t < 80"
  shows "write_via d row col c fg bg t = Some (t\<lparr> vram := set_cell (vram t) (unat row) (unat col) c (color_of fg bg),
    bus := bus t @ cursor_events (cursor_row t) (cursor_col t) \<rparr>)"
proof -
  have "unat row < 25" "unat col < 80" using assms(3,4) by (simp_all add: word_less_nat_alt)
  then show ?thesis
    using assms by (simp add: write_via_def TERMINAL_WIDTH_def TERMINAL_HEIGHT_def write_exact_loc_eq
        framebuffer_set_cursor_def linorder_not_le [symmetric])
qed

lemma color_blank [simp]: "color_of 7 0 = 7"
  by (simp add: color_of_def)

text \<open>Blanking the rest of the last row when the cursor is within a row.\<close>

lemma blank_rest:
  assumes "length (vram t) = 4000" "cursor_col t < 80" "k \<le> 80"
  shows "for_range k 80 (\<lambda>col. write_via d 24 (of_nat col) 32 7 0) t = Some (t\<lparr> vram := blanked k (vram t),
    bus := bus t @ concat (replicate (80 - k) (cursor_events (cursor_row t) (cursor_col t))) \<rparr>)"
  using assms
proof (induction "80 - k" arbitrary: k t)
  case 0
  then show ?case by simp
next
  case (Suc n)
  then have k: "k < 80" by simp
  then have col: "(of_nat k :: u8) < 80" "unat (of_nat k :: u8) = k"
    by (simp_all add: word_less_nat_alt unat_of_nat take_bit_eq_mod)
  let ?t = "t\<lparr> vram := set_cell (vram t) 24 k 32 7, bus := bus t @ cursor_events (cursor_row t) (cursor_col t) \<rparr>"
  have n: "80 - k = Suc (80 - Suc k)" using k by simp
  have "for_range (Suc k) 80 (\<lambda>col. write_via d 24 (of_nat col) 32 7 0) ?t = Some (?t\<lparr> vram := blanked (Suc k) (vram ?t),
      bus := bus ?t @ concat (replicate (80 - Suc k) (cursor_events (cursor_row ?t) (cursor_col ?t))) \<rparr>)"
    using Suc.hyps(2) Suc.prems k by (intro Suc.hyps(1)) simp_all
  moreover have "write_via d 24 (of_nat k) 32 7 0 t = Some ?t"
    using Suc.prems k col by (subst write_calm) simp_all
  ultimately show ?case using k Suc.prems by (simp add: for_range_step blanked_Suc n)
qed

text \<open>The result of \<open>framebuffer_auto_down\<close> when the cursor is within a row.\<close>

definition calm_down :: "terminal \<Rightarrow> terminal" where
  "calm_down t = t\<lparr> vram := blanked 0 (moved_up (vram t)), cursor_row := 24, cursor_col := 0,
     bus := bus t @ concat (replicate 80 (cursor_events (cursor_row t) (cursor_col t))) @ cursor_events 24 0 \<rparr>"

lemma auto_down_calm:
  assumes "length (vram t) = 4000" "cursor_col t < 80"
  shows "auto_down_via (write_via d) t = Some (calm_down t)"
  using assms blank_rest [of "t\<lparr> vram := moved_up (vram t) \<rparr>" 0 d] memmove_up [OF assms(1)]
  by (simp add: auto_down_via_def TERMINAL_HEIGHT_def calm_down_def framebuffer_set_cursor_def)

text \<open>And when the cursor is past the end of its row: the first cell that is written moves it to the
  next row, which scrolls again if there is none.\<close>

definition wrapped :: "terminal \<Rightarrow> terminal" where
  "wrapped t =
     (let t = t\<lparr> vram := set_cell (vram t) 24 0 32 7, cursor_col := 0, cursor_row := cursor_row t + 1 \<rparr>;
          t = (if cursor_row t \<ge> 25 then calm_down t else t)
      in framebuffer_set_cursor (cursor_row t) (cursor_col t) t)"

definition scroll_down :: "terminal \<Rightarrow> terminal" where
  "scroll_down t =
     (if cursor_col t < 80 then calm_down t
      else let t1 = wrapped (t\<lparr> vram := moved_up (vram t) \<rparr>)
           in t1\<lparr> vram := blanked 1 (vram t1), cursor_row := 24, cursor_col := 0,
                  bus := bus t1 @ concat (replicate 79 (cursor_events (cursor_row t1) (cursor_col t1))) @ cursor_events 24 0 \<rparr>)"

lemma calm_down_fields [simp]:
  "length (vram t) = 4000 \<Longrightarrow> length (vram (calm_down t)) = 4000" "cursor_row (calm_down t) = 24" "cursor_col (calm_down t) = 0"
  by (simp_all add: calm_down_def)

lemma wrapped_fields [simp]:
  "length (vram t) = 4000 \<Longrightarrow> length (vram (wrapped t)) = 4000" "cursor_col (wrapped t) = 0"
  by (simp_all add: wrapped_def Let_def framebuffer_set_cursor_def)

lemma scroll_down_fields [simp]:
  "length (vram t) = 4000 \<Longrightarrow> length (vram (scroll_down t)) = 4000" "cursor_row (scroll_down t) = 24" "cursor_col (scroll_down t) = 0"
  by (simp_all add: scroll_down_def Let_def)

lemma write_wraps:
  assumes "length (vram t) = 4000" "80 \<le> cursor_col t"
  shows "write_via (auto_down_via (write_via d)) 24 0 32 7 0 t = Some (wrapped t)"
proof -
  let ?t = "t\<lparr> vram := set_cell (vram t) 24 0 32 7, cursor_col := 0, cursor_row := cursor_row t + 1 \<rparr>"
  have "auto_down_via (write_via d) ?t = Some (calm_down ?t)" using assms by (intro auto_down_calm) simp_all
  then show ?thesis
    using assms by (simp add: write_via_def TERMINAL_WIDTH_def TERMINAL_HEIGHT_def write_exact_loc_eq wrapped_def Let_def clip_row_def)
      (simp add: calm_down_def framebuffer_set_cursor_def)
qed

lemma auto_down_eq:
  assumes "length (vram t) = 4000"
  shows "auto_down_via (write_via (auto_down_via (write_via d))) t = Some (scroll_down t)"
proof (cases "cursor_col t < 80")
  case True
  with assms show ?thesis by (simp add: auto_down_calm scroll_down_def)
next
  case False
  let ?t = "t\<lparr> vram := moved_up (vram t) \<rparr>"
  have "for_range 1 80 (\<lambda>col. write_via (auto_down_via (write_via d)) 24 (of_nat col) 32 7 0) (wrapped ?t) =
      Some ((wrapped ?t)\<lparr> vram := blanked 1 (vram (wrapped ?t)),
        bus := bus (wrapped ?t) @ concat (replicate (80 - 1) (cursor_events (cursor_row (wrapped ?t)) (cursor_col (wrapped ?t)))) \<rparr>)"
    using assms by (intro blank_rest) simp_all
  moreover have "write_via (auto_down_via (write_via d)) 24 0 32 7 0 ?t = Some (wrapped ?t)"
    using assms False by (intro write_wraps) simp_all
  ultimately show ?thesis
    using False assms memmove_up [OF assms]
    by (simp add: auto_down_via_def TERMINAL_HEIGHT_def for_range_step [of 0] scroll_down_def Let_def framebuffer_set_cursor_def)
qed

text \<open>So the nested calls are at most three deep.\<close>

definition writes :: "u8 \<Rightarrow> u8 \<Rightarrow> u8 \<Rightarrow> u8 \<Rightarrow> u8 \<Rightarrow> terminal \<Rightarrow> terminal option" where
  "writes = write_via (\<lambda>t. Some (scroll_down t))"

lemma write_exact_loc_length: "write_exact_loc r k ch a b t = Some u \<Longrightarrow> length (vram u) = length (vram t)"
  by (auto simp: write_exact_loc_def bind_eq_Some_conv arr_set_eq_Some Let_def)

lemma clip_row_cong: "f t = g t \<Longrightarrow> clip_row f t = clip_row g t"
  by (simp add: clip_row_def)

lemma write_via_cong:
  assumes len: "length (vram t) = 4000" and fg: "\<And>t. length (vram t) = 4000 \<Longrightarrow> f t = Some (scroll_down t)"
  shows "write_via f row col c fg bg t = writes row col c fg bg t"
proof (cases "c = 10")
  case True
  with len fg show ?thesis by (simp add: write_via_def writes_def Let_def clip_row_def)
next
  case False
  have step: "Option.bind (write_exact_loc r k c fg bg u) (\<lambda>t. Option.bind
      (if 80 \<le> cursor_col t then clip_row f (t\<lparr> cursor_col := 0, cursor_row := cursor_row t + 1 \<rparr>) else Some t) h) =
    Option.bind (write_exact_loc r k c fg bg u) (\<lambda>t. Option.bind
      (if 80 \<le> cursor_col t then clip_row (\<lambda>t. Some (scroll_down t)) (t\<lparr> cursor_col := 0, cursor_row := cursor_row t + 1 \<rparr>) else Some t) h)"
    if "length (vram u) = 4000" for r k u h
    using that fg by (cases "write_exact_loc r k c fg bg u") (auto simp: clip_row_def dest!: write_exact_loc_length)
  show ?thesis
    using False len
    by (simp add: write_via_def writes_def Let_def TERMINAL_WIDTH_def TERMINAL_HEIGHT_def fg [OF len] step)
qed

lemma fb_write_eq:
  assumes "length (vram t) = 4000"
  shows "fb_write (Suc (Suc (Suc n))) row col c fg bg t = writes row col c fg bg t"
  unfolding fb_write.simps by (rule write_via_cong [OF assms]) (rule auto_down_eq)

lemma framebuffer_write_eq:
  assumes "length (vram t) = 4000"
  shows "framebuffer_write row col c fg bg t = writes row col c fg bg t"
  using fb_write_eq [OF assms, of 0] by (simp add: framebuffer_write_def numeral_3_eq_3)

lemma framebuffer_auto_down_eq:
  assumes "length (vram t) = 4000"
  shows "framebuffer_auto_down t = Some (scroll_down t)"
  using auto_down_eq [OF assms, of "auto_down_via (write_via (auto_down_via (fb_write 0)))"]
  by (simp add: framebuffer_auto_down_def framebuffer_write_def numeral_3_eq_3)

end
