(* ===== verification/Terminal.thy ===== *)
theory Terminal
  imports Framebuffer
begin

text \<open>
  The terminal output of the kernel, \<open>putchar\<close> and \<open>puts\<close> of \<open>src/src/interrupt.c\<close>: control
  characters, text at the cursor, and what the screen shows afterwards.  \<open>screen_ok\<close> is the
  invariant: the screen memory has 4000 bytes and the cursor is on the screen.
\<close>

section \<open>Characters and strings\<close>

definition putchar_plain :: "u8 \<Rightarrow> u8 \<Rightarrow> terminal \<Rightarrow> terminal option" where
  "putchar_plain c textColor t =
     do { let t = (if cursor_col t \<ge> TERMINAL_WIDTH
                   then t\<lparr> cursor_col := 0, cursor_row := cursor_row t + 1 \<rparr> else t);
          t \<leftarrow> framebuffer_write (cursor_row t) (cursor_col t) c textColor 0 t;
          let t = t\<lparr> cursor_col := cursor_col t + 1 \<rparr>;
          Some (framebuffer_set_cursor (cursor_row t) (cursor_col t) t) }"

definition putchar_newline :: "terminal \<Rightarrow> terminal option" where
  "putchar_newline t =
     do { let t = t\<lparr> cursor_row := cursor_row t + 1, cursor_col := 0 \<rparr>;
          t \<leftarrow> clip_row framebuffer_auto_down t;
          Some (framebuffer_set_cursor (cursor_row t) (cursor_col t) t) }"

definition putchar_backspace :: "terminal \<Rightarrow> terminal option" where
  "putchar_backspace t =
     (if cursor_row t > 0 \<and> cursor_col t = 0
      then do {
        let t = t\<lparr> cursor_col := TERMINAL_WIDTH - 1, cursor_row := cursor_row t - 1 \<rparr>;
        t \<leftarrow> framebuffer_write (cursor_row t) (cursor_col t) 32 0xF 0 t;
        Some (framebuffer_set_cursor (cursor_row t) (cursor_col t) t) }
      else if cursor_col t > 0
      then do {
        let t = t\<lparr> cursor_col := cursor_col t - 1 \<rparr>;
        t \<leftarrow> framebuffer_write (cursor_row t) (cursor_col t) 32 0xF 0 t;
        Some (framebuffer_set_cursor (cursor_row t) (cursor_col t) t) }
      else Some t)"

text \<open>A tab is four spaces, written as plain characters are.\<close>

definition putchar :: "u8 \<Rightarrow> u8 \<Rightarrow> terminal \<Rightarrow> terminal option" where
  "putchar c textColor t =
     (if c \<noteq> 0
      then do {
        t \<leftarrow> (if c = 10 then putchar_newline t
              else if c = 9 then for_range 0 4 (\<lambda>_. putchar_plain 32 0xF) t
              else if c = 8 then putchar_backspace t
              else putchar_plain c textColor t);
        framebuffer_write (cursor_row t) (cursor_col t + 1) 32 0xF 0 t }
      else Some t)"

text \<open>\<open>ch i\<close> is the byte at \<open>ebx + i\<close>, and \<open>n\<close> is \<open>(int) ecx\<close>.\<close>

definition puts_chars :: "(nat \<Rightarrow> u8) \<Rightarrow> int \<Rightarrow> u8 \<Rightarrow> terminal \<Rightarrow> terminal option" where
  "puts_chars ch n color t =
     for_range 0 (nat n) (\<lambda>i t. do { t \<leftarrow> putchar (ch i) color t; clip_row framebuffer_auto_down t }) t"

definition puts :: "mem \<Rightarrow> u32 \<Rightarrow> u32 \<Rightarrow> u32 \<Rightarrow> terminal \<Rightarrow> terminal option" where
  "puts m ebx ecx edx t = puts_chars (\<lambda>i. m (ebx + of_nat i)) (sint ecx) (ucast edx) t"

text \<open>A string of the kernel.\<close>

definition puts_list :: "u8 list \<Rightarrow> u8 \<Rightarrow> terminal \<Rightarrow> terminal option" where
  "puts_list xs = puts_chars ((!) xs) (int (length xs))"

section \<open>The invariant\<close>

definition screen_ok :: "terminal \<Rightarrow> bool" where
  "screen_ok t = (length (vram t) = 4000 \<and> cursor_row t < 25 \<and> cursor_col t < 80)"

lemmas bounds_defs = TERMINAL_WIDTH_def TERMINAL_HEIGHT_def

lemma set_cursor_fields [simp]:
  "vram (framebuffer_set_cursor r c t) = vram t" "cursor_row (framebuffer_set_cursor r c t) = r"
  "cursor_col (framebuffer_set_cursor r c t) = c"
  by (simp_all add: framebuffer_set_cursor_def)

lemma scroll_down_ok: "length (vram t) = 4000 \<Longrightarrow> screen_ok (scroll_down t)"
  by (simp add: screen_ok_def)

lemma unat_less: "(x :: u8) < 25 \<Longrightarrow> unat x < 25" "(x :: u8) < 80 \<Longrightarrow> unat x < 80"
  by (simp_all add: word_less_nat_alt)

text \<open>The screen does not depend on the accesses that the cursor sends; \<open>on_screen\<close> fixes the rest.\<close>

definition on_screen :: "terminal \<Rightarrow> u8 list \<Rightarrow> u8 \<Rightarrow> u8 \<Rightarrow> bool" where
  "on_screen t v r c = (vram t = v \<and> cursor_row t = r \<and> cursor_col t = c)"

lemma on_screenI: "vram t = v \<Longrightarrow> cursor_row t = r \<Longrightarrow> cursor_col t = c \<Longrightarrow> on_screen t v r c"
  by (simp add: on_screen_def)

lemma on_screenD: "on_screen t v r c \<Longrightarrow> vram t = v" "on_screen t v r c \<Longrightarrow> cursor_row t = r" "on_screen t v r c \<Longrightarrow> cursor_col t = c"
  by (simp_all add: on_screen_def)

text \<open>A character written on the screen while the cursor is on the screen.\<close>

lemma fb_calm:
  assumes "screen_ok t" "c \<noteq> 10" "row < 25" "col < 80"
  shows "framebuffer_write row col c fg bg t = Some (t\<lparr> vram := set_cell (vram t) (unat row) (unat col) c (color_of fg bg),
    bus := bus t @ cursor_events (cursor_row t) (cursor_col t) \<rparr>)"
  using assms by (simp add: screen_ok_def framebuffer_write_eq writes_def write_calm)

text \<open>The part of a write after the row and the column are settled.\<close>

definition finish :: "u8 \<Rightarrow> u8 \<Rightarrow> u8 \<Rightarrow> u8 \<Rightarrow> u8 \<Rightarrow> terminal \<Rightarrow> terminal option" where
  "finish row col c fg bg t =
     do { t \<leftarrow> write_exact_loc row col c fg bg t;
          t \<leftarrow> (if cursor_col t \<ge> TERMINAL_WIDTH
                then clip_row (\<lambda>t. Some (scroll_down t)) (t\<lparr> cursor_col := 0, cursor_row := cursor_row t + 1 \<rparr>)
                else Some t);
          Some (framebuffer_set_cursor (cursor_row t) (cursor_col t) t) }"

lemma writes_finish:
  assumes "c \<noteq> 10"
  shows "\<not> 80 \<le> col \<Longrightarrow> \<not> 25 \<le> row \<Longrightarrow> writes row col c fg bg t = finish row col c fg bg t"
    and "80 \<le> col \<Longrightarrow> \<not> 25 \<le> row + 1 \<Longrightarrow> writes row col c fg bg t = finish (row + 1) 0 c fg bg t"
    and "80 \<le> col \<Longrightarrow> 25 \<le> row + 1 \<Longrightarrow> writes row col c fg bg t = finish 24 0 c fg bg (scroll_down t)"
    and "\<not> 80 \<le> col \<Longrightarrow> 25 \<le> row \<Longrightarrow> writes row col c fg bg t = finish 24 col c fg bg (scroll_down t)"
  using assms by (simp_all add: writes_def write_via_def finish_def bounds_defs Let_def)

lemma fb_next_row:
  assumes "screen_ok t" "c \<noteq> 10" "row < 24" "80 \<le> col"
  shows "framebuffer_write row col c fg bg t = framebuffer_write (row + 1) 0 c fg bg t"
proof -
  have "row + 1 < 25" using assms(3) by unat_arith
  then show ?thesis
    using assms by (simp add: screen_ok_def framebuffer_write_eq writes_finish not_le)
qed

lemma fb_scrolls:
  assumes "length (vram t) = 4000" "c \<noteq> 10"
  shows "80 \<le> col \<Longrightarrow> framebuffer_write 24 col c fg bg t = framebuffer_write 24 0 c fg bg (scroll_down t)"
    and "col < 80 \<Longrightarrow> framebuffer_write 25 col c fg bg t = framebuffer_write 24 col c fg bg (scroll_down t)"
proof -
  have len: "length (vram (scroll_down t)) = 4000" using assms(1) by simp
  note eqs = framebuffer_write_eq [OF assms(1)] framebuffer_write_eq [OF len]
  show "framebuffer_write 24 col c fg bg t = framebuffer_write 24 0 c fg bg (scroll_down t)" if "80 \<le> col"
    unfolding eqs using that writes_finish(3) [OF assms(2) that, of 24] writes_finish(1) [OF assms(2), of 0 24] by simp
  show "framebuffer_write 25 col c fg bg t = framebuffer_write 24 col c fg bg (scroll_down t)" if "col < 80"
    unfolding eqs using that writes_finish(4) [OF assms(2), of col 25] writes_finish(1) [OF assms(2), of col 24] by simp
qed

text \<open>The same for a cursor one past the end of its row.\<close>

lemma row_Suc:
  assumes "row < (24 :: u8)"
  shows "row + 1 < 25" "unat (row + 1) = unat row + 1"
proof -
  have r: "unat row < 24" using assms by (simp add: word_less_nat_alt)
  then show eq: "unat (row + 1) = unat row + 1" by (simp add: unat_word_ariths)
  show "row + 1 < 25" unfolding word_less_nat_alt eq using r by simp
qed

lemma fb_after_row:
  assumes "length (vram t) = 4000" "cursor_col t = 80" "cursor_row t = row" "row < 24" "c \<noteq> 10" "80 \<le> col"
  shows "\<exists>t'. framebuffer_write row col c fg bg t = Some t' \<and>
    on_screen t' (set_cell (vram t) (unat row + 1) 0 c (color_of fg bg)) (row + 1) 0"
proof -
  note r = row_Suc [OF assms(4)]
  then have in_range: "unat (row + 1) < 25" "unat (0 :: u8) < 80" using unat_less(1) [OF r(1)] by simp_all
  let ?v = "set_cell (vram t) (unat row + 1) 0 c (color_of fg bg)"
  have "finish (row + 1) 0 c fg bg t = Some (framebuffer_set_cursor (row + 1) 0 (t\<lparr> vram := ?v, cursor_col := 0, cursor_row := row + 1 \<rparr>))"
    unfolding finish_def write_exact_loc_eq [OF assms(1) in_range] using r assms(2,3)
    by (simp add: bounds_defs clip_row_def less_not_le)
  then show ?thesis
    unfolding framebuffer_write_eq [OF assms(1)]
    using writes_finish(2) [OF assms(5,6) less_not_le [OF r(1)]] r by (simp add: on_screen_def)
qed

section \<open>Each character\<close>

text \<open>What a plain character does, in terms of the screen and the cursor.\<close>

lemma plain_calm:
  assumes "screen_ok t" "c \<noteq> 10"
  shows "\<exists>t'. putchar_plain c fg t = Some t' \<and>
    on_screen t' (set_cell (vram t) (unat (cursor_row t)) (unat (cursor_col t)) c (color_of fg 0)) (cursor_row t) (cursor_col t + 1)"
  using assms fb_calm [OF assms, of "cursor_row t" "cursor_col t" fg 0]
  by (simp add: putchar_plain_def screen_ok_def bounds_defs less_not_le on_screen_def)

text \<open>The blank that is written after every character, by the column of the cursor.\<close>

lemma blank_calm:
  assumes "screen_ok t" "cursor_col t < 79"
  shows "\<exists>t'. framebuffer_write (cursor_row t) (cursor_col t + 1) 32 15 0 t = Some t' \<and>
    on_screen t' (set_cell (vram t) (unat (cursor_row t)) (unat (cursor_col t) + 1) 32 15) (cursor_row t) (cursor_col t)"
proof -
  have "unat (cursor_col t) < 79" using assms(2) by (simp add: word_less_nat_alt)
  then have eq: "unat (cursor_col t + 1) = unat (cursor_col t) + 1" by (simp add: unat_word_ariths)
  have "cursor_col t + 1 < 80" unfolding word_less_nat_alt eq using \<open>unat (cursor_col t) < 79\<close> by simp
  then show ?thesis
    using fb_calm [of t 32 "cursor_row t" "cursor_col t + 1" 15 0] assms eq
    by (simp add: on_screen_def screen_ok_def color_of_def)
qed

lemma fb_calm_screen:
  assumes "screen_ok t" "c \<noteq> 10" "row < 25" "col < 80"
  shows "\<exists>t'. framebuffer_write row col c fg bg t = Some t' \<and>
    on_screen t' (set_cell (vram t) (unat row) (unat col) c (color_of fg bg)) (cursor_row t) (cursor_col t)"
  using fb_calm [OF assms] by (simp add: on_screen_def)

lemma blank_row_end:
  assumes "screen_ok t" "cursor_col t = 79" "cursor_row t < 24"
  shows "\<exists>t'. framebuffer_write (cursor_row t) (cursor_col t + 1) 32 15 0 t = Some t' \<and>
    on_screen t' (set_cell (vram t) (unat (cursor_row t) + 1) 0 32 15) (cursor_row t) (cursor_col t)"
  using fb_next_row [OF assms(1) _ assms(3), of 32 80 15 0] fb_calm_screen [of t 32 "cursor_row t + 1" 0 15 0]
    row_Suc [OF assms(3)] assms(1,2) by (simp add: color_of_def)

text \<open>On the last row the blank scrolls.\<close>

lemma blank_scrolls:
  assumes "length (vram t) = 4000" "cursor_row t = 24" "80 \<le> cursor_col t + 1"
  shows "\<exists>t'. framebuffer_write (cursor_row t) (cursor_col t + 1) 32 15 0 t = Some t' \<and>
    on_screen t' (set_cell (vram (scroll_down t)) 24 0 32 15) 24 0"
  using fb_scrolls(1) [OF assms(1) _ assms(3), of 32 15 0] fb_calm_screen [OF scroll_down_ok [OF assms(1)], of 32 24 0 15 0] assms(2)
  by (simp add: color_of_def)

lemma on_screen_ok: "on_screen t v r c \<Longrightarrow> length v = 4000 \<Longrightarrow> r < 25 \<Longrightarrow> c < 80 \<Longrightarrow> screen_ok t"
  by (simp add: on_screen_def screen_ok_def)

text \<open>Whatever the cursor is, on the screen or one past the end of a row, it is on the screen after the
  blank.\<close>

lemma blank_ok:
  assumes "length (vram t) = 4000" "cursor_row t < 25" "cursor_col t \<le> 80"
  shows "\<exists>t'. framebuffer_write (cursor_row t) (cursor_col t + 1) 32 15 0 t = Some t' \<and> screen_ok t'"
proof -
  have c: "cursor_col t < 79 \<or> cursor_col t = 79 \<or> cursor_col t = 80" using assms(3) by unat_arith
  have r: "cursor_row t < 24 \<or> cursor_row t = 24" using assms(2) by unat_arith
  have ok: "cursor_col t < 80 \<Longrightarrow> screen_ok t" using assms by (simp add: screen_ok_def)
  have lt: "cursor_col t < 79 \<Longrightarrow> cursor_col t < 80" by unat_arith
  consider "cursor_col t < 79" | "cursor_col t = 79" "cursor_row t < 24" | "cursor_col t = 79 \<or> cursor_col t = 80" "cursor_row t = 24"
    | "cursor_col t = 80" "cursor_row t < 24"
    using c r by blast
  then show ?thesis
  proof cases
    case 1
    then show ?thesis using blank_calm [OF ok [OF lt]] on_screen_ok assms lt by fastforce
  next
    case 2
    then have "screen_ok t" by (intro ok) simp
    then show ?thesis using blank_row_end [OF _ 2] on_screen_ok 2 assms by fastforce
  next
    case 3
    have "80 \<le> cursor_col t + 1" using 3(1) by auto
    then show ?thesis using blank_scrolls [OF assms(1) 3(2)] on_screen_ok assms(1) by fastforce
  next
    case 4
    then show ?thesis
      using fb_after_row [OF assms(1) 4(1) refl 4(2), of 32 81 15 0] on_screen_ok assms(1) row_Suc [OF 4(2)] by fastforce
  qed
qed

lemma newline_screen:
  assumes "screen_ok t"
  shows "\<exists>t'. putchar_newline t = Some t' \<and>
    on_screen t' (if cursor_row t < 24 then vram t else blanked 0 (moved_up (vram t))) (if cursor_row t < 24 then cursor_row t + 1 else 24) 0"
proof (cases "cursor_row t < 24")
  case True
  then show ?thesis
    using row_Suc(1) [OF True] by (simp add: putchar_newline_def clip_row_def bounds_defs less_not_le on_screen_def)
next
  case False
  then have r: "cursor_row t = 24" using assms unfolding screen_ok_def by unat_arith
  let ?t = "t\<lparr> cursor_row := 25, cursor_col := 0 \<rparr>"
  have "framebuffer_auto_down ?t = Some (calm_down ?t)"
    using assms framebuffer_auto_down_eq [of ?t] by (simp add: screen_ok_def scroll_down_def)
  then show ?thesis
    using False r by (simp add: putchar_newline_def clip_row_def bounds_defs on_screen_def) (simp add: calm_down_def)
qed

text \<open>The cursor while a character is being written: on the screen or one past the end of its row.\<close>

definition cursor_ok :: "terminal \<Rightarrow> bool" where
  "cursor_ok t = (length (vram t) = 4000 \<and> cursor_row t < 25 \<and> cursor_col t \<le> 80)"

lemma screen_cursor_ok: "screen_ok t \<Longrightarrow> cursor_ok t"
  by (simp add: screen_ok_def cursor_ok_def less_imp_le)

lemma on_cursor_ok: "on_screen t v r c \<Longrightarrow> length v = 4000 \<Longrightarrow> r < 25 \<Longrightarrow> c \<le> 80 \<Longrightarrow> cursor_ok t"
  by (simp add: on_screen_def cursor_ok_def)

lemma col_Suc: "c < (80 :: u8) \<Longrightarrow> c + 1 \<le> 80"
  by unat_arith

lemma plain_on_screen: "screen_ok t \<Longrightarrow> c \<noteq> 10 \<Longrightarrow> \<exists>t'. putchar_plain c fg t = Some t' \<and> cursor_ok t'"
  using plain_calm [of t c fg] on_cursor_ok by (fastforce simp: screen_ok_def intro: col_Suc)

lemma plain_ok:
  assumes "cursor_ok t" "c \<noteq> 10"
  shows "\<exists>t'. putchar_plain c fg t = Some t' \<and> cursor_ok t'"
proof (cases "cursor_col t < 80")
  case True
  then show ?thesis using assms plain_on_screen by (simp add: cursor_ok_def screen_ok_def)
next
  case False
  then have c: "cursor_col t = 80" using assms(1) unfolding cursor_ok_def by unat_arith
  let ?t = "t\<lparr> cursor_col := 0, cursor_row := cursor_row t + 1 \<rparr>"
  have eq: "putchar_plain c fg t = putchar_plain c fg ?t" using c by (simp add: putchar_plain_def bounds_defs)
  show ?thesis
  proof (cases "cursor_row t < 24")
    case True
    then show ?thesis
      using assms plain_on_screen [of ?t] row_Suc(1) [OF True] unfolding eq by (simp add: cursor_ok_def screen_ok_def)
  next
    case False
    then have r: "cursor_row t = 24" using assms(1) unfolding cursor_ok_def by unat_arith
    have len: "length (vram ?t) = 4000" using assms(1) by (simp add: cursor_ok_def)
    obtain u where u: "framebuffer_write 25 0 c fg 0 ?t = Some u" "on_screen u (set_cell (vram (scroll_down ?t)) 24 0 c (color_of fg 0)) 24 0"
      using fb_scrolls(2) [OF len assms(2), of 0 fg 0] fb_calm_screen [OF scroll_down_ok [OF len] assms(2), of 24 0 fg 0] by auto
    then show ?thesis
      unfolding eq using r len by (simp add: putchar_plain_def bounds_defs cursor_ok_def on_screen_def)
  qed
qed

lemma backspace_ok:
  assumes "screen_ok t"
  shows "\<exists>t'. putchar_backspace t = Some t' \<and> screen_ok t'"
proof -
  consider "cursor_row t > 0" "cursor_col t = 0" | "cursor_col t > 0" | "\<not> (cursor_row t > 0 \<and> cursor_col t = 0)" "\<not> cursor_col t > 0" by blast
  then show ?thesis
  proof cases
    case 1
    have "screen_ok (t\<lparr> cursor_col := 79, cursor_row := cursor_row t - 1 \<rparr>)"
      using assms 1 unfolding screen_ok_def by simp unat_arith
    from fb_calm [OF this, of 32 "cursor_row t - 1" 79 15 0] this 1 show ?thesis
      by (simp add: putchar_backspace_def bounds_defs screen_ok_def)
  next
    case 2
    have "screen_ok (t\<lparr> cursor_col := cursor_col t - 1 \<rparr>)"
      using assms 2 unfolding screen_ok_def by simp unat_arith
    from fb_calm [OF this, of 32 "cursor_row t" "cursor_col t - 1" 15 0] this 2 show ?thesis
      by (auto simp: putchar_backspace_def bounds_defs screen_ok_def)
  next
    case 3
    with assms show ?thesis by (auto simp: putchar_backspace_def)
  qed
qed

lemma tab_ok:
  assumes "screen_ok t"
  shows "\<exists>t'. for_range 0 4 (\<lambda>_. putchar_plain 32 15) t = Some t' \<and> cursor_ok t'"
  by (rule for_range_inv [where I = "\<lambda>_. cursor_ok"]) (use assms plain_ok screen_cursor_ok in auto)

lemma putchar_ok:
  assumes "screen_ok t"
  shows "\<exists>t'. putchar c color t = Some t' \<and> screen_ok t'"
proof (cases "c = 0")
  case True
  with assms show ?thesis by (simp add: putchar_def)
next
  case False
  have newline: "\<exists>t'. putchar_newline t = Some t' \<and> cursor_ok t'"
    using newline_screen [OF assms] on_cursor_ok assms row_Suc(1) by (fastforce simp: screen_ok_def)
  have "\<exists>t'. (if c = 10 then putchar_newline t else if c = 9 then for_range 0 4 (\<lambda>_. putchar_plain 32 0xF) t
      else if c = 8 then putchar_backspace t else putchar_plain c color t) = Some t' \<and> cursor_ok t'"
    using newline tab_ok [OF assms] backspace_ok [OF assms] plain_on_screen [OF assms] by (auto intro: screen_cursor_ok)
  then obtain t' where t': "(if c = 10 then putchar_newline t else if c = 9 then for_range 0 4 (\<lambda>_. putchar_plain 32 0xF) t
      else if c = 8 then putchar_backspace t else putchar_plain c color t) = Some t'" "cursor_ok t'" by blast
  from t'(2) obtain u where "framebuffer_write (cursor_row t') (cursor_col t' + 1) 32 15 0 t' = Some u" "screen_ok u"
    using blank_ok [of t'] by (auto simp: cursor_ok_def)
  with False t'(1) show ?thesis by (simp add: putchar_def)
qed

lemma clip_calm: "screen_ok t \<Longrightarrow> clip_row f t = Some t"
  by (simp add: clip_row_def bounds_defs screen_ok_def less_not_le)

lemma puts_chars_ok:
  assumes "screen_ok t"
  shows "\<exists>t'. puts_chars ch n color t = Some t' \<and> screen_ok t'"
proof -
  have "\<exists>t'. Option.bind (putchar c color t) (clip_row framebuffer_auto_down) = Some t' \<and> screen_ok t'" if "screen_ok t" for c t
    using putchar_ok [OF that, of c color] clip_calm by fastforce
  then show ?thesis
    unfolding puts_chars_def by (intro for_range_inv [where I = "\<lambda>_. screen_ok"]) (use assms in auto)
qed

section \<open>Text on one row\<close>

lemma putchar_text:
  assumes "screen_ok t" "c \<notin> {0, 8, 9, 10}" "unat (cursor_col t) < 78"
  shows "\<exists>t'. putchar c fg t = Some t' \<and>
    on_screen t' (set_cell (set_cell (vram t) (unat (cursor_row t)) (unat (cursor_col t)) c (color_of fg 0))
      (unat (cursor_row t)) (unat (cursor_col t) + 2) 32 15) (cursor_row t) (cursor_col t + 1)"
proof -
  have col: "unat (cursor_col t + 1) = unat (cursor_col t) + 1" using assms(3) by (simp add: unat_word_ariths)
  then have lt: "cursor_col t + 1 < 79" unfolding word_less_nat_alt col using assms(3) by simp
  obtain u where u: "putchar_plain c fg t = Some u"
    "on_screen u (set_cell (vram t) (unat (cursor_row t)) (unat (cursor_col t)) c (color_of fg 0)) (cursor_row t) (cursor_col t + 1)"
    using plain_calm [OF assms(1)] assms(2) by auto
  have "cursor_col u < 79" using lt on_screenD [OF u(2)] by simp
  moreover from this have "screen_ok u"
    using assms(1) on_screenD [OF u(2)] less_trans [of "cursor_col t + 1" 79 80] by (simp add: screen_ok_def)
  ultimately obtain t' where "framebuffer_write (cursor_row u) (cursor_col u + 1) 32 15 0 u = Some t'"
    "on_screen t' (set_cell (vram u) (unat (cursor_row u)) (unat (cursor_col u) + 1) 32 15) (cursor_row u) (cursor_col u)"
    using blank_calm by blast
  then show ?thesis
    using assms(2) u(1) on_screenD [OF u(2)] col by (simp add: putchar_def)
qed

text \<open>What a row shows after \<open>k\<close> characters from column \<open>c0\<close> on.\<close>

definition shows_text :: "terminal \<Rightarrow> (nat \<Rightarrow> u8) \<Rightarrow> u8 \<Rightarrow> nat \<Rightarrow> terminal \<Rightarrow> bool" where
  "shows_text t ch color k t' =
     (length (vram t') = 4000 \<and> cursor_row t' = cursor_row t \<and> unat (cursor_col t') = unat (cursor_col t) + k \<and>
      (\<forall>r < 25. \<forall>c < 80. cell (vram t') r c =
        (if r = unat (cursor_row t) \<and> unat (cursor_col t) \<le> c \<and> c < unat (cursor_col t) + k
         then (ch (c - unat (cursor_col t)), color)
         else if r = unat (cursor_row t) \<and> 0 < k \<and> unat (cursor_col t) + 2 \<le> c \<and> c \<le> unat (cursor_col t) + k + 1
         then (32, 15) else cell (vram t) r c)))"

lemma shows_text_step:
  assumes t: "screen_ok t" "shows_text t ch (color_of fg 0) k t'" and k: "unat (cursor_col t) + k < 78" and c: "ch k \<notin> {0, 8, 9, 10}"
  shows "\<exists>t''. putchar (ch k) fg t' = Some t'' \<and> shows_text t ch (color_of fg 0) (Suc k) t''"
proof -
  let ?r = "unat (cursor_row t)" and ?c = "unat (cursor_col t) + k"
  have f: "length (vram t') = 4000" "cursor_row t' = cursor_row t" "unat (cursor_col t') = ?c" using t(2) by (simp_all add: shows_text_def)
  have ok: "screen_ok t'" using f t(1) k by (simp add: screen_ok_def word_less_nat_alt)
  obtain u where u: "putchar (ch k) fg t' = Some u"
    "on_screen u (set_cell (set_cell (vram t') ?r ?c (ch k) (color_of fg 0)) ?r (?c + 2) 32 15) (cursor_row t) (cursor_col t' + 1)"
    using putchar_text [OF ok c, of fg] f k by auto
  have col: "unat (cursor_col t' + 1) = ?c + 1" using f(3) k by (simp add: unat_word_ariths)
  have r: "?r < 25" using t(1) unat_less(1) by (simp add: screen_ok_def)
  have "shows_text t ch (color_of fg 0) (Suc k) u"
    using t(2) on_screenD [OF u(2)] col f(1) r k by (auto simp: shows_text_def cell_set_cell)
  with u(1) show ?thesis by blast
qed

lemma puts_shows_text:
  assumes "screen_ok t" "unat (cursor_col t) + nat n \<le> 78" and "\<forall>i < nat n. ch i \<notin> {0, 8, 9, 10}"
  shows "\<exists>t'. puts_chars ch n color t = Some t' \<and> shows_text t ch (color_of color 0) (nat n) t'"
  unfolding puts_chars_def
proof (rule for_range_inv [where I = "shows_text t ch (color_of color 0)"])
  show "shows_text t ch (color_of color 0) 0 t"
    using assms(1) by (auto simp: shows_text_def screen_ok_def)
next
  fix i s assume i: "0 \<le> i" "i < nat n" and I: "shows_text t ch (color_of color 0) i s"
  obtain u where u: "putchar (ch i) color s = Some u" "shows_text t ch (color_of color 0) (Suc i) u"
    using shows_text_step [OF assms(1) I] assms(2,3) i by auto
  have "cursor_row u < 25" using u(2) assms(1) by (simp add: shows_text_def screen_ok_def)
  then have "clip_row framebuffer_auto_down u = Some u" by (simp add: clip_row_def bounds_defs less_not_le)
  with u show "\<exists>s'. Option.bind (putchar (ch i) color s) (clip_row framebuffer_auto_down) = Some s' \<and>
      shows_text t ch (color_of color 0) (Suc i) s'" by simp
qed simp

section \<open>The last cell of the screen\<close>

lemma last_cell_step:
  assumes "screen_ok t" "cursor_row t = 24" "cursor_col t = 79" "c \<notin> {0, 8, 9, 10}"
  shows "\<exists>t'. putchar c fg t = Some t' \<and> cursor_row t' = 24 \<and> cursor_col t' = 0 \<and>
    (\<forall>j < 79. cell (vram t') 22 j = cell (vram t) 24 j) \<and> cell (vram t') 22 79 = (c, color_of fg 0) \<and>
    (\<forall>j. 1 \<le> j \<and> j < 79 \<longrightarrow> cell (vram t') 23 j = cell (vram t) 24 j) \<and> cell (vram t') 23 79 = (c, color_of fg 0)"
proof -
  let ?v = "set_cell (vram t) 24 79 c (color_of fg 0)"
  have len: "length (vram t) = 4000" using assms(1) by (simp add: screen_ok_def)
  obtain u where u: "putchar_plain c fg t = Some u" "on_screen u ?v 24 80"
    using plain_calm [OF assms(1)] assms(2-4) by auto
  have lenu: "length (vram u) = 4000" and fu: "vram u = ?v" "cursor_row u = 24" "cursor_col u = 80"
    using on_screenD [OF u(2)] len by simp_all
  obtain t' where t': "framebuffer_write (cursor_row u) (cursor_col u + 1) 32 15 0 u = Some t'"
    "on_screen t' (set_cell (vram (scroll_down u)) 24 0 32 15) 24 0"
    using blank_scrolls [OF lenu fu(2)] fu(3) by auto
  have v: "vram (scroll_down u) = blanked 1 (blanked 0 (moved_up (set_cell (moved_up ?v) 24 0 32 7)))"
    using fu by (simp add: scroll_down_def wrapped_def Let_def calm_down_def)
  have cells: "cell (vram t') r j = (if r = 22 then cell ?v 24 j else if j = 0 then (32, 7) else cell ?v 24 j)" if "r = 22 \<or> r = 23" "j < 80" for r j
    unfolding on_screenD(1) [OF t'(2)] v using that len by (auto simp: cell_set_cell cell_blanked cell_moved_up)
  have "putchar c fg t = Some t'" using u(1) t'(1) assms(4) by (simp add: putchar_def)
  moreover have "cell ?v 24 j = (if j = 79 then (c, color_of fg 0) else cell (vram t) 24 j)" if "j < 80" for j
    using that len by (simp add: cell_set_cell)
  ultimately show ?thesis using cells on_screenD [OF t'(2)] by (simp add: all_conj_distrib)
qed

end
