(* ===== verification/Keyboard.thy ===== *)
theory Keyboard
  imports Terminal
begin

text \<open>
  The keyboard, \<open>src/src/keyboard.c\<close>: the scancode tables, the buffer of one character that the
  interrupt routine fills and \<open>get_keyboard_buffer\<close> empties, and the line of command that the
  system calls collect.  The arrow keys move the cursor of the screen.
\<close>

section \<open>Scancodes\<close>

text \<open>The tables, rows of 16 codes; the codes from \<open>0x60\<close> on have no character.\<close>

definition keyboard_scancode_1_to_ascii_map :: "u8 list" where
  "keyboard_scancode_1_to_ascii_map =
     [0, 0x1B] @ cstr ''1234567890-='' @ [8, 9] @
     cstr ''qwertyuiop[]'' @ [10, 0] @ cstr ''as'' @
     cstr ''dfghjkl;'' @ [39, 96, 0, 92] @ cstr ''zxcv'' @
     cstr ''bnm,./'' @ [0, 42, 0, 32] @ replicate 6 0 @
     replicate 10 0 @ [45, 0, 0, 0, 43, 0] @
     replicate 176 0"

definition keyboard_scancode_caps_to_ascii_map :: "u8 list" where
  "keyboard_scancode_caps_to_ascii_map =
     [0, 0x1B] @ cstr ''1234567890-='' @ [8, 9] @
     cstr ''QWERTYUIOP[]'' @ [10, 0] @ cstr ''AS'' @
     cstr ''DFGHJKL;'' @ [39, 96, 0, 92] @ cstr ''ZXCV'' @
     cstr ''BNM,./'' @ [0, 42, 0, 32] @ replicate 6 0 @
     replicate 10 0 @ [45, 0, 0, 0, 43, 0] @
     replicate 176 0"

definition keyboard_scancode_shift_to_ascii_map :: "u8 list" where
  "keyboard_scancode_shift_to_ascii_map =
     [0, 0x1B] @ cstr ''!@#$%^&*()_+'' @ [8, 9] @
     cstr ''QWERTYUIOP{}'' @ [10, 0] @ cstr ''AS'' @
     cstr ''DFGHJKL:'' @ [34, 126, 0, 124] @ cstr ''ZXCV'' @
     cstr ''BNM<>?'' @ [0, 42, 0, 32] @ replicate 6 0 @
     replicate 192 0"

definition CAPSLOCK_SCANCODE :: u8 where "CAPSLOCK_SCANCODE = 0x3A"
definition LEFT_SHIFT_SCANCODE :: u8 where "LEFT_SHIFT_SCANCODE = 0x2A"
definition RIGHT_SHIFT_SCANCODE :: u8 where "RIGHT_SHIFT_SCANCODE = 0x36"
definition LEFT_SHIFT_RELEASE_SCANCODE :: u8 where "LEFT_SHIFT_RELEASE_SCANCODE = 0xAA"
definition RIGHT_SHIFT_RELEASE_SCANCODE :: u8 where "RIGHT_SHIFT_RELEASE_SCANCODE = 0xB6"
definition CTRL_SCANCODE :: u8 where "CTRL_SCANCODE = 0x1D"
definition CTRL_RELEASE_SCANCODE :: u8 where "CTRL_RELEASE_SCANCODE = 0x9D"
definition EXT_SCANCODE_UP :: u8 where "EXT_SCANCODE_UP = 0x48"
definition EXT_SCANCODE_DOWN :: u8 where "EXT_SCANCODE_DOWN = 0x50"
definition EXT_SCANCODE_LEFT :: u8 where "EXT_SCANCODE_LEFT = 0x4B"
definition EXT_SCANCODE_RIGHT :: u8 where "EXT_SCANCODE_RIGHT = 0x4D"
definition KEYBOARD_DATA_PORT :: u16 where "KEYBOARD_DATA_PORT = 0x60"

lemmas scancode_defs = CAPSLOCK_SCANCODE_def LEFT_SHIFT_SCANCODE_def RIGHT_SHIFT_SCANCODE_def
  LEFT_SHIFT_RELEASE_SCANCODE_def RIGHT_SHIFT_RELEASE_SCANCODE_def CTRL_SCANCODE_def CTRL_RELEASE_SCANCODE_def
  EXT_SCANCODE_UP_def EXT_SCANCODE_DOWN_def EXT_SCANCODE_LEFT_def EXT_SCANCODE_RIGHT_def

section \<open>State\<close>

record keyboard =
  read_extended_mode :: bool
  keyboard_input_on :: bool
  keyboard_buffer :: u8
  capslock_on :: bool
  shift_on :: bool
  ctrl_on :: bool
  command :: "u8 list"
  kb_idx :: int

definition keyboard_state :: keyboard where
  "keyboard_state = \<lparr> read_extended_mode = False, keyboard_input_on = False, keyboard_buffer = 0,
     capslock_on = False, shift_on = False, ctrl_on = False, command = replicate 100 0, kb_idx = 0 \<rparr>"

definition keyboard_state_activate :: "keyboard \<Rightarrow> keyboard" where
  "keyboard_state_activate k = k\<lparr> keyboard_input_on := True \<rparr>"

definition keyboard_state_deactivate :: "keyboard \<Rightarrow> keyboard" where
  "keyboard_state_deactivate k = k\<lparr> keyboard_input_on := False \<rparr>"

definition get_keyboard_buffer :: "keyboard \<Rightarrow> u8 \<times> keyboard" where
  "get_keyboard_buffer k = (keyboard_buffer k, k\<lparr> keyboard_buffer := 0 \<rparr>)"

section \<open>The line of command\<close>

definition add_command :: "u8 \<Rightarrow> keyboard \<Rightarrow> keyboard option" where
  "add_command c k =
     do { cmd \<leftarrow> arr_seti (command k) (kb_idx k) c;
          Some (k\<lparr> command := cmd, kb_idx := kb_idx k + 1 \<rparr>) }"

text \<open>\<open>commandShell\<close> is the caller's array.\<close>

definition get_command :: "keyboard \<Rightarrow> u8 list \<Rightarrow> (u8 list \<times> int) option" where
  "get_command k commandShell =
     do { a \<leftarrow> for_range 0 (nat (kb_idx k)) (\<lambda>i a. Option.bind (arr_get (command k) i) (arr_set a i)) commandShell;
          a \<leftarrow> for_range (nat (kb_idx k)) 100 (\<lambda>i a. arr_set a i 0) a;
          Some (a, kb_idx k) }"

definition clear_command :: "keyboard \<Rightarrow> keyboard option" where
  "clear_command k =
     do { cmd \<leftarrow> for_range 0 (nat (kb_idx k)) (\<lambda>i a. arr_set a i 0) (command k);
          Some (k\<lparr> command := cmd, kb_idx := 0 \<rparr>) }"

definition delete_command :: "keyboard \<Rightarrow> keyboard option" where
  "delete_command k =
     (if kb_idx k = 0 then Some k
      else do { cmd \<leftarrow> arr_seti (command k) (kb_idx k - 1) 0;
                Some (k\<lparr> kb_idx := kb_idx k - 1, command := cmd \<rparr>) })"

section \<open>The interrupt routine\<close>

definition modifier :: "u8 \<Rightarrow> keyboard \<Rightarrow> keyboard" where
  "modifier scancode k =
     (if scancode = LEFT_SHIFT_SCANCODE \<or> scancode = RIGHT_SHIFT_SCANCODE then k\<lparr> shift_on := True \<rparr>
      else if scancode = LEFT_SHIFT_RELEASE_SCANCODE \<or> scancode = RIGHT_SHIFT_RELEASE_SCANCODE then k\<lparr> shift_on := False \<rparr>
      else if scancode = CTRL_SCANCODE then k\<lparr> ctrl_on := True \<rparr>
      else if scancode = CTRL_RELEASE_SCANCODE then k\<lparr> ctrl_on := False \<rparr>
      else k)"

text \<open>The arrow keys; \<open>None\<close> when the scancode is not handled here and the routine goes on.\<close>

definition arrow :: "u8 \<Rightarrow> terminal \<Rightarrow> terminal option" where
  "arrow scancode t =
     (if scancode = EXT_SCANCODE_UP
      then Some (if cursor_row t > 0 then framebuffer_set_cursor (cursor_row t - 1) (cursor_col t) t else t)
      else if scancode = EXT_SCANCODE_DOWN
      then Some (if cursor_row t < TERMINAL_HEIGHT - 1 then framebuffer_set_cursor (cursor_row t + 1) (cursor_col t) t else t)
      else if scancode = EXT_SCANCODE_RIGHT \<and> \<not> (cursor_row t = TERMINAL_HEIGHT - 1 \<and> cursor_col t = TERMINAL_WIDTH - 1)
      then Some (if cursor_col t = TERMINAL_WIDTH - 1 then framebuffer_set_cursor (cursor_row t + 1) 0 t
                 else framebuffer_set_cursor (cursor_row t) (cursor_col t + 1) t)
      else if scancode = EXT_SCANCODE_LEFT \<and> \<not> (cursor_row t = 0 \<and> cursor_col t = 0)
      then Some (if cursor_col t = 0 then framebuffer_set_cursor (cursor_row t - 1) (TERMINAL_WIDTH - 1) t
                 else framebuffer_set_cursor (cursor_row t) (cursor_col t - 1) t)
      else None)"

text \<open>The table access and the correction after it.  The correction is for the letters \<open>a\<close> to \<open>z\<close>.\<close>

definition to_ascii :: "u8 \<Rightarrow> keyboard \<Rightarrow> u8 option" where
  "to_ascii scancode k =
     do { ascii_char \<leftarrow> arr_get (if capslock_on k then keyboard_scancode_caps_to_ascii_map
                           else if shift_on k then keyboard_scancode_shift_to_ascii_map
                           else keyboard_scancode_1_to_ascii_map) (unat scancode);
          Some (if capslock_on k \<and> 97 \<le> ascii_char \<and> ascii_char \<le> 122 then ascii_char + (97 - 65) else ascii_char) }"

definition keyboard_isr :: "device \<Rightarrow> keyboard \<Rightarrow> terminal \<Rightarrow> (keyboard \<times> terminal) option" where
  "keyboard_isr dev k t =
     (let (scancode, b) = inb dev KEYBOARD_DATA_PORT (bus t); t = t\<lparr> bus := b \<rparr>
      in if keyboard_input_on k
         then if scancode = CAPSLOCK_SCANCODE then Some (k\<lparr> capslock_on := \<not> capslock_on k \<rparr>, t)
              else let k = modifier scancode k
              in case arrow scancode t of
                   Some t \<Rightarrow> Some (k, t)
                 | None \<Rightarrow> do { c \<leftarrow> to_ascii scancode k; Some (k\<lparr> keyboard_buffer := c \<rparr>, t) }
         else Some (k, t))"

end
