(* ===== verification/Hardware.thy ===== *)
theory Hardware
  imports Ports
begin

text \<open>
  Programming the interrupt controllers, the timer and the real time clock, from
  \<open>src/src/interrupt.c\<close>: the accesses each function makes to the ports.  The reference is the part
  of an 8259 interrupt controller that these accesses drive: its initialisation sequence, its vector
  offset and its mask.
\<close>

unbundle bit_operations_syntax

section \<open>Ports and commands\<close>

definition PIC1_COMMAND :: u16 where "PIC1_COMMAND = 0x20"
definition PIC1_DATA :: u16 where "PIC1_DATA = 0x21"
definition PIC2_COMMAND :: u16 where "PIC2_COMMAND = 0xA0"
definition PIC2_DATA :: u16 where "PIC2_DATA = 0xA1"
definition PIC_ACK :: u8 where "PIC_ACK = 0x20"
definition PIC_DISABLE_ALL_MASK :: u8 where "PIC_DISABLE_ALL_MASK = 0xFF"
definition PIC1_OFFSET :: u8 where "PIC1_OFFSET = 0x20"
definition PIC2_OFFSET :: u8 where "PIC2_OFFSET = 0x28"
definition ICW1_ICW4 :: u8 where "ICW1_ICW4 = 0x01"
definition ICW1_INIT :: u8 where "ICW1_INIT = 0x10"
definition ICW4_8086 :: u8 where "ICW4_8086 = 0x01"
definition IRQ_TIMER :: nat where "IRQ_TIMER = 0"
definition IRQ_KEYBOARD :: nat where "IRQ_KEYBOARD = 1"
definition CMOS_ADDRESS_PORT :: u16 where "CMOS_ADDRESS_PORT = 0x70"
definition CMOS_DATA_PORT :: u16 where "CMOS_DATA_PORT = 0x71"
definition PIT_TIMER_COUNTER :: u32 where "PIT_TIMER_COUNTER = 1193182 div 1000"
definition PIT_COMMAND_REGISTER_PIO :: u16 where "PIT_COMMAND_REGISTER_PIO = 0x43"
definition PIT_COMMAND_VALUE :: u8 where
  "PIT_COMMAND_VALUE = 0b0 OR push_bit 1 0b011 OR push_bit 4 0b11 OR push_bit 6 0b00"
definition PIT_CHANNEL_0_DATA_PIO :: u16 where "PIT_CHANNEL_0_DATA_PIO = 0x40"

lemmas pic_defs = PIC1_COMMAND_def PIC1_DATA_def PIC2_COMMAND_def PIC2_DATA_def PIC_ACK_def PIC_DISABLE_ALL_MASK_def
  PIC1_OFFSET_def PIC2_OFFSET_def ICW1_ICW4_def ICW1_INIT_def ICW4_8086_def IRQ_TIMER_def IRQ_KEYBOARD_def

section \<open>The functions\<close>

definition io_wait :: "bus \<Rightarrow> bus" where
  "io_wait = out 0x80 0"

definition pic_ack :: "u8 \<Rightarrow> bus \<Rightarrow> bus" where
  "pic_ack irq b =
     (let b = (if irq \<ge> 8 then out PIC2_COMMAND PIC_ACK b else b) in out PIC1_COMMAND PIC_ACK b)"

definition pic_remap :: "bus \<Rightarrow> bus" where
  "pic_remap b =
     (let b = io_wait (out PIC1_COMMAND (ICW1_INIT OR ICW1_ICW4) b);
          b = io_wait (out PIC2_COMMAND (ICW1_INIT OR ICW1_ICW4) b);
          b = io_wait (out PIC1_DATA PIC1_OFFSET b);
          b = io_wait (out PIC2_DATA PIC2_OFFSET b);
          b = io_wait (out PIC1_DATA 0b0100 b);
          b = io_wait (out PIC2_DATA 0b0010 b);
          b = io_wait (out PIC1_DATA ICW4_8086 b);
          b = io_wait (out PIC2_DATA ICW4_8086 b);
          b = out PIC1_DATA PIC_DISABLE_ALL_MASK b
      in out PIC2_DATA PIC_DISABLE_ALL_MASK b)"

text \<open>The value written is an \<open>int\<close> with the mask's bit cleared, truncated to 8 bits.\<close>

definition activate_timer_interrupt :: "device \<Rightarrow> bus \<Rightarrow> bus" where
  "activate_timer_interrupt dev b =
     (let pit_timer_counter_to_fire = PIT_TIMER_COUNTER;
          b = out PIT_COMMAND_REGISTER_PIO PIT_COMMAND_VALUE b;
          b = out PIT_CHANNEL_0_DATA_PIO (ucast (pit_timer_counter_to_fire AND 0xFF)) b;
          b = out PIT_CHANNEL_0_DATA_PIO (ucast (drop_bit 8 pit_timer_counter_to_fire AND 0xFF)) b;
          (m, b) = inb dev PIC1_DATA b
      in out PIC1_DATA (m AND NOT (push_bit IRQ_TIMER 1)) b)"

definition activate_keyboard_interrupt :: "device \<Rightarrow> bus \<Rightarrow> bus" where
  "activate_keyboard_interrupt dev b =
     (let (m, b) = inb dev PIC1_DATA b in out PIC1_DATA (m AND NOT (push_bit IRQ_KEYBOARD 1)) b)"

definition cmos_read :: "device \<Rightarrow> u8 \<Rightarrow> bus \<Rightarrow> u8 \<times> bus" where
  "cmos_read dev reg b = inb dev CMOS_DATA_PORT (out CMOS_ADDRESS_PORT reg b)"

section \<open>An interrupt controller\<close>

text \<open>The controller with its command port at \<open>cmd\<close> and its data port after it: an initialisation
  command word (bit 4) starts the sequence of three data words, vector offset, cascade and mode;
  a data word outside the sequence is the mask.  \<open>acks\<close> counts the end-of-interrupt commands.\<close>

record pic =
  icw :: nat
  offset :: u8
  cascade :: u8
  mode :: u8
  mask_reg :: u8
  acks :: nat

definition reset_pic :: pic where
  "reset_pic = \<lparr> icw = 0, offset = 0, cascade = 0, mode = 0, mask_reg = 0, acks = 0 \<rparr>"

fun pic_event :: "u16 \<Rightarrow> io_event \<Rightarrow> pic \<Rightarrow> pic" where
  "pic_event cmd (Out port v) c =
     (if port = cmd
      then (if bit v 4 then c\<lparr> icw := 3, mask_reg := 0 \<rparr> else if v = 0x20 then c\<lparr> acks := acks c + 1 \<rparr> else c)
      else if port = cmd + 1
      then (if icw c = 3 then c\<lparr> icw := 2, offset := v \<rparr>
            else if icw c = 2 then c\<lparr> icw := 1, cascade := v \<rparr>
            else if icw c = 1 then c\<lparr> icw := 0, mode := v \<rparr>
            else c\<lparr> mask_reg := v \<rparr>)
      else c)"
| "pic_event cmd _ c = c"

definition pic_after :: "u16 \<Rightarrow> bus \<Rightarrow> pic \<Rightarrow> pic" where
  "pic_after cmd b c = fold (pic_event cmd) b c"

text \<open>A machine in which reading a controller's data port gives its mask.\<close>

definition pic_device :: "device \<Rightarrow> pic \<Rightarrow> bool" where
  "pic_device dev c0 = (\<forall>b. ucast (dev b PIC1_DATA) = mask_reg (pic_after PIC1_COMMAND b c0))"

lemma pic_after_append [simp]: "pic_after cmd (b @ b') c = pic_after cmd b' (pic_after cmd b c)"
  by (simp add: pic_after_def)

lemma pic_after_simps [simp]:
  "pic_after cmd [] c = c" "pic_after cmd (e # b) c = pic_after cmd b (pic_event cmd e c)"
  by (simp_all add: pic_after_def)

lemma remap_masters: "pic_after PIC1_COMMAND (pic_remap b) c0 = (pic_after PIC1_COMMAND b c0)
    \<lparr> icw := 0, offset := 0x20, cascade := 4, mode := 1, mask_reg := 0xFF \<rparr>"
  by (simp add: pic_remap_def io_wait_def out_def pic_defs Let_def bit_simps)

lemma remap_slaves: "pic_after PIC2_COMMAND (pic_remap b) c0 = (pic_after PIC2_COMMAND b c0)
    \<lparr> icw := 0, offset := 0x28, cascade := 2, mode := 1, mask_reg := 0xFF \<rparr>"
  by (simp add: pic_remap_def io_wait_def out_def pic_defs Let_def bit_simps)

lemma keyboard_mask:
  assumes "pic_device dev c0" "icw (pic_after PIC1_COMMAND b c0) = 0"
  shows "mask_reg (pic_after PIC1_COMMAND (activate_keyboard_interrupt dev b) c0) = mask_reg (pic_after PIC1_COMMAND b c0) AND NOT 2"
  using assms by (simp add: pic_device_def activate_keyboard_interrupt_def inb_def out_def pic_defs Let_def)

lemma timer_mask:
  assumes "pic_device dev c0" "icw (pic_after PIC1_COMMAND b c0) = 0"
  shows "mask_reg (pic_after PIC1_COMMAND (activate_timer_interrupt dev b) c0) = mask_reg (pic_after PIC1_COMMAND b c0) AND NOT 1"
  using assms spec [of "\<lambda>b'. ucast (dev b' PIC1_DATA) = mask_reg (pic_after PIC1_COMMAND b' c0)"]
  by (simp add: pic_device_def activate_timer_interrupt_def inb_def out_def pic_defs Let_def
      PIT_COMMAND_REGISTER_PIO_def PIT_CHANNEL_0_DATA_PIO_def)

end
