(* ===== verification/System.thy ===== *)
theory System
  imports Scheduler Keyboard Hardware
begin

text \<open>
  The system calls and the interrupt handler, \<open>src/src/interrupt.c\<close>.  The machine is the kernel's
  state, the terminal (with the accesses to the ports), the keyboard and the shell's directory.
  A pointer that a process passes is an address in the memory of the active page directory; a
  structure is read and written there byte by byte, with the layout of the packed C structures.
  Parameters: the devices, and the addresses of the page directories (\<open>pd_addr\<close>), which appear in
  the process blocks that system call 15 copies out.
\<close>

record machine =
  kern :: kernel
  scrn :: terminal
  kbd :: keyboard
  shl :: shell
  hlt :: bool

text \<open>The memory of the active process.\<close>

definition user_mem :: "machine \<Rightarrow> mem" where
  "user_mem s = space (kern s) (cr3 (kern s))"

definition set_user_mem :: "mem \<Rightarrow> machine \<Rightarrow> machine" where
  "set_user_mem m s = s\<lparr> kern := (kern s)\<lparr> space := (space (kern s))(cr3 (kern s) := m) \<rparr> \<rparr>"

definition store_at :: "u32 \<Rightarrow> u8 list \<Rightarrow> machine \<Rightarrow> machine" where
  "store_at p bs s = set_user_mem (mem_store (user_mem s) p bs) s"

definition set_fs :: "fs \<Rightarrow> machine \<Rightarrow> machine" where
  "set_fs f s = s\<lparr> kern := (kern s)\<lparr> k_fs := f \<rparr> \<rparr>"

section \<open>Structures in memory\<close>

text \<open>\<open>struct FAT32DriverRequest\<close>, packed: 23 bytes.\<close>

definition encode_request :: "request \<Rightarrow> u8 list" where
  "encode_request r =
     bytes32 (r_buf r) @ r_name r @ r_ext r @ bytes32 (parent_cluster_number r) @ bytes32 (buffer_size r)"

definition load32 :: "u8 list \<Rightarrow> nat \<Rightarrow> u32" where
  "load32 bs i = le32 (bs ! i) (bs ! (i + 1)) (bs ! (i + 2)) (bs ! (i + 3))"

definition decode_request :: "u8 list \<Rightarrow> request" where
  "decode_request bs =
     \<lparr> r_buf = load32 bs 0, r_name = take 8 (drop 4 bs), r_ext = take 3 (drop 12 bs),
       parent_cluster_number = load32 bs 15, buffer_size = load32 bs 19 \<rparr>"

definition request_at :: "machine \<Rightarrow> u32 \<Rightarrow> request" where
  "request_at s p = decode_request (mem_load (user_mem s) p 23)"

text \<open>An \<open>int\<close> and an \<open>int8_t\<close> result.\<close>

definition int_bytes :: "int \<Rightarrow> u8 list" where
  "int_bytes n = bytes32 (word_of_int n)"

definition int8_byte :: "int \<Rightarrow> u8 list" where
  "int8_byte n = [word_of_int n]"

text \<open>\<open>struct ProcessControlBlock\<close>: 116 bytes, with three bytes of padding after \<open>metadata\<close>, written as
  zero.\<close>

definition encode_state :: "process_state \<Rightarrow> u8 list" where
  "encode_state st = int_bytes (case st of READY \<Rightarrow> 0 | RUNNING \<Rightarrow> 1 | BLOCKED \<Rightarrow> 2)"

definition encode_cpu :: "cpu_register \<Rightarrow> u8 list" where
  "encode_cpu c = concat (map bytes32 [edi c, esi c, ebp c, esp c, ebx c, edx c, ecx c, eax c, gs c, fs_seg c, es c, ds c])"

definition encode_pcb :: "(pd_ptr \<Rightarrow> u32) \<Rightarrow> pcb \<Rightarrow> u8 list" where
  "encode_pcb pd_addr b =
     bytes32 (pid b) @ encode_state (cur_state b) @ [if active b then 1 else 0] @ p_name b @ [0, 0, 0] @
     encode_cpu (cpu (p_context b)) @ bytes32 (eip (p_context b)) @ bytes32 (eflags (p_context b)) @
     bytes32 (pd_addr (page_directory_virtual_addr (p_context b))) @
     concat (map bytes32 (virtual_addr_used b)) @ bytes32 (page_frame_used_count b)"

section \<open>Printing what \<open>find\<close> found\<close>

text \<open>The path from a folder up to the root, whose parent is the root itself.\<close>

partial_function (option) printDirPath_loop :: "fs \<Rightarrow> int \<Rightarrow> dirtable \<Rightarrow> int \<Rightarrow> terminal \<Rightarrow> terminal option" where
  "printDirPath_loop f current_cluster dir_table parent_cluster t =
     (if current_cluster \<noteq> parent_cluster
      then do {
        t \<leftarrow> puts_list (name (dir_table ! 0)) 0xF t;
        t \<leftarrow> putchar 47 0xF t;
        let current_cluster = parent_cluster;
        let dir_table = decode_table (read_clusters (image f) (word_of_int current_cluster) 1);
        printDirPath_loop f current_cluster dir_table (sint (entry_cluster (dir_table ! 1))) t }
      else Some t)"

definition printDirPath :: "fs \<Rightarrow> int \<Rightarrow> terminal \<Rightarrow> terminal option" where
  "printDirPath f cluster t =
     do { let dir_table = decode_table (read_clusters (image f) (word_of_int cluster) 1);
          t \<leftarrow> printDirPath_loop f cluster dir_table (sint (entry_cluster (dir_table ! 1))) t;
          puts_list (cstr ''Root'' @ [10, 0]) 0xF t }"

text \<open>The arrays are not initialised by the code; no element is read before it is written.\<close>

definition printAllFind :: "u8 list \<Rightarrow> u8 list \<Rightarrow> fs \<Rightarrow> terminal \<Rightarrow> (fs \<times> terminal) option" where
  "printAllFind nm ex f t =
     do { (result, n_res, f) \<leftarrow> find_fat nm ex (replicate 100 0) (replicate 50 0) 0 f;
          if n_res = 0
          then do { t \<leftarrow> puts_list (cstr ''Tidak ditemukan file/folder dengan nama dan ext tersebut!'' @ [0]) 0xF t;
                    Some (f, t) }
          else do { t \<leftarrow> for_range 0 (nat n_res) (\<lambda>i t. do {
                           t \<leftarrow> putchar (of_nat (i + 1) + 48) 0xF t;
                           t \<leftarrow> puts_list (cstr ''. '') 0xF t;
                           c \<leftarrow> arr_get result i;
                           printDirPath f c t }) t;
                    Some (f, t) } }"

section \<open>System calls\<close>

text \<open>System call 4: the pending character, the line of command, and its length.\<close>

definition sys_getchar :: "u32 \<Rightarrow> u32 \<Rightarrow> u32 \<Rightarrow> machine \<Rightarrow> machine option" where
  "sys_getchar ebx' ecx' edx' s =
     do { let (c, k) = get_keyboard_buffer (kbd s);
          let s = store_at ebx' [c] s;
          k \<leftarrow> (if c = 8 then delete_command k else if c \<noteq> 0 \<and> c \<noteq> 10 then add_command c k else Some k);
          (cmd, n) \<leftarrow> get_command k (mem_load (user_mem s) ecx' 100);
          let s = store_at ecx' cmd s;
          let s = store_at edx' (int_bytes n) s;
          Some (s\<lparr> kbd := k \<rparr>) }"

text \<open>System call 16: hours, minutes and seconds.\<close>

definition sys_clock :: "device \<Rightarrow> u32 \<Rightarrow> machine \<Rightarrow> machine" where
  "sys_clock dev ebx' s =
     (let (h, b) = cmos_read dev 0x04 (bus (scrn s)); s = store_at ebx' [h] s;
          (m, b) = cmos_read dev 0x02 b; s = store_at (ebx' + 1) [m] s;
          (sec, b) = cmos_read dev 0x00 b; s = store_at (ebx' + 2) [sec] s
      in s\<lparr> scrn := (scrn s)\<lparr> bus := b \<rparr> \<rparr>)"

text \<open>System call 15: the blocks one after the other from \<open>ebx\<close> on, then their number.\<close>

definition sys_ps :: "(pd_ptr \<Rightarrow> u32) \<Rightarrow> u32 \<Rightarrow> u32 \<Rightarrow> machine \<Rightarrow> machine option" where
  "sys_ps pd_addr ebx' ecx' s =
     do { (ptr, count) \<leftarrow> getActivePCB (kern s) (replicate 16 zero_pcb);
          let s = store_at ebx' (concat (map (encode_pcb pd_addr) (take count ptr))) s;
          Some (store_at ecx' (int_bytes (int count)) s) }"

text \<open>System call 23: nine characters on row 23.\<close>

definition sys_write_clock :: "u32 \<Rightarrow> machine \<Rightarrow> machine option" where
  "sys_write_clock ebx' s =
     do { t \<leftarrow> for_range 0 9 (\<lambda>i. write_exact_loc 23 (70 + of_nat i) (user_mem s (ebx' + of_nat i)) 0xF 0) (scrn s);
          Some (s\<lparr> scrn := t \<rparr>) }"

definition syscall :: "device \<Rightarrow> (pd_ptr \<Rightarrow> u32) \<Rightarrow> cpu_register \<Rightarrow> machine \<Rightarrow> machine option" where
  "syscall dev pd_addr fr s =
     (let n = eax fr; ebx' = ebx fr; ecx' = ecx fr; edx' = edx fr; f = k_fs (kern s)
      in if n = 0 then
           do { (r, m, f) \<leftarrow> read_fat (request_at s ebx') (user_mem s) f;
                Some (store_at ecx' (int8_byte r) (set_user_mem m (set_fs f s))) }
         else if n = 1 then
           (let (r, m, f) = read_directory (request_at s ebx') (user_mem s) f
            in Some (store_at ecx' (int8_byte r) (set_user_mem m (set_fs f s))))
         else if n = 2 then
           do { (r, f) \<leftarrow> write_fat (request_at s ebx') (user_mem s) f;
                Some (store_at ecx' (int8_byte r) (set_fs f s)) }
         else if n = 3 then
           do { (r, f) \<leftarrow> delete_fat (request_at s ebx') f;
                Some (store_at ecx' (int8_byte r) (set_fs f s)) }
         else if n = 4 then sys_getchar ebx' ecx' edx' s
         else if n = 5 then
           do { t \<leftarrow> putchar (user_mem s ebx') (ucast ecx') (scrn s); Some (s\<lparr> scrn := t \<rparr>) }
         else if n = 6 then
           do { t \<leftarrow> puts (user_mem s) ebx' ecx' edx' (scrn s); Some (s\<lparr> scrn := t \<rparr>) }
         else if n = 7 then Some (s\<lparr> kbd := keyboard_state_activate (kbd s) \<rparr>)
         else if n = 8 then
           do { t \<leftarrow> framebuffer_clear (scrn s); Some (s\<lparr> scrn := framebuffer_set_cursor 0 0 t \<rparr>) }
         else if n = 9 then
           do { (f, t) \<leftarrow> printAllFind (mem_load (user_mem s) ebx' 8) (mem_load (user_mem s) ecx' 3) f (scrn s);
                Some ((set_fs f s)\<lparr> scrn := t \<rparr>) }
         else if n = 10 then do { (_, k) \<leftarrow> process_destroy 1 (kern s); Some (s\<lparr> kern := k \<rparr>) }
         else if n = 11 then
           (let (c, f) = findCluster (request_at s ebx') f in Some (store_at ecx' (int_bytes c) (set_fs f s)))
         else if n = 12 then Some (store_at ebx' (read_clusters (image f) ecx' 1) s)
         else if n = 13 then
           do { (r, k) \<leftarrow> process_create_user_process (request_at s ebx') (kern s);
                Some (store_at ecx' (int_bytes r) (s\<lparr> kern := k \<rparr>)) }
         else if n = 14 then do { (_, k) \<leftarrow> process_destroy ebx' (kern s); Some (s\<lparr> kern := k \<rparr>) }
         else if n = 15 then sys_ps pd_addr ebx' ecx' s
         else if n = 16 then Some (sys_clock dev ebx' s)
         else if n = 17 then do { k \<leftarrow> clear_command (kbd s); Some (s\<lparr> kbd := k \<rparr>) }
         else if n = 18 then
           do { sh \<leftarrow> update_shell_dir f (sint ebx') (mem_load (user_mem s) ecx' 128) (edx' \<noteq> 0) (shl s);
                Some (s\<lparr> shl := sh \<rparr>) }
         else if n = 19 then Some (store_at ebx' (int_bytes (get_shell_cluster (shl s))) s)
         else if n = 20 then Some (store_at ebx' (bytes32 (entry_cluster (cwd_table (shl s) ! 1))) s)
         else if n = 21 then
           do { d \<leftarrow> copy_dir (shl s) (mem_load (user_mem s) ebx' 100); Some (store_at ebx' d s) }
         else if n = 22 then Some (store_at ebx' (encode_table (get_cwd_table (shl s))) s)
         else if n = 23 then sys_write_clock ebx' s
         else Some s)"

section \<open>The interrupt handler\<close>

record interrupt_frame =
  f_cpu :: cpu_register
  int_number :: u32
  error_code :: u32
  f_eip :: u32
  f_cs :: u32
  f_eflags :: u32

definition PAGE_FAULT :: u32 where "PAGE_FAULT = 0xE"
definition SYSCALL :: u32 where "SYSCALL = 0x30"

text \<open>The context that is saved; its page directory is not set, and not used.\<close>

definition frame_context :: "interrupt_frame \<Rightarrow> context_t" where
  "frame_context fr = \<lparr> cpu = f_cpu fr, eip = f_eip fr, eflags = f_eflags fr, page_directory_virtual_addr = PdNull \<rparr>"

definition main_interrupt_handler :: "device \<Rightarrow> (pd_ptr \<Rightarrow> u32) \<Rightarrow> interrupt_frame \<Rightarrow> machine \<Rightarrow> machine option" where
  "main_interrupt_handler dev pd_addr fr s =
     (let s = s\<lparr> scrn := (scrn s)\<lparr> bus := pic_ack (ucast (int_number fr)) (bus (scrn s)) \<rparr> \<rparr>
      in if int_number fr = PAGE_FAULT then Some (s\<lparr> hlt := True \<rparr>)
         else if int_number fr = ucast PIC1_OFFSET + of_nat IRQ_KEYBOARD then
           do { (k, t) \<leftarrow> keyboard_isr dev (kbd s) (scrn s); Some (s\<lparr> kbd := k, scrn := t \<rparr>) }
         else if int_number fr = ucast PIC1_OFFSET + of_nat IRQ_TIMER then
           do { k \<leftarrow> timer_tick (frame_context fr) (kern s); Some (s\<lparr> kern := k \<rparr>) }
         else if int_number fr = SYSCALL then syscall dev pd_addr (f_cpu fr) s
         else Some s)"

end
