(* ===== verification/Descriptors.thy ===== *)
theory Descriptors
  imports Prelude
begin

text \<open>
  The descriptor tables, \<open>src/src/gdt.c\<close> and \<open>src/src/idt.c\<close>: segment descriptors and interrupt gates
  with the widths of their bit fields, the bytes the processor reads, and the task state segment of
  \<open>src/src/interrupt.c\<close>.  The addresses of the task state segment and of the interrupt stubs
  (assembly) are parameters.
\<close>

unbundle bit_operations_syntax

section \<open>Segment descriptors\<close>

record segment_descriptor =
  segment_low :: u16
  base_low :: u16
  base_mid :: u8
  type_bit :: "4 word"
  non_system :: "1 word"
  dpl :: "2 word"
  present_p :: "1 word"
  segment_limit :: "4 word"
  avl :: "1 word"
  long_l :: "1 word"
  dop :: "1 word"
  gran_g :: "1 word"
  base_high :: u8

definition zero_descriptor :: segment_descriptor where
  "zero_descriptor = \<lparr> segment_low = 0, base_low = 0, base_mid = 0, type_bit = 0, non_system = 0, dpl = 0,
     present_p = 0, segment_limit = 0, avl = 0, long_l = 0, dop = 0, gran_g = 0, base_high = 0 \<rparr>"

definition kernel_code :: segment_descriptor where
  "kernel_code = \<lparr> segment_low = 0xFFFF, base_low = 0, base_mid = 0, type_bit = 0xA, non_system = 1, dpl = 0,
     present_p = 1, segment_limit = 0xF, avl = 0, long_l = 1, dop = 1, gran_g = 1, base_high = 0 \<rparr>"

definition kernel_data :: segment_descriptor where
  "kernel_data = \<lparr> segment_low = 0xFFFF, base_low = 0, base_mid = 0, type_bit = 0x2, non_system = 1, dpl = 0,
     present_p = 1, segment_limit = 0xF, avl = 0, long_l = 0, dop = 1, gran_g = 1, base_high = 0 \<rparr>"

definition user_code :: segment_descriptor where
  "user_code = \<lparr> segment_low = 0xFFFF, base_low = 0, base_mid = 0, type_bit = 0xA, non_system = 1, dpl = 3,
     present_p = 1, segment_limit = 0xF, avl = 0, long_l = 1, dop = 1, gran_g = 1, base_high = 0 \<rparr>"

definition user_data :: segment_descriptor where
  "user_data = \<lparr> segment_low = 0xFFFF, base_low = 0, base_mid = 0, type_bit = 0x2, non_system = 1, dpl = 3,
     present_p = 1, segment_limit = 0xF, avl = 0, long_l = 0, dop = 1, gran_g = 1, base_high = 0 \<rparr>"

text \<open>\<open>sizeof(struct TSSEntry)\<close>: 26 fields of 4 bytes.\<close>

definition sizeof_TSSEntry :: u32 where
  "sizeof_TSSEntry = 104"

definition tss_descriptor :: segment_descriptor where
  "tss_descriptor = \<lparr> segment_low = ucast sizeof_TSSEntry, base_low = 0, base_mid = 0, type_bit = 0x9, non_system = 0,
     dpl = 0, present_p = 1, segment_limit = ucast (drop_bit 16 (sizeof_TSSEntry AND push_bit 16 0xF)), avl = 0,
     long_l = 0, dop = 1, gran_g = 0, base_high = 0 \<rparr>"

definition global_descriptor_table :: "segment_descriptor list" where
  "global_descriptor_table =
     [zero_descriptor, kernel_code, kernel_data, user_code, user_data, tss_descriptor] @ replicate 26 zero_descriptor"

definition gdt_install_tss :: "u32 \<Rightarrow> segment_descriptor list \<Rightarrow> segment_descriptor list" where
  "gdt_install_tss base gdt =
     gdt[5 := (gdt ! 5)\<lparr> base_high := ucast (drop_bit 24 (base AND push_bit 24 0xFF)),
                         base_mid := ucast (drop_bit 16 (base AND push_bit 16 0xFF)),
                         base_low := ucast (base AND 0xFFFF) \<rparr>]"

text \<open>\<open>sizeof(global_descriptor_table) - 1\<close> and the address of the table.\<close>

definition gdt_gdtr :: "u32 \<Rightarrow> u16 \<times> u32" where
  "gdt_gdtr address = (of_nat (8 * length global_descriptor_table - 1), address)"

text \<open>The eight bytes of a descriptor, bit fields from the lowest bit on.\<close>

definition encode_descriptor :: "segment_descriptor \<Rightarrow> u8 list" where
  "encode_descriptor d =
     [ucast (segment_low d), ucast (drop_bit 8 (segment_low d)), ucast (base_low d), ucast (drop_bit 8 (base_low d)),
      base_mid d,
      ucast (type_bit d) OR push_bit 4 (ucast (non_system d)) OR push_bit 5 (ucast (dpl d)) OR push_bit 7 (ucast (present_p d)),
      ucast (segment_limit d) OR push_bit 4 (ucast (avl d)) OR push_bit 5 (ucast (long_l d)) OR
        push_bit 6 (ucast (dop d)) OR push_bit 7 (ucast (gran_g d)),
      base_high d]"

text \<open>What the processor takes the base address and the limit to be.\<close>

definition base_of :: "segment_descriptor \<Rightarrow> u32" where
  "base_of d = ucast (base_low d) OR push_bit 16 (ucast (base_mid d)) OR push_bit 24 (ucast (base_high d))"

definition limit_of :: "segment_descriptor \<Rightarrow> u32" where
  "limit_of d =
     (let limit = ucast (segment_low d) OR push_bit 16 (ucast (segment_limit d))
      in if gran_g d = 1 then push_bit 12 limit OR 0xFFF else limit)"

section \<open>Interrupt gates\<close>

record idt_gate =
  offset_low :: u16
  gate_segment :: u16
  gate_reserved :: "5 word"
  r_bit_1 :: "3 word"
  r_bit_2 :: "3 word"
  gate_32 :: "1 word"
  r_bit_3 :: "1 word"
  gate_DPL :: "2 word"
  valid_bit :: "1 word"
  offset_high :: u16

definition zero_gate :: idt_gate where
  "zero_gate = \<lparr> offset_low = 0, gate_segment = 0, gate_reserved = 0, r_bit_1 = 0, r_bit_2 = 0, gate_32 = 0,
     r_bit_3 = 0, gate_DPL = 0, valid_bit = 0, offset_high = 0 \<rparr>"

definition interrupt_descriptor_table :: "idt_gate list" where
  "interrupt_descriptor_table = replicate 256 zero_gate"

definition idt_idtr :: "u32 \<Rightarrow> u16 \<times> u32" where
  "idt_idtr base = (of_nat (8 * length interrupt_descriptor_table - 1), base)"

definition set_interrupt_gate :: "u8 \<Rightarrow> u32 \<Rightarrow> u16 \<Rightarrow> u8 \<Rightarrow> idt_gate list \<Rightarrow> idt_gate list option" where
  "set_interrupt_gate int_vector handler_address gdt_seg_selector privilege idt =
     arr_set idt (unat int_vector)
       \<lparr> offset_low = ucast handler_address, gate_segment = gdt_seg_selector, gate_reserved = 0, r_bit_1 = 0b000,
         r_bit_2 = 0b110, gate_32 = 1, r_bit_3 = 0, gate_DPL = ucast privilege, valid_bit = 1,
         offset_high = ucast (drop_bit 16 handler_address) \<rparr>"

definition GDT_KERNEL_CODE_SEGMENT_SELECTOR :: u16 where
  "GDT_KERNEL_CODE_SEGMENT_SELECTOR = 0x8"

definition initialize_idt :: "u32 list \<Rightarrow> idt_gate list \<Rightarrow> idt_gate list option" where
  "initialize_idt isr_stub_table =
     for_range 0 64 (\<lambda>i idt. do { stub \<leftarrow> arr_get isr_stub_table i;
       set_interrupt_gate (of_nat i) stub GDT_KERNEL_CODE_SEGMENT_SELECTOR (if 0x30 \<le> i \<and> i \<le> 0x3F then 3 else 0) idt })"

definition encode_gate :: "idt_gate \<Rightarrow> u8 list" where
  "encode_gate g =
     [ucast (offset_low g), ucast (drop_bit 8 (offset_low g)), ucast (gate_segment g), ucast (drop_bit 8 (gate_segment g)),
      ucast (gate_reserved g) OR push_bit 5 (ucast (r_bit_1 g)),
      ucast (r_bit_2 g) OR push_bit 3 (ucast (gate_32 g)) OR push_bit 4 (ucast (r_bit_3 g)) OR
        push_bit 5 (ucast (gate_DPL g)) OR push_bit 7 (ucast (valid_bit g)),
      ucast (offset_high g), ucast (drop_bit 8 (offset_high g))]"

definition handler_of :: "idt_gate \<Rightarrow> u32" where
  "handler_of g = ucast (offset_low g) OR push_bit 16 (ucast (offset_high g))"

section \<open>The task state segment\<close>

record tss_entry =
  prev_tss :: u32
  esp0 :: u32
  ss0 :: u32
  unused_register :: "u32 list"

definition interrupt_tss_entry :: tss_entry where
  "interrupt_tss_entry = \<lparr> prev_tss = 0, esp0 = 0, ss0 = 0x10, unused_register = replicate 23 0 \<rparr>"

text \<open>\<open>stack_ptr\<close> is the base pointer that the function reads.\<close>

definition set_tss_kernel_current_stack :: "u32 \<Rightarrow> tss_entry \<Rightarrow> tss_entry" where
  "set_tss_kernel_current_stack stack_ptr tss = tss\<lparr> esp0 := stack_ptr + 8 \<rparr>"

section \<open>The tables after their initialisation\<close>

lemma bit_masks: "bit (0xFF :: int) n \<longleftrightarrow> n < 8" "bit (0xFFFF :: int) n \<longleftrightarrow> n < 16"
  using bit_mask_iff [of 8 n, where ?'a = int] bit_mask_iff [of 16 n, where ?'a = int] by (simp_all add: mask_eq_exp_minus_1)

lemma install_base:
  assumes "length gdt = 32"
  shows "base_of (gdt_install_tss base gdt ! 5) = base"
proof (rule bit_word_eqI)
  fix n assume "n < LENGTH(32)"
  then show "bit (base_of (gdt_install_tss base gdt ! 5)) n = bit base n"
    using assms by (cases "n < 24") (auto simp: base_of_def gdt_install_tss_def bit_simps bit_masks)
qed

lemma handler_split: "ucast (ucast a :: u16) OR push_bit 16 (ucast (ucast (drop_bit 16 a) :: u16)) = (a :: u32)"
  by (rule bit_word_eqI) (auto simp: bit_simps)

definition gate_for :: "nat \<Rightarrow> u32 \<Rightarrow> idt_gate" where
  "gate_for i stub = \<lparr> offset_low = ucast stub, gate_segment = 0x8, gate_reserved = 0, r_bit_1 = 0b000, r_bit_2 = 0b110,
     gate_32 = 1, r_bit_3 = 0, gate_DPL = (if 0x30 \<le> i \<and> i \<le> 0x3F then 3 else 0), valid_bit = 1,
     offset_high = ucast (drop_bit 16 stub) \<rparr>"

lemma initialize_idt_eq:
  assumes "length stubs = 64" "length idt = 256"
  shows "initialize_idt stubs idt = Some (map (\<lambda>i. gate_for i (stubs ! i)) [0..<64] @ drop 64 idt)"
proof -
  have "set_interrupt_gate (of_nat i) (stubs ! i) GDT_KERNEL_CODE_SEGMENT_SELECTOR (if 0x30 \<le> i \<and> i \<le> 0x3F then 3 else 0) b
      = arr_set b (0 + i) (gate_for i (stubs ! i))" if "i < 64" for i b
    using that by (simp add: set_interrupt_gate_def gate_for_def GDT_KERNEL_CODE_SEGMENT_SELECTOR_def unat_of_nat take_bit_eq_mod)
  then show ?thesis
    unfolding initialize_idt_def
    by (subst for_range_fill [where g = "\<lambda>i. gate_for i (stubs ! i)" and off = 0 and m = 256]) (use assms in simp_all)
qed

end
