(* ===== verification/Boot.thy ===== *)
theory Boot
  imports System Descriptors
begin

text \<open>
  The start of the kernel, \<open>src/src/kernel.c\<close>: the picture that \<open>init_terminal\<close> draws, and
  \<open>kernel_setup\<close>, which sets up the tables, the interrupt controllers and the file system, creates
  the process of the shell, starts the timer and switches to it.  The addresses of the tables and of
  the interrupt stubs, the base pointer and the devices are parameters.
\<close>

section \<open>The picture\<close>

text \<open>The rows of the logo, from column 28 on, by their background colours.\<close>

definition logo_upper :: "(u8 \<times> u8 list) list" where
  "logo_upper =
     [(3, [0, 0, 0, 0, 0, 0, 0, 0, 4, 12, 12, 1, 13, 13, 12, 0, 0, 0, 0, 0]),
      (4, [0, 0, 0, 0, 0, 0, 0, 12, 12, 1, 12, 12, 12, 7, 12, 4, 0, 0, 0, 0]),
      (5, [0, 0, 0, 0, 0, 0, 12, 12, 4, 12, 13, 7, 7, 8, 7, 7, 0, 0, 0, 0]),
      (6, [0, 0, 0, 15, 0, 4, 12, 13, 12, 7, 13, 12, 7, 12, 7, 7, 7, 7, 7, 0]),
      (7, [7, 8, 10, 10, 10, 13, 4, 12, 1, 1, 12, 7, 12, 12, 12, 12, 8, 7, 8, 8]),
      (8, [15, 7, 7, 8, 7, 0, 0, 15, 15, 12, 15, 7, 7, 12, 4, 4, 15, 0, 0, 0]),
      (9, [0, 0, 12, 15, 6, 6, 15, 6, 6, 2, 2, 2, 2, 6, 0, 0, 0, 0, 0, 0])]"

definition logo_lower :: "(u8 \<times> u8 list) list" where
  "logo_lower =
     [(10, [4, 12, 12, 6, 6, 6, 6, 6, 6, 6, 6, 2, 2, 2, 6, 0, 12, 4, 0, 0]),
      (11, [0, 0, 0, 0, 0, 0, 0, 0, 0, 0, 0, 6, 6, 2, 15, 12, 12, 12, 0, 0]),
      (12, [0, 0, 0, 0, 0, 0, 0, 0, 0, 0, 0, 0, 6, 15, 4, 0, 0, 0, 0, 0])]"

text \<open>The lines of text: row, first column, characters.\<close>

definition credits :: "(u8 \<times> u8 \<times> string) list" where
  "credits =
     [(18, 29, '' sOSis (IF2230)''),
      (20, 30, ''Kiel - 13522029''),
      (21, 29, ''Daniel - 13522043''),
      (22, 30, ''Wiga - 13522053''),
      (23, 29, ''Matthew - 13522093'')]"

text \<open>A sequence of cells: row, column, character, foreground, background.\<close>

type_synonym cell_write = "u8 \<times> u8 \<times> u8 \<times> u8 \<times> u8"

primrec draw :: "cell_write list \<Rightarrow> terminal \<Rightarrow> terminal option" where
  "draw [] t = Some t"
| "draw (w # ws) t =
     (case w of (row, col, c, fg, bg) \<Rightarrow> Option.bind (framebuffer_write row col c fg bg t) (draw ws))"

definition logo_cells :: "(u8 \<times> u8 list) list \<Rightarrow> cell_write list" where
  "logo_cells rows =
     concat (map (\<lambda>(row, bgs). map (\<lambda>j. (row, 28 + of_nat j, 32, 0, bgs ! j)) [0..<length bgs]) rows)"

text \<open>The bar: each cell of row 15 is written eight times.\<close>

definition bar_cells :: "cell_write list" where
  "bar_cells = concat (map (\<lambda>j. replicate 8 (15, of_nat j, 32, 0, 0xF)) [26..<51])"

definition credit_cells :: "cell_write list" where
  "credit_cells =
     concat (map (\<lambda>(row, col, s). map (\<lambda>j. (row, col + of_nat j, cstr s ! j, 0xF, 0)) [0..<length s]) credits)"

text \<open>The bar turns green, 10000 times eight writes per cell.\<close>

definition progress :: "terminal \<Rightarrow> terminal option" where
  "progress =
     for_range 26 51 (\<lambda>j. for_range 0 10000 (\<lambda>_. draw (replicate 8 (15, of_nat j, 32, 0, 2))))"

definition init_terminal :: "terminal \<Rightarrow> terminal option" where
  "init_terminal t =
     do { t \<leftarrow> framebuffer_clear t;
          t \<leftarrow> draw (logo_cells logo_upper) t;
          t \<leftarrow> draw (logo_cells logo_lower) t;
          t \<leftarrow> draw bar_cells t;
          t \<leftarrow> draw credit_cells t;
          progress (framebuffer_set_cursor 3 42 t) }"

section \<open>The setup\<close>

record boot =
  mach :: machine
  gdt :: "segment_descriptor list"
  idt :: "idt_gate list"
  tss :: tss_entry
  gdtr :: "u16 \<times> u32"
  idtr :: "u16 \<times> u32"

text \<open>What the linker and the assembly part provide.\<close>

record layout =
  gdt_addr :: u32
  idt_addr :: u32
  tss_addr :: u32
  base_ptr :: u32
  isr_stubs :: "u32 list"

definition shell_request :: request where
  "shell_request =
     \<lparr> r_buf = 0, r_name = cstr ''shell'' @ [0, 0, 0], r_ext = [0, 0, 0],
       parent_cluster_number = ROOT_CLUSTER_NUMBER, buffer_size = 0x100000 \<rparr>"

definition clear_screen :: "terminal \<Rightarrow> terminal option" where
  "clear_screen t = map_option (framebuffer_set_cursor 0 0) (framebuffer_clear t)"

definition setup_tables :: "device \<Rightarrow> layout \<Rightarrow> boot \<Rightarrow> boot option" where
  "setup_tables dev l b =
     do { let b = b\<lparr> gdtr := gdt_gdtr (gdt_addr l) \<rparr>;
          let t = (scrn (mach b))\<lparr> bus := pic_remap (bus (scrn (mach b))) \<rparr>;
          table \<leftarrow> initialize_idt (isr_stubs l) (idt b);
          let b = b\<lparr> idt := table, idtr := idt_idtr (idt_addr l) \<rparr>;
          let t = t\<lparr> bus := activate_keyboard_interrupt dev (bus t) \<rparr>;
          t \<leftarrow> clear_screen t;
          Some (b\<lparr> mach := (mach b)\<lparr> scrn := t \<rparr> \<rparr>) }"

definition setup_memory :: "layout \<Rightarrow> boot \<Rightarrow> boot option" where
  "setup_memory l b =
     do { f \<leftarrow> initialize_filesystem_fat32 (k_fs (kern (mach b)));
          let b = b\<lparr> mach := set_fs f (mach b), gdt := gdt_install_tss (tss_addr l) (gdt b) \<rparr>;
          t \<leftarrow> init_terminal (scrn (mach b));
          t \<leftarrow> clear_screen t;
          Some (b\<lparr> mach := (mach b)\<lparr> scrn := t \<rparr> \<rparr>) }"

text \<open>The setup up to the first switch.  The result of the creation is not looked at.\<close>

definition setup_shell :: "device \<Rightarrow> layout \<Rightarrow> boot \<Rightarrow> boot option" where
  "setup_shell dev l b =
     do { let b = b\<lparr> tss := set_tss_kernel_current_stack (base_ptr l) (tss b) \<rparr>;
          (_, k) \<leftarrow> process_create_user_process shell_request (kern (mach b));
          let t = (scrn (mach b))\<lparr> bus := activate_timer_interrupt dev (bus (scrn (mach b))) \<rparr>;
          Some (b\<lparr> mach := (mach b)\<lparr> kern := k, scrn := t \<rparr> \<rparr>) }"

definition kernel_setup :: "device \<Rightarrow> layout \<Rightarrow> boot \<Rightarrow> (context_t \<times> boot) option" where
  "kernel_setup dev l b =
     do { b \<leftarrow> setup_tables dev l b;
          b \<leftarrow> setup_memory l b;
          b \<leftarrow> setup_shell dev l b;
          (ctx, k) \<leftarrow> scheduler_switch_to_next_process (kern (mach b));
          Some (ctx, b\<lparr> mach := (mach b)\<lparr> kern := k \<rparr> \<rparr>) }"

section \<open>Drawing keeps the screen\<close>

definition draws_ok :: "cell_write list \<Rightarrow> bool" where
  "draws_ok ws = list_all (\<lambda>(row, col, c, fg, bg). row < 25 \<and> col < 80 \<and> c \<noteq> 10) ws"

lemma draw_ok:
  assumes "draws_ok ws" "screen_ok t"
  shows "\<exists>t'. draw ws t = Some t' \<and> screen_ok t'"
  using assms
proof (induction ws arbitrary: t)
  case (Cons w ws)
  obtain row col c fg bg where w: "w = (row, col, c, fg, bg)" by (cases w)
  have "\<exists>t'. framebuffer_write row col c fg bg t = Some t' \<and> screen_ok t'"
    using Cons.prems fb_calm [of t c row col fg bg] by (simp add: draws_ok_def w screen_ok_def)
  with Cons w show ?case by (auto simp: draws_ok_def)
qed simp

lemma picture_ok: "draws_ok (logo_cells logo_upper)" "draws_ok (logo_cells logo_lower)" "draws_ok bar_cells" "draws_ok credit_cells"
  by code_simp+

lemma clear_ok:
  assumes "length (vram t) = 4000"
  shows "\<exists>t'. framebuffer_clear t = Some t' \<and> screen_ok t' \<and> vram t' = replicate 4000 0"
  using assms by (simp add: framebuffer_clear_def memset_eq screen_ok_def)

lemma progress_ok:
  assumes "screen_ok t"
  shows "\<exists>t'. progress t = Some t' \<and> screen_ok t'"
proof -
  have "\<exists>t'. draw (replicate 8 (15, of_nat j, 32, 0, 2)) t = Some t' \<and> screen_ok t'" if "j < 51" "screen_ok t" for j t
    using that by (intro draw_ok) (simp add: draws_ok_def list_all_length word_less_nat_alt unat_of_nat take_bit_eq_mod)
  then have inner: "\<exists>t'. for_range 0 10000 (\<lambda>_. draw (replicate 8 (15, of_nat j, 32, 0, 2))) t = Some t' \<and> screen_ok t'"
    if "j < 51" "screen_ok t" for j t
    using that by (intro for_range_inv [where I = "\<lambda>_. screen_ok"]) simp_all
  show ?thesis
    unfolding progress_def by (rule for_range_inv [where I = "\<lambda>_. screen_ok", OF assms]) (simp_all add: inner)
qed

lemma set_cursor_ok: "screen_ok t \<Longrightarrow> r < 25 \<Longrightarrow> c < 80 \<Longrightarrow> screen_ok (framebuffer_set_cursor r c t)"
  by (simp add: screen_ok_def)

lemma init_terminal_ok:
  assumes "length (vram t) = 4000"
  shows "\<exists>t'. init_terminal t = Some t' \<and> screen_ok t'"
proof -
  obtain t1 where t1: "framebuffer_clear t = Some t1" "screen_ok t1" using clear_ok [OF assms] by blast
  obtain t2 where t2: "draw (logo_cells logo_upper) t1 = Some t2" "screen_ok t2" using draw_ok [OF picture_ok(1) t1(2)] by blast
  obtain t3 where t3: "draw (logo_cells logo_lower) t2 = Some t3" "screen_ok t3" using draw_ok [OF picture_ok(2) t2(2)] by blast
  obtain t4 where t4: "draw bar_cells t3 = Some t4" "screen_ok t4" using draw_ok [OF picture_ok(3) t3(2)] by blast
  obtain t5 where t5: "draw credit_cells t4 = Some t5" "screen_ok t5" using draw_ok [OF picture_ok(4) t4(2)] by blast
  show ?thesis
    using t1 t2 t3 t4 t5 progress_ok [OF set_cursor_ok [OF t5(2), of 3 42]] by (simp add: init_terminal_def)
qed

end
