(* ===== verification/ScreenProps.thy ===== *)
theory ScreenProps
  imports Boot
begin

text \<open>
  Properties of the screen and the keyboard: the mutual recursion of writing and scrolling ends, every
  character and every scancode keeps the cursor on the screen, what printed text looks like, and the
  line of command that the keyboard collects.
\<close>

section \<open>The screen\<close>

definition blank_terminal :: terminal where
  "blank_terminal = \<lparr> vram = replicate 4000 0, cursor_row = 0, cursor_col = 0, bus = [] \<rparr>"

lemma blank_terminal_ok [simp]: "screen_ok blank_terminal"
  by (simp add: screen_ok_def blank_terminal_def)

lemma finish_ok:
  assumes "length (vram t) = 4000" "row < 25" "col < 80"
  shows "\<exists>t'. finish row col c fg bg t = Some t' \<and> length (vram t') = 4000"
  using assms by (simp add: finish_def write_exact_loc_eq unat_less clip_row_def)

lemma writes_ok:
  assumes "length (vram t) = 4000"
  shows "\<exists>t'. writes row col c fg bg t = Some t' \<and> length (vram t') = 4000"
proof (cases "c = 10")
  case True
  with assms show ?thesis by (simp add: writes_def write_via_def clip_row_def Let_def)
next
  case False
  have down: "length (vram (scroll_down t)) = 4000" using assms by simp
  consider "80 \<le> col" "25 \<le> row + 1" | "80 \<le> col" "\<not> 25 \<le> row + 1" | "\<not> 80 \<le> col" "25 \<le> row" | "\<not> 80 \<le> col" "\<not> 25 \<le> row" by blast
  then show ?thesis
  proof cases
    case 1
    then show ?thesis unfolding writes_finish(3) [OF False 1] by (intro finish_ok [OF down]) simp_all
  next
    case 2
    then show ?thesis unfolding writes_finish(2) [OF False 2] by (intro finish_ok [OF assms]) simp_all
  next
    case 3
    then show ?thesis unfolding writes_finish(4) [OF False 3] by (intro finish_ok [OF down]) simp_all
  next
    case 4
    then show ?thesis unfolding writes_finish(1) [OF False 4] by (intro finish_ok [OF assms]) simp_all
  qed
qed

text \<open>C29: \<open>framebuffer_write\<close> and \<open>framebuffer_auto_down\<close> call each other, and the calls always end: for
  every position, also outside the screen, and every position of the cursor both return, and they
  satisfy the equations of the code, one over the other.\<close>

theorem framebuffer_terminates:
  assumes "length (vram t) = 4000"
  shows "framebuffer_write row col c fg bg t = write_via framebuffer_auto_down row col c fg bg t \<and>
    framebuffer_auto_down t = auto_down_via framebuffer_write t \<and>
    (\<exists>t'. framebuffer_write row col c fg bg t = Some t' \<and> length (vram t') = 4000) \<and>
    (\<exists>t'. framebuffer_auto_down t = Some t' \<and> screen_ok t')"
  using framebuffer_write_eq [OF assms] write_via_cong [OF assms framebuffer_auto_down_eq, of row col c fg bg]
    writes_ok [OF assms] framebuffer_auto_down_eq [OF assms] scroll_down_ok [OF assms]
  by (simp add: framebuffer_auto_down_def)

lemma framebuffer_terminates_witness:
  "\<exists>t'. framebuffer_write 200 90 65 7 0 (blank_terminal\<lparr> cursor_row := 24, cursor_col := 80 \<rparr>) = Some t' \<and> length (vram t') = 4000"
proof -
  have "length (vram (blank_terminal\<lparr> cursor_row := 24, cursor_col := 80 \<rparr>)) = 4000" by (simp add: blank_terminal_def)
  from framebuffer_terminates [OF this, of 200 90 65 7 0] show ?thesis by blast
qed

text \<open>\<open>puts\<close> always returns, for every text in memory, every length and every colour, and keeps the
  screen: 4000 bytes, and the cursor within 25 rows and 80 columns.\<close>

theorem puts_keeps_screen:
  assumes "screen_ok t"
  shows "\<exists>t'. puts m p n color t = Some t' \<and> screen_ok t'"
  unfolding puts_def by (rule puts_chars_ok [OF assms])

lemma puts_keeps_screen_witness: "\<exists>t'. puts (\<lambda>a. ucast a) 5 20 7 blank_terminal = Some t' \<and> screen_ok t'"
  by (rule puts_keeps_screen) simp

text \<open>C30: A text without control characters that stays left of column 78 is shown in its row from the
  cursor on in its colour; the cursor is after it.  Of the two cells after the text the second is then
  blank, and the first too when the text has at least two characters; no other cell changes.\<close>

theorem puts_prints:
  assumes "screen_ok t" "unat (cursor_col t) + nat (sint n) \<le> 78"
    and "\<forall>i < nat (sint n). m (p + of_nat i) \<notin> {0, 8, 9, 10}"
  shows "\<exists>t'. puts m p n color t = Some t' \<and> cursor_row t' = cursor_row t \<and>
    unat (cursor_col t') = unat (cursor_col t) + nat (sint n) \<and>
    (\<forall>r < 25. \<forall>c < 80. cell (vram t') r c =
      (if r = unat (cursor_row t) \<and> unat (cursor_col t) \<le> c \<and> c < unat (cursor_col t) + nat (sint n)
       then (m (p + of_nat (c - unat (cursor_col t))), color_of (ucast color) 0)
       else if r = unat (cursor_row t) \<and> 0 < nat (sint n) \<and> unat (cursor_col t) + 2 \<le> c \<and>
         c \<le> unat (cursor_col t) + nat (sint n) + 1
       then (32, 15) else cell (vram t) r c))"
  using puts_shows_text [OF assms(1) assms(2), of "\<lambda>i. m (p + of_nat i)" "ucast color"] assms(3)
  unfolding puts_def shows_text_def by blast

lemma puts_prints_witness:
  "\<exists>t'. puts (\<lambda>_. 65) 0 5 7 blank_terminal = Some t' \<and> cell (vram t') 0 4 = (65, 7) \<and> cell (vram t') 0 5 = (32, 15)"
proof -
  have "sint (5 :: u32) = 5" by simp
  then show ?thesis
    using puts_prints [of blank_terminal 5 "\<lambda>_. 65" 0 7] by (auto simp: blank_terminal_def screen_ok_def color_of_def)
qed

text \<open>A newline on the last row moves every row up by one and leaves a blank last row with the cursor
  at its start; on any other row nothing but one blank cell of the next row changes.\<close>

theorem newline_scrolls:
  assumes "screen_ok t"
  shows "\<exists>t'. putchar 10 color t = Some t' \<and> cursor_col t' = 0 \<and>
    (if cursor_row t < 24
     then cursor_row t' = cursor_row t + 1 \<and> vram t' = set_cell (vram t) (unat (cursor_row t) + 1) 1 32 15
     else cursor_row t' = 24 \<and> (\<forall>r < 24. \<forall>c < 80. cell (vram t') r c = cell (vram t) (r + 1) c) \<and>
       (\<forall>c < 80. cell (vram t') 24 c = (32, if c = 1 then 15 else 7)))"
proof -
  obtain u where u: "putchar_newline t = Some u"
    "on_screen u (if cursor_row t < 24 then vram t else blanked 0 (moved_up (vram t))) (if cursor_row t < 24 then cursor_row t + 1 else 24) 0"
    using newline_screen [OF assms] by blast
  note f = on_screenD [OF u(2)]
  have len: "length (vram t) = 4000" using assms by (simp add: screen_ok_def)
  have "screen_ok u" using f len row_Suc(1) [of "cursor_row t"] by (auto simp: screen_ok_def)
  moreover have "cursor_col u < 79" using f by simp
  ultimately obtain t' where t': "framebuffer_write (cursor_row u) (cursor_col u + 1) 32 15 0 u = Some t'"
    "on_screen t' (set_cell (vram u) (unat (cursor_row u)) (unat (cursor_col u) + 1) 32 15) (cursor_row u) (cursor_col u)"
    using blank_calm by blast
  note g = on_screenD [OF t'(2)]
  have "putchar 10 color t = Some t'" using u(1) t'(1) by (simp add: putchar_def)
  then show ?thesis
    using f g len row_Suc(2) [of "cursor_row t"]
    by (cases "cursor_row t < 24") (auto simp: cell_set_cell cell_blanked cell_moved_up)
qed

lemma newline_scrolls_witness:
  "\<exists>t'. putchar 10 7 (blank_terminal\<lparr> cursor_row := 24 \<rparr>) = Some t' \<and> cell (vram t') 24 0 = (32, 7)"
  using newline_scrolls [of "blank_terminal\<lparr> cursor_row := 24 \<rparr>" 7] by (auto simp: blank_terminal_def screen_ok_def)

text \<open>A character typed at the last cell of the screen scrolls twice, because the write that follows
  it scrolls while the cursor is past the end of the row.  The last line is then on the screen twice,
  in rows 22 and 23, and one line more than necessary is lost at the top.\<close>

theorem last_cell_duplicates_line:
  assumes "screen_ok t" "cursor_row t = 24" "cursor_col t = 79" "c \<notin> {0, 8, 9, 10}"
  shows "\<exists>t'. putchar c fg t = Some t' \<and> cursor_row t' = 24 \<and> cursor_col t' = 0 \<and>
    (\<forall>j < 79. cell (vram t') 22 j = cell (vram t) 24 j) \<and> cell (vram t') 22 79 = (c, color_of fg 0) \<and>
    (\<forall>j. 1 \<le> j \<and> j < 79 \<longrightarrow> cell (vram t') 23 j = cell (vram t) 24 j) \<and> cell (vram t') 23 79 = (c, color_of fg 0)"
  by (rule last_cell_step [OF assms])

lemma last_cell_duplicates_line_witness:
  "\<exists>t'. putchar 65 7 (blank_terminal\<lparr> cursor_row := 24, cursor_col := 79 \<rparr>) = Some t' \<and>
     cell (vram t') 22 79 = (65, 7) \<and> cell (vram t') 23 79 = (65, 7)"
  using last_cell_duplicates_line [of "blank_terminal\<lparr> cursor_row := 24, cursor_col := 79 \<rparr>" 65 7]
  by (auto simp: blank_terminal_def screen_ok_def color_of_def)

section \<open>The keyboard\<close>

lemma map_lengths: "length keyboard_scancode_1_to_ascii_map = 256" "length keyboard_scancode_caps_to_ascii_map = 256"
    "length keyboard_scancode_shift_to_ascii_map = 256"
  by (simp_all add: keyboard_scancode_1_to_ascii_map_def keyboard_scancode_caps_to_ascii_map_def
      keyboard_scancode_shift_to_ascii_map_def cstr_def)

lemma to_ascii_some: "\<exists>c. to_ascii scancode k = Some c"
proof -
  have "unat scancode < 256" using unsigned_less [where ?'a = nat, of scancode] by simp
  then show ?thesis by (simp add: to_ascii_def map_lengths)
qed

lemma arrow_ok:
  assumes "screen_ok t" "arrow scancode t = Some t'"
  shows "screen_ok t'"
proof -
  have row: "x + 1 < 25" if "x < 25" "x \<noteq> 24" for x :: u8
    by (rule row_Suc(1)) (use that in unat_arith)
  have c: "x + 1 < 80" if "x < 80" "x \<noteq> 79" for x :: u8 using that by unat_arith
  have r: "x + 1 < 25" if "x < 24" for x :: u8 by (rule row_Suc(1) [OF that])
  have m: "x - 1 < b" if "x < b" "x \<noteq> 0" for x b :: u8 using that by unat_arith
  show ?thesis
    using assms by (auto simp: arrow_def bounds_defs screen_ok_def word_gt_0 intro: row c r m split: if_splits)
qed

text \<open>The keyboard's interrupt routine handles every scancode: it returns, keeps the cursor on the
  screen, never touches the screen memory or the line of command, and stores a character only while
  the input is on.\<close>

theorem keyboard_isr_total:
  assumes "screen_ok t"
  shows "\<exists>k' t'. keyboard_isr dev k t = Some (k', t') \<and> screen_ok t' \<and> vram t' = vram t \<and>
    command k' = command k \<and> kb_idx k' = kb_idx k \<and> keyboard_input_on k' = keyboard_input_on k \<and>
    (\<not> keyboard_input_on k \<longrightarrow> k' = k)"
proof -
  let ?s = "ucast (dev (bus t) KEYBOARD_DATA_PORT) :: u8"
  let ?t = "t\<lparr> bus := bus t @ [In KEYBOARD_DATA_PORT ?s] \<rparr>"
  have ok: "screen_ok ?t" using assms by (simp add: screen_ok_def)
  have caps: "screen_ok (t\<lparr> bus := b \<rparr>)" for b using assms by (simp add: screen_ok_def)
  obtain c where c: "to_ascii ?s (modifier ?s k) = Some c" using to_ascii_some by blast
  have modi: "command (modifier ?s k) = command k" "kb_idx (modifier ?s k) = kb_idx k"
    "keyboard_input_on (modifier ?s k) = keyboard_input_on k" by (simp_all add: modifier_def)
  have arr: "screen_ok t' \<and> vram t' = vram t" if "arrow ?s ?t = Some t'" for t'
    using arrow_ok [OF ok that] that by (auto simp: arrow_def split: if_splits)
  have run: "keyboard_isr dev k t =
      (if keyboard_input_on k
       then if ?s = CAPSLOCK_SCANCODE then Some (k\<lparr> capslock_on := \<not> capslock_on k \<rparr>, ?t)
            else case arrow ?s ?t of Some t \<Rightarrow> Some (modifier ?s k, t)
              | None \<Rightarrow> Some ((modifier ?s k)\<lparr> keyboard_buffer := c \<rparr>, ?t)
       else Some (k, ?t))"
    using c by (simp add: keyboard_isr_def inb_def Let_def split: option.split)
  show ?thesis
  proof (cases "arrow ?s ?t")
    case None
    then show ?thesis unfolding run using ok modi by (simp add: caps)
  next
    case (Some t')
    then show ?thesis unfolding run using ok modi arr [OF Some] by (simp add: caps)
  qed
qed

lemma keyboard_isr_total_witness:
  "\<exists>k' t'. keyboard_isr (\<lambda>_ _. 0x1E) (keyboard_state_activate keyboard_state) blank_terminal = Some (k', t') \<and> screen_ok t'"
  using keyboard_isr_total [of blank_terminal "\<lambda>_ _. 0x1E" "keyboard_state_activate keyboard_state"] by auto

definition upcase :: "u8 \<Rightarrow> u8" where
  "upcase c = (if 97 \<le> c \<and> c \<le> 122 then c - 32 else c)"

lemma caps_table: "map upcase keyboard_scancode_1_to_ascii_map = keyboard_scancode_caps_to_ascii_map"
  by code_simp

lemma caps_no_lower: "list_all (\<lambda>c. \<not> (97 \<le> c \<and> c \<le> 122)) keyboard_scancode_caps_to_ascii_map"
  by code_simp

text \<open>The tables agree: with caps lock every key gives the upper case of the character it gives
  without, and the correction for lower case letters after the table access never applies.\<close>

lemma caps_is_upcase:
  "to_ascii scancode (k\<lparr> capslock_on := True \<rparr>) =
     map_option upcase (to_ascii scancode (k\<lparr> capslock_on := False, shift_on := False \<rparr>))"
proof -
  have i: "unat scancode < 256" using unsigned_less [where ?'a = nat, of scancode] by simp
  have "keyboard_scancode_caps_to_ascii_map ! unat scancode = upcase (keyboard_scancode_1_to_ascii_map ! unat scancode)"
    using i map_lengths by (simp flip: caps_table)
  moreover have "\<not> (97 \<le> keyboard_scancode_caps_to_ascii_map ! unat scancode \<and> keyboard_scancode_caps_to_ascii_map ! unat scancode \<le> 122)"
    using caps_no_lower i map_lengths unfolding list_all_length by simp
  ultimately show ?thesis using i by (simp add: to_ascii_def map_lengths)
qed

section \<open>The line of command\<close>

definition line :: "keyboard \<Rightarrow> u8 list" where
  "line k = take (nat (kb_idx k)) (command k)"

definition line_ok :: "keyboard \<Rightarrow> bool" where
  "line_ok k = (length (command k) = 100 \<and> 0 \<le> kb_idx k \<and> kb_idx k \<le> 100)"

lemma line_length: "line_ok k \<Longrightarrow> length (line k) = nat (kb_idx k)"
  by (simp add: line_ok_def line_def min_absorb2 nat_le_iff)

lemma get_command_eq:
  assumes "line_ok k" "length a = 100"
  shows "get_command k a = Some (line k @ replicate (100 - length (line k)) 0, kb_idx k)"
proof -
  let ?n = "nat (kb_idx k)"
  have n: "?n \<le> 100" "length (command k) = 100" using assms(1) by (simp_all add: line_ok_def nat_le_iff)
  have copy: "for_range 0 ?n (\<lambda>i a. Option.bind (arr_get (command k) i) (arr_set a i)) a = Some (take ?n (command k) @ drop ?n a)"
    by (subst for_range_fill [where g = "(!) (command k)" and off = 0 and m = 100])
      (use n assms(2) in \<open>simp_all add: map_nth_take\<close>)
  have "\<exists>b. for_range ?n 100 (\<lambda>i a. arr_set a i 0) (take ?n (command k) @ drop ?n a) = Some b \<and>
      b = take ?n (command k) @ replicate (100 - ?n) 0 @ drop 100 a"
  proof (rule for_range_inv [where I = "\<lambda>i b. b = take ?n (command k) @ replicate (i - ?n) 0 @ drop i a"])
    fix i b assume i: "?n \<le> i" "i < 100" and b: "b = take ?n (command k) @ replicate (i - ?n) 0 @ drop i a"
    have "drop i a = a ! i # drop (Suc i) a" using i assms(2) by (simp add: Cons_nth_drop_Suc)
    then show "\<exists>b'. arr_set b i 0 = Some b' \<and> b' = take ?n (command k) @ replicate (Suc i - ?n) 0 @ drop (Suc i) a"
      using i n b assms(2) by (simp add: list_update_append Suc_diff_le replicate_append_same)
  qed (use n in simp_all)
  then show ?thesis
    using copy n assms(2) by (simp add: get_command_def line_def)
qed

lemma add_command_line:
  assumes "line_ok k" "kb_idx k < 100"
  shows "\<exists>k'. add_command c k = Some k' \<and> line_ok k' \<and> line k' = line k @ [c] \<and> kb_idx k' = kb_idx k + 1"
proof -
  have n: "nat (kb_idx k) < length (command k)" "0 \<le> kb_idx k" using assms by (simp_all add: line_ok_def)
  then have "nat (kb_idx k + 1) = Suc (nat (kb_idx k))" by simp
  then show ?thesis
    using assms n by (simp add: add_command_def arr_seti_def line_ok_def line_def take_Suc_conv_app_nth take_update_cancel)
qed

lemma delete_command_line:
  assumes "line_ok k" "0 < kb_idx k"
  shows "\<exists>k'. delete_command k = Some k' \<and> line_ok k' \<and> line k' = butlast (line k) \<and> kb_idx k' = kb_idx k - 1"
proof -
  have n: "nat (kb_idx k) \<le> length (command k)" "nat (kb_idx k - 1) = nat (kb_idx k) - 1" "0 < nat (kb_idx k)"
    using assms by (simp_all add: line_ok_def nat_le_iff nat_diff_distrib)
  then have "nat (kb_idx k) - 1 < length (command k)" by linarith
  note n = n this
  then show ?thesis
    using assms by (simp add: delete_command_def arr_seti_def line_ok_def line_def take_update_cancel butlast_take)
qed

lemma clear_command_line:
  assumes "line_ok k"
  shows "\<exists>k'. clear_command k = Some k' \<and> line_ok k' \<and> line k' = [] \<and> kb_idx k' = 0"
proof -
  have n: "nat (kb_idx k) \<le> length (command k)" using assms by (simp add: line_ok_def nat_le_iff)
  then have "for_range 0 (nat (kb_idx k)) (\<lambda>i a. arr_set a i 0) (command k) = Some (replicate (nat (kb_idx k)) 0 @ drop (nat (kb_idx k)) (command k))"
    by (subst for_range_fill [where g = "\<lambda>_. 0" and off = 0 and m = "length (command k)"]) (simp_all add: map_replicate_const)
  then show ?thesis using assms n by (simp add: clear_command_def line_ok_def line_def)
qed

text \<open>Characters typed one after the other.\<close>

primrec add_all :: "u8 list \<Rightarrow> keyboard \<Rightarrow> keyboard option" where
  "add_all [] k = Some k"
| "add_all (c # cs) k = Option.bind (add_command c k) (add_all cs)"

lemma add_all_line:
  assumes "line_ok k" "kb_idx k + int (length cs) \<le> 100"
  shows "\<exists>k'. add_all cs k = Some k' \<and> line_ok k' \<and> line k' = line k @ cs \<and> kb_idx k' = kb_idx k + int (length cs)"
  using assms
proof (induction cs arbitrary: k)
  case (Cons c cs)
  then obtain k1 where k1: "add_command c k = Some k1" "line_ok k1" "line k1 = line k @ [c]" "kb_idx k1 = kb_idx k + 1"
    using add_command_line [of k c] by auto
  with Cons.IH [of k1] Cons.prems show ?case by auto
qed simp

text \<open>C31: The line of command that the shell fetches is the line that was typed, filled up with NULs to
  100 characters: each character is appended, a backspace removes the last one, and clearing gives
  the empty line.\<close>

theorem command_line_typed:
  assumes "line_ok k" "kb_idx k + int (length cs) \<le> 100" "length a = 100"
  shows "\<exists>k'. add_all cs k = Some k' \<and>
    get_command k' a = Some (line k @ cs @ replicate (100 - length (line k @ cs)) 0, kb_idx k + int (length cs)) \<and>
    (cs \<noteq> [] \<longrightarrow> (\<exists>k''. delete_command k' = Some k'' \<and>
       get_command k'' a = Some (line k @ butlast cs @ replicate (100 - length (line k @ butlast cs)) 0, kb_idx k + int (length cs) - 1))) \<and>
    (\<exists>k''. clear_command k' = Some k'' \<and> get_command k'' a = Some (replicate 100 0, 0))"
proof -
  obtain k' where k': "add_all cs k = Some k'" "line_ok k'" "line k' = line k @ cs" "kb_idx k' = kb_idx k + int (length cs)"
    using add_all_line [OF assms(1,2)] by blast
  have "0 \<le> kb_idx k" using assms(1) by (simp add: line_ok_def)
  then have del: "\<exists>k''. delete_command k' = Some k'' \<and> line_ok k'' \<and> line k'' = line k @ butlast cs \<and> kb_idx k'' = kb_idx k' - 1" if "cs \<noteq> []"
    using delete_command_line [OF k'(2)] k'(3,4) that by (cases cs) (auto simp: butlast_append)
  show ?thesis
    using k' get_command_eq [OF k'(2) assms(3)] del clear_command_line [OF k'(2)] get_command_eq [OF _ assms(3)] by fastforce
qed

lemma command_line_typed_witness:
  "\<exists>k'. add_all (cstr ''ls'') keyboard_state = Some k' \<and> get_command k' (replicate 100 0) = Some (cstr ''ls'' @ replicate 98 0, 2)"
  using command_line_typed [of keyboard_state "cstr ''ls''" "replicate 100 0"]
  by (auto simp: keyboard_state_def line_ok_def line_def cstr_def)

text \<open>The line has no check for its end: the character after the hundredth is written past the array
  \<open>command\<close>.\<close>

theorem command_line_overflow:
  assumes "line_ok k" "kb_idx k + int (length cs) = 100"
  shows "\<exists>k'. add_all cs k = Some k' \<and> add_command c k' = None"
  using add_all_line [of k cs] assms by (force simp: add_command_def arr_seti_def line_ok_def)

lemma command_line_overflow_witness: "\<exists>k'. add_all (replicate 100 65) keyboard_state = Some k' \<and> add_command 66 k' = None"
  using command_line_overflow [of keyboard_state "replicate 100 65" 66] by (simp add: keyboard_state_def line_ok_def)

end
