(* ===== verification/Words.thy ===== *)
theory Words
  imports CString
begin

text \<open>
  The routines of \<open>src/src/string.c\<close> with which the shell takes a command line apart:
  \<open>parseFileName\<close> (an 8.3 file name), \<open>countWords\<close>, \<open>wordLen\<close> and \<open>getWord\<close> (space-separated
  words).  The reference definitions are the split of a name at its first dot and the list of the
  maximal runs of non-space characters of a line; the lemmas say where the routines compute them.
\<close>

section \<open>File names\<close>

definition addTrailingNull :: "u8 list \<Rightarrow> u16 \<Rightarrow> u16 \<Rightarrow> u8 list option" where
  "addTrailingNull str start end' = for_range (unat start) (unat end') (\<lambda>i s. arr_set s i 0) str"

text \<open>\<open>while (i < 8 && filename[i] != '.' && filename[i] != 0)\<close>\<close>

function parse_name :: "u8 list \<Rightarrow> u8 list \<Rightarrow> nat \<Rightarrow> (nat \<times> u8 list) option" where
  "parse_name filename name i =
     (if i < 8 then
        (case arr_get filename i of None \<Rightarrow> None
         | Some c \<Rightarrow>
             if c \<noteq> 46 \<and> c \<noteq> 0
             then (case arr_set name i c of None \<Rightarrow> None
                   | Some name' \<Rightarrow> parse_name filename name' (Suc i))
             else Some (i, name))
      else Some (i, name))"
  by pat_completeness auto
termination
  by (relation "measure (\<lambda>(filename, name, i). 8 - i)") auto

declare parse_name.simps [simp del]

text \<open>\<open>while (i <= fnlen + 3 && filename[i] != 0)\<close>\<close>

function parse_ext :: "u8 list \<Rightarrow> nat \<Rightarrow> u8 list \<Rightarrow> nat \<Rightarrow> (nat \<times> u8 list) option" where
  "parse_ext filename fnlen ext i =
     (if i \<le> fnlen + 3 then
        (case arr_get filename i of None \<Rightarrow> None
         | Some c \<Rightarrow>
             if c \<noteq> 0
             then (case arr_set ext (i - fnlen - 1) c of None \<Rightarrow> None
                   | Some ext' \<Rightarrow> parse_ext filename fnlen ext' (Suc i))
             else Some (i, ext))
      else Some (i, ext))"
  by pat_completeness auto
termination
  by (relation "measure (\<lambda>(filename, fnlen, ext, i). Suc (fnlen + 3) - i)") auto

declare parse_ext.simps [simp del]

definition parseFileName :: "u8 list \<Rightarrow> u8 list \<Rightarrow> u8 list \<Rightarrow> (int \<times> u8 list \<times> u8 list) option" where
  "parseFileName filename name ext =
     do { (i, name) \<leftarrow> parse_name filename name 0;
          name \<leftarrow> addTrailingNull name (of_nat i) 8;
          c \<leftarrow> arr_get filename i;
          if c = 0
          then do { ext \<leftarrow> addTrailingNull ext 0 3; Some (0, name, ext) }
          else if c \<noteq> 46 then Some (1, name, ext)
          else do { let fnlen = i;
                    (i, ext) \<leftarrow> parse_ext filename fnlen ext (i + 1);
                    ext \<leftarrow> addTrailingNull ext (of_nat (i - fnlen - 1)) 3;
                    c \<leftarrow> arr_get filename i;
                    Some (if c \<noteq> 0 then 1 else 0, name, ext) } }"

text \<open>A text filled up to \<open>n\<close> bytes with NULs.\<close>

definition pad :: "nat \<Rightarrow> u8 list \<Rightarrow> u8 list" where
  "pad n xs = xs @ replicate (n - length xs) 0"

lemma length_pad [simp]: "length xs \<le> n \<Longrightarrow> length (pad n xs) = n"
  by (simp add: pad_def)

text \<open>What is before and after the first dot of a name.\<close>

definition base_part :: "u8 list \<Rightarrow> u8 list" where
  "base_part f = takeWhile (\<lambda>c. c \<noteq> 46) f"

definition ext_part :: "u8 list \<Rightarrow> u8 list" where
  "ext_part f = drop (Suc (length (base_part f))) f"

lemma addTrailingNull_pad:
  assumes "length xs \<le> unat n" "unat n \<le> length str" "take (length xs) str = xs"
  shows "addTrailingNull str (of_nat (length xs)) n = Some (pad (unat n) xs @ drop (unat n) str)"
proof -
  have "length xs < 65536" using assms(1) unat_u16_lt [of n] by simp
  then have u: "unat (of_nat (length xs) :: u16) = length xs"
    by (rule unat_of_nat_u16)
  let ?I = "\<lambda>k s. s = xs @ replicate (k - length xs) 0 @ drop k str"
  have "\<exists>s. for_range (length xs) (unat n) (\<lambda>i s. arr_set s i 0) str = Some s \<and> ?I (unat n) s"
  proof (rule for_range_inv)
    show "?I (length xs) str" using assms(3) by (metis append_Nil append_take_drop_id diff_self_eq_0 replicate_0)
    fix i s
    assume i: "length xs \<le> i" "i < unat n" and s: "?I i s"
    have "drop i str = str ! i # drop (Suc i) str" using i assms by (simp add: Cons_nth_drop_Suc)
    then show "\<exists>s'. arr_set s i 0 = Some s' \<and> ?I (Suc i) s'"
      using i s assms by (simp add: list_update_append Suc_diff_le replicate_append_same)
  qed (use assms in simp_all)
  then show ?thesis using u by (auto simp: addTrailingNull_def pad_def)
qed

lemma parse_name_eq:
  assumes "terminated filename" "8 \<le> length name"
    and "i \<le> min 8 (length (base_part (c_text filename)))"
    and "take i name = take i (c_text filename)"
  shows "parse_name filename name i
    = Some (min 8 (length (base_part (c_text filename))),
            take 8 (base_part (c_text filename)) @ drop (min 8 (length (base_part (c_text filename)))) name)"
  using assms
proof (induction "8 - i" arbitrary: i name)
  case 0
  let ?b = "base_part (c_text filename)"
  from 0 have i: "i = 8" "8 \<le> length ?b" by simp_all
  then have "take 8 ?b = take 8 (c_text filename)"
    by (simp add: base_part_def take_takeWhile_le)
  with 0 i show ?case
    by (simp add: parse_name.simps [of filename name 8] min_def) (metis append_take_drop_id)
next
  case (Suc k)
  let ?t = "c_text filename"
  let ?b = "base_part ?t"
  from Suc.hyps(2) have i8: "i < 8" by simp
  have bt: "length ?b \<le> length ?t" by (simp add: base_part_def length_takeWhile_le)
  then have il: "i < length filename" using Suc.prems c_text_len [OF Suc.prems(1)] by simp
  have pre: "take i ?b = take i ?t"
    using Suc.prems(3) by (simp add: base_part_def take_takeWhile_le)
  show ?case
  proof (cases "i < length ?b")
    case True
    then have ti: "?b ! i = ?t ! i" by (simp add: base_part_def takeWhile_nth)
    moreover have "?b ! i \<noteq> 46" using True ti by (auto simp: base_part_def dest: takeWhile_nth_P)
    ultimately have "parse_name filename name i = parse_name filename (name[i := ?t ! i]) (Suc i)"
      using True i8 il bt Suc.prems c_text_facts(1,2) [of i filename]
      by (simp add: parse_name.simps [of filename name i])
    also have "\<dots> = Some (min 8 (length ?b), take 8 ?b @ drop (min 8 (length ?b)) (name[i := ?t ! i]))"
      using Suc True i8 bt by (intro Suc.hyps(1)) (simp_all add: take_Suc_conv_app_nth)
    finally show ?thesis using True i8 by simp
  next
    case False
    then have i: "i = length ?b" using Suc.prems by simp
    have "filename ! i = 46 \<or> filename ! i = 0"
    proof (cases "length ?b < length ?t")
      case True
      then have "?t ! length ?b = 46" using nth_length_takeWhile by (fastforce simp: base_part_def)
      then show ?thesis using i True by (simp add: c_text_nth)
    next
      case False
      with bt i have "i = length ?t" by simp
      then show ?thesis using Suc.prems by (simp add: c_text_end)
    qed
    then have "parse_name filename name i = Some (i, name)"
      using i8 il by (auto simp: parse_name.simps [of filename name i])
    then show ?thesis using i i8 Suc.prems pre by (simp add: min_def) (metis append_take_drop_id)
  qed
qed

lemma parse_ext_eq:
  assumes "terminated filename" "3 \<le> length ext" "fnlen < length (c_text filename)"
    and "j \<le> min 3 (length (drop (Suc fnlen) (c_text filename)))"
    and "take j ext = take j (drop (Suc fnlen) (c_text filename))"
  shows "parse_ext filename fnlen ext (Suc fnlen + j)
    = (let e = drop (Suc fnlen) (c_text filename); k = min 3 (length e)
       in Some (Suc fnlen + k, take 3 e @ drop k ext))"
  using assms
proof (induction "3 - j" arbitrary: j ext)
  case 0
  then have "j = 3" "3 \<le> length (drop (Suc fnlen) (c_text filename))" by simp_all
  moreover have "parse_ext filename fnlen ext (Suc fnlen + 3) = Some (Suc fnlen + 3, ext)"
    by (subst parse_ext.simps) simp
  ultimately show ?case using 0 by (simp add: Let_def min_absorb1) (metis append_take_drop_id)
next
  case (Suc n)
  let ?t = "c_text filename"
  let ?e = "drop (Suc fnlen) ?t"
  from Suc.hyps(2) have j3: "j < 3" by simp
  have il: "Suc fnlen + j < length filename"
    using Suc.prems c_text_len [OF Suc.prems(1)] by auto
  note step = parse_ext.simps [of filename fnlen ext "Suc (fnlen + j)"]
  show ?case
  proof (cases "j < length ?e")
    case True
    then have "Suc fnlen + j < length ?t" by simp
    with True have "parse_ext filename fnlen ext (Suc fnlen + j)
      = parse_ext filename fnlen (ext[j := ?e ! j]) (Suc fnlen + Suc j)"
      using j3 il Suc.prems c_text_facts(1,2) [of "Suc fnlen + j" filename] by (simp add: step)
    also have "\<dots> = (let k = min 3 (length ?e) in Some (Suc fnlen + k, take 3 ?e @ drop k (ext[j := ?e ! j])))"
      using Suc True j3 by (subst Suc.hyps(1)) (simp_all add: take_Suc_conv_app_nth Let_def)
    finally show ?thesis using True j3 by (simp add: Let_def)
  next
    case False
    then have j: "Suc fnlen + j = length ?t" using Suc.prems by simp
    then have "filename ! (Suc fnlen + j) = 0" using c_text_end [OF Suc.prems(1)] by simp
    then have "parse_ext filename fnlen ext (Suc fnlen + j) = Some (Suc fnlen + j, ext)"
      using j3 il by (simp add: step)
    moreover have "min 3 (length ?e) = j" "take 3 ?e = take j ext"
      using False Suc.prems j3 by (auto simp: min_def)
    ultimately show ?thesis by (simp only: Let_def append_take_drop_id)
  qed
qed

text \<open>The complete result of \<open>parseFileName\<close>.\<close>

lemma parseFileName_eq:
  fixes filename
  defines "t \<equiv> c_text filename"
  defines "b \<equiv> base_part t" and "e \<equiv> ext_part t"
  assumes T: "terminated filename" and L: "8 \<le> length name" "3 \<le> length ext"
  shows "parseFileName filename name ext
    = Some (if length b \<le> 8 \<and> length e \<le> 3 then 0 else 1,
            pad 8 (take 8 b) @ drop 8 name,
            if length b \<le> 8 then pad 3 (take 3 e) @ drop 3 ext else ext)"
proof -
  let ?k = "min 8 (length b)"
  have k: "?k = length (take 8 b)" by simp
  have bt: "length b \<le> length t" by (simp add: b_def base_part_def length_takeWhile_le)
  have tl: "length t < length filename" using c_text_len [OF T] by (simp add: t_def)
  have 1: "parse_name filename name 0 = Some (?k, take 8 b @ drop ?k name)"
    using parse_name_eq [OF T L(1), of 0] by (simp add: b_def t_def)
  have 2: "addTrailingNull (take 8 b @ drop ?k name) (of_nat ?k) 8
      = Some (pad 8 (take 8 b) @ drop 8 name)"
    unfolding k using L by (subst addTrailingNull_pad) (auto simp: min_def)
  consider (long) "8 < length b" | (plain) "length b \<le> 8" "length b = length t"
    | (dot) "length b \<le> 8" "length b < length t" using bt by linarith
  then show ?thesis
  proof cases
    case long
    then have "8 < length t" using bt by simp
    moreover have "t ! 8 \<noteq> 46" using long by (auto simp: b_def base_part_def dest: takeWhile_nth_P)
    moreover have "filename ! 8 = t ! 8" "t ! 8 \<noteq> 0"
      using c_text_facts(1,2) [of 8 filename] \<open>8 < length t\<close> by (simp_all add: t_def)
    ultimately show ?thesis using 1 2 long tl by (simp add: parseFileName_def min_def)
  next
    case plain
    then have "filename ! length b = 0" using c_text_end [OF T] by (simp add: t_def)
    moreover have "addTrailingNull ext 0 3 = Some (pad 3 [] @ drop 3 ext)"
      using addTrailingNull_pad [of "[]" 3 ext] L by simp
    moreover have "e = []" using plain by (simp add: e_def ext_part_def b_def)
    ultimately show ?thesis using 1 2 plain tl
      by (simp add: parseFileName_def min_def)
  next
    case dot
    let ?m = "min 3 (length e)"
    have "t ! length b = 46"
      using dot takeWhile_stop [of "\<lambda>c. c \<noteq> 46" t] by (simp add: b_def base_part_def)
    then have d: "filename ! length b = 46" using dot c_text_nth [of "length b" filename] by (simp add: t_def)
    have e: "drop (Suc (length b)) t = e" by (simp add: e_def ext_part_def b_def)
    have 3: "parse_ext filename (length b) ext (length b + 1)
        = Some (Suc (length b) + ?m, take 3 e @ drop ?m ext)"
      using parse_ext_eq [OF T L(2), of "length b" 0] dot by (simp add: Let_def e flip: t_def)
    have "addTrailingNull (take 3 e @ drop ?m ext) (of_nat (length (take 3 e))) 3
        = Some (pad 3 (take 3 e) @ drop 3 ext)"
      using L by (subst addTrailingNull_pad) (auto simp: min_def)
    then have 4: "addTrailingNull (take 3 e @ drop ?m ext) (of_nat ?m) 3
        = Some (pad 3 (take 3 e) @ drop 3 ext)" by (simp add: min.commute)
    have le: "length e = length t - Suc (length b)" by (simp flip: e)
    have 5: "Suc (length b) + ?m < length filename" using dot tl le by simp
    have "filename ! (Suc (length b) + ?m) = 0 \<longleftrightarrow> length e \<le> 3"
    proof (cases "length e \<le> 3")
      case True
      then have "Suc (length b) + ?m = length t" using dot le by simp
      then show ?thesis using True c_text_end [OF T] by (simp add: t_def)
    next
      case False
      then have "Suc (length b) + ?m < length t" using dot le by simp
      then show ?thesis using False c_text_facts(1,2) [of "Suc (length b) + ?m" filename]
        by (simp add: t_def)
    qed
    then show ?thesis using 1 2 3 4 5 dot d tl
      by (simp add: parseFileName_def min_absorb2 Let_def)
  qed
qed

section \<open>Words\<close>

text \<open>The test of the three word routines: in iteration \<open>i\<close> a word begins at the start of the line,
  or right after the space at \<open>i\<close>.\<close>

definition word_begins :: "u8 list \<Rightarrow> nat \<Rightarrow> nat option option" where
  "word_begins str i =
     do { c \<leftarrow> arr_get str i;
          if i = 0 \<and> c \<noteq> 32 then Some (Some i)
          else if c = 32
          then do { d \<leftarrow> arr_get str (i + 1); Some (if d \<noteq> 32 then Some (i + 1) else None) }
          else Some None }"

definition countWords :: "u8 list \<Rightarrow> int option" where
  "countWords str =
     do { n \<leftarrow> strlen str;
          for_range 0 (n - 1)
            (\<lambda>i ctr. do { b \<leftarrow> word_begins str i; Some (if b \<noteq> None then ctr + 1 else ctr) }) 0 }"

text \<open>The state of the loop of \<open>wordLen\<close> and \<open>getWord\<close>: \<open>ctr\<close>, \<open>word_start\<close>, \<open>word_end\<close>.\<close>

definition wordLen_step :: "u8 list \<Rightarrow> u16 \<Rightarrow> nat \<Rightarrow> int \<times> int \<times> int \<Rightarrow> (int \<times> int \<times> int) option" where
  "wordLen_step str idx i = (\<lambda>(ctr, word_start, word_end).
     do { c \<leftarrow> arr_get str i;
          let word_end = (if word_start \<noteq> - 1 \<and> word_end = - 1 \<and> c = 32 then int i else word_end);
          b \<leftarrow> word_begins str i;
          case b of
            None \<Rightarrow> Some (ctr, word_start, word_end)
          | Some p \<Rightarrow>
              Some (ctr + 1, if ctr + 1 = uint idx + 1 then int p else word_start, word_end) })"

definition wordLen :: "u8 list \<Rightarrow> u16 \<Rightarrow> int option" where
  "wordLen str idx =
     do { n \<leftarrow> strlen str;
          (ctr, word_start, word_end) \<leftarrow> for_range 0 (n - 1) (wordLen_step str idx) (0, - 1, - 1);
          let word_end = (if word_end = - 1 then int n else word_end);
          Some (uint (word_of_int (word_end - word_start) :: u16)) }"

definition getWord_step :: "u8 list \<Rightarrow> u16 \<Rightarrow> nat \<Rightarrow> int \<times> int \<Rightarrow> (int \<times> int) option" where
  "getWord_step str idx i = (\<lambda>(ctr, word_start).
     do { b \<leftarrow> word_begins str i;
          case b of
            None \<Rightarrow> Some (ctr, word_start)
          | Some p \<Rightarrow> Some (ctr + 1, if ctr + 1 = uint idx + 1 then int p else word_start) })"

definition getWord :: "u8 list \<Rightarrow> u16 \<Rightarrow> u8 list \<Rightarrow> u8 list option" where
  "getWord str idx buf =
     do { len \<leftarrow> strlen str;
          (ctr, word_start) \<leftarrow> for_range 0 (len - 1) (getWord_step str idx) (0, - 1);
          n \<leftarrow> wordLen str idx;
          buf \<leftarrow> for_range 0 (nat n)
            (\<lambda>i buf. do { c \<leftarrow> arr_geti str (word_start + int i); arr_set buf i c }) buf;
          arr_set buf (nat n) 0 }"

text \<open>Where the words of a line begin, and the words: the maximal runs of non-space characters.\<close>

definition word_start_at :: "u8 list \<Rightarrow> nat \<Rightarrow> bool" where
  "word_start_at f i = (f ! i \<noteq> 32 \<and> (i = 0 \<or> f ! (i - 1) = 32))"

definition starts_upto :: "u8 list \<Rightarrow> nat \<Rightarrow> nat list" where
  "starts_upto f k = filter (word_start_at f) [0..<k]"

definition run_at :: "u8 list \<Rightarrow> nat \<Rightarrow> u8 list" where
  "run_at f p = takeWhile (\<lambda>c. c \<noteq> 32) (drop p f)"

definition words :: "u8 list \<Rightarrow> u8 list list" where
  "words f = map (run_at f) (starts_upto f (length f))"

lemma starts_upto_Suc:
  "starts_upto f (Suc k) = starts_upto f k @ (if word_start_at f k then [k] else [])"
  by (simp add: starts_upto_def)

lemma starts_upto_less: "k < length (starts_upto f n) \<Longrightarrow> starts_upto f n ! k < n"
  using nth_mem [of k "starts_upto f n"] by (auto simp: starts_upto_def)

lemma length_words: "length (words f) = length (starts_upto f (length f))"
  by (simp add: words_def)

text \<open>What \<open>word_begins\<close> finds in iteration \<open>i\<close> are the starts it has not passed yet.\<close>

lemma word_begins_eq:
  assumes "terminated str" "Suc i < length (c_text str)"
  shows "word_begins str i
    = Some (if i = 0 \<and> word_start_at (c_text str) 0 then Some 0
            else if word_start_at (c_text str) (Suc i) then Some (Suc i) else None)"
  using assms c_text_len [OF assms(1)] c_text_nth [of i str] c_text_nth [of "Suc i" str]
  by (auto simp: word_begins_def word_start_at_def)

text \<open>The counting loop, and \<open>countWords\<close> against the list of words.\<close>

lemma count_loop:
  fixes str
  defines "f \<equiv> c_text str"
  assumes T: "terminated str" and n: "2 \<le> length f"
  shows "for_range 0 (length f - 1)
      (\<lambda>i ctr. do { b \<leftarrow> word_begins str i; Some (if b \<noteq> None then ctr + 1 else ctr) }) 0
    = Some (int (length (words f)))"
proof -
  let ?f = "\<lambda>i ctr. do { b \<leftarrow> word_begins str i; Some (if b \<noteq> None then ctr + 1 else ctr) }"
  let ?I = "\<lambda>i ctr. ctr = (if i = 0 then 0 else int (length (starts_upto f (Suc i))))"
  have "\<exists>ctr. for_range 0 (length f - 1) ?f 0 = Some ctr \<and> ?I (length f - 1) ctr"
  proof (rule for_range_inv)
    fix i ctr
    assume i: "i < length f - 1" and I: "?I i ctr"
    then have "word_begins str i
      = Some (if i = 0 \<and> word_start_at f 0 then Some 0 else if word_start_at f (Suc i) then Some (Suc i) else None)"
      using word_begins_eq [OF T, of i] by (simp add: f_def)
    moreover have "starts_upto f 1 = (if word_start_at f 0 then [0] else [])"
      by (simp add: starts_upto_def)
    moreover have "word_start_at f 0 \<Longrightarrow> \<not> word_start_at f 1" by (simp add: word_start_at_def)
    ultimately show "\<exists>ctr'. ?f i ctr = Some ctr' \<and> ?I (Suc i) ctr'"
      using I by (cases i) (auto simp: starts_upto_Suc)
  qed simp_all
  moreover have "Suc (length f - 1) = length f" "length f - 1 \<noteq> 0" using n by simp_all
  ultimately show ?thesis by (auto simp: length_words)
qed

lemma countWords_eq:
  assumes "terminated str" "2 \<le> length (c_text str)"
  shows "countWords str = Some (int (length (words (c_text str))))"
  using count_loop [OF assms] strlen_eq [OF assms(1)] by (simp add: countWords_def)

text \<open>A line of at most one character has no words for \<open>countWords\<close>.\<close>

lemma countWords_short:
  "terminated str \<Longrightarrow> length (c_text str) \<le> 1 \<Longrightarrow> countWords str = Some 0"
  by (simp add: countWords_def strlen_eq)

text \<open>\<open>run_end f p\<close>: where the run that starts at \<open>p\<close> ends.\<close>

definition run_end :: "u8 list \<Rightarrow> nat \<Rightarrow> nat" where
  "run_end f p = p + length (run_at f p)"

lemma run_end_le: "p \<le> length f \<Longrightarrow> run_end f p \<le> length f"
  using length_takeWhile_le [of "\<lambda>c. c \<noteq> 32" "drop p f"] by (simp add: run_end_def run_at_def)

lemma run_at_take: "run_at f p = take (run_end f p - p) (drop p f)"
  by (simp add: run_end_def run_at_def takeWhile_eq_take [symmetric])

lemma run_no_space: "p \<le> j \<Longrightarrow> j < run_end f p \<Longrightarrow> f ! j \<noteq> 32"
  using takeWhile_nth_P [of "j - p" "\<lambda>c. c \<noteq> 32" "drop p f"]
    run_end_le [of p f] length_takeWhile_le [of "\<lambda>c. c \<noteq> 32" "drop p f"]
  by (auto simp: run_end_def run_at_def)

lemma run_end_space: "p \<le> length f \<Longrightarrow> run_end f p < length f \<Longrightarrow> f ! run_end f p = 32"
  using takeWhile_stop [of "\<lambda>c. c \<noteq> 32" "drop p f"] by (auto simp: run_end_def run_at_def)

lemma run_end_step:
  assumes "p \<le> i" "i < length f" "i \<le> run_end f p"
  shows "run_end f p < Suc i \<longleftrightarrow> f ! i = 32"
proof
  assume "run_end f p < Suc i"
  with assms have "run_end f p = i" by simp
  with assms show "f ! i = 32" using run_end_space [of p f] by simp
next
  assume "f ! i = 32"
  with assms show "run_end f p < Suc i" using run_no_space [of p i f] by force
qed

lemma run_end_start: "p < length f \<Longrightarrow> f ! p \<noteq> 32 \<Longrightarrow> p < run_end f p"
  by (simp add: run_end_def run_at_def Cons_nth_drop_Suc [symmetric])

text \<open>The loop of \<open>wordLen\<close> and \<open>getWord\<close>: \<open>ctr\<close> counts the starts passed, and \<open>word_start\<close> is the
  start of word \<open>k\<close> once it is passed.\<close>

definition passed :: "u8 list \<Rightarrow> nat \<Rightarrow> nat list" where
  "passed f i = (if i = 0 then [] else starts_upto f (Suc i))"

definition scan_inv :: "u8 list \<Rightarrow> nat \<Rightarrow> nat \<Rightarrow> int \<Rightarrow> int \<Rightarrow> bool" where
  "scan_inv f k i ctr ws =
     (ctr = int (length (passed f i)) \<and>
      ws = (if k < length (passed f i) then int (passed f i ! k) else - 1))"

lemma passed_Suc:
  "Suc i < length f \<Longrightarrow> passed f (Suc i) = passed f i @
     (if i = 0 \<and> word_start_at f 0 then [0] else if word_start_at f (Suc i) then [Suc i] else [])"
  by (cases i) (auto simp: passed_def starts_upto_Suc, auto simp: starts_upto_def word_start_at_def)

lemma passed_le: "k < length (passed f i) \<Longrightarrow> passed f i ! k \<le> i"
  using starts_upto_less [of k f "Suc i"] by (auto simp: passed_def split: if_splits)

lemma scan_inv_step:
  assumes "scan_inv f k i ctr ws" "Suc i < length f"
  shows "\<not> (i = 0 \<and> word_start_at f 0) \<Longrightarrow> \<not> word_start_at f (Suc i) \<Longrightarrow> scan_inv f k (Suc i) ctr ws"
    and "i = 0 \<Longrightarrow> word_start_at f 0 \<Longrightarrow>
      scan_inv f k (Suc i) (ctr + 1) (if ctr + 1 = int k + 1 then 0 else ws)"
    and "\<not> (i = 0 \<and> word_start_at f 0) \<Longrightarrow> word_start_at f (Suc i) \<Longrightarrow>
      scan_inv f k (Suc i) (ctr + 1) (if ctr + 1 = int k + 1 then int (Suc i) else ws)"
  using assms by (auto simp: scan_inv_def passed_Suc nth_append)

lemma getWord_step_inv:
  fixes str
  defines "f \<equiv> c_text str"
  assumes T: "terminated str" and i: "Suc i < length f"
    and I: "scan_inv f (unat idx) i ctr ws"
  shows "\<exists>ctr' ws'. getWord_step str idx i (ctr, ws) = Some (ctr', ws')
    \<and> scan_inv f (unat idx) (Suc i) ctr' ws'"
proof -
  note wb = word_begins_eq [OF T i [unfolded f_def], folded f_def]
  note step = scan_inv_step [OF I i]
  consider "i = 0" "word_start_at f 0" | "\<not> (i = 0 \<and> word_start_at f 0)" "word_start_at f (Suc i)"
    | "\<not> (i = 0 \<and> word_start_at f 0)" "\<not> word_start_at f (Suc i)" by blast
  then show ?thesis
  proof cases
    case 1
    then have "word_begins str i = Some (Some 0)" unfolding wb by simp
    with step(2) [OF 1] show ?thesis by (auto simp: getWord_step_def split: if_splits)
  next
    case 2
    then have "word_begins str i = Some (Some (Suc i))" unfolding wb by simp
    with step(3) [OF 2] show ?thesis by (auto simp: getWord_step_def split: if_splits)
  next
    case 3
    then have "word_begins str i = Some None" unfolding wb by simp
    with step(1) [OF 3] show ?thesis by (auto simp: getWord_step_def split: if_splits)
  qed
qed

definition we_inv :: "u8 list \<Rightarrow> nat \<Rightarrow> int \<Rightarrow> int \<Rightarrow> bool" where
  "we_inv f i ws we =
     (we = (if ws \<noteq> - 1 \<and> run_end f (nat ws) < i then int (run_end f (nat ws)) else - 1))"

lemma wordLen_step_eq:
  "i < length str \<Longrightarrow> wordLen_step str idx i (ctr, ws, we)
    = map_option (\<lambda>(ctr', ws'). (ctr', ws', if ws \<noteq> - 1 \<and> we = - 1 \<and> str ! i = 32 then int i else we))
        (getWord_step str idx i (ctr, ws))"
  by (cases "word_begins str i") (auto simp: wordLen_step_def getWord_step_def Let_def split: option.splits)

lemma scan_inv_start:
  "scan_inv f k i ctr ws \<Longrightarrow> ws \<noteq> - 1 \<Longrightarrow> nat ws \<le> i \<and> 0 \<le> ws"
  using passed_le [of k f i] by (auto simp: scan_inv_def split: if_splits)

lemma scan_inv_new:
  assumes "scan_inv f k i ctr ws" "scan_inv f k (Suc i) ctr' ws'" "Suc i < length f" "ws' \<noteq> ws"
  shows "ws = - 1 \<and> Suc i \<le> run_end f (nat ws')"
proof -
  have "\<not> k < length (passed f i)" using assms
    by (auto simp: scan_inv_def passed_Suc nth_append split: if_splits)
  moreover from this assms have "k < length (passed f (Suc i))" by (auto simp: scan_inv_def split: if_splits)
  ultimately consider "ws = - 1" "ws' = 0" "i = 0" "word_start_at f 0" | "ws = - 1" "ws' = int (Suc i)"
    using assms by (auto simp: scan_inv_def passed_Suc nth_append split: if_splits)
  then show ?thesis
  proof cases
    case 1
    have "0 < run_end f 0"
      using 1 assms(3) by (intro run_end_start) (auto simp: word_start_at_def)
    with 1 show ?thesis by simp
  next
    case 2
    then show ?thesis by (simp add: run_end_def)
  qed
qed

lemma we_inv_step:
  assumes I: "scan_inv f k i ctr ws" and W: "we_inv f i ws we" and i: "Suc i < length f"
  shows "we_inv f (Suc i) ws (if ws \<noteq> - 1 \<and> we = - 1 \<and> f ! i = 32 then int i else we)"
proof (cases "ws \<noteq> - 1 \<and> i \<le> run_end f (nat ws)")
  case True
  with scan_inv_start [OF I] i have "run_end f (nat ws) < Suc i \<longleftrightarrow> f ! i = 32"
    by (intro run_end_step) auto
  with True W show ?thesis by (auto simp: we_inv_def)
next
  case False
  with W show ?thesis by (auto simp: we_inv_def)
qed

lemma wordLen_loop:
  fixes str
  defines "f \<equiv> c_text str"
  assumes T: "terminated str" and n: "2 \<le> length f" and k: "unat idx < length (words f)"
  defines "p \<equiv> starts_upto f (length f) ! unat idx"
  shows "\<exists>ctr. for_range 0 (length f - 1) (getWord_step str idx) (0, - 1) = Some (ctr, int p)"
    and "\<exists>ctr we. for_range 0 (length f - 1) (wordLen_step str idx) (0, - 1, - 1) = Some (ctr, int p, we)
      \<and> we_inv f (length f - 1) (int p) we"
proof -
  have "Suc (length f - 1) = length f" using n by arith
  then have "passed f (length f - 1) = starts_upto f (length f)" using n by (simp add: passed_def)
  then have last: "scan_inv f (unat idx) (length f - 1) ctr ws \<Longrightarrow> ws = int p" for ctr ws
    using k by (auto simp: scan_inv_def p_def length_words)
  have start: "scan_inv f (unat idx) 0 0 (- 1)" by (simp add: scan_inv_def passed_def)
  note step = getWord_step_inv [OF T, folded f_def]
  have "\<exists>s. for_range 0 (length f - 1) (getWord_step str idx) (0, - 1) = Some s
      \<and> (case s of (ctr, ws) \<Rightarrow> scan_inv f (unat idx) (length f - 1) ctr ws)"
  proof (rule for_range_inv)
    fix i and s :: "int \<times> int"
    assume "i < length f - 1" "case s of (ctr, ws) \<Rightarrow> scan_inv f (unat idx) i ctr ws"
    then show "\<exists>s'. getWord_step str idx i s = Some s' \<and> (case s' of (ctr, ws) \<Rightarrow> scan_inv f (unat idx) (Suc i) ctr ws)"
      using step [of i idx "fst s" "snd s"] by (cases s) auto
  qed (use start in auto)
  with last show "\<exists>ctr. for_range 0 (length f - 1) (getWord_step str idx) (0, - 1) = Some (ctr, int p)"
    by fastforce
  let ?W = "\<lambda>i (ctr, ws, we). scan_inv f (unat idx) i ctr ws \<and> we_inv f i ws we"
  have "\<exists>s. for_range 0 (length f - 1) (wordLen_step str idx) (0, - 1, - 1) = Some s \<and> ?W (length f - 1) s"
  proof (rule for_range_inv)
    fix i and s :: "int \<times> int \<times> int"
    assume i: "i < length f - 1" and W: "?W i s"
    obtain ctr ws we where s: "s = (ctr, ws, we)" by (cases s)
    from i have i': "Suc i < length f" by linarith
    with step [of i idx ctr ws] W s obtain ctr' ws' where g: "getWord_step str idx i (ctr, ws) = Some (ctr', ws')"
      and I': "scan_inv f (unat idx) (Suc i) ctr' ws'" by auto
    let ?we = "if ws \<noteq> - 1 \<and> we = - 1 \<and> str ! i = 32 then int i else we"
    have "str ! i = f ! i" using i c_text_nth [of i str] by (simp add: f_def)
    then have "we_inv f (Suc i) ws ?we" using we_inv_step [of f "unat idx" i ctr ws we] i' W s by simp
    then have "we_inv f (Suc i) ws' ?we"
      using scan_inv_new [of f "unat idx" i ctr ws ctr' ws'] i' W s I' by (cases "ws' = ws") (auto simp: we_inv_def)
    moreover have "i < length str" using i c_text_len [OF T] by (simp add: f_def)
    ultimately show "\<exists>s'. wordLen_step str idx i s = Some s' \<and> ?W (Suc i) s'"
      using s g I' by (simp add: wordLen_step_eq)
  qed (use start in \<open>auto simp: we_inv_def\<close>)
  with last show "\<exists>ctr we. for_range 0 (length f - 1) (wordLen_step str idx) (0, - 1, - 1) = Some (ctr, int p, we)
      \<and> we_inv f (length f - 1) (int p) we"
    by fastforce
qed

text \<open>\<open>wordLen\<close>: the loop does not look at the last character, so a space there is taken into the
  last word.\<close>

lemma wordLen_gen:
  fixes str
  defines "f \<equiv> c_text str"
  assumes T: "terminated str" and n: "2 \<le> length f" and k: "unat idx < length (words f)"
    and small: "length f < 2 ^ 16"
  defines "p \<equiv> starts_upto f (length f) ! unat idx"
  shows "wordLen str idx
    = Some (if run_end f p < length f - 1 then int (run_end f p - p) else int (length f - p))"
proof -
  obtain ctr we where loop: "for_range 0 (length f - 1) (wordLen_step str idx) (0, - 1, - 1) = Some (ctr, int p, we)"
    and we: "we_inv f (length f - 1) (int p) we"
    using wordLen_loop(2) [OF T n [unfolded f_def] k [unfolded f_def]] by (auto simp: f_def p_def)
  have "p < length f" using starts_upto_less k by (simp add: p_def length_words)
  moreover have "p \<le> run_end f p" by (simp add: run_end_def)
  moreover have "x < 65536 \<Longrightarrow> uint (word_of_int (int x) :: u16) = int x" for x
    by (simp add: unsigned_of_nat take_bit_eq_mod)
  moreover have "(if we = - 1 then int (length f) else we)
      = int (if run_end f p < length f - 1 then run_end f p else length f)"
    using we by (simp add: we_inv_def)
  ultimately show ?thesis using loop small strlen_eq [OF T]
    by (auto simp: wordLen_def Let_def of_nat_diff simp flip: f_def of_nat_diff)
qed

lemma words_nth:
  "k < length (words f) \<Longrightarrow> words f ! k = run_at f (starts_upto f (length f) ! k)"
  by (simp add: words_def)

lemma wordLen_eq:
  fixes str
  defines "f \<equiv> c_text str"
  assumes T: "terminated str" and n: "2 \<le> length f" and k: "unat idx < length (words f)"
    and small: "length f < 2 ^ 16" and last: "last f \<noteq> 32"
  shows "wordLen str idx = Some (int (length (words f ! unat idx)))"
proof -
  let ?p = "starts_upto f (length f) ! unat idx"
  have p: "?p < length f" using starts_upto_less k by (simp add: length_words)
  have "f ! (length f - 1) \<noteq> 32" using last n by (metis last_conv_nth list.size(3) not_numeral_le_zero)
  moreover have "length f - 1 < length f" using n by linarith
  ultimately have "run_end f ?p \<noteq> length f - 1" using run_end_space [of ?p f] p by auto
  moreover have "run_end f ?p \<le> length f" using p by (intro run_end_le) simp
  ultimately have "run_end f ?p < length f - 1 \<or> run_end f ?p = length f" by linarith
  moreover have "run_end f ?p - ?p = length (words f ! unat idx)"
    using k by (simp add: words_nth run_end_def)
  ultimately show ?thesis
    using wordLen_gen [OF T n [unfolded f_def] k [unfolded f_def] small [unfolded f_def], folded f_def]
    by auto
qed

lemma getWord_copy:
  assumes "p + n \<le> length str" "n < length buf"
  shows "for_range 0 n (\<lambda>i buf. do { c \<leftarrow> arr_geti str (int p + int i); arr_set buf i c }) buf
    = Some (take n (drop p str) @ drop n buf)"
  using assms
  by (subst for_range_fill [where g = "\<lambda>i. str ! (p + i)" and off = 0 and m = "length buf"])
    (simp_all add: map_nth_slice flip: of_nat_add)

text \<open>What \<open>getWord\<close> takes for word \<open>k\<close>: the word, and the space behind it when that is the last
  character of the line.\<close>

definition taken :: "u8 list \<Rightarrow> nat \<Rightarrow> u8 list" where
  "taken f k =
     (if starts_upto f (length f) ! k + length (words f ! k) + 1 = length f then words f ! k @ [32] else words f ! k)"

lemma taken_run:
  assumes "k < length (words f)"
  defines "p \<equiv> starts_upto f (length f) ! k"
  shows "length (taken f k) = (if run_end f p < length f - 1 then run_end f p - p else length f - p)"
    and "taken f k = take (length (taken f k)) (drop p f)" "p + length (taken f k) \<le> length f"
proof -
  have p: "p < length f" using starts_upto_less assms(1) by (simp add: p_def length_words)
  have w: "words f ! k = run_at f p" using assms(1) by (simp add: words_nth p_def)
  have e: "run_end f p \<le> length f" "run_end f p = p + length (run_at f p)"
    using p run_end_le [of p f] by (simp_all add: run_end_def)
  have t: "taken f k = (if run_end f p + 1 = length f then run_at f p @ [32] else run_at f p)"
    by (simp add: taken_def w e(2) p_def [symmetric])
  have tk: "run_at f p = take (length (run_at f p)) (drop p f)" by (simp add: run_at_def takeWhile_eq_take [symmetric])
  show "length (taken f k) = (if run_end f p < length f - 1 then run_end f p - p else length f - p)"
    using e p by (auto simp: t)
  show "p + length (taken f k) \<le> length f" using e by (auto simp: t)
  show "taken f k = take (length (taken f k)) (drop p f)"
  proof (cases "run_end f p + 1 = length f")
    case True
    then have "f ! (p + length (run_at f p)) = 32" using run_end_space [of p f] p e by simp
    then have "take (Suc (length (run_at f p))) (drop p f) = take (length (run_at f p)) (drop p f) @ [32]"
      using True e(2) by (subst take_Suc_conv_app_nth) simp_all
    then show ?thesis using True tk by (simp add: t)
  next
    case False
    then show ?thesis using tk by (simp add: t)
  qed
qed

text \<open>\<open>getWord\<close> stores what it takes for word \<open>idx\<close> and its NUL.\<close>

lemma getWord_taken:
  fixes str
  defines "f \<equiv> c_text str"
  assumes T: "terminated str" and n: "2 \<le> length f" and k: "unat idx < length (words f)"
    and small: "length f < 2 ^ 16"
  defines "w \<equiv> taken f (unat idx)"
  assumes fits: "length w < length buf"
  shows "getWord str idx buf = Some (w @ 0 # drop (Suc (length w)) buf)"
proof -
  let ?p = "starts_upto f (length f) ! unat idx"
  obtain ctr where loop: "for_range 0 (length f - 1) (getWord_step str idx) (0, - 1) = Some (ctr, int ?p)"
    using wordLen_loop(1) [OF T n [unfolded f_def] k [unfolded f_def]] by (auto simp: f_def)
  note t = taken_run [OF k, folded w_def]
  have "take (length w) (drop ?p str) = take (length w) (drop ?p f)"
  proof (rule nth_equalityI)
    show "length (take (length w) (drop ?p str)) = length (take (length w) (drop ?p f))"
      using t(3) c_text_len [OF T] by (simp add: f_def)
    fix i assume "i < length (take (length w) (drop ?p str))"
    then show "take (length w) (drop ?p str) ! i = take (length w) (drop ?p f) ! i"
      using t(3) c_text_len [OF T] c_text_nth [of "?p + i" str] by (simp add: f_def)
  qed
  also have "\<dots> = w" using t(2) by simp
  finally have "take (length w) (drop ?p str) = w" .
  moreover have "?p + length w \<le> length str" using t(3) c_text_len [OF T] by (simp add: f_def)
  ultimately have "for_range 0 (length w) (\<lambda>i buf. do { c \<leftarrow> arr_geti str (int ?p + int i); arr_set buf i c }) buf
      = Some (w @ drop (length w) buf)"
    using getWord_copy [of ?p "length w" str buf] fits by simp
  moreover have "(w @ drop (length w) buf)[length w := 0] = w @ 0 # drop (Suc (length w)) buf"
    using fits by (simp add: list_update_append flip: Cons_nth_drop_Suc [of "length w" buf])
  moreover have "wordLen str idx = Some (int (length w))"
    using wordLen_gen [OF T n [unfolded f_def] k [unfolded f_def] small [unfolded f_def], folded f_def] t(1) by simp
  ultimately show ?thesis using loop strlen_eq [OF T] fits
    by (simp add: getWord_def flip: f_def)
qed

text \<open>On a line of at most one character no word is found, and the copy starts before the line.\<close>

lemma getWord_short:
  assumes "terminated str" "length (c_text str) < 2"
  shows "getWord str idx buf = None"
proof -
  let ?n = "length (c_text str)"
  have "wordLen str idx = Some (int ?n + 1)"
    using assms strlen_eq [OF assms(1)] by (cases ?n) (auto simp: wordLen_def)
  moreover have "arr_geti str (- 1) = None" by (simp add: arr_geti_def)
  ultimately show ?thesis
    using assms strlen_eq [OF assms(1)] by (simp add: getWord_def for_range_step)
qed

text \<open>On a line that does not end in a space what is taken is the word.\<close>

lemma getWord_eq:
  fixes str
  defines "f \<equiv> c_text str"
  assumes T: "terminated str" and n: "2 \<le> length f" and k: "unat idx < length (words f)"
    and small: "length f < 2 ^ 16" and last: "last f \<noteq> 32"
  defines "w \<equiv> words f ! unat idx"
  assumes fits: "length w < length buf"
  shows "getWord str idx buf = Some (w @ 0 # drop (Suc (length w)) buf)"
proof -
  let ?p = "starts_upto f (length f) ! unat idx"
  have "?p + length w = run_end f ?p" using k by (simp add: w_def words_nth run_end_def)
  moreover have "f ! (length f - 1) \<noteq> 32" using last n by (metis last_conv_nth list.size(3) not_numeral_le_zero)
  moreover have "?p < length f" using starts_upto_less k by (simp add: length_words)
  ultimately have "taken f (unat idx) = w"
    using run_end_space [of ?p f] by (auto simp: taken_def w_def) (metis diff_Suc_1')
  then show ?thesis using getWord_taken [OF T n [unfolded f_def] k [unfolded f_def] small [unfolded f_def]] fits by (simp add: f_def)
qed

end
