(* ===== verification/SystemProps.thy ===== *)
theory SystemProps
  imports Boot LifeProps Words
begin

text \<open>
  Properties that span components: how interrupts are routed after the setup, file operations through
  system calls and the memory of the calling process, and the words of a command line.
\<close>

unbundle bit_operations_syntax

section \<open>The routing of interrupts\<close>

lemma cursor_no_pic: "pic_after PIC1_COMMAND (cursor_events r c) s = s" "pic_after PIC2_COMMAND (cursor_events r c) s = s"
  by (simp_all add: cursor_events_def Let_def pic_defs CURSOR_PORT_CMD_def CURSOR_PORT_DATA_def)

lemma clear_screen_step:
  assumes "length (vram t) = 4000"
  shows "\<exists>t'. clear_screen t = Some t' \<and> screen_ok t' \<and> bus t' = bus t @ cursor_events 0 0 @ cursor_events 0 0"
  using assms by (simp add: clear_screen_def framebuffer_clear_def memset_eq screen_ok_def framebuffer_set_cursor_def)

lemma keyboard_no_slave: "pic_after PIC2_COMMAND (activate_keyboard_interrupt dev b) s = pic_after PIC2_COMMAND b s"
  by (simp add: activate_keyboard_interrupt_def inb_def out_def pic_defs Let_def)

lemma keyboard_master:
  "offset (pic_after PIC1_COMMAND (activate_keyboard_interrupt dev b) s) = offset (pic_after PIC1_COMMAND b s)"
  "icw (pic_after PIC1_COMMAND (activate_keyboard_interrupt dev b) s) = 0" if "icw (pic_after PIC1_COMMAND b s) = 0"
  using that by (simp_all add: activate_keyboard_interrupt_def inb_def out_def pic_defs Let_def)

text \<open>C28: After \<open>setup_tables\<close>, on any hardware whose interrupt controllers answer with their masks: the
  controllers have finished their initialisation and send interrupt n to vector 0x20 + n and 0x28 + n,
  only the keyboard's is unmasked, each of the 64 vectors leads to its own handler stub, and user
  programs can call exactly the vectors 0x30 to 0x3F, of which none is a hardware interrupt.\<close>

theorem interrupts_routed:
  assumes "length (isr_stubs l) = 64" "length (idt b) = 256" "length (vram (scrn (mach b))) = 4000" "pic_device dev c0"
  shows "\<exists>b'. setup_tables dev l b = Some b' \<and> screen_ok (scrn (mach b')) \<and>
    (\<forall>i < 64. handler_of (idt b' ! i) = isr_stubs l ! i \<and> valid_bit (idt b' ! i) = 1 \<and> (gate_DPL (idt b' ! i) = 3 \<longleftrightarrow> 0x30 \<le> i)) \<and>
    (\<forall>i. 64 \<le> i \<longrightarrow> i < 256 \<longrightarrow> idt b' ! i = idt b ! i) \<and>
    (let master = pic_after PIC1_COMMAND (bus (scrn (mach b'))) c0; slave = pic_after PIC2_COMMAND (bus (scrn (mach b'))) c0
     in icw master = 0 \<and> icw slave = 0 \<and> offset master = 0x20 \<and> offset slave = 0x28 \<and>
        mask_reg master = NOT (push_bit IRQ_KEYBOARD 1) \<and> mask_reg slave = 0xFF)"
proof -
  let ?t = "scrn (mach b)"
  let ?b1 = "pic_remap (bus ?t)" and ?b2 = "activate_keyboard_interrupt dev (pic_remap (bus ?t))"
  let ?idt = "map (\<lambda>i. gate_for i (isr_stubs l ! i)) [0..<64] @ drop 64 (idt b)"
  have idt: "initialize_idt (isr_stubs l) (idt b) = Some ?idt" by (rule initialize_idt_eq [OF assms(1,2)])
  obtain t' where t': "clear_screen (?t\<lparr> bus := ?b2 \<rparr>) = Some t'" "screen_ok t'"
    "bus t' = ?b2 @ cursor_events 0 0 @ cursor_events 0 0"
    using clear_screen_step [of "?t\<lparr> bus := ?b2 \<rparr>"] assms(3) by auto
  have m0: "icw (pic_after PIC1_COMMAND ?b1 c0) = 0" by (simp add: remap_masters)
  have "setup_tables dev l b = Some (b\<lparr> gdtr := gdt_gdtr (gdt_addr l), idt := ?idt, idtr := idt_idtr (idt_addr l),
      mach := (mach b)\<lparr> scrn := t' \<rparr> \<rparr>)"
    using idt t'(1) by (simp add: setup_tables_def Let_def)
  moreover have "handler_of (?idt ! i) = isr_stubs l ! i \<and> valid_bit (?idt ! i) = 1 \<and> (gate_DPL (?idt ! i) = 3 \<longleftrightarrow> 0x30 \<le> i)"
    if "i < 64" for i
    using that handler_split [of "isr_stubs l ! i"] by (simp add: nth_append gate_for_def handler_of_def)
  moreover have "?idt ! i = idt b ! i" if "64 \<le> i" "i < 256" for i using that assms(2) by (simp add: nth_append)
  moreover have "pic_after PIC2_COMMAND (bus t') c0 = pic_after PIC2_COMMAND ?b1 c0"
    by (simp add: t'(3) cursor_no_pic keyboard_no_slave)
  moreover have "pic_after PIC1_COMMAND (bus t') c0 = pic_after PIC1_COMMAND ?b2 c0" by (simp add: t'(3) cursor_no_pic)
  moreover have "mask_reg (pic_after PIC1_COMMAND ?b2 c0) = NOT (push_bit IRQ_KEYBOARD 1)"
    using keyboard_mask [OF assms(4) m0] by (simp add: remap_masters IRQ_KEYBOARD_def)
  ultimately show ?thesis
    using t'(2) keyboard_master [OF m0] by (simp add: Let_def remap_masters remap_slaves)
qed

definition mask_device :: device where
  "mask_device b port = ucast (mask_reg (pic_after PIC1_COMMAND b reset_pic))"

definition machine0 :: machine where
  "machine0 = \<lparr> kern = kernel0, scrn = \<lparr> vram = replicate 4000 0, cursor_row = 0, cursor_col = 0, bus = [] \<rparr>,
     kbd = keyboard_state, shl = shell_state, hlt = False \<rparr>"

lemma interrupts_routed_witness:
  "\<exists>b'. setup_tables mask_device \<lparr> gdt_addr = 0, idt_addr = 0, tss_addr = 0, base_ptr = 0, isr_stubs = map of_nat [0..<64] \<rparr>
     \<lparr> mach = machine0, gdt = global_descriptor_table, idt = interrupt_descriptor_table, tss = interrupt_tss_entry,
       gdtr = (0, 0), idtr = (0, 0) \<rparr> = Some b' \<and> handler_of (idt b' ! 0x30) = 0x30"
proof -
  have "ucast (ucast x :: u16) = x" for x :: u8 by (rule bit_word_eqI) (simp add: bit_simps)
  then have "pic_device mask_device reset_pic" by (simp add: pic_device_def mask_device_def)
  moreover have "length (map of_nat [0..<64] :: u32 list) = 64" "length interrupt_descriptor_table = 256"
    "length (vram (scrn machine0)) = 4000" by (simp_all add: interrupt_descriptor_table_def machine0_def)
  ultimately show ?thesis
    using interrupts_routed [of "\<lparr> gdt_addr = 0, idt_addr = 0, tss_addr = 0, base_ptr = 0, isr_stubs = map of_nat [0..<64] \<rparr>"
        "\<lparr> mach = machine0, gdt = global_descriptor_table, idt = interrupt_descriptor_table, tss = interrupt_tss_entry,
           gdtr = (0, 0), idtr = (0, 0) \<rparr>" mask_device reset_pic] by fastforce
qed

section \<open>Files through system calls\<close>

lemma decode_encode_request: "wf_request r \<Longrightarrow> decode_request (encode_request r) = r"
  by (simp add: decode_request_def encode_request_def load32_def wf_request_def bytes32_def nth_append)

lemma user_mem_set [simp]: "user_mem (set_user_mem m s) = m" "user_mem (set_fs f s) = user_mem s"
  by (simp_all add: user_mem_def set_user_mem_def set_fs_def)

lemma kern_set [simp]:
  "k_fs (kern (set_user_mem m s)) = k_fs (kern s)" "k_fs (kern (set_fs f s)) = f"
  "cr3 (kern (set_user_mem m s)) = cr3 (kern s)" "cr3 (kern (set_fs f s)) = cr3 (kern s)"
  "space (kern (set_fs f s)) = space (kern s)" "space (kern (set_user_mem m s)) = (space (kern s))(cr3 (kern s) := m)"
  by (simp_all add: set_user_mem_def set_fs_def)

text \<open>C6: A process that writes a file by system call 2 and later reads it by system call 0, from whatever
  its memory has become in between: the first call delivers the code 0 where the process asked for it.
  When the slot for the entry was not marked as a folder, the second one delivers 0 too and the
  buffer has the bytes that were in the first one; when a deleted folder left its mark there, the
  second one delivers 1.  The requests are the structures that lie in the process's memory, the
  second buffer is large enough, and the address for the second code is not in it.\<close>

theorem syscall_write_read:
  assumes "vol_ok (k_fs (kern s)) D" "p \<in> D" "parent_cluster_number r = of_nat p" "wf_request r" "request_key r \<noteq> zero_key"
    and "buffer_size r \<noteq> 0" "eax w = 2" "mem_load (user_mem s) (ebx w) 23 = encode_request r"
    and "write_fat r (user_mem s) (k_fs (kern s)) = Some (0, f)"
    and "eax v = 0" "mem_load m (ebx v) 23 = encode_request (r\<lparr> r_buf := b, buffer_size := n \<rparr>)" "buffer_size r \<le> n"
    and "unat (buffer_size r) \<le> unat (ecx v - b)"
  shows "\<exists>s1 s2. syscall dev pd_addr w s = Some s1 \<and> user_mem s1 (ecx w) = 0 \<and>
    syscall dev pd_addr v (set_user_mem m s1) = Some s2 \<and>
    (if slot_tainted (k_fs (kern s)) p then user_mem s2 (ecx v) = 1
     else user_mem s2 (ecx v) = 0 \<and>
       mem_load (user_mem s2) b (unat (buffer_size r)) = mem_load (user_mem s) (r_buf r) (unat (buffer_size r)))"
proof -
  let ?r = "r\<lparr> r_buf := b, buffer_size := n \<rparr>" and ?n = "unat (buffer_size r)"
  let ?bs = "mem_load (user_mem s) (r_buf r) ?n"
  have wf: "wf_request ?r" using assms(4) by (simp add: wf_request_def)
  define s1 where "s1 = store_at (ecx w) (int8_byte 0) (set_fs f s)"
  have run1: "syscall dev pd_addr w s = Some s1"
    using assms(7-9) decode_encode_request [OF assms(4)] by (simp add: syscall_def request_at_def s1_def)
  have k1: "k_fs (kern s1) = f" "user_mem s1 (ecx w) = 0"
    by (simp_all add: s1_def store_at_def int8_byte_def mem_store_def)
  define t where "t c m' = store_at (ecx v) (int8_byte c) (set_user_mem m' (set_fs (load_dir f (of_nat p)) (set_user_mem m s1)))" for c m'
  have run2: "syscall dev pd_addr v (set_user_mem m s1) = Some (t c m')" if "read_fat ?r m f = Some (c, m', load_dir f (of_nat p))" for c m'
    using assms(10,11) decode_encode_request [OF wf] that k1(1) by (simp add: syscall_def request_at_def t_def)
  show ?thesis
  proof (cases "slot_tainted (k_fs (kern s)) p")
    case True
    have "read_fat ?r m f = Some (1, m, load_dir f (of_nat p))"
      by (rule write_tainted_read [OF assms(1-6) True assms(9,12)])
    then show ?thesis using run1 run2 k1(2) True
      by (intro exI [of _ s1] exI [of _ "t 1 m"]) (simp add: t_def store_at_def int8_byte_def mem_store_def)
  next
    case False
    have w: "vol_ok f D" "volume f p (request_key r) = Some (File ?bs)"
      using write_file_step [OF assms(1-6) False assms(9)] by simp_all
    have n: "length ?bs \<le> unat n" using assms(12) by (simp add: word_le_nat_alt)
    obtain m' where m': "read_fat ?r m f = Some (0, m', load_dir f (of_nat p))" "mem_load m' b ?n = ?bs"
      using read_step [OF w(1) assms(2), of ?r m] assms(3-5) wf w(2) n by auto
    have "mem_load (user_mem (t 0 m')) b ?n = mem_load m' b ?n"
    proof (rule nth_equalityI)
      fix i assume "i < length (mem_load (user_mem (t 0 m')) b ?n)"
      then have i: "i < ?n" by simp
      have "ecx v \<noteq> b + of_nat i"
      proof
        assume "ecx v = b + of_nat i"
        then have "unat (ecx v - b) = i" using i unsigned_less [where ?'a = nat, of "buffer_size r"] by (simp add: unat_of_nat_u32)
        with assms(13) i show False by simp
      qed
      then have "unat (b + of_nat i - ecx v) \<noteq> 0" by (simp add: unat_eq_0)
      then show "mem_load (user_mem (t 0 m')) b ?n ! i = mem_load m' b ?n ! i"
        using i by (simp add: t_def store_at_def int8_byte_def mem_store_def)
    qed simp
    moreover have "user_mem (t 0 m') (ecx v) = 0" by (simp add: t_def store_at_def int8_byte_def mem_store_def)
    ultimately show ?thesis using run1 run2 [OF m'(1)] k1(2) m'(2) False by auto
  qed
qed

lemma syscall_write_read_witness:
  "\<exists>s s1 s2. syscall (\<lambda>_ _. 0) (\<lambda>_. 0) (zero_cpu\<lparr> eax := 2, ebx := 0x9000 \<rparr>) s = Some s1 \<and>
    syscall (\<lambda>_ _. 0) (\<lambda>_. 0) zero_cpu (set_user_mem (mem_store (\<lambda>_. 0) 0 (encode_request ((file_request 3000)\<lparr> r_buf := 0x2000, buffer_size := 4000 \<rparr>))) s1) = Some s2 \<and>
    mem_load (user_mem s2) 0x2000 3000 = mem_load (user_mem s) 0x1000 3000"
proof -
  let ?s = "set_user_mem (mem_store some_memory 0x9000 (encode_request (file_request 3000))) machine0"
  let ?r = "(file_request 3000)\<lparr> r_buf := 0x2000, buffer_size := 4000 \<rparr>"
  have len: "length (encode_request (file_request 3000)) = 23" "length (encode_request ?r) = 23"
    by (simp_all add: encode_request_def file_request_def cstr_def)
  have fs: "k_fs (kern ?s) = fs0" by (simp add: machine0_def kernel0_ok)
  obtain f where f: "write_fat (file_request 3000) (user_mem ?s) fs0 = Some (0, f)"
    using file_run_fs0 [of 3000 "user_mem ?s"] by auto
  have l1: "mem_load (user_mem ?s) (ebx (zero_cpu\<lparr> eax := 2, ebx := 0x9000 \<rparr>)) 23 = encode_request (file_request 3000)"
    using len by simp
  have l2: "mem_load (mem_store (\<lambda>_. 0) 0 (encode_request ?r)) (ebx zero_cpu) 23 = encode_request ?r"
    using len by (simp add: zero_cpu_def)
  have b: "buffer_size (file_request 3000) = 3000" "r_buf (file_request 3000) = 0x1000" by (simp_all add: file_request_def)
  have v: "vol_ok (k_fs (kern ?s)) {2}" "\<not> slot_tainted (k_fs (kern ?s)) 2" "2 \<in> {2 :: nat}"
    "eax (zero_cpu\<lparr> eax := 2, ebx := 0x9000 \<rparr>) = 2" "eax zero_cpu = 0" "buffer_size (file_request 3000) \<noteq> 0"
    "buffer_size (file_request 3000) \<le> 4000" "unat (buffer_size (file_request 3000)) \<le> unat (ecx zero_cpu - 0x2000)"
    using fs0_ok(1) fs0_clean fs b by (simp_all add: zero_cpu_def)
  note q = file_request_simps(2) [of 3000] file_request_simps(1) [of 3000] file_request_key [of 3000]
  obtain s1 s2 where "syscall (\<lambda>_ _. 0) (\<lambda>_. 0) (zero_cpu\<lparr> eax := 2, ebx := 0x9000 \<rparr>) ?s = Some s1"
    "syscall (\<lambda>_ _. 0) (\<lambda>_. 0) zero_cpu (set_user_mem (mem_store (\<lambda>_. 0) 0 (encode_request ?r)) s1) = Some s2"
    "mem_load (user_mem s2) 0x2000 (unat (buffer_size (file_request 3000))) =
       mem_load (user_mem ?s) (r_buf (file_request 3000)) (unat (buffer_size (file_request 3000)))"
    using syscall_write_read [OF v(1,3) q v(6,4) l1 _ v(5) l2 v(7,8), of f "\<lambda>_ _. 0" "\<lambda>_. 0"] v(2) f fs by auto
  moreover have "unat (buffer_size (file_request 3000)) = 3000" using b(1) by simp
  ultimately show ?thesis unfolding b(2) by metis
qed

section \<open>Words of a command line\<close>

text \<open>C32: The words of a line are its maximal runs of characters other than spaces.  On a line of at least two
  and fewer than 65535 characters \<open>countWords\<close> is their number, and \<open>getWord\<close>, asked for one of them with a buffer that holds it, stores exactly that
  word and its NUL and leaves the rest of the buffer alone, save that it takes the space along when
  exactly one character, a space, follows the word on the line.  On a shorter line \<open>countWords\<close> is 0,
  also when there is a word, and \<open>getWord\<close> leaves the line.\<close>

theorem words_of_line:
  assumes "terminated str" "length (c_text str) < 2 ^ 16 - 1"
  shows "countWords str = Some (if length (c_text str) < 2 then 0 else int (length (words (c_text str)))) \<and>
    (length (c_text str) < 2 \<longrightarrow> getWord str idx buf = None) \<and>
    (2 \<le> length (c_text str) \<and> unat idx < length (words (c_text str)) \<and> length (taken (c_text str) (unat idx)) < length buf \<longrightarrow>
      getWord str idx buf = Some (taken (c_text str) (unat idx) @ 0 # drop (Suc (length (taken (c_text str) (unat idx)))) buf))"
proof (intro conjI impI)
  show "countWords str = Some (if length (c_text str) < 2 then 0 else int (length (words (c_text str))))"
    using countWords_eq [OF assms(1)] countWords_short [OF assms(1)] by auto
qed (use getWord_short [OF assms(1)] getWord_taken [OF assms(1)] assms(2) in auto)

lemma words_of_line_witness:
  "countWords (cstr ''cat  notes'' @ [0]) = Some 2 \<and> getWord (cstr ''cat  notes'' @ [0]) 1 (replicate 8 65) = Some (cstr ''notes'' @ [0, 65, 65])"
proof -
  let ?str = "cstr ''cat  notes'' @ [0]"
  have t: "c_text ?str = cstr ''cat  notes''" "terminated ?str" by code_simp+
  have w: "words (cstr ''cat  notes'') = [cstr ''cat'', cstr ''notes'']" by code_simp
  have l: "last (cstr ''cat  notes'') \<noteq> 32" "length (cstr ''cat  notes'') = 10" "length (cstr ''notes'') = 5" by code_simp+
  have n: "unat (1 :: u16) < length (words (c_text ?str))" "words (c_text ?str) ! unat (1 :: u16) = cstr ''notes''"
    unfolding t w by simp_all
  have k: "taken (c_text ?str) (unat (1 :: u16)) = cstr ''notes''" unfolding t by code_simp
  have "countWords ?str = Some (int (length (words (c_text ?str))))" "getWord ?str 1 (replicate 8 65) = Some (cstr ''notes'' @ 0 # drop (Suc 5) (replicate 8 65))"
    using words_of_line [OF t(2), of 1 "replicate 8 65"] n(1) l unfolding k by (simp_all add: t(1))
  then show ?thesis unfolding t w by (simp add: numeral_eq_Suc)
qed

end
