(* ===== verification/Calls.thy ===== *)
theory Calls
  imports System FatFind
begin

text \<open>
  The system calls as the shell uses them (\<open>syscall\<close> of \<open>src/src/command-shell.c\<close>): the objects that
  the shell's pointers lead to, its requests, tables, result codes and buffers, are values here.  A
  buffer is a list, and a call that stores past its end has no result.  Theory \<open>CallsRefine\<close> relates
  the calls on files, folders, the screen and the keyboard to the kernel's \<open>syscall\<close> on a machine in
  whose memory the objects lie; the calls on processes are the functions that \<open>syscall\<close> calls.  What a
  call stores in the shell's own arrays and variables is the value it gives here, so the field \<open>space\<close> of
  a session's kernel does not show it.
\<close>

section \<open>The shell's state\<close>

text \<open>The machine, and the static variable \<open>copy_status\<close>.\<close>

record session =
  os :: machine
  copy_status :: int

text \<open>What the shell's uninitialised local arrays hold, the bytes of the stack above an array of
  variable length, and the uninitialised array of process blocks.\<close>

record locals =
  junk :: "nat \<Rightarrow> u8"
  above :: "u8 list"
  junk_pcbs :: "pcb list"

definition junk_array :: "locals \<Rightarrow> nat \<Rightarrow> u8 list" where
  "junk_array g n = map (junk g) [0..<n]"

lemma length_junk_array [simp]: "length (junk_array g n) = n"
  by (simp add: junk_array_def)

definition vol :: "session \<Rightarrow> fs" where
  "vol s = k_fs (kern (os s))"

definition set_vol :: "fs \<Rightarrow> session \<Rightarrow> session" where
  "set_vol f s = s\<lparr> os := set_fs f (os s) \<rparr>"

definition screen :: "session \<Rightarrow> terminal" where
  "screen s = scrn (os s)"

definition set_screen :: "terminal \<Rightarrow> session \<Rightarrow> session" where
  "set_screen t s = s\<lparr> os := (os s)\<lparr> scrn := t \<rparr> \<rparr>"

definition folder :: "session \<Rightarrow> shell" where
  "folder s = shl (os s)"

definition set_folder :: "shell \<Rightarrow> session \<Rightarrow> session" where
  "set_folder d s = s\<lparr> os := (os s)\<lparr> shl := d \<rparr> \<rparr>"

section \<open>Requests\<close>

text \<open>A request; the pointer to the buffer is the buffer that the call is given.\<close>

definition make_request :: "u8 list \<Rightarrow> u8 list \<Rightarrow> u32 \<Rightarrow> u32 \<Rightarrow> request" where
  "make_request nm ex parent size' =
     \<lparr> r_buf = 0, r_name = take 8 nm, r_ext = take 3 ex, parent_cluster_number = parent, buffer_size = size' \<rparr>"

section \<open>Files\<close>

text \<open>\<open>read\<close> into a buffer that is a list.\<close>

partial_function (option) read_chain_into :: "u32 list \<Rightarrow> image \<Rightarrow> u32 \<Rightarrow> nat \<Rightarrow> u8 list \<Rightarrow> u8 list option" where
  "read_chain_into fat im cluster_number off buf =
     (if cluster_number = FAT32_FAT_END_OF_FILE then Some buf
      else if length buf < off + 2048 then None
      else do { let buf = overwrite buf off (read_clusters im cluster_number 1);
                next \<leftarrow> arr_get fat (unat cluster_number);
                read_chain_into fat im next (off + 2048) buf })"

definition read_into :: "request \<Rightarrow> u8 list \<Rightarrow> fs \<Rightarrow> (int \<times> u8 list \<times> fs) option" where
  "read_into r buf s =
     (let s = load_dir s (parent_cluster_number r);
          idx = findEntry (dir_table_buf s) (r_name r) (r_ext r)
      in if idx = - 9999 then Some (3, buf, s)
         else let e = dir_table_buf s ! nat idx
              in if buffer_size r < filesize e then Some (2, buf, s)
                 else if attribute e = ATTR_SUBDIRECTORY then Some (1, buf, s)
                 else do { buf \<leftarrow> read_chain_into (cluster_map s) (image s) (entry_cluster e) 0 buf;
                           Some (0, buf, s) })"

definition call_read :: "request \<Rightarrow> u8 list \<Rightarrow> session \<Rightarrow> (int \<times> u8 list \<times> session) option" where
  "call_read r buf s = do { (c, buf, f) \<leftarrow> read_into r buf (vol s); Some (c, buf, set_vol f s) }"

text \<open>\<open>read_directory\<close>; the table is stored only when the code is 0.\<close>

definition call_read_directory :: "request \<Rightarrow> session \<Rightarrow> int \<times> dirtable option \<times> session" where
  "call_read_directory r s =
     (let (c, m, f) = read_directory (r\<lparr> r_buf := 0 \<rparr>) (\<lambda>_. 0) (vol s)
      in (c, if c = 0 then Some (decode_table (mem_load m 0 2048)) else None, set_vol f s))"

text \<open>\<open>write\<close> from a buffer that is a list; no byte is taken from behind its end.\<close>

definition call_write :: "request \<Rightarrow> u8 list \<Rightarrow> session \<Rightarrow> (int \<times> session) option" where
  "call_write r data s =
     (if length data < 2048 * nat (ceil_c (of_nat (unat (buffer_size r)) / 2048)) then None
      else do { (c, f) \<leftarrow> write_fat (r\<lparr> r_buf := 0 \<rparr>) (mem_store (\<lambda>_. 0) 0 data) (vol s);
                Some (c, set_vol f s) })"

definition call_delete :: "request \<Rightarrow> session \<Rightarrow> (int \<times> session) option" where
  "call_delete r s = do { (c, f) \<leftarrow> delete_fat r (vol s); Some (c, set_vol f s) }"

definition call_find :: "u8 list \<Rightarrow> u8 list \<Rightarrow> session \<Rightarrow> session option" where
  "call_find nm ex s =
     do { (f, t) \<leftarrow> printAllFind nm ex (vol s) (screen s); Some (set_screen t (set_vol f s)) }"

definition call_find_cluster :: "request \<Rightarrow> session \<Rightarrow> int \<times> session" where
  "call_find_cluster r s = (let (c, f) = findCluster r (vol s) in (c, set_vol f s))"

definition call_read_cluster :: "u32 \<Rightarrow> session \<Rightarrow> dirtable" where
  "call_read_cluster c s = decode_table (read_clusters (image (vol s)) c 1)"

section \<open>The screen and the keyboard\<close>

definition puts_n :: "u8 list \<Rightarrow> int \<Rightarrow> u8 \<Rightarrow> session \<Rightarrow> session option" where
  "puts_n val n color s =
     do { t \<leftarrow> puts_chars ((!) val) (sint (word_of_int n :: u32)) color (screen s); Some (set_screen t s) }"

definition say :: "u8 list \<Rightarrow> u8 \<Rightarrow> session \<Rightarrow> session option" where
  "say val color s = do { n \<leftarrow> strlen val; puts_n val (int n) color s }"

definition call_clear :: "session \<Rightarrow> session option" where
  "call_clear s =
     do { t \<leftarrow> framebuffer_clear (screen s); Some (set_screen (framebuffer_set_cursor 0 0 t) s) }"

section \<open>The current folder\<close>

definition call_cluster :: "session \<Rightarrow> int" where
  "call_cluster s = get_shell_cluster (folder s)"

definition call_cwd :: "session \<Rightarrow> dirtable" where
  "call_cwd s = get_cwd_table (folder s)"

definition call_parent :: "session \<Rightarrow> int" where
  "call_parent s = sint (entry_cluster (cwd_table (folder s) ! 1))"

definition call_update :: "int \<Rightarrow> u8 list \<Rightarrow> bool \<Rightarrow> session \<Rightarrow> session option" where
  "call_update cluster path addDir s =
     do { d \<leftarrow> update_shell_dir (vol s) cluster path addDir (folder s); Some (set_folder d s) }"

text \<open>The path, into the caller's array.\<close>

definition call_path :: "u8 list \<Rightarrow> session \<Rightarrow> u8 list option" where
  "call_path dir s = copy_dir (folder s) dir"

section \<open>Processes\<close>

definition call_create :: "request \<Rightarrow> session \<Rightarrow> (int \<times> session) option" where
  "call_create r s =
     do { (c, k) \<leftarrow> process_create_user_process r (kern (os s)); Some (c, s\<lparr> os := (os s)\<lparr> kern := k \<rparr> \<rparr>) }"

definition call_destroy :: "u32 \<Rightarrow> session \<Rightarrow> session option" where
  "call_destroy p s =
     do { (_, k) \<leftarrow> process_destroy p (kern (os s)); Some (s\<lparr> os := (os s)\<lparr> kern := k \<rparr> \<rparr>) }"

definition call_processes :: "pcb list \<Rightarrow> session \<Rightarrow> (pcb list \<times> nat) option" where
  "call_processes list_pcb s = getActivePCB (kern (os s)) list_pcb"

end
