(* ===== verification/ShellText.thy ===== *)
theory ShellText
  imports Calls Words "HOL-Library.Signed_Division"
begin

text \<open>
  Output and paths of \<open>src/src/command-shell.c\<close>: error messages, decimal numbers
  (\<open>puts_integer\<close>), the components of a path (\<open>getDir\<close>, \<open>countPath\<close>) and the folder that a path
  leads to (\<open>getLastCluster\<close>).  The shell's functions take the memory that they do not initialise
  as the argument \<open>g\<close>.
\<close>

section \<open>Text\<close>

text \<open>The bytes of a literal whose lines each end with a newline, and of one with a last line.\<close>

definition text_lines :: "string list \<Rightarrow> u8 list" where
  "text_lines ls = concat (map (\<lambda>l. cstr l @ [10]) ls) @ [0]"

text \<open>\<open>puts("Error: ", 0x04); puts(msg, 0x07);\<close>\<close>

definition complain :: "u8 list \<Rightarrow> session \<Rightarrow> session option" where
  "complain msg s = do { s \<leftarrow> say (cstr0 ''Error: '') 4 s; say msg 7 s }"

text \<open>The same with a file name between them.\<close>

definition complain_about :: "u8 list \<Rightarrow> u8 list \<Rightarrow> session \<Rightarrow> session option" where
  "complain_about filename msg s =
     do { s \<leftarrow> say (cstr0 ''Error: '') 4 s; s \<leftarrow> say filename 7 s; say msg 7 s }"

section \<open>Numbers\<close>

text \<open>The digits are stored from the least significant one on; \<open>/\<close> and \<open>%\<close> truncate towards zero.\<close>

function digits_loop :: "int \<Rightarrow> nat \<Rightarrow> u8 list \<Rightarrow> (nat \<times> u8 list) option" where
  "digits_loop number i buffer =
     (case arr_set buffer i (word_of_int (48 + number smod 10)) of None \<Rightarrow> None
      | Some buffer \<Rightarrow>
          if number sdiv 10 \<noteq> 0 then digits_loop (number sdiv 10) (i + 1) buffer else Some (i + 1, buffer))"
  by pat_completeness auto
termination
proof (relation "measure (\<lambda>(number, i, buffer). nat \<bar>number\<bar>)")
  fix number :: int
  assume "number sdiv 10 \<noteq> 0"
  then have "number \<noteq> 0" by (auto simp: signed_divide_int_def)
  moreover have "\<bar>number sdiv 10\<bar> = \<bar>number\<bar> div 10"
    by (simp add: signed_divide_int_def abs_mult sgn_if)
  ultimately have "nat \<bar>number sdiv 10\<bar> < nat \<bar>number\<bar>" by linarith
  then show "((number sdiv 10, i + 1, x), number, i, buffer) \<in> measure (\<lambda>(number, i, buffer). nat \<bar>number\<bar>)"
    for i :: nat and x buffer :: "u8 list" by simp
qed simp

declare digits_loop.simps [simp del]

definition integer_text :: "int \<Rightarrow> u8 list option" where
  "integer_text number =
     do { (i, buffer) \<leftarrow> digits_loop number 0 (replicate 20 0);
          buffer \<leftarrow> arr_set buffer i 0;
          for_range 0 (i div 2) (\<lambda>j buffer. do {
            temp \<leftarrow> arr_get buffer j;
            x \<leftarrow> arr_get buffer (i - j - 1);
            buffer \<leftarrow> arr_set buffer j x;
            arr_set buffer (i - j - 1) temp }) buffer }"

definition puts_integer :: "int \<Rightarrow> session \<Rightarrow> session option" where
  "puts_integer number s = do { buffer \<leftarrow> integer_text number; say buffer 0xF s }"

section \<open>Paths\<close>

function getDir_loop :: "u8 list \<Rightarrow> u8 \<Rightarrow> nat \<Rightarrow> nat \<Rightarrow> u8 list \<Rightarrow> (nat \<times> nat \<times> u8 list) option" where
  "getDir_loop path delimiter i length' res =
     (case arr_get path i of None \<Rightarrow> None
      | Some c \<Rightarrow>
          if c \<noteq> delimiter \<and> c \<noteq> 0
          then (case arr_set res length' c of None \<Rightarrow> None
                | Some res \<Rightarrow> getDir_loop path delimiter (i + 1) (length' + 1) res)
          else Some (i, length', res))"
  by pat_completeness auto
termination
  by (relation "measure (\<lambda>(path, delimiter, i, length', res). length path - i)") (auto simp: arr_get_eq_Some)

declare getDir_loop.simps [simp del]

definition getDir :: "u8 list \<Rightarrow> u8 list \<Rightarrow> u8 \<Rightarrow> nat \<Rightarrow> (u8 list \<times> nat) option" where
  "getDir path res delimiter idx =
     do { (i, len, res) \<leftarrow> getDir_loop path delimiter idx 0 res;
          res \<leftarrow> for_range len 8 (\<lambda>j res. arr_set res j 0) res;
          Some (res, i + 1) }"

function countPath_loop :: "u8 list \<Rightarrow> nat \<Rightarrow> int \<Rightarrow> int option" where
  "countPath_loop path i count =
     (case arr_get path i of None \<Rightarrow> None
      | Some c \<Rightarrow> if c \<noteq> 0 then countPath_loop path (i + 1) (if c = 47 then count + 1 else count) else Some count)"
  by pat_completeness auto
termination
  by (relation "measure (\<lambda>(path, i, count). length path - i)") (auto simp: arr_get_eq_Some)

declare countPath_loop.simps [simp del]

definition countPath :: "u8 list \<Rightarrow> int option" where
  "countPath path = do { count \<leftarrow> countPath_loop path 0 0; Some (count + 1) }"

text \<open>A component after the other is looked up in the folder reached before it, or in cluster 9999
  when there was none.\<close>

definition path_step :: "u8 list \<Rightarrow> bool \<Rightarrow> u8 list \<times> nat \<times> int \<times> session \<Rightarrow> (u8 list \<times> nat \<times> int \<times> session) option" where
  "path_step path isUpdate =
     (\<lambda>(dir, lastIdx, last_cluster, s).
        do { let (last_cluster, s) = call_find_cluster (make_request dir [0, 0, 0] (word_of_int last_cluster) 0) s;
             s \<leftarrow> (if isUpdate \<and> last_cluster \<noteq> 9999 then call_update last_cluster dir True s else Some s);
             (dir, lastIdx) \<leftarrow> getDir path dir 47 lastIdx;
             Some (dir, lastIdx, last_cluster, s) })"

definition getLastCluster :: "locals \<Rightarrow> u8 list \<Rightarrow> bool \<Rightarrow> session \<Rightarrow> (int \<times> session) option" where
  "getLastCluster g path isUpdate s =
     do { nPath \<leftarrow> countPath path;
          let last_cluster = call_cluster s;
          (dir, lastIdx) \<leftarrow> getDir path (junk_array g 8) 47 0;
          (_, _, last_cluster, s) \<leftarrow>
            for_range 0 (nat nPath) (\<lambda>_. path_step path isUpdate) (dir, lastIdx, last_cluster, s);
          Some (last_cluster, s) }"

end
