(* ===== verification/ShellFiles.thy ===== *)
theory ShellFiles
  imports ShellText
begin

text \<open>
  The functions of \<open>src/src/command-shell.c\<close> that its file commands share: \<open>remove\<close>, \<open>copy\<close> and the
  words of a command.  \<open>copy\<close> is recursive and a partial function in the option type: a recursion that
  does not end has no result.
\<close>

section \<open>Loops that return early and recursive calls in loops\<close>

text \<open>A counted loop whose body may return from the function: \<open>True\<close> when it did.\<close>

fun for_until :: "nat \<Rightarrow> nat \<Rightarrow> (nat \<Rightarrow> 's \<Rightarrow> (bool \<times> 's) option) \<Rightarrow> 's \<Rightarrow> (bool \<times> 's) option" where
  "for_until 0 i f s = Some (False, s)"
| "for_until (Suc n) i f s =
     (case f i s of None \<Rightarrow> None
      | Some (stop, s) \<Rightarrow> if stop then Some (True, s) else for_until n (Suc i) f s)"

lemma for_count_mono [partial_function_mono]:
  assumes "\<And>i s. mono_option (\<lambda>f. B f i s)"
  shows "mono_option (\<lambda>f. for_count n i (B f) s)"
proof (induction n arbitrary: i s)
  case 0
  then show ?case by (simp add: monotone_def flat_ord_def)
next
  case (Suc n)
  show ?case unfolding for_count.simps
    by (rule bind_mono [OF assms Suc.IH])
qed

lemma for_range_mono [partial_function_mono]:
  assumes "\<And>i s. mono_option (\<lambda>f. B f i s)"
  shows "mono_option (\<lambda>f. for_range lo hi (B f) s)"
  unfolding for_range_def by (rule for_count_mono [OF assms])

section \<open>Removing an entry\<close>

text \<open>The call is made twice; its codes are not looked at.\<close>

definition remove_sh :: "u8 list \<Rightarrow> u8 list \<Rightarrow> u32 \<Rightarrow> session \<Rightarrow> session option" where
  "remove_sh name' ext' parent_number s =
     do { let request = make_request name' ext' parent_number 0;
          (ret, s) \<leftarrow> call_delete request s;
          (ret, s) \<leftarrow> call_delete request s;
          Some s }"

section \<open>Copying an entry\<close>

text \<open>The search in the parent's table, from entry 0 on, whose names are compared on four characters:
  size and cluster of the last file that matches, up to the first folder that does.  They are
  uninitialised when nothing matches.\<close>

fun source_scan :: "dirent list \<Rightarrow> u8 list \<Rightarrow> u8 list \<Rightarrow> (u32 \<times> u32) option \<Rightarrow> (u32 \<times> u32) option \<times> bool" where
  "source_scan [] src_name src_ext src = (src, False)"
| "source_scan (e # rest) src_name src_ext src =
     (if memcmp (name e) src_name 4 = Some 0 \<and> memcmp (ext e) src_ext 3 = Some 0
      then if attribute e = ATTR_SUBDIRECTORY then (Some (2048, entry_cluster e), True)
           else source_scan rest src_name src_ext (Some (filesize e, entry_cluster e))
      else source_scan rest src_name src_ext src)"

text \<open>The cluster of the last used entry with the target's name; uninitialised when there is none.\<close>

fun target_scan :: "dirent list \<Rightarrow> u8 list \<Rightarrow> u8 list \<Rightarrow> u32 option \<Rightarrow> u32 option" where
  "target_scan [] target_name target_ext c = c"
| "target_scan (e # rest) target_name target_ext c =
     target_scan rest target_name target_ext
       (if memcmp (name e) target_name 8 = Some 0 \<and> memcmp (ext e) target_ext 3 = Some 0 \<and>
           user_attribute e = UATTR_NOT_EMPTY
        then Some (entry_cluster e) else c)"

text \<open>The branch for a file: read it, write it under the target's name.  The result of the read is
  not looked at.\<close>

definition copy_file :: "locals \<Rightarrow> u8 list \<Rightarrow> u8 list \<Rightarrow> u32 \<Rightarrow> u8 list \<Rightarrow> u8 list \<Rightarrow> u32 \<Rightarrow> u32 \<Rightarrow> session \<Rightarrow> session option" where
  "copy_file g src_name src_ext src_parent_number target_name target_ext target_parent_number src_size s =
     do { let num_clusters = (src_size + 2048 - 1) div 2048;
          let data_buf = junk_array g (2048 * unat num_clusters);
          (retcode, data_buf, s) \<leftarrow> call_read (make_request src_name src_ext src_parent_number src_size) data_buf s;
          (retcode, s) \<leftarrow> call_write (make_request target_name target_ext target_parent_number src_size) data_buf s;
          if retcode \<noteq> 0
          then do { s \<leftarrow> complain (cstr0 ''Error writing to file'') s; puts_integer retcode s }
          else Some s }"

text \<open>What is done before the source is looked at: an entry with the target's name is removed.\<close>

definition clear_target :: "u8 list \<Rightarrow> u8 list \<Rightarrow> u32 \<Rightarrow> session \<Rightarrow> session option" where
  "clear_target target_name target_ext target_parent_number s =
     (let (t_retcode, cl, s) = call_read_directory (make_request target_name target_ext target_parent_number 32) s
      in if t_retcode \<noteq> 2 then remove_sh target_name target_ext target_parent_number s else Some s)"

partial_function (option) copy ::
  "locals \<Rightarrow> u8 list \<Rightarrow> u8 list \<Rightarrow> u32 \<Rightarrow> u8 list \<Rightarrow> u8 list \<Rightarrow> u32 \<Rightarrow> session \<Rightarrow> session option" where
  "copy g src_name src_ext src_parent_number target_name target_ext target_parent_number s =
     do { s \<leftarrow> clear_target target_name target_ext target_parent_number s;
          let (src, is_dir) = source_scan (call_read_cluster src_parent_number s) src_name src_ext None;
          (src_size, src_cluster_number) \<leftarrow> src;
          s \<leftarrow> (if is_dir
               then do {
                 let (retcode, src_table, s) = call_read_directory (make_request src_name src_ext src_parent_number src_size) s;
                 (retcode, s) \<leftarrow> call_write (make_request target_name target_ext target_parent_number 0) [] s;
                 let target_cluster = target_scan (call_read_cluster target_parent_number s) target_name target_ext None;
                 src_table \<leftarrow> src_table;
                 for_range 1 64 (\<lambda>i s.
                   if user_attribute (src_table ! i) = UATTR_NOT_EMPTY
                   then do { target_cluster_number \<leftarrow> target_cluster;
                             copy g (name (src_table ! i)) (ext (src_table ! i)) src_cluster_number
                               (name (src_table ! i)) (ext (src_table ! i)) target_cluster_number s }
                   else Some s) s }
               else copy_file g src_name src_ext src_parent_number target_name target_ext target_parent_number src_size s);
          Some (s\<lparr> copy_status := 0 \<rparr>) }"

section \<open>The words of a command\<close>

text \<open>A word into an uninitialised array of \<open>n\<close> bytes.\<close>

definition word_into :: "locals \<Rightarrow> u8 list \<Rightarrow> nat \<Rightarrow> nat \<Rightarrow> u8 list option" where
  "word_into g cmd i n = getWord cmd (of_nat i) (junk_array g n)"

text \<open>A file name into \<open>char name[9], ext[4]\<close>.\<close>

definition parse_into :: "locals \<Rightarrow> u8 list \<Rightarrow> (int \<times> u8 list \<times> u8 list) option" where
  "parse_into g filename = parseFileName filename (junk_array g 9) (junk_array g 4)"

text \<open>The position of the option \<open>-r\<close>, or \<open>-1\<close>.\<close>

definition find_option :: "locals \<Rightarrow> u8 list \<Rightarrow> int \<Rightarrow> int option" where
  "find_option g cmd n_words =
     for_range 1 (nat n_words) (\<lambda>i recursive.
       do { n \<leftarrow> wordLen cmd (of_nat i);
            w \<leftarrow> word_into g cmd i (nat n + 1);
            e \<leftarrow> strcmp w (cstr0 ''-r'');
            Some (if e \<noteq> 0 then int i else recursive) }) (- 1)"

end
