(* ===== verification/ShellMove.thy ===== *)
theory ShellMove
  imports ShellFiles
begin

text \<open>
  The commands of \<open>src/src/command-shell.c\<close> that change files: \<open>cp\<close>, \<open>rm\<close>, \<open>mkdir\<close>, \<open>mv\<close>,
  \<open>findFileFolder\<close>, \<open>traverseFolder\<close>, \<open>mvPath\<close> and \<open>copyPath\<close>.  The argument \<open>cmd\<close> is the line of
  command, an array of 100 bytes.
\<close>

section \<open>cp\<close>

definition too_long :: "u8 list" where
  "too_long = text_lines ['' filename invalid, name or extension may be too long'']"

text \<open>A command that returns early.\<close>

definition stop_with :: "session option \<Rightarrow> (bool \<times> session) option" where
  "stop_with r = map_option (Pair True) r"

text \<open>The check of one source.\<close>

definition cp_check :: "locals \<Rightarrow> u8 list \<Rightarrow> int \<Rightarrow> int \<Rightarrow> u8 list \<Rightarrow> dirtable \<Rightarrow> nat \<Rightarrow> session \<Rightarrow> (bool \<times> session) option" where
  "cp_check g cmd recursive target_idx target_filename cwd i s =
     (if recursive = int i \<or> target_idx = int i then Some (False, s)
      else do {
        filename \<leftarrow> word_into g cmd i 12;
        up \<leftarrow> strcmp filename (cstr0 ''..'');
        if up \<noteq> 0
        then stop_with (complain (text_lines [''cannot copy a directory, '..', into itself'']) s)
        else do {
          (long, nm, ex) \<leftarrow> parse_into g filename;
          if long \<noteq> 0 then stop_with (complain_about filename too_long s)
          else do {
            let (retcode, table_buf, s) = call_read_directory (make_request nm ex 2 32) s;
            to_up \<leftarrow> strcmp target_filename (cstr0 ''..'');
            same \<leftarrow> memcmp nm (name (cwd ! 0)) 8;
            if retcode = 2 then stop_with (complain_about filename (text_lines ['' file not found'']) s)
            else if retcode = 0 \<and> recursive = - 1
            then stop_with (complain_about filename (text_lines ['' is a directory;  -r not specified'']) s)
            else if retcode = 0 \<and> to_up \<noteq> 0 \<and> same = 0
            then stop_with (complain_about filename (text_lines [''cannot copy into itself'']) s)
            else Some (False, s) } } })"

text \<open>The copies of all sources; the target is given for each of them by its name and extension.\<close>

definition cp_sources :: "locals \<Rightarrow> u8 list \<Rightarrow> int \<Rightarrow> int \<Rightarrow> int \<Rightarrow>
    (u8 list \<Rightarrow> u8 list \<Rightarrow> session \<Rightarrow> session option) \<Rightarrow> session \<Rightarrow> session option" where
  "cp_sources g cmd n_words recursive target_idx one =
     for_range 1 (nat n_words) (\<lambda>i s.
       if int i = recursive \<or> int i = target_idx then Some s
       else do { filename \<leftarrow> word_into g cmd i 12;
                 (long, nm, ex) \<leftarrow> parse_into g filename;
                 one nm ex s })"

text \<open>The cluster of the last entry with the target's name, used or not.\<close>

fun cluster_scan :: "dirent list \<Rightarrow> u8 list \<Rightarrow> u8 list \<Rightarrow> u32 option \<Rightarrow> u32 option" where
  "cluster_scan [] nm ex c = c"
| "cluster_scan (e # rest) nm ex c =
     cluster_scan rest nm ex
       (if memcmp (name e) nm 8 = Some 0 \<and> memcmp (ext e) ex 3 = Some 0 then Some (entry_cluster e) else c)"

definition cp_to_folder :: "locals \<Rightarrow> u8 list \<Rightarrow> int \<Rightarrow> int \<Rightarrow> int \<Rightarrow> u8 list \<Rightarrow> u8 list \<Rightarrow> u8 list \<Rightarrow> session \<Rightarrow> session option" where
  "cp_to_folder g cmd n_words recursive target_idx target_filename target_name target_ext s =
     do { let cwd = call_cwd s;
          up \<leftarrow> strcmp target_filename (cstr0 ''..'');
          let target = (if up = 0 then cluster_scan cwd target_name target_ext None
                        else Some (entry_cluster (cwd ! 0)));
          cp_sources g cmd n_words recursive target_idx
            (\<lambda>nm ex s. do { target_cluster_number \<leftarrow> target; copy g nm ex 2 nm ex target_cluster_number s }) s }"

definition cp_to_file :: "locals \<Rightarrow> u8 list \<Rightarrow> int \<Rightarrow> int \<Rightarrow> int \<Rightarrow> u8 list \<Rightarrow> u8 list \<Rightarrow> u8 list \<Rightarrow> session \<Rightarrow> session option" where
  "cp_to_file g cmd n_words recursive target_idx target_filename target_name target_ext s =
     (if (recursive = - 1 \<and> n_words > 3) \<or> (recursive \<noteq> - 1 \<and> n_words > 4)
      then complain_about target_filename (text_lines ['' is not a folder'']) s
      else do {
        s \<leftarrow> cp_sources g cmd n_words recursive target_idx
               (\<lambda>nm ex s. copy g nm ex 2 target_name target_ext 2 s) s;
        call_update (call_cluster s) [0] True s })"

definition cp_target :: "locals \<Rightarrow> u8 list \<Rightarrow> int \<Rightarrow> int \<Rightarrow> int \<Rightarrow> u8 list \<Rightarrow> session \<Rightarrow> session option" where
  "cp_target g cmd n_words recursive target_idx target_filename s =
     do { up \<leftarrow> strcmp target_filename (cstr0 ''..'');
          if up \<noteq> 0
          then cp_to_folder g cmd n_words recursive target_idx target_filename (junk_array g 9) (junk_array g 4) s
          else do {
            (long, target_name, target_ext) \<leftarrow> parse_into g target_filename;
            if long \<noteq> 0 then complain_about target_filename too_long s
            else do {
              let (retcode, table_buf, s) = call_read_directory (make_request target_name target_ext 2 32) s;
              if retcode = 0
              then cp_to_folder g cmd n_words recursive target_idx target_filename target_name target_ext s
              else if retcode = 1 \<or> retcode = 2
              then cp_to_file g cmd n_words recursive target_idx target_filename target_name target_ext s
              else Some s } } }"

definition cp :: "locals \<Rightarrow> u8 list \<Rightarrow> session \<Rightarrow> session option" where
  "cp g cmd s =
     do { n_words \<leftarrow> countWords cmd;
          if n_words \<noteq> 3
          then complain (text_lines [''Invalid syntax'', ''cp <source_file> <dest_filen>'']) s
          else do {
            let cwd = call_cwd s;
            recursive \<leftarrow> find_option g cmd n_words;
            if (recursive = - 1 \<and> n_words < 3) \<or> (recursive \<noteq> - 1 \<and> n_words < 4)
            then complain (text_lines ['': missing file operands'']) s
            else do {
              let target_idx = (if recursive = n_words - 1 then n_words - 2 else n_words - 1);
              target_n \<leftarrow> wordLen cmd (word_of_int target_idx);
              target_filename \<leftarrow> word_into g cmd (nat target_idx) (nat target_n + 1);
              up \<leftarrow> strcmp target_filename (cstr0 ''..'');
              if up \<noteq> 0 then complain (text_lines [''root folder does not have parent'']) s
              else do {
                (returned, s) \<leftarrow> for_until (nat n_words - 1) 1
                                   (cp_check g cmd recursive target_idx target_filename cwd) s;
                if returned then Some s
                else cp_target g cmd n_words recursive target_idx target_filename s } } } }"

section \<open>rm\<close>

text \<open>The check of one operand, and its removal; both use the root, cluster 2.\<close>

definition rm_check :: "locals \<Rightarrow> u8 list \<Rightarrow> int \<Rightarrow> nat \<Rightarrow> session \<Rightarrow> (bool \<times> session) option" where
  "rm_check g cmd recursive i s =
     (if recursive = int i then Some (False, s)
      else do {
        filename \<leftarrow> word_into g cmd i 12;
        (long, nm, ex) \<leftarrow> parse_into g filename;
        if long \<noteq> 0
        then stop_with (do { s \<leftarrow> say filename 7 s;
                             say (text_lines ['': filename invalid, name or extension may be too long'']) 7 s })
        else do {
          let (retcode, table_buf, s) = call_read_directory (make_request nm ex 2 2048) s;
          if retcode = 2 then stop_with (complain_about filename (text_lines ['' not found'']) s)
          else if retcode = 0 \<and> recursive = - 1
          then stop_with (complain_about filename (text_lines ['' is a directory;  -r not specified'']) s)
          else Some (False, s) } })"

definition rm_one :: "locals \<Rightarrow> u8 list \<Rightarrow> int \<Rightarrow> int \<Rightarrow> nat \<Rightarrow> session \<Rightarrow> (bool \<times> session) option" where
  "rm_one g cmd recursive cluster i s =
     (if recursive = int i then Some (False, s)
      else do {
        filename \<leftarrow> word_into g cmd i 12;
        (long, nm, ex) \<leftarrow> parse_into g filename;
        if long \<noteq> 0 then stop_with (complain_about filename too_long s)
        else do {
          s \<leftarrow> remove_sh nm ex 2 s;
          s \<leftarrow> call_update cluster [0] True s;
          Some (False, s) } })"

definition rm :: "locals \<Rightarrow> u8 list \<Rightarrow> session \<Rightarrow> session option" where
  "rm g cmd s =
     do { n_words \<leftarrow> countWords cmd;
          if n_words \<noteq> 2 then complain (text_lines [''Invalid syntax'', ''rm <file/folder>'']) s
          else do {
            let cluster = call_cluster s;
            recursive \<leftarrow> find_option g cmd n_words;
            if (recursive = - 1 \<and> n_words < 2) \<or> (recursive \<noteq> - 1 \<and> n_words < 3)
            then complain (text_lines ['': missing file operands'']) s
            else do {
              (returned, s) \<leftarrow> for_until (nat n_words - 1) 1 (rm_check g cmd recursive) s;
              if returned then Some s
              else map_option snd (for_until (nat n_words - 1) 1 (rm_one g cmd recursive cluster) s) } } }"

section \<open>mkdir\<close>

definition mkdir :: "locals \<Rightarrow> u8 list \<Rightarrow> session \<Rightarrow> session option" where
  "mkdir g cmd s =
     do { n_words \<leftarrow> countWords cmd;
          if n_words \<noteq> 2 then complain (text_lines [''Invalid syntax'', ''mkdir <dir_name>'']) s
          else do {
            let cluster = call_cluster s;
            filename \<leftarrow> word_into g cmd 1 12;
            (long, nm, ex) \<leftarrow> parse_into g filename;
            if long \<noteq> 0 then complain_about filename (text_lines [''invalid directory name'']) s
            else do {
              (retcode, s) \<leftarrow> call_write (make_request nm ex (word_of_int cluster) 0) [] s;
              if retcode = 0
              then do { s \<leftarrow> say (text_lines [''Directory created successfully'']) 7 s;
                        call_update cluster [0] True s }
              else do { s \<leftarrow> say (cstr0 ''Failed to create directory, error code: '') 7 s;
                        say [10, 0] 7 s } } } }"

section \<open>mv\<close>

text \<open>What \<open>mv\<close>, \<open>mvPath\<close> and \<open>copyPath\<close> say about a destination; they go on in either case.\<close>

definition check_destination :: "u8 list \<Rightarrow> int \<Rightarrow> session \<Rightarrow> session option" where
  "check_destination source_filename dest_cluster s =
     (if dest_cluster = 9999
      then complain_about source_filename (text_lines [''Invalid Destination Path.'']) s
      else Some s)"

definition mv :: "locals \<Rightarrow> u8 list \<Rightarrow> session \<Rightarrow> session option" where
  "mv g cmd s =
     do { n_words \<leftarrow> countWords cmd;
          if n_words \<noteq> 3 then complain (text_lines [''Invalid syntax'', ''mv <source> <destination>'']) s
          else do {
            let cluster = call_cluster s;
            source_filename \<leftarrow> word_into g cmd 1 12;
            pathDest \<leftarrow> word_into g cmd 2 100;
            (long, source_name, source_ext) \<leftarrow> parse_into g source_filename;
            if long \<noteq> 0
            then complain_about source_filename (text_lines ['': Invalid source file name or extension.'']) s
            else do {
              (dest_cluster, s) \<leftarrow> getLastCluster g pathDest False s;
              s \<leftarrow> check_destination source_filename dest_cluster s;
              s \<leftarrow> puts_integer dest_cluster s;
              s \<leftarrow> copy g source_name source_ext (word_of_int cluster) source_name source_ext (word_of_int dest_cluster) s;
              if copy_status s = 0
              then do { s \<leftarrow> remove_sh source_name source_ext (word_of_int cluster) s;
                        say (text_lines [''Move successful.'']) 7 s }
              else say (text_lines [''Move failed: unable to verify copy.'']) 7 s } } }"

definition findFileFolder :: "u8 list \<Rightarrow> u8 list \<Rightarrow> session \<Rightarrow> int" where
  "findFileFolder name' ext' s =
     (let cwd = call_cwd s
      in found (scan (\<lambda>i. user_attribute (cwd ! i) = UATTR_NOT_EMPTY \<and>
                  memcmp (name (cwd ! i)) name' 8 = Some 0 \<and> memcmp (ext (cwd ! i)) ext' 3 = Some 0) 2 64))"

text \<open>The files below a folder are copied one by one into the destination, and removed where they were.\<close>

partial_function (option) traverseFolder :: "locals \<Rightarrow> int \<Rightarrow> int \<Rightarrow> bool \<Rightarrow> session \<Rightarrow> session option" where
  "traverseFolder g cluster destination isDelete s =
     (let cwd = call_read_cluster (word_of_int cluster) s
      in for_range 2 64 (\<lambda>i s.
           if user_attribute (cwd ! i) \<noteq> UATTR_NOT_EMPTY then Some s
           else if attribute (cwd ! i) = ATTR_SUBDIRECTORY
           then traverseFolder g (sint (entry_cluster (cwd ! i))) destination isDelete s
           else do {
             s \<leftarrow> copy g (name (cwd ! i)) (ext (cwd ! i)) (word_of_int cluster)
                    (name (cwd ! i)) (ext (cwd ! i)) (word_of_int destination) s;
             if isDelete then remove_sh (name (cwd ! i)) (ext (cwd ! i)) (word_of_int cluster) s else Some s }) s)"

text \<open>The index \<open>-9999\<close> of a source that is not there is used like any other.\<close>

definition mvPath :: "locals \<Rightarrow> u8 list \<Rightarrow> session \<Rightarrow> session option" where
  "mvPath g cmd s =
     do { n_words \<leftarrow> countWords cmd;
          if n_words \<noteq> 3 then complain (text_lines [''Invalid syntax'', ''mv <source> <destination>'']) s
          else do {
            let cluster = call_cluster s;
            let cwd = call_cwd s;
            source_filename \<leftarrow> word_into g cmd 1 12;
            pathDest \<leftarrow> word_into g cmd 2 100;
            (long, source_name, source_ext) \<leftarrow> parse_into g source_filename;
            if long \<noteq> 0
            then complain_about source_filename (text_lines ['': Invalid source file name or extension.'']) s
            else do {
              (dest_cluster, s) \<leftarrow> getLastCluster g pathDest False s;
              s \<leftarrow> check_destination source_filename dest_cluster s;
              let idx = findFileFolder source_name source_ext s;
              s \<leftarrow> (if idx = - 9999 then say (cstr0 ''Error: No such file/folder in this directory'') 0xF s else Some s);
              e \<leftarrow> arr_geti cwd idx;
              s \<leftarrow> (if attribute e \<noteq> ATTR_SUBDIRECTORY
                   then do {
                     s \<leftarrow> copy g source_name source_ext (word_of_int cluster) source_name source_ext (word_of_int dest_cluster) s;
                     remove_sh source_name source_ext (word_of_int cluster) s }
                   else traverseFolder g (sint (entry_cluster e)) dest_cluster True s);
              if copy_status s = 0 then say (text_lines [''Move successful.'']) 7 s
              else say (text_lines [''Move failed: unable to verify copy.'']) 7 s } } }"

definition copyPath :: "locals \<Rightarrow> u8 list \<Rightarrow> session \<Rightarrow> session option" where
  "copyPath g cmd s =
     do { n_words \<leftarrow> countWords cmd;
          if n_words \<noteq> 3 then complain (text_lines [''Invalid syntax'', ''cp <source> <destination>'']) s
          else do {
            let cluster = call_cluster s;
            let cwd = call_cwd s;
            source_filename \<leftarrow> word_into g cmd 1 12;
            pathDest \<leftarrow> word_into g cmd 2 100;
            (long, source_name, source_ext) \<leftarrow> parse_into g source_filename;
            if long \<noteq> 0
            then complain_about source_filename (text_lines ['': Invalid source file name or extension.'']) s
            else do {
              (dest_cluster, s) \<leftarrow> getLastCluster g pathDest False s;
              s \<leftarrow> check_destination source_filename dest_cluster s;
              let idx = findFileFolder source_name source_ext s;
              s \<leftarrow> (if idx = - 9999 then say (cstr0 ''Error: No such file/folder in this directory'') 0xF s else Some s);
              e \<leftarrow> arr_geti cwd idx;
              s \<leftarrow> (if attribute e \<noteq> ATTR_SUBDIRECTORY
                   then copy g source_name source_ext (word_of_int cluster) source_name source_ext (word_of_int dest_cluster) s
                   else traverseFolder g (sint (entry_cluster e)) dest_cluster False s);
              if copy_status s = 0 then say (text_lines [''Copy successful.'']) 7 s
              else say (text_lines [''Copy failed: unable to verify copy.'']) 7 s } } }"

end
