(* ===== verification/ShellCmds.thy ===== *)
theory ShellCmds
  imports ShellMove
begin

text \<open>
  The commands of \<open>src/src/command-shell.c\<close> that do not change files: \<open>ls\<close>, \<open>find\<close>, \<open>cd\<close>, \<open>cat\<close>,
  \<open>exec\<close>, \<open>ps\<close> and \<open>kill\<close>.
\<close>

section \<open>ls\<close>

text \<open>The name and the extension of entry \<open>i\<close> are read as C strings in the bytes of the table from
  there on.\<close>

definition table_from :: "dirtable \<Rightarrow> nat \<Rightarrow> u8 list" where
  "table_from cwd off = drop off (encode_table cwd)"

text \<open>A file's name is followed by an array of spaces that has no terminating NUL.\<close>

definition ls_entry :: "locals \<Rightarrow> dirtable \<Rightarrow> nat \<Rightarrow> session \<Rightarrow> session option" where
  "ls_entry g cwd i s =
     (if user_attribute (cwd ! i) \<noteq> UATTR_NOT_EMPTY then Some s
      else do {
        s \<leftarrow> say (table_from cwd (32 * i)) 2 s;
        n \<leftarrow> strlen (table_from cwd (32 * i));
        let leftSpace = 8 - int n;
        if attribute (cwd ! i) = ATTR_SUBDIRECTORY
        then do {
          let leftSpace = leftSpace + 4;
          spaces \<leftarrow> (if leftSpace < 0 then None else Some (replicate (nat leftSpace) 32));
          s \<leftarrow> puts_n spaces leftSpace 0xF s;
          s \<leftarrow> say (cstr0 ''folder 0'') 0xF s;
          say [10, 0] 0xF s }
        else do {
          spaces \<leftarrow> (if leftSpace < 0 then None else Some (replicate (nat leftSpace) 32));
          s \<leftarrow> say (spaces @ above g) 0xF s;
          s \<leftarrow> say (table_from cwd (32 * i + 8)) 0xF s;
          none \<leftarrow> strcmp (table_from cwd (32 * i + 8)) [0, 0, 0, 0];
          s \<leftarrow> (if none \<noteq> 0 then say (cstr0 ''   '') 0xF s else Some s);
          s \<leftarrow> say (cstr0 '' file   '') 0xF s;
          s \<leftarrow> puts_integer (sint (filesize (cwd ! i))) s;
          say [10, 0] 0xF s } })"

definition ls :: "locals \<Rightarrow> session \<Rightarrow> session option" where
  "ls g s =
     do { s \<leftarrow> say (text_lines [''name    ext type   size'']) 0xF s;
          s \<leftarrow> say (text_lines [''=============================='']) 0xF s;
          let cwd = call_cwd s;
          for_range 2 64 (ls_entry g cwd) s }"

section \<open>find\<close>

definition findShell :: "locals \<Rightarrow> u8 list \<Rightarrow> session \<Rightarrow> session option" where
  "findShell g cmd s =
     do { n_words \<leftarrow> countWords cmd;
          if n_words \<noteq> 2 then complain (text_lines [''Invalid syntax'', ''find <file/folder>'']) s
          else do {
            filename \<leftarrow> word_into g cmd 1 12;
            (long, nm, ex) \<leftarrow> parseFileName filename (replicate 8 0) (replicate 3 0);
            if long \<noteq> 0 then complain_about filename (text_lines ['': invalid directory name'']) s
            else call_find nm ex s } }"

section \<open>cd\<close>

definition cd :: "locals \<Rightarrow> u8 list \<Rightarrow> session \<Rightarrow> session option" where
  "cd g cmd s =
     do { n_words \<leftarrow> countWords cmd;
          if n_words \<noteq> 2 then complain (text_lines [''Invalid syntax'', ''cd <dir_name>'']) s
          else do {
            path \<leftarrow> getWord cmd 1 (replicate 100 0);
            let cluster = call_cluster s;
            none \<leftarrow> strcmp path [0];
            up \<leftarrow> strcmp path (cstr0 ''..'');
            if none \<noteq> 0 then complain (cstr0 ''Missing argument'') s
            else if up \<noteq> 0
            then if cluster = 2 then complain (text_lines [''Current Directory is Already in Root'']) s
                 else call_update (call_parent s) [0] False s
            else do {
              (idx, s) \<leftarrow> getLastCluster g path True s;
              if idx = 9999 then complain (cstr0 ''Path not valid'') s else Some s } } }"

section \<open>cat\<close>

text \<open>The last used entry with the name and the extension.\<close>

definition findLast :: "dirtable \<Rightarrow> u8 list \<Rightarrow> u8 list \<Rightarrow> int" where
  "findLast cwd nm ex =
     fold (\<lambda>i idx. if user_attribute (cwd ! i) = UATTR_NOT_EMPTY \<and>
                      memcmp (name (cwd ! i)) nm 8 = Some 0 \<and> memcmp (ext (cwd ! i)) ex 3 = Some 0
                   then int i else idx) [2..<64] (- 9999)"

text \<open>\<open>buff\<close> is as long as the file; what is stored past its end changes the stack above it.  The
  result of \<open>parseFileName\<close> is not looked at.\<close>

definition cat :: "locals \<Rightarrow> u8 list \<Rightarrow> session \<Rightarrow> session option" where
  "cat g cmd s =
     do { n_words \<leftarrow> countWords cmd;
          if n_words \<noteq> 2 then complain (text_lines [''Invalid syntax'', ''cat <file_name>'']) s
          else do {
            filename \<leftarrow> word_into g cmd 1 12;
            (long, nm, ex) \<leftarrow> parse_into g filename;
            let cwd = call_cwd s;
            let idx = findLast cwd nm ex;
            if idx = - 9999 then complain (text_lines [''File not found'']) s
            else do {
              let size' = filesize (cwd ! nat idx);
              let buff = junk_array g (unat size') @ above g;
              let request = make_request nm ex (word_of_int (call_cluster s)) size';
              (retcode, buff, s) \<leftarrow> call_read request buff s;
              if retcode = 1 then complain_about nm (text_lines ['' is a subdirectory'']) s
              else say buff 0xF s } } }"

section \<open>exec\<close>

definition exec :: "locals \<Rightarrow> u8 list \<Rightarrow> session \<Rightarrow> session option" where
  "exec g cmd s =
     do { n_words \<leftarrow> countWords cmd;
          if n_words \<noteq> 2 then complain (text_lines [''Invalid syntax'', ''exec <exe_name>'']) s
          else do {
            let cwd = call_cwd s;
            filename \<leftarrow> word_into g cmd 1 12;
            (long, nm, ex) \<leftarrow> parse_into g filename;
            let idx = findLast cwd nm ex;
            if idx = - 9999 then complain (text_lines [''File not found'']) s
            else do {
              let request = make_request nm ex (word_of_int (call_cluster s)) (filesize (cwd ! nat idx));
              (retcode, s) \<leftarrow> call_create request s;
              if retcode = 1 then say (text_lines [''Error: Number of active process is maximum'']) 7 s
              else if retcode = 2 then say (text_lines [''Error: virtual address entrypoint is not valid'']) 7 s
              else if retcode = 3 then say (text_lines [''Error: Memory available is not enough'']) 7 s
              else say (text_lines [''Process has been created and active'']) 7 s } } }"

section \<open>ps and kill\<close>

definition ps_entry :: "(pd_ptr \<Rightarrow> u32) \<Rightarrow> pcb list \<Rightarrow> nat \<Rightarrow> session \<Rightarrow> session option" where
  "ps_entry pd_addr list_pcb i s =
     do { b \<leftarrow> arr_get list_pcb i;
          s \<leftarrow> puts_integer (sint (pid b)) s;
          s \<leftarrow> say (cstr0 ''     '') 0xF s;
          s \<leftarrow> say (drop 9 (concat (map (encode_pcb pd_addr) (drop i list_pcb)))) 0xF s;
          s \<leftarrow> say (cstr0 (case cur_state b of READY \<Rightarrow> ''   READY'' | RUNNING \<Rightarrow> ''   RUNNING''
                            | BLOCKED \<Rightarrow> ''   BLOCKED'')) 0xF s;
          say [10, 0] 0xF s }"

definition ps :: "(pd_ptr \<Rightarrow> u32) \<Rightarrow> locals \<Rightarrow> session \<Rightarrow> session option" where
  "ps pd_addr g s =
     do { (list_pcb, countActive) \<leftarrow> call_processes (junk_pcbs g) s;
          s \<leftarrow> say (text_lines [''PID   Name    State'']) 0xF s;
          s \<leftarrow> say (text_lines [''==================='']) 0xF s;
          for_range 0 countActive (ps_entry pd_addr list_pcb) s }"

text \<open>All 16 blocks are compared, also those that the call has not stored.\<close>

definition kill :: "locals \<Rightarrow> u8 list \<Rightarrow> session \<Rightarrow> session option" where
  "kill g cmd s =
     do { n_words \<leftarrow> countWords cmd;
          if n_words \<noteq> 2 then complain (text_lines [''Invalid syntax'', ''kill <pid>'']) s
          else do {
            pidStr \<leftarrow> getWord cmd 1 (replicate 3 0);
            p \<leftarrow> string_to_int pidStr;
            (list_pcb, countActive) \<leftarrow> call_processes (junk_pcbs g) s;
            case scan (\<lambda>i. pid (list_pcb ! i) = word_of_int p \<and> active (list_pcb ! i)) 0 16 of
              Some i \<Rightarrow> do { s \<leftarrow> call_destroy (word_of_int p) s;
                             say (text_lines [''Process Destroy Successful'', '''']) 7 s }
            | None \<Rightarrow> complain (text_lines [''No such Process with Match PID'', '''']) s } }"

end
