(* ===== verification/UserShell.thy ===== *)
theory UserShell
  imports ShellCmds
begin

text \<open>
  The shell's main program, \<open>src/src/user-shell.c\<close>: the prompt, the line of command read character by
  character, and the choice of the command.  The program's pointers \<open>buf\<close> and \<open>cmdtyped\<close> are null:
  both lead to address 0 of the process, where its program lies, and what is stored there is kept in
  the memory of the process.  What happens to the machine between two system calls, the keyboard
  interrupts, is the argument \<open>env\<close>.  The loops need not end, and have no result then.
\<close>

section \<open>Reading a line\<close>

text \<open>System call 4: the character goes to address 0, the line and its length to the shell's variables.\<close>

definition call_getchar :: "u8 list \<Rightarrow> session \<Rightarrow> (u8 list \<times> int \<times> session) option" where
  "call_getchar cmd s =
     do { let (c, k) = get_keyboard_buffer (kbd (os s));
          k \<leftarrow> (if c = 8 then delete_command k else if c \<noteq> 0 \<and> c \<noteq> 10 then add_command c k else Some k);
          (cmd, n) \<leftarrow> get_command k cmd;
          Some (cmd, n, s\<lparr> os := (store_at 0 [c] (os s))\<lparr> kbd := k \<rparr> \<rparr>) }"

definition call_putchar :: "u8 \<Rightarrow> u8 \<Rightarrow> session \<Rightarrow> session option" where
  "call_putchar c color s = do { t \<leftarrow> putchar c color (screen s); Some (set_screen t s) }"

definition call_clear_command :: "session \<Rightarrow> session option" where
  "call_clear_command s =
     do { k \<leftarrow> clear_command (kbd (os s)); Some (s\<lparr> os := (os s)\<lparr> kbd := k \<rparr> \<rparr>) }"

definition at_null :: "session \<Rightarrow> u8" where
  "at_null s = user_mem (os s) 0"

text \<open>The character is shown, except for a backspace on an empty line.\<close>

definition show_char :: "int \<Rightarrow> int \<Rightarrow> session \<Rightarrow> session option" where
  "show_char idxOld idx s =
     (let c = at_null s
      in if c = 8 then (if idx \<noteq> idxOld then call_putchar 8 0xF s else Some s)
         else if c \<noteq> 0 \<and> c \<noteq> 10 then call_putchar c 0xF s
         else Some s)"

partial_function (option) read_line ::
  "(nat \<Rightarrow> machine \<Rightarrow> machine) \<Rightarrow> nat \<Rightarrow> u8 list \<Rightarrow> int \<Rightarrow> session \<Rightarrow> (nat \<times> u8 list \<times> session) option" where
  "read_line env k cmd idx s =
     (if at_null s \<noteq> 10
      then do { let s = s\<lparr> os := env k (os s) \<rparr>;
                (cmd, n, s) \<leftarrow> call_getchar cmd s;
                s \<leftarrow> show_char idx n s;
                read_line env (k + 1) cmd n s }
      else Some (k, cmd, s))"

section \<open>The commands\<close>

text \<open>The first word of the line, stored at address 0.\<close>

definition fetch_word :: "u8 list \<Rightarrow> session \<Rightarrow> (u8 list \<times> session) option" where
  "fetch_word cmd s =
     do { w \<leftarrow> getWord cmd 0 (mem_load (user_mem (os s)) 0 100);
          Some (w, s\<lparr> os := store_at 0 w (os s) \<rparr>) }"

definition command_found :: "u8 list \<Rightarrow> session \<Rightarrow> session option" where
  "command_found w s = do { s \<leftarrow> say w 7 s; say (text_lines ['': command found'']) 7 s }"

text \<open>The names in the order in which they are compared.\<close>

definition command_names :: "string list" where
  "command_names =
     [''rm'', ''cp'', ''mkdir'', ''mv'', ''find'', ''clear'', ''cd'', ''ls'', ''cat'', ''exit'', ''ps'', ''kill'', ''exec'']"

fun match_name :: "u8 list \<Rightarrow> string list \<Rightarrow> string option option" where
  "match_name w [] = Some None"
| "match_name w (n # ns) =
     (case strcmp w (cstr0 n) of None \<Rightarrow> None
      | Some e \<Rightarrow> if e \<noteq> 0 then Some (Some n) else match_name w ns)"

definition run_named :: "(pd_ptr \<Rightarrow> u32) \<Rightarrow> locals \<Rightarrow> string \<Rightarrow> u8 list \<Rightarrow> session \<Rightarrow> session option" where
  "run_named pd_addr g n cmd s =
     (if n = ''rm'' then rm g cmd s
      else if n = ''cp'' then copyPath g cmd s
      else if n = ''mkdir'' then mkdir g cmd s
      else if n = ''mv'' then mvPath g cmd s
      else if n = ''find'' then findShell g cmd s
      else if n = ''clear'' then call_clear s
      else if n = ''cd'' then cd g cmd s
      else if n = ''ls'' then ls g s
      else if n = ''cat'' then cat g cmd s
      else if n = ''ps'' then ps pd_addr g s
      else if n = ''kill'' then kill g cmd s
      else if n = ''exec'' then exec g cmd s
      else Some s)"

text \<open>The result says whether the shell ends.\<close>

definition run_command :: "(pd_ptr \<Rightarrow> u32) \<Rightarrow> locals \<Rightarrow> u8 list \<Rightarrow> u8 list \<Rightarrow> session \<Rightarrow> (bool \<times> session) option" where
  "run_command pd_addr g w cmd s =
     do { n \<leftarrow> match_name w command_names;
          case n of
            None \<Rightarrow> do { s \<leftarrow> say w 7 s; s \<leftarrow> say (text_lines ['': command not found'']) 7 s; Some (False, s) }
          | Some n \<Rightarrow> do { s \<leftarrow> command_found w s; s \<leftarrow> run_named pd_addr g n cmd s; Some (n = ''exit'', s) } }"

section \<open>The main loop\<close>

definition prompt :: "u8 list \<Rightarrow> session \<Rightarrow> session option" where
  "prompt cur_dir' s =
     do { s \<leftarrow> say ([10] @ cstr0 ''s0sis@OS-IF2230:'') 0xA s;
          s \<leftarrow> say cur_dir' 0x9 s;
          say (cstr0 ''$ '') 0xF s }"

definition main_round :: "(pd_ptr \<Rightarrow> u32) \<Rightarrow> locals \<Rightarrow> (nat \<Rightarrow> machine \<Rightarrow> machine) \<Rightarrow> nat \<Rightarrow> u8 list \<Rightarrow> session \<Rightarrow>
    (bool \<times> nat \<times> u8 list \<times> session) option" where
  "main_round pd_addr g env k cur_dir' s =
     do { cur_dir' \<leftarrow> call_path cur_dir' s;
          s \<leftarrow> prompt cur_dir' s;
          (k, cmd, s) \<leftarrow> read_line env k (replicate 100 0) 0 s;
          s \<leftarrow> call_clear_command s;
          (w, s) \<leftarrow> fetch_word cmd s;
          s \<leftarrow> say [10, 0] 0xF s;
          (ended, s) \<leftarrow> run_command pd_addr g w cmd s;
          s \<leftarrow> (if ended then Some s else call_update (call_cluster s) [0] True s);
          Some (ended, k, cur_dir', s) }"

partial_function (option) main_loop :: "(pd_ptr \<Rightarrow> u32) \<Rightarrow> locals \<Rightarrow> (nat \<Rightarrow> machine \<Rightarrow> machine) \<Rightarrow> nat \<Rightarrow> u8 list \<Rightarrow> session \<Rightarrow>
    session option" where
  "main_loop pd_addr g env k cur_dir' s =
     do { (ended, k, cur_dir', s) \<leftarrow> main_round pd_addr g env k cur_dir' s;
          if ended then Some s else main_loop pd_addr g env k cur_dir' s }"

definition shell_main :: "(pd_ptr \<Rightarrow> u32) \<Rightarrow> locals \<Rightarrow> (nat \<Rightarrow> machine \<Rightarrow> machine) \<Rightarrow> session \<Rightarrow> session option" where
  "shell_main pd_addr g env s =
     do { s \<leftarrow> call_update 2 [0] True s;
          let s = s\<lparr> os := (os s)\<lparr> kbd := keyboard_state_activate (kbd (os s)) \<rparr> \<rparr>;
          main_loop pd_addr g env 0 (replicate 100 0) s }"

end
