(* ===== verification/ShellFacts.thy ===== *)
theory ShellFacts
  imports UserShell FatProps
begin

text \<open>
  What the shell's steps do to its state: output changes the screen only and keeps it well formed,
  and the calls of the file system change the volume as the operations of the file system do.  The
  equations are about consistent volumes; the properties of the commands are derived from them.
\<close>

unbundle bit_operations_syntax

section \<open>The parts of the state\<close>

lemma session_parts [simp]:
  "vol (set_vol f s) = f" "screen (set_vol f s) = screen s" "folder (set_vol f s) = folder s"
  "vol (set_screen t s) = vol s" "screen (set_screen t s) = t" "folder (set_screen t s) = folder s"
  "vol (set_folder d s) = vol s" "screen (set_folder d s) = screen s" "folder (set_folder d s) = d"
  "copy_status (set_vol f s) = copy_status s" "copy_status (set_screen t s) = copy_status s"
  "copy_status (set_folder d s) = copy_status s"
  by (simp_all add: vol_def set_vol_def screen_def set_screen_def folder_def set_folder_def set_fs_def)

lemma copy_status_parts [simp]:
  "vol (s\<lparr> copy_status := c \<rparr>) = vol s" "screen (s\<lparr> copy_status := c \<rparr>) = screen s"
  "folder (s\<lparr> copy_status := c \<rparr>) = folder s"
  by (simp_all add: vol_def screen_def folder_def)

lemma set_vol_absorb [simp]: "set_vol f (set_vol f' s) = set_vol f s" "set_vol (vol s) s = s"
  by (simp_all add: set_vol_def set_fs_def vol_def)

text \<open>The processes and their memories, the keyboard: what the file commands do not touch.\<close>

definition rest_same :: "session \<Rightarrow> session \<Rightarrow> bool" where
  "rest_same s s' =
     (process_list (kern (os s')) = process_list (kern (os s)) \<and> cur_idx (kern (os s')) = cur_idx (kern (os s)) \<and>
      active_process_count (kern (os s')) = active_process_count (kern (os s)) \<and>
      total_pid (kern (os s')) = total_pid (kern (os s)) \<and> pg (kern (os s')) = pg (kern (os s)) \<and>
      cr3 (kern (os s')) = cr3 (kern (os s)) \<and> space (kern (os s')) = space (kern (os s)) \<and>
      power_off (kern (os s')) = power_off (kern (os s)) \<and> kbd (os s') = kbd (os s) \<and> hlt (os s') = hlt (os s))"

lemma rest_same_refl [simp]: "rest_same s s"
  by (simp add: rest_same_def)

lemma rest_same_trans: "rest_same s t \<Longrightarrow> rest_same t u \<Longrightarrow> rest_same s u"
  by (simp add: rest_same_def)

lemma rest_same_steps [simp]:
  "rest_same s (set_vol f s)" "rest_same s (set_screen t s)" "rest_same s (set_folder d s)"
  "rest_same s (s\<lparr> copy_status := c \<rparr>)"
  by (simp_all add: rest_same_def set_fs_def set_vol_def set_screen_def set_folder_def)

section \<open>Output\<close>

text \<open>\<open>s'\<close> is \<open>s\<close> after some output.\<close>

definition printed :: "session \<Rightarrow> session \<Rightarrow> bool" where
  "printed s s' = (\<exists>t. screen_ok t \<and> s' = set_screen t s)"

lemma printedD:
  assumes "printed s s'"
  shows "vol s' = vol s" "folder s' = folder s" "screen_ok (screen s')" "copy_status s' = copy_status s"
    "rest_same s s'" "kern (os s') = kern (os s)" "kbd (os s') = kbd (os s)"
  using assms by (auto simp: printed_def) (simp_all add: set_screen_def)

lemma printed_trans: "printed s t \<Longrightarrow> printed t u \<Longrightarrow> printed s u"
  by (auto simp: printed_def set_screen_def)

lemma printed_refl: "screen_ok (screen s) \<Longrightarrow> printed s s"
  by (auto simp: printed_def set_screen_def screen_def intro!: exI [of _ "scrn (os s)"])

text \<open>The steps that print and go on, as facts for the simplifier's premises.\<close>

lemma puts_n_ok: "screen_ok (screen s) \<Longrightarrow> \<exists>s'. puts_n xs n color s = Some s' \<and> printed s s'"
  using puts_chars_ok [of "screen s" "(!) xs" "sint (word_of_int n :: u32)" color]
  by (auto simp: puts_n_def printed_def)

lemma say_ok: "screen_ok (screen s) \<Longrightarrow> terminated xs \<Longrightarrow> \<exists>s'. say xs color s = Some s' \<and> printed s s'"
  using puts_n_ok [of s xs "int (length (c_text xs))" color] by (auto simp: say_def strlen_eq)

lemma terminated_literals [simp]:
  "terminated (cstr0 str)" "terminated (text_lines strs)" "terminated (x # text_lines strs)"
  "terminated [x, 0]" "terminated (xs @ cstr0 str)" "terminated [0]"
  by (auto simp: terminated_def cstr0_def text_lines_def)

lemma complain_ok: "screen_ok (screen s) \<Longrightarrow> terminated msg \<Longrightarrow> \<exists>s'. complain msg s = Some s' \<and> printed s s'"
proof -
  assume a: "screen_ok (screen s)" "terminated msg"
  obtain s1 where s1: "say (cstr0 ''Error: '') 4 s = Some s1" "printed s s1" using say_ok [OF a(1)] by force
  obtain s2 where "say msg 7 s1 = Some s2" "printed s1 s2" using say_ok [OF printedD(3) [OF s1(2)] a(2)] by blast
  with s1 show ?thesis by (auto simp: complain_def intro: printed_trans)
qed

lemma complain_about_ok:
  "screen_ok (screen s) \<Longrightarrow> terminated nm \<Longrightarrow> terminated msg \<Longrightarrow>
     \<exists>s'. complain_about nm msg s = Some s' \<and> printed s s'"
proof -
  assume a: "screen_ok (screen s)" "terminated nm" "terminated msg"
  obtain s1 where s1: "say (cstr0 ''Error: '') 4 s = Some s1" "printed s s1" using say_ok [OF a(1)] by force
  obtain s2 where s2: "say nm 7 s1 = Some s2" "printed s1 s2" using say_ok [OF printedD(3) [OF s1(2)] a(2)] by blast
  obtain s3 where "say msg 7 s2 = Some s3" "printed s2 s3" using say_ok [OF printedD(3) [OF s2(2)] a(3)] by blast
  with s1 s2 show ?thesis by (auto simp: complain_about_def intro: printed_trans)
qed

end
