(* ===== verification/ShellVol.thy ===== *)
theory ShellVol
  imports ShellFacts
begin

text \<open>
  The file calls of the shell on a consistent volume, and what \<open>remove\<close> and \<open>copy\<close> do to the
  abstract volume.
\<close>

unbundle bit_operations_syntax

section \<open>Names\<close>

text \<open>The name and the extension that a request takes from the shell's arrays.\<close>

definition key_for :: "u8 list \<Rightarrow> u8 list \<Rightarrow> key" where
  "key_for nm ex = (take 8 nm, take 3 ex)"

definition entry_name :: "u8 list \<Rightarrow> u8 list \<Rightarrow> bool" where
  "entry_name nm ex = (8 \<le> length nm \<and> 3 \<le> length ex \<and> key_for nm ex \<noteq> zero_key)"

lemma make_request_simps [simp]:
  "r_name (make_request nm ex c n) = take 8 nm" "r_ext (make_request nm ex c n) = take 3 ex"
  "parent_cluster_number (make_request nm ex c n) = c" "buffer_size (make_request nm ex c n) = n"
  "r_buf (make_request nm ex c n) = 0" "(make_request nm ex c n)\<lparr> r_buf := 0 \<rparr> = make_request nm ex c n"
  by (simp_all add: make_request_def)

lemma make_request_ok:
  assumes "entry_name nm ex"
  shows "wf_request (make_request nm ex c n)" "request_key (make_request nm ex c n) = key_for nm ex"
    "request_key (make_request nm ex c n) \<noteq> zero_key"
  using assms by (simp_all add: entry_name_def wf_request_def key_for_def)

lemma volume_load [simp]: "volume (load_dir f c) = volume f"
proof (intro ext)
  fix p k
  have "content (load_dir f c) e = content f e" for e
    by (simp add: content_def file_bytes_def cluster_at_def [abs_def])
  then have "content (load_dir f c) = content f" by (rule ext)
  then show "volume (load_dir f c) p k = volume f p k" by (simp add: volume_def)
qed

lemma entry_absent:
  assumes "vol_ok f D" "p \<in> D" "entry_name nm ex" "volume f p (key_for nm ex) = None"
  shows "findEntry (dir_at f (of_nat p)) (take 8 nm) (take 3 ex) = - 9999"
  using find_none [OF assms(1,2) _ make_request_ok(1,3) [OF assms(3), of "of_nat p" 0]] assms(4)
  by (simp add: key_for_def)

section \<open>Deleting\<close>

lemma call_delete_gone:
  assumes "vol_ok (vol s) D" "p \<in> D" "entry_name nm ex" "volume (vol s) p (key_for nm ex) = None"
  shows "call_delete (make_request nm ex (of_nat p) n) s = Some (1, set_vol (load_dir (vol s) (of_nat p)) s)"
  using delete_step [OF assms(1,2), of "make_request nm ex (of_nat p) n"] make_request_ok [OF assms(3)] assms(4)
  by (simp add: call_delete_def)

lemma call_delete_file:
  assumes "vol_ok (vol s) D" "p \<in> D" "entry_name nm ex" "volume (vol s) p (key_for nm ex) = Some (File bs)"
  shows "\<exists>f. call_delete (make_request nm ex (of_nat p) n) s = Some (0, set_vol f s) \<and> vol_ok f D \<and>
    volume f p = (volume (vol s) p)(key_for nm ex := None) \<and> (\<forall>q \<in> D - {p}. volume f q = volume (vol s) q)"
  using delete_step [OF assms(1,2), of "make_request nm ex (of_nat p) n"] make_request_ok [OF assms(3)] assms(4)
  by (auto simp: call_delete_def)

text \<open>The second call of \<open>remove\<close> finds nothing.\<close>

lemma remove_file:
  assumes "vol_ok (vol s) D" "p \<in> D" "entry_name nm ex" "volume (vol s) p (key_for nm ex) = Some (File bs)"
  shows "\<exists>f. remove_sh nm ex (of_nat p) s = Some (set_vol f s) \<and> vol_ok f D \<and>
    volume f p = (volume (vol s) p)(key_for nm ex := None) \<and> (\<forall>q \<in> D - {p}. volume f q = volume (vol s) q)"
proof -
  obtain f where f: "call_delete (make_request nm ex (of_nat p) 0) s = Some (0, set_vol f s)" "vol_ok f D"
    "volume f p = (volume (vol s) p)(key_for nm ex := None)" "\<forall>q \<in> D - {p}. volume f q = volume (vol s) q"
    using call_delete_file [OF assms] by metis
  have "call_delete (make_request nm ex (of_nat p) 0) (set_vol f s) = Some (1, set_vol (load_dir f (of_nat p)) s)"
    using call_delete_gone [of "set_vol f s" D p nm ex 0] f assms(2,3) by simp
  with f show ?thesis by (simp add: remove_sh_def, intro exI [of _ "load_dir f (of_nat p)"]) simp
qed

section \<open>Reading\<close>

lemma length_over [simp]: "length (overwrite buf 0 xs) = max (length xs) (length buf)"
  by (simp add: overwrite_def)

lemma overwrite_append:
  assumes "off + length xs + length ys \<le> length buf"
  shows "overwrite (overwrite buf off xs) (off + length xs) ys = overwrite buf off (xs @ ys)"
proof (cases "xs = []")
  case False
  then have "0 < length xs" by simp
  with assms have "off < length buf" by linarith
  then show ?thesis using assms by (auto simp: overwrite_def min_def ac_simps)
qed simp

lemma read_chain_into_eq:
  assumes "chain fat c cs" "length fat = 512"
  shows "read_chain_into fat im c off buf =
    (if cs = [] \<or> off + 2048 * length cs \<le> length buf
     then Some (overwrite buf off (concat (map (\<lambda>x. read_clusters im (of_nat x) 1) cs))) else None)"
  using assms
proof (induction cs arbitrary: c off buf)
  case Nil
  then show ?case by (simp add: read_chain_into.simps)
next
  case (Cons x xs)
  then have x: "x < 512" "c = of_nat x" "chain fat (fat ! x) xs" by (auto intro: cluster_of_unat)
  let ?d = "read_clusters im (of_nat x) 1" and ?r = "concat (map (\<lambda>x. read_clusters im (of_nat x) 1) xs)"
  have r: "length ?r = 2048 * length xs" by (simp add: length_concat_fixed [where w = 2048])
  have d: "length ?d = 2048" by simp
  have c: "c \<noteq> FAT32_FAT_END_OF_FILE" using x cluster_neq_EOF [OF x(1)] by simp
  show ?case
  proof (cases "off + 2048 \<le> length buf")
    case True
    have l: "length (overwrite buf off ?d) = length buf" using True d by simp
    have "read_chain_into fat im c off buf = read_chain_into fat im (fat ! x) (off + 2048) (overwrite buf off ?d)"
      using x c True Cons.prems(2) by (subst read_chain_into.simps) simp
    also have "\<dots> = (if xs = [] \<or> off + 2048 + 2048 * length xs \<le> length buf
        then Some (overwrite (overwrite buf off ?d) (off + length ?d) ?r) else None)"
      using Cons.IH [OF x(3) Cons.prems(2), of "off + 2048" "overwrite buf off ?d"] l d by simp
    also have "\<dots> = (if off + 2048 * length (x # xs) \<le> length buf then Some (overwrite buf off (?d @ ?r)) else None)"
      using True r d overwrite_append [of off ?d ?r buf] by auto
    finally show ?thesis by simp
  next
    case False
    then show ?thesis using c by (subst read_chain_into.simps) simp
  qed
qed

text \<open>\<open>read\<close> of a file into a buffer: the bytes, up to the end of the last cluster.\<close>

lemma file_entry:
  assumes "vol_ok f D" "p \<in> D" "entry_name nm ex" "volume f p (key_for nm ex) = Some (File bs)"
  obtains i ds where "findEntry (dir_at f (of_nat p)) (take 8 nm) (take 3 ex) = int i" "used f p i"
    "key_of (slot f p i) = key_for nm ex" "\<not> is_folder (slot f p i)" "filesize (slot f p i) = of_nat (length bs)"
    "chain (cluster_map f) (entry_cluster (slot f p i)) ds" "length ds = clusters_for (of_nat (length bs))" "ds \<noteq> []"
    "bs = take (length bs) (file_bytes f ds)" "length bs \<le> length (file_bytes f ds)"
proof -
  note r = make_request_ok [OF assms(3), of "of_nat p" 0]
  obtain i where i: "findEntry (dir_at f (of_nat p)) (take 8 nm) (take 3 ex) = int i"
    using findEntry_cases [of "dir_at f (of_nat p)" "take 8 nm" "take 3 ex"]
      find_none [OF assms(1,2) _ r(1,3)] assms(4) r(2) by force
  then have u: "used f p i" "key_of (slot f p i) = key_for nm ex" "volume f p (key_for nm ex) = Some (content f (slot f p i))"
    using find_slot [OF assms(1,2) _ r(1,3), of i] r(2) by simp_all
  then have nf: "\<not> is_folder (slot f p i)" using assms(4) by (auto simp: content_def is_folder_def)
  obtain ds bs' where ds': "chain (cluster_map f) (entry_cluster (slot f p i)) ds" "ds \<noteq> []"
    "content f (slot f p i) = File bs'" "length bs' = unat (filesize (slot f p i))"
    "bs' = take (unat (filesize (slot f p i))) (file_bytes f ds)"
    "length (file_bytes f ds) = 2048 * clusters_for (filesize (slot f p i))"
    by (rule file_content [OF assms(1,2) u(1) nf])
  have "bs' = bs" using ds'(3) u(3) assms(4) by simp
  note ds = ds'(1,2,4-6) [unfolded this]
  have sz: "filesize (slot f p i) = of_nat (length bs)" using ds(3) by simp
  have "length bs \<le> length (file_bytes f ds)" using ds(3,5) clusters_for_enough [of "filesize (slot f p i)"] by simp
  moreover have "length ds = clusters_for (of_nat (length bs))" using ds(5) sz by simp
  moreover have "bs = take (length bs) (file_bytes f ds)" using ds(3,4) by simp
  ultimately show ?thesis using that i u(1,2) nf sz ds(1,2) by blast
qed

lemma file_small:
  assumes "vol_ok f D" "p \<in> D" "entry_name nm ex" "volume f p (key_for nm ex) = Some (File bs)"
  shows "length bs \<le> 1048576" "bs \<noteq> []"
proof -
  obtain i ds where ds: "chain (cluster_map f) (entry_cluster (slot f p i)) ds" "ds \<noteq> []"
    "length ds = clusters_for (of_nat (length bs))" "length bs \<le> length (file_bytes f ds)"
    using file_entry [OF assms] by metis
  have "length ds \<le> 512" using chain_length [OF ds(1)] .
  then show "length bs \<le> 1048576" using ds(4) by simp
  show "bs \<noteq> []" using ds(2,3) by (auto simp: clusters_for_def)
qed

lemma call_read_file:
  assumes "vol_ok (vol s) D" "p \<in> D" "entry_name nm ex" "volume (vol s) p (key_for nm ex) = Some (File bs)"
    and "length bs \<le> unat n"
  shows "\<exists>slack. length (bs @ slack) = 2048 * clusters_for (of_nat (length bs)) \<and>
    call_read (make_request nm ex (of_nat p) n) buf s =
      (if length (bs @ slack) \<le> length buf
       then Some (0, overwrite buf 0 (bs @ slack), set_vol (load_dir (vol s) (of_nat p)) s) else None)"
proof -
  let ?f = "vol s"
  obtain i ds where e: "findEntry (dir_at ?f (of_nat p)) (take 8 nm) (take 3 ex) = int i" "\<not> is_folder (slot ?f p i)"
    "filesize (slot ?f p i) = of_nat (length bs)" "chain (cluster_map ?f) (entry_cluster (slot ?f p i)) ds"
    "length ds = clusters_for (of_nat (length bs))" "ds \<noteq> []" "bs = take (length bs) (file_bytes ?f ds)"
    "length bs \<le> length (file_bytes ?f ds)"
    using file_entry [OF assms(1-4)] by metis
  let ?slack = "drop (length bs) (file_bytes ?f ds)"
  have split: "bs @ ?slack = file_bytes ?f ds" using e(7) by (metis append_take_drop_id)
  have "length bs < 2 ^ 32" using file_small(1) [OF assms(1-4)] by simp
  then have small: "\<not> n < of_nat (length bs)" using assms(5) by (simp add: word_less_nat_alt unat_of_nat_u32)
  have len: "length (file_bytes ?f ds) = 2048 * clusters_for (of_nat (length bs))" using e(5) by simp
  have "concat (map (\<lambda>x. read_clusters (image ?f) (of_nat x) 1) ds) = file_bytes ?f ds"
    by (simp add: file_bytes_def cluster_at_def [abs_def])
  then have "read_chain_into (cluster_map ?f) (image ?f) (entry_cluster (slot ?f p i)) 0 buf =
      (if length (bs @ ?slack) \<le> length buf then Some (overwrite buf 0 (bs @ ?slack)) else None)"
    using read_chain_into_eq [OF e(4) fat_ok_length [OF volD(1) [OF assms(1)]], of "image ?f" 0 buf] e(5,6)
    unfolding split len by simp
  then have "call_read (make_request nm ex (of_nat p) n) buf s =
      (if length (bs @ ?slack) \<le> length buf
       then Some (0, overwrite buf 0 (bs @ ?slack), set_vol (load_dir ?f (of_nat p)) s) else None)"
    using e(1-3) small by (simp add: call_read_def read_into_def Let_def slot_def is_folder_def)
  moreover have "length (bs @ ?slack) = 2048 * clusters_for (of_nat (length bs))" unfolding split by (rule len)
  ultimately show ?thesis by blast
qed

section \<open>Writing\<close>

text \<open>The volume \<open>f\<close> has a free slot in folder \<open>q\<close> and enough free clusters for \<open>n\<close> bytes.\<close>

definition room_for :: "fs \<Rightarrow> nat \<Rightarrow> nat \<Rightarrow> bool" where
  "room_for f q n =
     (has_room f q \<and> clusters_for (of_nat n) \<le> length (free_clusters (cluster_map f)))"

lemma used_load [simp]: "used (load_dir f c) p i = used f p i" "slot (load_dir f c) p i = slot f p i"
  by (simp_all add: used_def slot_def)

lemma room_for_load [simp]: "room_for (load_dir f c) q n = room_for f q n"
  by (simp add: room_for_def has_room_def)

lemma clusters_for_ceil: "nat (ceil_c (of_nat (unat sz) / 2048)) = clusters_for sz"
  using ceil_c_clusters [of sz] by (metis nat_int)

lemma call_write_file:
  assumes "vol_ok (vol s) D" "q \<in> D" "entry_name nm ex" "volume (vol s) q (key_for nm ex) = None"
    and "bs \<noteq> []" "length bs \<le> 1048576" "room_for (vol s) q (length bs)" "\<not> slot_tainted (vol s) q"
    and "take (length bs) data = bs" "2048 * clusters_for (of_nat (length bs)) \<le> length data" "length data \<le> 2 ^ 32"
  shows "\<exists>f. call_write (make_request nm ex (of_nat q) (of_nat (length bs))) data s = Some (0, set_vol f s) \<and>
    vol_ok f D \<and> volume f q = (volume (vol s) q)(key_for nm ex \<mapsto> File bs) \<and>
    (\<forall>p \<in> D - {q}. volume f p = volume (vol s) p)"
proof -
  let ?r = "make_request nm ex (of_nat q) (of_nat (length bs))" and ?m = "mem_store (\<lambda>_. 0) 0 data"
  note r = make_request_ok [OF assms(3), of "of_nat q" "of_nat (length bs)"]
  have u: "unat (of_nat (length bs) :: u32) = length bs" using assms(6) by (simp add: unat_of_nat_u32)
  then have n0: "buffer_size ?r \<noteq> 0" using assms(5) by (metis make_request_simps(4) length_0_conv unat_0)
  have "has_room (vol s) q" "fits (vol s) ?r" using assms(7) by (simp_all add: room_for_def fits_def)
  then obtain f where f: "write_fat ?r ?m (vol s) = Some (0, f)"
    using write_room [OF assms(1,2) _ r(1,3), of ?m] assms(4) r(2) by auto
  have "length bs \<le> length data" using assms(9) by (metis length_take min.cobounded1)
  then have "mem_load ?m 0 (length bs) = bs"
    using mem_load_store_take [of "length bs" data "\<lambda>_. 0" 0] assms(9,11) by simp
  then have "vol_ok f D" "volume f q = (volume (vol s) q)(key_for nm ex \<mapsto> File bs)"
    "\<forall>p \<in> D - {q}. volume f p = volume (vol s) p"
    using write_file_step [OF assms(1,2) _ r(1,3) n0 assms(8) f] r(2) u by simp_all
  moreover have "call_write ?r data s = Some (0, set_vol f s)"
    using f assms(10) clusters_for_ceil [of "of_nat (length bs)"] by (simp add: call_write_def)
  ultimately show ?thesis by blast
qed

section \<open>Copying\<close>

lemma memcmp_take:
  assumes "n \<le> length a" "n \<le> length b"
  shows "memcmp a b n = Some 0 \<longleftrightarrow> take n a = take n b"
proof -
  have "take n a = take n b \<longleftrightarrow> (\<forall>k < n. a ! k = b ! k)"
    using assms by (auto simp: list_eq_iff_nth_eq)
  then show ?thesis using memcmp_from_spec [OF assms, of 0] by (auto simp: memcmp_def)
qed

text \<open>The entries that \<open>copy\<close> takes for the source: those that agree with its name in the first four
  characters.\<close>

definition like_source :: "u8 list \<Rightarrow> u8 list \<Rightarrow> dirent \<Rightarrow> bool" where
  "like_source nm ex e = (take 4 (name e) = take 4 nm \<and> ext e = take 3 ex)"

lemma source_scan_file:
  assumes "\<forall>e \<in> set t. wf_dirent e" "8 \<le> length nm" "3 \<le> length ex"
    and "\<forall>e \<in> set t. like_source nm ex e \<longrightarrow> attribute e \<noteq> ATTR_SUBDIRECTORY \<and> filesize e = n \<and> entry_cluster e = c"
    and "src = Some (n, c) \<or> (\<exists>e \<in> set t. like_source nm ex e)"
  shows "source_scan t nm ex src = (Some (n, c), False)"
  using assms
proof (induction t arbitrary: src)
  case (Cons e t)
  then have "memcmp (name e) nm 4 = Some 0 \<and> memcmp (ext e) ex 3 = Some 0 \<longleftrightarrow> like_source nm ex e"
    by (simp add: memcmp_take like_source_def wf_dirent_def)
  with Cons show ?case by auto
qed auto

text \<open>No other entry of the folder agrees with the source in the first four characters.\<close>

definition alone_by_four :: "fs \<Rightarrow> nat \<Rightarrow> u8 list \<Rightarrow> u8 list \<Rightarrow> bool" where
  "alone_by_four f p nm ex =
     (\<forall>i < 64. like_source nm ex (slot f p i) \<longrightarrow> used f p i \<and> key_of (slot f p i) = key_for nm ex)"

lemma source_scan_volume:
  assumes "vol_ok f D" "p \<in> D" "entry_name nm ex" "volume f p (key_for nm ex) = Some (File bs)" "alone_by_four f p nm ex"
  shows "\<exists>c. source_scan (dir_at f (of_nat p)) nm ex None = (Some (of_nat (length bs), c), False)"
proof -
  let ?t = "dir_at f (of_nat p)"
  obtain i where i: "used f p i" "key_of (slot f p i) = key_for nm ex" "\<not> is_folder (slot f p i)"
    "filesize (slot f p i) = of_nat (length bs)"
    using file_entry [OF assms(1-4)] by metis
  have len: "length ?t = 64" by (rule wf_table_length) simp
  have only: "j = i" if "used f p j" "key_of (slot f p j) = key_for nm ex" for j
    using tidy_inj [OF volD(5) [OF assms(1,2)], of j i] that i(1,2) by (simp add: used_def slot_def)
  have "e = slot f p i" if "e \<in> set ?t" "like_source nm ex e" for e
    using that only assms(5) len by (auto simp: in_set_conv_nth alone_by_four_def slot_def)
  then have like: "\<forall>e \<in> set ?t. like_source nm ex e \<longrightarrow>
      attribute e \<noteq> ATTR_SUBDIRECTORY \<and> filesize e = of_nat (length bs) \<and> entry_cluster e = entry_cluster (slot f p i)"
    using i(3,4) by (auto simp: is_folder_def)
  have l: "like_source nm ex (slot f p i)"
    using i(2) by (simp add: like_source_def key_of_def key_for_def take_take min_def)
  have "slot f p i \<in> set ?t" using i(1) len by (simp add: used_def slot_def)
  moreover have "\<forall>e \<in> set ?t. wf_dirent e" using wf_dir_at [of f "of_nat p"] by (simp add: wf_table_def)
  moreover have "8 \<le> length nm" "3 \<le> length ex" using assms(3) by (simp_all add: entry_name_def)
  ultimately have "source_scan ?t nm ex None = (Some (of_nat (length bs), entry_cluster (slot f p i)), False)"
    using like l by (intro source_scan_file) blast+
  then show ?thesis by blast
qed

lemma clear_target_gone:
  assumes "vol_ok (vol s) D" "q \<in> D" "entry_name nm ex" "volume (vol s) q (key_for nm ex) = None"
  shows "clear_target nm ex (of_nat q) s = Some (set_vol (load_dir (vol s) (of_nat q)) s)"
  using read_directory_correct [OF assms(1,2), of "make_request nm ex (of_nat q) 32" "\<lambda>_. 0"]
    make_request_ok [OF assms(3)] assms(4)
  by (simp add: clear_target_def call_read_directory_def)

lemma num_clusters_eq:
  assumes "n \<le> 1048576"
  shows "unat ((of_nat n + 2048 - 1 :: u32) div 2048) = clusters_for (of_nat n)"
proof -
  have e: "of_nat n + 2048 - 1 = (of_nat (n + 2047) :: u32)" by simp
  have u: "unat (of_nat (n + 2047) :: u32) = n + 2047" "unat (of_nat n :: u32) = n"
    using assms by (intro unat_of_nat_u32; simp)+
  show ?thesis unfolding e unat_div u clusters_for_def by simp
qed

lemma dir_at_call: "call_read_cluster c s = dir_at (vol s) c"
  by (simp add: call_read_cluster_def dir_at_def)

text \<open>\<open>copy\<close> of a file to a name that is free: the target folder gets the file, nothing else changes.\<close>

lemma copy_file_ok:
  assumes ok: "vol_ok (vol s) D" and src: "p \<in> D" "entry_name nm ex" "volume (vol s) p (key_for nm ex) = Some (File bs)"
    and alone: "alone_by_four (vol s) p nm ex"
    and dst: "q \<in> D" "entry_name tn te" "volume (vol s) q (key_for tn te) = None" and room: "room_for (vol s) q (length bs)"
    and clean: "\<not> slot_tainted (vol s) q"
  shows "\<exists>f. copy g nm ex (of_nat p) tn te (of_nat q) s = Some ((set_vol f s)\<lparr> copy_status := 0 \<rparr>) \<and> vol_ok f D \<and>
    volume f q = (volume (vol s) q)(key_for tn te \<mapsto> File bs) \<and> (\<forall>d \<in> D - {q}. volume f d = volume (vol s) d)"
proof -
  define s1 where "s1 = set_vol (load_dir (vol s) (of_nat q)) s"
  have v1: "vol s1 = load_dir (vol s) (of_nat q)" by (simp add: s1_def)
  have ok1: "vol_ok (vol s1) D" and src1: "volume (vol s1) p (key_for nm ex) = Some (File bs)"
    using ok src(3) by (simp_all add: v1)
  note small = file_small [OF ok1 src(1,2) src1]
  have u: "unat (of_nat (length bs) :: u32) = length bs" using small(1) by (simp add: unat_of_nat_u32)
  obtain c where c: "source_scan (dir_at (vol s1) (of_nat p)) nm ex None = (Some (of_nat (length bs), c), False)"
    using source_scan_volume [OF ok src alone] by (auto simp: v1)
  let ?k = "clusters_for (of_nat (length bs))"
  let ?buf = "junk_array g (2048 * ?k)"
  obtain slack where slack: "length (bs @ slack) = 2048 * ?k"
    "call_read (make_request nm ex (of_nat p) (of_nat (length bs))) ?buf s1 =
       Some (0, overwrite ?buf 0 (bs @ slack), set_vol (load_dir (vol s1) (of_nat p)) s1)"
    using call_read_file [OF ok1 src(1,2) src1, of "of_nat (length bs)" ?buf] u by auto
  define s2 where "s2 = set_vol (load_dir (vol s1) (of_nat p)) s1"
  have data: "overwrite ?buf 0 (bs @ slack) = bs @ slack" using slack(1) by (simp add: overwrite_def)
  have "2048 * ?k \<le> 2 ^ 32" using small(1) u by (simp add: clusters_for_def)
  then obtain f where f: "call_write (make_request tn te (of_nat q) (of_nat (length bs))) (bs @ slack) s2 = Some (0, set_vol f s2)"
    "vol_ok f D" "volume f q = (volume (vol s2) q)(key_for tn te \<mapsto> File bs)" "\<forall>d \<in> D - {q}. volume f d = volume (vol s2) d"
    using call_write_file [of s2 D q tn te bs "bs @ slack"] ok dst room clean small slack(1)
    by (auto simp: s2_def v1)
  have "copy_file g nm ex (of_nat p) tn te (of_nat q) (of_nat (length bs)) s1 = Some (set_vol f s2)"
    using slack(2) f(1) num_clusters_eq [OF small(1)]
    by (simp add: copy_file_def s2_def [symmetric] data)
  moreover have "clear_target tn te (of_nat q) s = Some s1"
    using clear_target_gone [OF ok dst] by (simp add: s1_def)
  ultimately have "copy g nm ex (of_nat p) tn te (of_nat q) s = Some ((set_vol f s2)\<lparr> copy_status := 0 \<rparr>)"
    using c by (subst copy.simps) (simp add: dir_at_call)
  moreover have "set_vol f s2 = set_vol f s" by (simp add: s2_def s1_def)
  ultimately show ?thesis using f(2-4) by (auto simp: s2_def v1)
qed

end
