(* ===== verification/ShellDigits.thy ===== *)
theory ShellDigits
  imports ShellFacts
begin

text \<open>
  \<open>puts_integer\<close>: the digits of a number, least significant first, the loop that reverses them, and
  the text that is printed.
\<close>

section \<open>The digits\<close>

function rev_digits :: "int \<Rightarrow> u8 list" where
  "rev_digits n = word_of_int (48 + n smod 10) # (if n sdiv 10 \<noteq> 0 then rev_digits (n sdiv 10) else [])"
  by pat_completeness auto
termination
proof (relation "measure (\<lambda>n. nat \<bar>n\<bar>)")
  fix n :: int
  assume "n sdiv 10 \<noteq> 0"
  then have "n \<noteq> 0" by (auto simp: signed_divide_int_def)
  moreover have "\<bar>n sdiv 10\<bar> = \<bar>n\<bar> div 10" by (simp add: signed_divide_int_def abs_mult sgn_if)
  ultimately show "(n sdiv 10, n) \<in> measure (\<lambda>n. nat \<bar>n\<bar>)" by simp
qed simp

declare rev_digits.simps [simp del]

lemma abs_sdiv: "\<bar>n sdiv 10\<bar> = \<bar>n :: int\<bar> div 10"
  by (simp add: signed_divide_int_def abs_mult sgn_if)

lemma length_rev_digits: "\<bar>n\<bar> < 10 ^ k \<Longrightarrow> 0 < k \<Longrightarrow> length (rev_digits n) \<le> k"
proof (induction n arbitrary: k rule: rev_digits.induct)
  case (1 n)
  show ?case
  proof (cases "n sdiv 10 = 0")
    case True
    then show ?thesis using 1(3) by (simp add: rev_digits.simps [of n])
  next
    case False
    then have "\<bar>n\<bar> div 10 \<noteq> 0" using abs_sdiv [of n] by linarith
    then have "10 \<le> \<bar>n\<bar>" by linarith
    then obtain j where k: "k = Suc j" "0 < j" using 1(2,3) by (cases k; cases "k = 1") auto
    have "\<bar>n sdiv 10\<bar> < 10 ^ j" using 1(2) unfolding abs_sdiv k(1) by (simp add: int_div_less_self div_less_iff_less_mult)
    then have "length (rev_digits (n sdiv 10)) \<le> j" using 1(1) [OF False] k(2) by blast
    then show ?thesis using False k(1) by (simp add: rev_digits.simps [of n])
  qed
qed

lemma digits_loop_eq:
  "i + length (rev_digits n) \<le> length buf \<Longrightarrow>
     digits_loop n i buf = Some (i + length (rev_digits n), overwrite buf i (rev_digits n))"
proof (induction n arbitrary: i buf rule: rev_digits.induct)
  case (1 n)
  let ?c = "word_of_int (48 + n smod 10)"
  have i: "i < length buf" using 1(2) by (simp add: rev_digits.simps [of n])
  show ?case
  proof (cases "n sdiv 10 = 0")
    case True
    then show ?thesis using i
      by (simp add: digits_loop.simps [of n] rev_digits.simps [of n] overwrite_def upd_conv_take_nth_drop)
  next
    case False
    then have r: "rev_digits n = ?c # rev_digits (n sdiv 10)" by (simp add: rev_digits.simps [of n])
    have "digits_loop n i buf = digits_loop (n sdiv 10) (i + 1) (buf[i := ?c])"
      using False i by (simp add: digits_loop.simps [of n])
    also have "\<dots> = Some (i + 1 + length (rev_digits (n sdiv 10)), overwrite (buf[i := ?c]) (i + 1) (rev_digits (n sdiv 10)))"
      using 1(2) unfolding r by (intro 1(1) [OF False]) simp
    finally show ?thesis using 1(2) unfolding r by (simp add: overwrite_step)
  qed
qed

section \<open>The reversal\<close>

lemma reverse_loop:
  assumes "n \<le> length buf"
  shows "for_range 0 (n div 2) (\<lambda>j buffer. do {
            temp \<leftarrow> arr_get buffer j;
            x \<leftarrow> arr_get buffer (n - j - 1);
            buffer \<leftarrow> arr_set buffer j x;
            arr_set buffer (n - j - 1) temp }) buf = Some (rev (take n buf) @ drop n buf)"
    (is "for_range 0 _ ?body buf = _")
proof -
  let ?I = "\<lambda>j b. length b = length buf \<and>
    (\<forall>k < length buf. b ! k = (if k < n \<and> (k < j \<or> n - j \<le> k) then buf ! (n - 1 - k) else buf ! k))"
  have "\<exists>b. for_range 0 (n div 2) ?body buf = Some b \<and> ?I (n div 2) b"
  proof (rule for_range_inv)
    fix j b assume j: "0 \<le> j" "j < n div 2" and I: "?I j b"
    have b: "j < length b" "n - j - 1 < length b" "b ! j = buf ! j" "b ! (n - j - 1) = buf ! (n - j - 1)"
      using j I assms by auto
    have "?body j b = Some (b[j := buf ! (n - j - 1), n - j - 1 := buf ! j])" using b by simp
    moreover have "?I (Suc j) (b[j := buf ! (n - j - 1), n - j - 1 := buf ! j])"
    proof (intro conjI allI impI)
      fix k assume k: "k < length buf"
      consider "k = j" | "k = n - j - 1" | "k \<noteq> j" "k \<noteq> n - j - 1" by blast
      then show "b[j := buf ! (n - j - 1), n - j - 1 := buf ! j] ! k =
          (if k < n \<and> (k < Suc j \<or> n - Suc j \<le> k) then buf ! (n - 1 - k) else buf ! k)"
      proof cases
        case 3
        then have "k < n \<and> (k < Suc j \<or> n - Suc j \<le> k) \<longleftrightarrow> k < n \<and> (k < j \<or> n - j \<le> k)" using j by linarith
        then show ?thesis using 3 I k by simp
      qed (use j b k in \<open>auto simp: nth_list_update\<close>)
    qed (use I in simp)
    ultimately show "\<exists>b'. ?body j b = Some b' \<and> ?I (Suc j) b'" by blast
  qed (use assms in auto)
  then obtain b where b: "for_range 0 (n div 2) ?body buf = Some b" "?I (n div 2) b" by blast
  have "b = rev (take n buf) @ drop n buf"
  proof (rule nth_equalityI)
    show l: "length b = length (rev (take n buf) @ drop n buf)" using b(2) assms by simp
    fix k assume "k < length b"
    then have k: "k < length buf" using b(2) by simp
    have "rev (take n buf) ! k = buf ! (n - 1 - k)" if "k < n" using that assms by (simp add: rev_nth min_def)
    moreover have "k < n \<Longrightarrow> k < n div 2 \<or> n - n div 2 \<le> k \<or> n - 1 - k = k" by linarith
    ultimately show "b ! k = (rev (take n buf) @ drop n buf) ! k"
      using b(2) k assms by (auto simp: nth_append min_def)
  qed
  with b(1) show ?thesis by simp
qed

section \<open>The text\<close>

definition number_text :: "int \<Rightarrow> u8 list" where
  "number_text n = rev (rev_digits n)"

lemma integer_text_eq:
  assumes "\<bar>n\<bar> < 10 ^ 19"
  shows "integer_text n = Some (number_text n @ 0 # replicate (19 - length (number_text n)) 0)"
proof -
  let ?d = "rev_digits n" and ?l = "length (rev_digits n)"
  have l: "?l \<le> 19" by (rule length_rev_digits [OF assms]) simp
  have "digits_loop n 0 (replicate 20 0) = Some (?l, ?d @ replicate (20 - ?l) 0)"
    using digits_loop_eq [of 0 n "replicate 20 0"] l by (simp add: overwrite_def)
  moreover have "replicate (20 - ?l) (0 :: u8) = 0 # replicate (19 - ?l) 0"
    using l by (simp add: Suc_diff_le flip: replicate_Suc)
  ultimately show ?thesis
    using reverse_loop [of ?l "?d @ 0 # replicate (19 - ?l) 0"] l
    by (simp add: integer_text_def number_text_def)
qed

lemma uint_digit: "0 \<le> m \<Longrightarrow> m < 256 \<Longrightarrow> uint (word_of_int m :: u8) = m"
  by (simp add: uint_word_of_int)

lemma rev_digits_nonzero: "0 \<notin> set (rev_digits n)"
proof (induction n rule: rev_digits.induct)
  case (1 n)
  have "- 9 \<le> n smod 10" "n smod 10 \<le> 9" using smod_int_range [of 10 n] by simp_all
  then have "39 \<le> 48 + n smod 10" "48 + n smod 10 < 256" by simp_all
  then have nz: "0 \<le> 48 + n smod 10" "48 + n smod 10 < 256" "48 + n smod 10 \<noteq> 0" by linarith+
  then have "uint (word_of_int (48 + n smod 10) :: u8) = 48 + n smod 10" by (intro uint_digit)
  then have "word_of_int (48 + n smod 10) \<noteq> (0 :: u8)" using nz(3) by (metis unsigned_0)
  then show ?case using 1 by (subst rev_digits.simps) auto
qed

lemma puts_integer_ok:
  assumes "screen_ok (screen s)" "\<bar>n\<bar> < 10 ^ 19"
  shows "\<exists>s'. puts_integer n s = Some s' \<and> printed s s'"
  using say_ok [OF assms(1), of "number_text n @ 0 # replicate (19 - length (number_text n)) 0" "0xF"]
  by (simp add: puts_integer_def integer_text_eq [OF assms(2)])

section \<open>The value\<close>

lemma rev_digits_value:
  assumes "0 \<le> n"
  shows "dec_value 0 (rev (rev_digits n)) = n \<and> (\<forall>c \<in> set (rev_digits n). is_digit c)"
  using assms
proof (induction n rule: rev_digits.induct)
  case (1 n)
  have d: "n sdiv 10 = n div 10" "n smod 10 = n mod 10"
    using 1(2) by (simp_all add: signed_divide_int_def signed_modulo_int_def sgn_if minus_div_mult_eq_mod)
  have u: "uint (word_of_int (48 + n mod 10) :: u8) = 48 + n mod 10"
    by (rule uint_digit) (simp_all add: pos_mod_bound [THEN less_trans])
  then have c: "is_digit (word_of_int (48 + n mod 10))" by (simp add: is_digit_def word_le_def)
  show ?case
  proof (cases "n div 10 = 0")
    case True
    then have "n mod 10 = n" by presburger
    then show ?thesis using True c u d by (simp add: rev_digits.simps [of n])
  next
    case False
    then show ?thesis using 1 c u d by (simp add: rev_digits.simps [of n])
  qed
qed

end
