(* ===== verification/ShellSteps.thy ===== *)
theory ShellSteps
  imports ShellVol ShellDigits
begin

text \<open>
  The lemmas behind the properties of the shell's commands: the operands of a command, paths, copies,
  and the state that the shell keeps between two commands.
\<close>

unbundle bit_operations_syntax

section \<open>Looking up a path\<close>

text \<open>A state that differs in the driver's directory buffer at most.\<close>

definition loaded :: "session \<Rightarrow> session \<Rightarrow> bool" where
  "loaded s s' = (s' = s \<or> (\<exists>d. s' = set_vol (load_dir (vol s) d) s))"

lemma load_load [simp]: "load_dir (load_dir f c) d = load_dir f d"
  by (simp add: load_dir_def)

lemma loaded_trans: "loaded s t \<Longrightarrow> loaded t u \<Longrightarrow> loaded s u"
  by (auto simp: loaded_def)

lemma loadedD:
  assumes "loaded s s'"
  shows "vol_ok (vol s') D = vol_ok (vol s) D" "volume (vol s') = volume (vol s)" "screen s' = screen s"
    "folder s' = folder s" "dir_at (vol s') = dir_at (vol s)" "slot (vol s') = slot (vol s)"
    "room_for (vol s') = room_for (vol s)" "slot_tainted (vol s') = slot_tainted (vol s)" "used (vol s') = used (vol s)" "copy_status s' = copy_status s"
  using assms by (auto simp: loaded_def fun_eq_iff)

lemma path_step_loaded:
  "path_step path False (dir, i, c, s) = Some (dir', i', c', s') \<Longrightarrow> loaded s s'"
  by (auto simp: path_step_def call_find_cluster_def findCluster_def Let_def bind_eq_Some_conv loaded_def split: if_splits)

lemma getLastCluster_loaded:
  assumes "getLastCluster g path False s = Some (c, s')"
  shows "loaded s s'"
proof -
  obtain n dir i dir' i' where
    "for_range 0 n (\<lambda>_. path_step path False) (dir, i, call_cluster s, s) = Some (dir', i', c, s')"
    using assms by (auto simp: getLastCluster_def bind_eq_Some_conv)
  then have "case (dir', i', c, s') of (_, _, _, s') \<Rightarrow> loaded s s'"
    by (rule for_range_invD [where I = "\<lambda>_ (_, _, _, s'). loaded s s'"])
      (auto simp: loaded_def [of s s] dest: path_step_loaded intro: loaded_trans)
  then show ?thesis by simp
qed

section \<open>The operands of cp and mv\<close>

text \<open>The line has three words, the second a file name that parses to \<open>nm\<close> and \<open>ex\<close>, and the path in
  the third leads to cluster \<open>c\<close> of the state \<open>s\<close>.\<close>

definition operands :: "locals \<Rightarrow> u8 list \<Rightarrow> session \<Rightarrow> u8 list \<Rightarrow> u8 list \<Rightarrow> int \<Rightarrow> bool" where
  "operands g cmd s nm ex c =
     (countWords cmd = Some 3 \<and>
      (\<exists>w path s1. word_into g cmd 1 12 = Some w \<and> terminated w \<and> parse_into g w = Some (0, nm, ex) \<and>
         word_into g cmd 2 100 = Some path \<and> getLastCluster g path False s = Some (c, s1)))"

text \<open>The shell is in folder \<open>p\<close> of a consistent volume, and its copy of the folder's table is up to
  date.\<close>

definition shell_in :: "session \<Rightarrow> nat set \<Rightarrow> nat \<Rightarrow> bool" where
  "shell_in s D p =
     (vol_ok (vol s) D \<and> p \<in> D \<and> screen_ok (screen s) \<and> call_cluster s = int p \<and> call_cwd s = dir_at (vol s) (of_nat p))"

lemma word_of_int_nat [simp]: "word_of_int (int n) = of_nat n"
  by simp

lemma findFileFolder_file:
  assumes "vol_ok f D" "p \<in> D" "call_cwd s = dir_at f (of_nat p)" "length nm = 9" "length ex = 4" "entry_name nm ex"
    and "volume f p (key_for nm ex) = Some (File bs)"
  shows "\<exists>i < 64. findFileFolder nm ex s = int i \<and> \<not> is_folder (slot f p i)"
proof -
  obtain i where i: "used f p i" "key_of (slot f p i) = key_for nm ex" "\<not> is_folder (slot f p i)"
    using file_entry [OF assms(1,2,6,7)] by metis
  let ?t = "dir_at f (of_nat p)"
  have m: "memcmp (name (?t ! j)) nm 8 = Some 0 \<and> memcmp (ext (?t ! j)) ex 3 = Some 0 \<longleftrightarrow> key_of (?t ! j) = key_for nm ex"
    if "j < 64" for j
  proof -
    have "wf_dirent (?t ! j)" using that wf_dir_at [of f "of_nat p"] wf_table_length [OF wf_dir_at, of f "of_nat p"]
      by (simp add: wf_table_def)
    then show ?thesis using assms(4,5) by (simp add: memcmp_take wf_dirent_def key_of_def key_for_def)
  qed
  have "scan (\<lambda>j. user_attribute (?t ! j) = UATTR_NOT_EMPTY \<and> memcmp (name (?t ! j)) nm 8 = Some 0 \<and>
      memcmp (ext (?t ! j)) ex 3 = Some 0) 2 64 = Some i"
  proof (rule scan_eqI)
    show "2 \<le> i" "i < 64" using i(1) by (simp_all add: used_def)
    then show "user_attribute (?t ! i) = UATTR_NOT_EMPTY \<and> memcmp (name (?t ! i)) nm 8 = Some 0 \<and> memcmp (ext (?t ! i)) ex 3 = Some 0"
      using m i(1,2) by (simp add: used_def in_use_def slot_def)
    fix j assume j: "2 \<le> j" "j < i"
    show "\<not> (user_attribute (?t ! j) = UATTR_NOT_EMPTY \<and> memcmp (name (?t ! j)) nm 8 = Some 0 \<and> memcmp (ext (?t ! j)) ex 3 = Some 0)"
      using tidy_inj [OF volD(5) [OF assms(1,2)], of j i] m [of j] j i(1,2)
      by (auto simp: used_def in_use_def slot_def)
  qed
  then show ?thesis using i(1,3) assms(3) by (auto simp: findFileFolder_def found_def used_def)
qed

lemma parse_into_length:
  assumes "parse_into g w = Some (0, nm, ex)" "terminated w"
  shows "length nm = 9" "length ex = 4"
  using assms(1) parseFileName_eq [OF assms(2), of "junk_array g 9" "junk_array g 4"]
  by (auto simp: parse_into_def split: if_splits)

text \<open>The part of \<open>cp\<close> and \<open>mv\<close> that is the same.\<close>

lemma operandsE:
  assumes "operands g cmd s nm ex c" "key_for nm ex \<noteq> zero_key"
  obtains w path s1 where "countWords cmd = Some 3" "word_into g cmd 1 12 = Some w" "terminated w"
    "parse_into g w = Some (0, nm, ex)" "word_into g cmd 2 100 = Some path" "getLastCluster g path False s = Some (c, s1)"
    "loaded s s1" "entry_name nm ex" "length nm = 9" "length ex = 4"
proof -
  obtain w path s1 where o: "countWords cmd = Some 3" "word_into g cmd 1 12 = Some w" "terminated w"
    "parse_into g w = Some (0, nm, ex)" "word_into g cmd 2 100 = Some path" "getLastCluster g path False s = Some (c, s1)"
    using assms(1) by (auto simp: operands_def)
  note l = parse_into_length [OF o(4,3)]
  have "entry_name nm ex" using l assms(2) by (simp add: entry_name_def)
  then show ?thesis using that o getLastCluster_loaded [OF o(6)] l by blast
qed

text \<open>The source as \<open>cp\<close> and \<open>mv\<close> find it, in every state in which the shell's folder is the same.\<close>

lemma source_here:
  assumes "shell_in s D p" "entry_name nm ex" "length nm = 9" "length ex = 4" "volume (vol s) p (key_for nm ex) = Some (File bs)"
  obtains i e where "\<And>s'. folder s' = folder s \<Longrightarrow> findFileFolder nm ex s' = int i" "arr_geti (call_cwd s) (int i) = Some e"
    "attribute e \<noteq> ATTR_SUBDIRECTORY"
proof -
  note here = assms(1) [unfolded shell_in_def]
  have "vol_ok (vol s) D" "p \<in> D" "call_cwd s = dir_at (vol s) (of_nat p)" using here by blast+
  then obtain i where i: "i < 64" "findFileFolder nm ex s = int i" "\<not> is_folder (slot (vol s) p i)"
    using findFileFolder_file assms(2-5) by blast
  have "findFileFolder nm ex s' = findFileFolder nm ex s" if "folder s' = folder s" for s'
    using that by (simp add: findFileFolder_def call_cwd_def)
  moreover have "arr_geti (call_cwd s) (int i) = Some (call_cwd s ! i)" "attribute (call_cwd s ! i) \<noteq> ATTR_SUBDIRECTORY"
    using i here wf_table_length [OF wf_dir_at, of "vol s" "of_nat p"] by (simp_all add: is_folder_def slot_def)
  ultimately show ?thesis using that i(2) by simp
qed

text \<open>The copy that \<open>cp\<close> and \<open>mv\<close> make after the look-up of the path.\<close>

lemma copied:
  assumes "shell_in s D p" "loaded s s1" "entry_name nm ex" "q \<in> D"
    and "volume (vol s) p (key_for nm ex) = Some (File bs)" "alone_by_four (vol s) p nm ex"
    and "volume (vol s) q (key_for nm ex) = None" "room_for (vol s) q (length bs)" "\<not> slot_tainted (vol s) q"
  obtains s2 where "copy g nm ex (of_nat p) nm ex (of_nat q) s1 = Some s2" "vol_ok (vol s2) D" "folder s2 = folder s"
    "screen_ok (screen s2)" "copy_status s2 = 0" "volume (vol s2) q = (volume (vol s) q)(key_for nm ex \<mapsto> File bs)"
    "\<forall>d \<in> D - {q}. volume (vol s2) d = volume (vol s) d"
proof -
  note here = assms(1) [unfolded shell_in_def] and l = loadedD [OF assms(2)]
  have ok: "vol_ok (vol s1) D" "p \<in> D" "alone_by_four (vol s1) p nm ex"
    using here assms(6) l by (simp_all add: alone_by_four_def)
  obtain f where f: "copy g nm ex (of_nat p) nm ex (of_nat q) s1 = Some ((set_vol f s1)\<lparr> copy_status := 0 \<rparr>)" "vol_ok f D"
    "volume f q = (volume (vol s) q)(key_for nm ex \<mapsto> File bs)" "\<forall>d \<in> D - {q}. volume f d = volume (vol s) d"
    using copy_file_ok [OF ok(1,2) assms(3) _ ok(3) assms(4,3), of bs g] assms(5,7-9) l by auto
  show ?thesis by (rule that [OF f(1)]) (use f(2-4) here l in simp_all)
qed

lemma say_after:
  assumes "screen_ok (screen s)" "terminated xs"
  shows "\<exists>s'. say xs c s = Some s' \<and> vol s' = vol s \<and> folder s' = folder s \<and> screen_ok (screen s') \<and> rest_same s s'"
  using say_ok [OF assms, of c] printedD by blast

section \<open>cp\<close>

text \<open>What a command on files leaves: the volume \<open>f\<close>, the shell where it was.\<close>

definition ends_with :: "session \<Rightarrow> session option \<Rightarrow> (fs \<Rightarrow> bool) \<Rightarrow> bool" where
  "ends_with s r P =
     (\<exists>s'. r = Some s' \<and> P (vol s') \<and> folder s' = folder s \<and> screen_ok (screen s'))"

lemma say_ends:
  assumes "screen_ok (screen s)" "folder s = folder s0" "terminated xs" "P (vol s)"
  shows "ends_with s0 (say xs c s) P"
  using say_after [OF assms(1,3), of c] assms(2,4) by (auto simp: ends_with_def)

lemma ends_with_mono: "ends_with s r P \<Longrightarrow> (\<And>f. P f \<Longrightarrow> Q f) \<Longrightarrow> ends_with s r Q"
  by (auto simp: ends_with_def)

section \<open>mv\<close>

text \<open>The end of \<open>mv\<close>: the source is removed, and success is reported.\<close>

lemma mv_ends:
  assumes "vol_ok (vol s) D" "p \<in> D" "entry_name nm ex" "volume (vol s) p (key_for nm ex) = Some (File bs)"
    and "screen_ok (screen s)" "folder s = folder s0" "copy_status s = 0"
    and "\<And>f. vol_ok f D \<Longrightarrow> volume f p = (volume (vol s) p)(key_for nm ex := None) \<Longrightarrow>
      \<forall>d \<in> D - {p}. volume f d = volume (vol s) d \<Longrightarrow> P f"
  shows "ends_with s0 (do { s \<leftarrow> remove_sh nm ex (of_nat p) s;
      if copy_status s = 0 then say (text_lines [''Move successful.'']) 7 s
      else say (text_lines [''Move failed: unable to verify copy.'']) 7 s }) P"
proof -
  obtain f where f: "remove_sh nm ex (of_nat p) s = Some (set_vol f s)" "vol_ok f D"
    "volume f p = (volume (vol s) p)(key_for nm ex := None)" "\<forall>d \<in> D - {p}. volume f d = volume (vol s) d"
    using remove_file [OF assms(1-4)] by blast
  then have "ends_with s0 (say (text_lines [''Move successful.'']) 7 (set_vol f s)) P"
    using assms(5,6,8) by (intro say_ends) simp_all
  then show ?thesis using f(1) assms(7) by simp
qed

text \<open>The copy of a file into cluster 9999, which is no folder, is refused; an error is printed.\<close>

lemma findCluster_dir:
  "attribute (dir_at f c ! 0) \<noteq> ATTR_SUBDIRECTORY \<Longrightarrow> write_fat (make_request nm ex c n) m f = Some (2, load_dir f c)"
  by (simp add: write_fat_def Let_def)

lemma copy_nowhere:
  assumes ok: "vol_ok (vol s) D" "screen_ok (screen s)" and src: "p \<in> D" "entry_name nm ex" "volume (vol s) p (key_for nm ex) = Some (File bs)"
    and alone: "alone_by_four (vol s) p nm ex"
    and none: "attribute (dir_at (vol s) c ! 0) \<noteq> ATTR_SUBDIRECTORY" "findEntry (dir_at (vol s) c) (take 8 nm) (take 3 ex) = - 9999"
  shows "\<exists>s'. copy g nm ex (of_nat p) nm ex c s = Some s' \<and> vol_ok (vol s') D \<and> volume (vol s') = volume (vol s) \<and>
    folder s' = folder s \<and> screen_ok (screen s') \<and> copy_status s' = 0"
proof -
  define s1 where "s1 = set_vol (load_dir (vol s) c) s"
  have ct: "clear_target nm ex c s = Some s1"
    using none(2) by (simp add: clear_target_def call_read_directory_def read_directory_def s1_def)
  have src1: "vol_ok (vol s1) D" "volume (vol s1) p (key_for nm ex) = Some (File bs)" using ok src(3) by (simp_all add: s1_def)
  note small = file_small [OF src1(1) src(1,2) src1(2)]
  have u: "unat (of_nat (length bs) :: u32) = length bs" using small(1) by (simp add: unat_of_nat_u32)
  obtain c' where c': "source_scan (dir_at (vol s1) (of_nat p)) nm ex None = (Some (of_nat (length bs), c'), False)"
    using source_scan_volume [OF ok(1) src alone] by (auto simp: s1_def)
  let ?k = "clusters_for (of_nat (length bs))"
  let ?buf = "junk_array g (2048 * ?k)"
  obtain slack where slack: "length (bs @ slack) = 2048 * ?k"
    "call_read (make_request nm ex (of_nat p) (of_nat (length bs))) ?buf s1 =
       Some (0, overwrite ?buf 0 (bs @ slack), set_vol (load_dir (vol s1) (of_nat p)) s1)"
    using call_read_file [OF src1(1) src(1,2) src1(2), of "of_nat (length bs)" ?buf] u by auto
  define s2 where "s2 = set_vol (load_dir (vol s1) (of_nat p)) s1"
  have data: "overwrite ?buf 0 (bs @ slack) = bs @ slack" using slack(1) by (simp add: overwrite_def)
  define s3 where "s3 = set_vol (load_dir (vol s2) c) s2"
  have w: "call_write (make_request nm ex c (of_nat (length bs))) (bs @ slack) s2 = Some (2, s3)"
    using findCluster_dir [of "vol s2" c] none(1) clusters_for_ceil [of "of_nat (length bs)"] slack(1)
    by (simp add: call_write_def s3_def s2_def s1_def)
  have scr3: "screen_ok (screen s3)" using ok(2) by (simp add: s3_def s2_def s1_def)
  obtain s4 where s4: "complain (cstr0 ''Error writing to file'') s3 = Some s4" "printed s3 s4"
    using complain_ok [OF scr3] by force
  obtain s5 where s5: "puts_integer 2 s4 = Some s5" "printed s4 s5"
    using puts_integer_ok [OF printedD(3) [OF s4(2)], of 2] by force
  have "copy_file g nm ex (of_nat p) nm ex c (of_nat (length bs)) s1 = Some s5"
    using slack(2) w s4(1) s5(1) num_clusters_eq [OF small(1)]
    by (simp add: copy_file_def s2_def [symmetric] data)
  then have run: "copy g nm ex (of_nat p) nm ex c s = Some (s5\<lparr> copy_status := 0 \<rparr>)"
    using ct c' by (subst copy.simps) (simp add: dir_at_call)
  note pr = printedD [OF printed_trans [OF s4(2) s5(2)]]
  have "vol_ok (vol s3) D" "volume (vol s3) = volume (vol s)" "folder s3 = folder s"
    using ok(1) by (simp_all add: s3_def s2_def s1_def)
  then show ?thesis using run pr by simp
qed

section \<open>rm and mkdir\<close>

text \<open>The line has two words, the second a file name that parses to \<open>nm\<close> and \<open>ex\<close>.\<close>

definition operand :: "locals \<Rightarrow> u8 list \<Rightarrow> u8 list \<Rightarrow> u8 list \<Rightarrow> bool" where
  "operand g cmd nm ex =
     (countWords cmd = Some 2 \<and> key_for nm ex \<noteq> zero_key \<and>
      (\<exists>w. word_into g cmd 1 12 = Some w \<and> terminated w \<and> parse_into g w = Some (0, nm, ex)))"

lemma operandE:
  assumes "operand g cmd nm ex"
  obtains w where "countWords cmd = Some 2" "word_into g cmd 1 12 = Some w" "terminated w"
    "parse_into g w = Some (0, nm, ex)" "entry_name nm ex" "length nm = 9" "length ex = 4"
proof -
  obtain w where o: "countWords cmd = Some 2" "key_for nm ex \<noteq> zero_key" "word_into g cmd 1 12 = Some w" "terminated w"
    "parse_into g w = Some (0, nm, ex)" using assms by (auto simp: operand_def)
  note l = parse_into_length [OF o(5,4)]
  have "entry_name nm ex" using l o(2) by (simp add: entry_name_def)
  then show ?thesis using that o l by blast
qed

text \<open>Reading the shell's folder again.\<close>

lemma refresh:
  "call_update c [0] True s =
     Some (set_folder ((folder s)\<lparr> cwd_table := dir_at (vol s) (word_of_int c), cur_cluster := c \<rparr>) s)"
proof -
  have "memcmp [0 :: u8] [0] 1 = Some 0" by (subst memcmp_eq_0) simp_all
  then show ?thesis by (simp add: call_update_def update_shell_dir_def dir_at_def)
qed

lemma shell_in_refresh:
  assumes "vol_ok (vol s) D" "p \<in> D" "screen_ok (screen s)"
  shows "\<exists>s'. call_update (int p) [0] True s = Some s' \<and> vol s' = vol s \<and> shell_in s' D p"
  using assms by (simp add: refresh shell_in_def call_cluster_def call_cwd_def get_shell_cluster_def get_cwd_table_def)

section \<open>cat\<close>

lemma findLast_file:
  assumes "vol_ok f D" "p \<in> D" "length nm = 9" "length ex = 4" "entry_name nm ex" "volume f p (key_for nm ex) = Some (File bs)"
  shows "\<exists>i < 64. findLast (dir_at f (of_nat p)) nm ex = int i \<and> filesize (dir_at f (of_nat p) ! i) = of_nat (length bs)"
proof -
  let ?t = "dir_at f (of_nat p)"
  obtain i where i: "used f p i" "key_of (slot f p i) = key_for nm ex" "filesize (slot f p i) = of_nat (length bs)"
    using file_entry [OF assms(1,2,5,6)] by metis
  define hit where "hit = (\<lambda>j. user_attribute (?t ! j) = UATTR_NOT_EMPTY \<and>
      memcmp (name (?t ! j)) nm 8 = Some 0 \<and> memcmp (ext (?t ! j)) ex 3 = Some 0)"
  have hit: "hit j \<longleftrightarrow> j = i" if "2 \<le> j" "j < 64" for j
  proof -
    have "wf_dirent (?t ! j)" using that wf_dir_at [of f "of_nat p"] wf_table_length [OF wf_dir_at, of f "of_nat p"]
      by (simp add: wf_table_def)
    then have "hit j \<longleftrightarrow> in_use (?t ! j) \<and> key_of (?t ! j) = key_for nm ex"
      using assms(3,4) by (auto simp: hit_def memcmp_take wf_dirent_def key_of_def key_for_def in_use_def)
    then show ?thesis
      using tidy_inj [OF volD(5) [OF assms(1,2)], of j i] i(1,2) that by (auto simp: used_def slot_def)
  qed
  have "fold (\<lambda>j idx. if hit j then int j else idx) xs idx = (if i \<in> set xs then int i else idx)"
    if "\<forall>j \<in> set xs. 2 \<le> j \<and> j < 64" for xs idx
    using that by (induction xs arbitrary: idx) (auto simp: hit)
  moreover have "\<forall>j \<in> set [2..<64]. 2 \<le> j \<and> j < 64" by (simp only: set_upt atLeastLessThan_iff) simp
  moreover have "i \<in> set [2..<64]" using i(1) by (simp only: set_upt atLeastLessThan_iff used_def)
  ultimately have "fold (\<lambda>j idx. if hit j then int j else idx) [2..<64] (- 9999) = int i" by metis
  then have "findLast ?t nm ex = int i" by (simp only: findLast_def hit_def)
  then show ?thesis using i(1,3) by (auto simp: used_def slot_def)
qed

section \<open>cd\<close>

lemma getDir_loop_eq:
  assumes "\<forall>j < n. path ! (i + j) \<noteq> d \<and> path ! (i + j) \<noteq> 0" "path ! (i + n) = d \<or> path ! (i + n) = 0"
    and "i + n < length path" "l + n \<le> length res"
  shows "getDir_loop path d i l res = Some (i + n, l + n, overwrite res l (take n (drop i path)))"
  using assms
proof (induction n arbitrary: i l res)
  case 0
  then show ?case by (auto simp: getDir_loop.simps [of path d i])
next
  case (Suc n)
  have c: "path ! i \<noteq> d" "path ! i \<noteq> 0" using Suc.prems(1) by auto
  have "getDir_loop path d i l res = getDir_loop path d (Suc i) (Suc l) (res[l := path ! i])"
    using c Suc.prems(3,4) by (simp add: getDir_loop.simps [of path d i])
  also have "\<dots> = Some (Suc i + n, Suc l + n, overwrite (res[l := path ! i]) (Suc l) (take n (drop (Suc i) path)))"
    using Suc.prems by (intro Suc.IH) auto
  also have "overwrite (res[l := path ! i]) (Suc l) (take n (drop (Suc i) path)) = overwrite res l (take (Suc n) (drop i path))"
  proof -
    have "drop i path = path ! i # drop (Suc i) path" using Suc.prems(3) by (simp add: Cons_nth_drop_Suc)
    then show ?thesis using Suc.prems(3,4) by (simp add: overwrite_step)
  qed
  finally show ?case by simp
qed

lemma fill_zeros:
  assumes "l \<le> 8" "length res = 8"
  shows "for_range l 8 (\<lambda>j res. arr_set res j 0) res = Some (take l res @ replicate (8 - l) 0)"
proof -
  have "\<exists>r. for_range l 8 (\<lambda>j res. arr_set res j 0) res = Some r \<and> r = take l res @ replicate (8 - l) 0 @ drop 8 res"
  proof (rule for_range_inv [where I = "\<lambda>k r. r = take l res @ replicate (k - l) 0 @ drop k res"])
    fix i r assume i: "l \<le> i" "i < 8" and r: "r = take l res @ replicate (i - l) 0 @ drop i res"
    then have "drop i res = res ! i # drop (Suc i) res" using assms by (simp add: Cons_nth_drop_Suc)
    then show "\<exists>r'. arr_set r i 0 = Some r' \<and> r' = take l res @ replicate (Suc i - l) 0 @ drop (Suc i) res"
      using i r assms by (simp add: list_update_append Suc_diff_le replicate_append_same)
  qed (use assms in auto)
  then show ?thesis using assms by simp
qed

text \<open>A path of one component.\<close>

lemma getDir_one:
  assumes "0 \<notin> set w" "47 \<notin> set w" "length w \<le> 8" "length res = 8"
  shows "getDir (w @ 0 # z) res 47 0 = Some (pad 8 w, length w + 1)"
proof -
  have "\<forall>j < length w. w ! j \<noteq> 47 \<and> w ! j \<noteq> 0" using assms(1,2) nth_mem by fastforce
  then have "getDir_loop (w @ 0 # z) 47 0 0 res = Some (length w, length w, overwrite res 0 w)"
    using getDir_loop_eq [of "length w" "w @ 0 # z" 0 47 0 res] assms(3,4) by (simp add: nth_append)
  then show ?thesis
    using fill_zeros [of "length w" "overwrite res 0 w"] assms(3,4) by (simp add: getDir_def overwrite_def pad_def max_def)
qed

lemma getDir_end:
  assumes "path ! i = 0" "i < length path" "length res = 8"
  shows "getDir path res 47 i = Some (replicate 8 0, i + 1)"
  using getDir_loop_eq [of 0 path i 47 0 res] fill_zeros [of 0 res] assms by (simp add: getDir_def)

lemma countPath_one:
  assumes "0 \<notin> set w" "47 \<notin> set w"
  shows "countPath (w @ 0 # z) = Some 1"
proof -
  have "countPath_loop (w @ 0 # z) i 0 = Some 0" if "i \<le> length w" for i
    using that
  proof (induction "length w - i" arbitrary: i)
    case 0
    then show ?case by (simp add: countPath_loop.simps [of _ i] nth_append)
  next
    case (Suc d)
    then have i: "i < length w" by simp
    then have "w ! i \<noteq> 47" "w ! i \<noteq> 0" using assms nth_mem by metis+
    then have "countPath_loop (w @ 0 # z) i 0 = countPath_loop (w @ 0 # z) (i + 1) 0"
      using i by (simp add: countPath_loop.simps [of _ i] nth_append)
    then show ?case using Suc.hyps(1) [of "i + 1"] Suc.hyps(2) i by simp
  qed
  from this [of 0] show ?thesis by (simp add: countPath_def)
qed

lemma addPath_fields: "addPath nm sh = Some sh' \<Longrightarrow> cwd_table sh' = cwd_table sh \<and> cur_cluster sh' = cur_cluster sh"
  by (auto simp: addPath_def bind_eq_Some_conv)

lemma removePath_fields: "removePath sh = Some sh' \<Longrightarrow> cwd_table sh' = cwd_table sh \<and> cur_cluster sh' = cur_cluster sh"
  by (auto simp: removePath_def Let_def bind_eq_Some_conv)

lemma removePath_cwd:
  "removePath (sh\<lparr> cwd_table := t, cur_cluster := c \<rparr>) = map_option (\<lambda>sh. sh\<lparr> cwd_table := t, cur_cluster := c \<rparr>) (removePath sh)"
  by (simp add: removePath_def Let_def bind_map_option map_option_bind case_prod_unfold comp_def split: bind_split)

lemma cd_path:
  assumes "length (cur_dir sh) = 100" "sh_idx sh = int k" "0 < k" "cur_dir sh ! (k - 1) = 47"
    and "0 \<notin> set nm" "47 \<notin> set nm" "k + length nm < 100"
  shows "\<exists>sh1 sh2. addPath (nm @ 0 # rest) sh = Some sh1 \<and>
    take (k + length nm + 1) (cur_dir sh1) = take k (cur_dir sh) @ nm @ [47] \<and>
    removePath (sh1\<lparr> cwd_table := t, cur_cluster := c \<rparr>) = Some sh2 \<and> sh_idx sh2 = int k \<and>
    take k (cur_dir sh2) = take k (cur_dir sh)"
  using path_round_trip [OF assms, of rest] assms(2) by (auto simp: removePath_cwd)

lemma getLastCluster_one:
  assumes "0 \<notin> set w" "47 \<notin> set w" "length w \<le> 8" "z \<noteq> []" "hd z = 0"
  shows "getLastCluster g (w @ 0 # z) False s =
    (let (c, s) = call_find_cluster (make_request (pad 8 w) [0, 0, 0] (word_of_int (call_cluster s)) 0) s in Some (c, s))"
proof -
  have "getDir (w @ 0 # z) (junk_array g 8) 47 0 = Some (pad 8 w, length w + 1)" "countPath (w @ 0 # z) = Some 1"
    using getDir_one [OF assms(1-3), of "junk_array g 8" z] countPath_one [OF assms(1,2), of z] by simp_all
  moreover have "getDir (w @ 0 # z) (pad 8 w) 47 (length w + 1) = Some (replicate 8 0, length w + 2)"
    using getDir_end [of "w @ 0 # z" "length w + 1" "pad 8 w"] assms(3-5) by (cases z) (simp_all add: nth_append)
  ultimately show ?thesis
    by (simp add: getLastCluster_def for_range_step path_step_def case_prod_unfold Let_def)
qed

text \<open>The cluster of a folder in the shell's folder.\<close>

lemma find_folder:
  assumes "vol_ok f D" "p \<in> D" "entry_name nm ex" "volume f p (key_for nm ex) = Some (Folder c)"
  shows "findCluster (make_request nm ex (of_nat p) n) f = (sint c, load_dir f (of_nat p)) \<and> unat c \<in> D - {2}"
proof -
  note r = make_request_ok [OF assms(3), of "of_nat p" n]
  obtain i where i: "findEntry (dir_at f (of_nat p)) (take 8 nm) (take 3 ex) = int i"
    using findEntry_cases [of "dir_at f (of_nat p)" "take 8 nm" "take 3 ex"] find_none [OF assms(1,2) _ r(1,3)] assms(4) r(2) by force
  then have u: "used f p i" "volume f p (key_for nm ex) = Some (content f (slot f p i))"
    using find_slot [OF assms(1,2) _ r(1,3), of i] r(2) by simp_all
  then have fo: "is_folder (slot f p i)" "entry_cluster (slot f p i) = c"
    using assms(4) by (auto simp: content_def is_folder_def split: if_splits)
  have "unat c \<in> D - {2}" using volD(7) [OF assms(1,2) u(1)] fo by (simp add: entry_ok_def clus_def)
  then show ?thesis using i fo(2) by (simp add: findCluster_def slot_def)
qed

lemma sint_of_cluster: "n < 512 \<Longrightarrow> sint (of_nat n :: u32) = int n"
  by (simp add: signed_of_nat signed_take_bit_int_eq_self)

text \<open>Into a folder, given by its name, and back to the parent.\<close>

lemma cd_down:
  assumes "shell_in s D p" "countWords cmd = Some 2" "getWord cmd 1 (replicate 100 0) = Some (w @ replicate (100 - length w) 0)"
    and w: "w \<noteq> []" "length w \<le> 7" "0 \<notin> set w" "47 \<notin> set w" "w \<noteq> [46, 46]"
    and c: "volume (vol s) p (pad 8 w, replicate 3 0) = Some (Folder (of_nat c))" "c < 512"
    and sh1: "addPath (pad 8 w) ((folder s)\<lparr> cwd_table := dir_at (vol s) (of_nat c), cur_cluster := int c \<rparr>) = Some sh1"
  shows "\<exists>s1. cd g cmd s = Some s1 \<and> shell_in s1 D c \<and> folder s1 = sh1 \<and> dir_at (vol s1) = dir_at (vol s) \<and> c \<noteq> 2 \<and>
    vol_ok (vol s1) D"
proof -
  note here = assms(1) [unfolded shell_in_def]
  have ok: "vol_ok (vol s) D" "p \<in> D" using here by blast+
  define path where "path = w @ 0 # replicate (99 - length w) (0 :: u8)"
  have "replicate (100 - length w) 0 = 0 # replicate (99 - length w) (0 :: u8)"
    using w(2) by (simp add: Suc_diff_le flip: replicate_Suc)
  then have path: "getWord cmd 1 (replicate 100 0) = Some path" "terminated path" "c_text path = w" "length path = 100"
    "path ! (length w + 1) = 0"
    using assms(3) w(2,3) by (simp_all add: path_def nth_append)
  have h: "hd w \<noteq> 0" using w(1,3) by (cases w) auto
  have en: "entry_name (pad 8 w) [0, 0, 0]" "key_for (pad 8 w) [0, 0, 0] = (pad 8 w, replicate 3 0)"
    using h w(1,2) by (cases w; simp add: entry_name_def key_for_def zero_key_def pad_def numeral_eq_Suc)+
  have fc: "findCluster (make_request (pad 8 w) [0, 0, 0] (of_nat p) 0) (vol s) = (int c, load_dir (vol s) (of_nat p))" "c \<in> D - {2}"
    using find_folder [OF ok en(1), of "of_nat c" 0] c by (simp_all add: en(2) sint_of_cluster unat_of_nat_u32)
  define s0 where "s0 = set_vol (load_dir (vol s) (of_nat p)) s"
  have "memcmp (pad 8 w) [0] 1 \<noteq> Some 0" "\<exists>r. memcmp (pad 8 w) [0] 1 = Some r"
    using h w(1,2) memcmp_take [of 1 "pad 8 w" "[0]"] memcmp_total [of 1 "pad 8 w" "[0]"] by (cases w; simp add: pad_def)+
  then have up1: "call_update (int c) (pad 8 w) True s0 = Some (set_folder sh1 s0)"
    using sh1 by (auto simp: call_update_def update_shell_dir_def s0_def dir_at_def)
  have "getDir path (pad 8 w) 47 (length w + 1) = Some (replicate 8 0, length w + 2)"
    using getDir_end [OF path(5), of "pad 8 w"] w(2) path(4) by simp
  then have "path_step path True (pad 8 w, length w + 1, int p, s) = Some (replicate 8 0, length w + 2, int c, set_folder sh1 s0)"
    using fc(1) up1 c(2) by (simp add: path_step_def call_find_cluster_def s0_def)
  moreover have "getDir path (junk_array g 8) 47 0 = Some (pad 8 w, length w + 1)" "countPath path = Some 1"
    using getDir_one [of w "junk_array g 8"] countPath_one [of w] w(2-4) by (simp_all add: path_def)
  ultimately have last: "getLastCluster g path True s = Some (int c, set_folder sh1 s0)"
    using here by (simp add: getLastCluster_def for_range_step)
  have dd: "c_text (cstr0 ''..'') = [46, 46]" "c_text [0 :: u8] = []" by (simp_all add: c_text_def cstr0_def cstr_def)
  have "strcmp path [0] = Some 0" "strcmp path (cstr0 ''..'') = Some 0"
    using w(1,2,5) path(2,3) strcmp_eq [of path "[0]"] strcmp_eq [of path "cstr0 ''..''"] by (simp_all add: dd)
  then have "cd g cmd s = Some (set_folder sh1 s0)"
    using assms(2) c(2) path(1) last by (simp add: cd_def)
  then show ?thesis
    using here fc(2) addPath_fields [OF sh1]
    by (simp add: shell_in_def s0_def call_cluster_def call_cwd_def get_shell_cluster_def get_cwd_table_def fun_eq_iff)
qed

lemma cd_up:
  assumes "countWords up = Some 2" "getWord up 1 (replicate 100 0) = Some (cstr ''..'' @ replicate 98 0)"
    and "call_cluster s \<noteq> 2" "call_parent s = int p" "vol_ok (vol s) D" "p \<in> D" "screen_ok (screen s)"
    and "removePath ((folder s)\<lparr> cwd_table := dir_at (vol s) (of_nat p), cur_cluster := int p \<rparr>) = Some sh2"
  shows "\<exists>s2. cd g up s = Some s2 \<and> shell_in s2 D p \<and> folder s2 = sh2"
proof -
  let ?u = "cstr ''..'' @ replicate 98 0"
  have "?u = [46, 46] @ 0 # replicate 97 0" using replicate_Suc [of 97 "0 :: u8"] by (simp add: cstr_def)
  then have u: "c_text ?u = [46, 46]" "terminated ?u"
    using c_text_terminated [of "[46, 46]" "replicate 97 0"] terminated_append [of "[46, 46]" "replicate 97 0"] by simp_all
  have dd: "c_text (cstr0 ''..'') = [46, 46]" "c_text [0 :: u8] = []" by (simp_all add: c_text_def cstr0_def cstr_def)
  have "strcmp ?u [0] = Some 0" "strcmp ?u (cstr0 ''..'') = Some 1"
    using u strcmp_eq [of ?u "[0]"] strcmp_eq [of ?u "cstr0 ''..''"] by (simp_all add: dd)
  moreover have "call_update (int p) [0] False s = Some (set_folder sh2 s)"
    using assms(8) by (simp add: call_update_def update_shell_dir_def dir_at_def)
  ultimately have "cd g up s = Some (set_folder sh2 s)"
    using assms(1-4) by (simp add: cd_def)
  then show ?thesis
    using assms(5-7) removePath_fields [OF assms(8)]
    by (simp add: shell_in_def call_cluster_def call_cwd_def get_shell_cluster_def get_cwd_table_def)
qed

end
