(* ===== verification/ShellHome.thy ===== *)
theory ShellHome
  imports ShellSteps SystemProps
begin

text \<open>
  A session to run the commands on: a formatted disk with the file \<open>a.txt\<close> and the folder \<open>docs\<close> in
  the root, made by two calls of \<open>write\<close>, and the shell in the root.  The theorems about the shell's
  commands are applied to it.
\<close>

unbundle bit_operations_syntax

section \<open>The volume\<close>

text \<open>Cluster 9999 is outside of what the calls write.\<close>

lemma far_ok: "cluster_ok 9999" "c < 512 \<Longrightarrow> (of_nat c :: u32) \<noteq> 9999" "c < 512 \<Longrightarrow> cluster_ok (of_nat c)"
proof -
  show "cluster_ok 9999" by (simp add: cluster_ok_def)
  assume "c < 512"
  then have u: "unat (of_nat c :: u32) = c" by (intro unat_of_nat_u32) simp
  show "(of_nat c :: u32) \<noteq> 9999"
  proof
    assume "(of_nat c :: u32) = 9999"
    then have "unat (of_nat c :: u32) = 9999" by simp
    with u \<open>c < 512\<close> show False by simp
  qed
  show "cluster_ok (of_nat c)" using u \<open>c < 512\<close> by (simp add: cluster_ok_def)
qed

lemma far_writes:
  assumes "\<forall>(c, b) \<in> set ws. (\<exists>k < 512. c = of_nat k) \<and> length b = 2048"
  shows "read_clusters (img.wr_all ws im) 9999 1 = read_clusters im 9999 1"
proof (rule img.rd_wr_all_other)
  show "img.ok_writes ws" using assms far_ok(3) by (auto simp: img.ok_writes_def)
  show "9999 \<notin> fst ` set ws" using assms far_ok(2) by fastforce
qed (rule far_ok)

lemma far_file:
  assumes ok: "vol_ok s D" and p: "p \<in> D" "parent_cluster_number r = of_nat p" and r: "wf_request r" "request_key r \<noteq> zero_key"
    and cw: "can_write r s i c" and "buffer_size r \<noteq> 0" "write_fat r m s = Some (0, s')"
  shows "dir_at s' 9999 = dir_at s 9999"
proof -
  let ?t = "(parent_dir s r)[i := new_entry (parent_dir s r ! i) r c]"
  let ?cs = "take (clusters_for (buffer_size r)) (free_clusters (cluster_map s))"
  have "wf_table ?t" by (intro wf_table_update wf_dir_at wf_new_entry r)
  moreover have "\<forall>x \<in> set ?cs. x < 512" using free_clusters_set [of "cluster_map s"] by (auto dest: in_set_takeD)
  then have "\<forall>(x, b) \<in> set (zip (map (of_nat :: nat \<Rightarrow> u32) ?cs) (map (data_at m (r_buf r)) ns)). \<exists>k < 512. x = of_nat k" for ns
    by (fastforce dest!: set_zip_leftD)
  moreover have "\<forall>(x, b) \<in> set (zip (xs :: u32 list) (map (data_at m (r_buf r)) ns)). length b = 2048" for xs ns
    by (auto dest!: set_zip_rightD)
  moreover have "length (link (cluster_map s) ?cs) = 512" using fat_ok_length [OF volD(1) [OF ok]] by simp
  moreover have "p < 512" using vol_folder [OF ok p(1)] by simp
  moreover have "\<exists>k < 512. (1 :: u32) = of_nat k" by (intro exI [of _ 1]) simp
  ultimately have "read_clusters (img.wr_all (file_writes r m ?t (link (cluster_map s) ?cs) ?cs) (image s)) 9999 1 = read_clusters (image s) 9999 1"
    using p(2) by (intro far_writes) (fastforce simp: file_writes_def)
  moreover have "image s' = img.wr_all (file_writes r m ?t (link (cluster_map s) ?cs) ?cs) (image s)"
    using write_file_eq [OF r(1) volD(1) [OF ok] cw assms(7), of m] assms(8) write_file_run [OF ok p r cw assms(7,8)] by auto
  ultimately show ?thesis by (simp add: dir_at_def)
qed

lemma far_folder:
  assumes ok: "vol_ok s D" and p: "p \<in> D" "parent_cluster_number r = of_nat p" and r: "wf_request r" "request_key r \<noteq> zero_key"
    and cw: "can_write r s i c" and "buffer_size r = 0" "write_fat r m s = Some (0, s')"
  shows "dir_at s' 9999 = dir_at s 9999"
proof -
  let ?t = "(parent_dir s r)[i := new_entry (parent_dir s r ! i) r c]"
  have "wf_table ?t" by (intro wf_table_update wf_dir_at wf_new_entry r)
  moreover have "c < 512" using can_writeD(2) [OF cw] free_clusters_set [of "cluster_map s"] by auto
  moreover have "length (r_name r) = 8" using r(1) by (simp add: wf_request_def)
  moreover have "length (cluster_map s) = 512" using fat_ok_length [OF volD(1) [OF ok]] .
  moreover have "p < 512" using vol_folder [OF ok p(1)] by simp
  moreover have "\<exists>k < 512. (1 :: u32) = of_nat k" by (intro exI [of _ 1]) simp
  ultimately have "read_clusters (img.wr_all (folder_writes r ?t ((cluster_map s)[c := EOF]) c) (image s)) 9999 1 = read_clusters (image s) 9999 1"
    using p(2) by (intro far_writes) (auto simp: folder_writes_def wf_new_dir)
  moreover have "image s' = img.wr_all (folder_writes r ?t ((cluster_map s)[c := EOF]) c) (image s)"
    using write_folder_eq [OF r(1) volD(1) [OF ok] cw assms(7), of m] assms(8) by simp
  ultimately show ?thesis by (simp add: dir_at_def)
qed

lemma far_fs0: "dir_at fs0 9999 = zero_table"
proof -
  have w: "\<forall>(c, b) \<in> set (word_writes [(1, encode_fat empty_fat), (2, encode_table root_dir)]). (\<exists>k < 512. c = of_nat k) \<and> length b = 2048"
    using fat_ok_length [OF empty_fat_ok] tidy_wf [OF conjunct1 [OF tidy_root_dir]]
    by (auto simp: word_writes_def intro: exI [of _ 1] exI [of _ 2])
  have "read_clusters (image fs0) 9999 1 = read_clusters (write_blocks (image blank) fs_signature 0 1) 9999 1"
    using far_writes [OF w] by (simp add: fs0_def formatted_def)
  also have "\<dots> = replicate 2048 0"
  proof (rule nth_equalityI)
    fix k assume "k < length (read_clusters (write_blocks (image blank) fs_signature 0 1) 9999 1)"
    then have k: "k < 2048" by simp
    have "unat (20477952 + of_nat k :: u32) = 20477952 + k" using k by (simp add: unat_add_u32 unat_of_nat_u32)
    then show "read_clusters (write_blocks (image blank) fs_signature 0 1) 9999 1 ! k = replicate 2048 0 ! k"
      using k by (simp add: read_clusters_load write_blocks_store mem_store_other blank_def)
  qed simp
  finally have "dir_at fs0 9999 = map (\<lambda>i. decode_dirent (chunk 32 (replicate 2048 0) i)) [0..<64]"
    by (simp add: dir_at_def decode_table_def)
  also have "\<dots> = zero_table"
  proof (rule nth_equalityI)
    fix i assume "i < length (map (\<lambda>i. decode_dirent (chunk 32 (replicate 2048 0) i)) [0..<64])"
    then have "i < 64" by simp
    moreover from this have "min 32 (2048 - 32 * i) = 32" by simp
    ultimately show "map (\<lambda>i. decode_dirent (chunk 32 (replicate 2048 0) i)) [0..<64] ! i = zero_table ! i"
      by (simp add: chunk_def zero_table_def zero_dirent_def)
  qed (simp add: zero_table_def)
  finally show ?thesis .
qed

text \<open>The two entries.\<close>

definition file_nm :: "u8 list" where "file_nm = 97 # replicate 8 0"
definition file_ex :: "u8 list" where "file_ex = cstr ''txt'' @ [0]"
definition docs_nm :: "u8 list" where "docs_nm = cstr ''docs'' @ replicate 5 0"
definition docs_ex :: "u8 list" where "docs_ex = replicate 4 0"

definition work_nm :: "u8 list" where "work_nm = cstr ''work'' @ replicate 5 0"

lemma home_names:
  "entry_name file_nm file_ex" "entry_name docs_nm docs_ex" "key_for file_nm file_ex \<noteq> key_for docs_nm docs_ex"
  "length file_nm = 9" "length file_ex = 4" "length docs_nm = 9" "length docs_ex = 4"
  "entry_name work_nm docs_ex" "key_for work_nm docs_ex \<noteq> key_for file_nm file_ex" "key_for work_nm docs_ex \<noteq> key_for docs_nm docs_ex"
  "key_for docs_nm docs_ex = (pad 8 (cstr ''docs''), replicate 3 0)"
  by code_simp+

lemma fs0_root: "dir_at fs0 2 = root_dir"
proof -
  have good: "good_writes [(1, encode_fat empty_fat), (2, encode_table root_dir)]"
    using fat_ok_length [OF empty_fat_ok] tidy_wf [OF conjunct1 [OF tidy_root_dir]] by simp
  have "cluster_at fs0 2 = encode_table root_dir"
    by (rule writes_at(1) [OF good, where s = "blank\<lparr> image := write_blocks (image blank) fs_signature 0 1 \<rparr>"])
      (simp_all add: fs0_def formatted_def)
  then show ?thesis using dir_at_cluster [of fs0 2] tidy_wf [OF conjunct1 [OF tidy_root_dir]] by simp
qed

lemma root_dir_names:
  assumes "k < 64"
  shows "name (root_dir ! k) ! 0 \<noteq> 97" "length (name (root_dir ! k)) = 8"
proof -
  consider "k = 0" | "k = 1" | "2 \<le> k" by linarith
  then show "name (root_dir ! k) ! 0 \<noteq> 97"
    using assms by cases (simp_all add: root_dir_def new_dir_nth zero_dirent_fields, simp_all add: new_dir_def root_name_def cstr_def)
  show "length (name (root_dir ! k)) = 8"
    using tidy_wf [OF conjunct1 [OF tidy_root_dir]] assms by (simp add: wf_table_def wf_dirent_def)
qed

lemma free_after_link:
  assumes "length fat = 512"
  shows "length (free_clusters fat) \<le> length (free_clusters (link fat cs)) + length cs"
proof -
  have "set (free_clusters fat) \<subseteq> set (free_clusters (link fat cs)) \<union> set cs"
    by (auto simp: free_clusters_set link_other)
  then have "card (set (free_clusters fat)) \<le> card (set (free_clusters (link fat cs)) \<union> set cs)" by (intro card_mono) simp_all
  also have "\<dots> \<le> card (set (free_clusters (link fat cs))) + card (set cs)" by (rule card_Un_le)
  finally show ?thesis using card_length [of cs] by (simp add: distinct_card)
qed

text \<open>A consistent volume with the file and the empty folder \<open>c\<close>.\<close>

definition home_vol :: "fs \<Rightarrow> nat \<Rightarrow> u8 list \<Rightarrow> bool" where
  "home_vol f c bs =
     (vol_ok f {2, c} \<and> c \<noteq> 2 \<and> c < 512 \<and> length bs = 3000 \<and>
      volume f 2 = [key_for file_nm file_ex \<mapsto> File bs, key_for docs_nm docs_ex \<mapsto> Folder (of_nat c)] \<and>
      volume f c = Map.empty \<and> alone_by_four f 2 file_nm file_ex \<and> room_for f c 3000 \<and> \<not> slot_tainted f c \<and> has_room f 2 \<and>
      entry_cluster (dir_at f (of_nat c) ! 1) = 2 \<and> dir_at f 9999 = zero_table)"

lemma home_ex: "\<exists>f c bs. home_vol f c bs"
proof -
  let ?r = "make_request file_nm file_ex (of_nat 2) 3000" and ?q = "make_request docs_nm docs_ex (of_nat 2) 0"
  note r = make_request_ok [OF home_names(1), of "of_nat 2" 3000] and q = make_request_ok [OF home_names(2), of "of_nat 2" 0]
  have "clusters_for 3000 = 2" by (simp add: clusters_for_def)
  then have fits: "clusters_for (buffer_size ?r) \<le> length (free_clusters (cluster_map fs0))"
    by (simp add: fs0_map free_empty_fat)
  obtain i c1 where cw: "can_write ?r fs0 i c1" using can_write_fs0 [OF r(1,3)] by auto
  note w = can_write_facts [OF fs0_ok(1) _ _ r(1,3) cw, of 2]
  have "\<not> is_folder (slot fs0 2 i)" using fs0_clean tainted_slot [OF cw, of 2] by simp
  then obtain f1 cs where f1: "write_fat ?r some_memory fs0 = Some (0, f1)"
    "adds fs0 f1 {2} {2} 2 i (new_entry (slot fs0 2 i) ?r c1) cs"
    using write_file_adds [OF fs0_ok(1) _ _ r(1,3) cw, of 2 some_memory] fits by auto
  define bs where "bs = mem_load some_memory 0 3000"
  have v1: "vol_ok f1 {2}" "volume f1 2 = [key_for file_nm file_ex \<mapsto> File bs]"
    using write_file_step [OF fs0_ok(1) _ _ r(1,3) _ fs0_clean f1(1)] fs0_ok(2) r(2) by (simp_all add: bs_def)
  note a1 = addsD [OF f1(2)]
  have len1: "length cs = 2"
    using a1(16) \<open>clusters_for 3000 = 2\<close> \<open>\<not> is_folder (slot fs0 2 i)\<close> by (simp add: is_folder_def new_entry_def)
  have free1: "507 \<le> length (free_clusters (cluster_map f1))"
    using free_after_link [of "cluster_map fs0" cs] fat_ok_length [OF volD(1) [OF fs0_ok(1)]] a1(10) len1
    by (simp add: fs0_map free_empty_fat)
  then have ne1: "free_clusters (cluster_map f1) \<noteq> []" by auto
  have s1: "slot f1 2 j = (if j = i then new_entry (slot fs0 2 i) ?r c1 else slot fs0 2 j)" for j
    using a1(3,12) wf_table_length [OF wf_dir_at, of fs0 "of_nat 2"] by (simp add: slot_def nth_list_update)
  have room1: "\<exists>j. 2 \<le> j \<and> j < 64 \<and> \<not> used f1 2 j"
    using fs0_unused s1 by (intro exI [of _ "if i = 2 then 3 else 2"]) (auto simp: used_def)
  have "volume f1 2 (request_key ?q) = None" using v1(2) q(2) home_names(3) by simp
  then obtain j c where cw2: "can_write ?q f1 j c"
    using can_write_ex [OF v1(1) _ _ q(1,3), of 2] room1 ne1 by auto
  obtain f where f: "write_fat ?q some_memory f1 = Some (0, f)" "adds f1 f {2} (insert c {2}) 2 j (new_entry (slot f1 2 j) ?q c) [c]"
    "content f (new_entry (slot f1 2 j) ?q c) = Folder (of_nat c)" "dir_at f (of_nat c) = new_dir (r_name ?q) (of_nat 2)"
    "dir_map (dir_at f (of_nat 2)) = (dir_map (dir_at f1 (of_nat 2)))(request_key ?q \<mapsto> new_entry (slot f1 2 j) ?q c)"
    using write_folder_adds [OF v1(1) _ _ q(1,3) cw2, of 2 some_memory] by auto
  note a2 = addsD [OF f(2)]
  have ok: "vol_ok f {2, c}" using vol_add [OF v1(1) f(2)] by (simp add: insert_commute)
  have c: "c \<noteq> 2" "c < 512" using D_new [OF v1(1) f(2), of 2] vol_folder [OF ok, of c] by auto
  have v2: "volume f 2 = [key_for file_nm file_ex \<mapsto> File bs, key_for docs_nm docs_ex \<mapsto> Folder (of_nat c)]"
    using volume_add_parent [OF v1(1) f(2,5)] f(3) v1(2) q(2) by simp
  have s2: "slot f 2 k = (if k = j then new_entry (slot f1 2 j) ?q c else slot f1 2 k)" for k
    using a2(3,12) wf_table_length [OF wf_dir_at, of f1 "of_nat 2"] by (simp add: slot_def nth_list_update)
  have nm8: "length (r_name ?q) = 8" by (simp add: home_names)
  have vc: "volume f c = Map.empty" using f(4) tidy_new_dir [OF nm8] by (simp add: volume_def fun_eq_iff)
  have sc: "slot f c k = zero_dirent" if "2 \<le> k" "k < 64" for k
    using that f(4) by (simp add: slot_def new_dir_nth)
  have uc: "\<not> used f c k" for k using sc by (auto simp: used_def in_use_def zero_dirent_fields)
  have clean: "\<not> slot_tainted f c"
    using sc by (intro untainted) (simp add: is_folder_def zero_dirent_fields ATTR_SUBDIRECTORY_def)
  have free2: "506 \<le> length (free_clusters (cluster_map f))"
    using free_after_link [of "cluster_map f1" "[c]"] fat_ok_length [OF volD(1) [OF v1(1)]] a2(10) free1 by simp
  have "has_room f c" using uc free2 by (auto simp: has_room_def intro!: exI [of _ 2])
  then have room: "room_for f c 3000" using uc free2 \<open>clusters_for 3000 = 2\<close> by (simp add: room_for_def)
  have room2: "has_room f 2"
  proof -
    have "2 \<le> k \<and> k < 64 \<and> \<not> used f 2 k" if "k \<in> {2, 3, 4} - {i, j}" for k
      using that fs0_unused s1 s2 by (auto simp: used_def)
    moreover have "2 \<notin> {i, j} \<or> 3 \<notin> {i, j} \<or> 4 \<notin> {i, j}" by (simp; linarith)
    then have "\<exists>k. k \<in> {2, 3, 4} - {i, j}" by blast
    ultimately have "\<exists>k. 2 \<le> k \<and> k < 64 \<and> \<not> used f 2 k" by blast
    then show ?thesis using free2 by (auto simp: has_room_def)
  qed
  have alone: "alone_by_four f 2 file_nm file_ex"
    unfolding alone_by_four_def
  proof (intro allI impI)
    fix k assume k: "k < 64" "like_source file_nm file_ex (slot f 2 k)"
    have nj: "k \<noteq> j"
    proof
      assume "k = j"
      then have "name (slot f 2 k) = take 8 docs_nm" using s2 by (simp add: new_entry_def)
      with k(2) show False by (simp add: like_source_def docs_nm_def file_nm_def cstr_def)
    qed
    show "used f 2 k \<and> key_of (slot f 2 k) = key_for file_nm file_ex"
    proof (cases "k = i")
      case True
      then show ?thesis using s1 s2 nj a1(2,3,5) by (auto simp: used_def new_entry_def key_of_def key_for_def)
    next
      case False
      then have "slot f 2 k = root_dir ! k" using s1 s2 nj fs0_root by (simp add: slot_def)
      moreover have "take 4 (name (root_dir ! k)) ! 0 \<noteq> take 4 file_nm ! 0"
        using root_dir_names [OF k(1)] by (simp add: file_nm_def)
      ultimately show ?thesis using k(2) by (metis like_source_def)
    qed
  qed
  have "dir_at f 9999 = zero_table"
    using far_folder [OF v1(1) _ _ q(1,3) cw2 _ f(1), of 2] far_file [OF fs0_ok(1) _ _ r(1,3) cw _ f1(1), of 2] far_fs0 by simp
  moreover have "entry_cluster (dir_at f (of_nat c) ! 1) = 2"
    using f(4) by (simp add: new_dir_def entry_cluster_def join_high_low)
  ultimately have "home_vol f c bs"
    using ok c v2 vc alone room clean room2 by (simp add: home_vol_def bs_def)
  then show ?thesis by blast
qed

section \<open>The session\<close>

definition home :: "fs \<Rightarrow> session" where
  "home f = \<lparr> os = (set_fs f machine0)\<lparr> shl := shell_state\<lparr> cwd_table := dir_at f 2 \<rparr> \<rparr>, copy_status = 0 \<rparr>"

definition idle :: locals where
  "idle = \<lparr> junk = (\<lambda>_. 0), above = replicate 4000 0, junk_pcbs = replicate 16 zero_pcb \<rparr>"

definition line_of :: "string \<Rightarrow> u8 list" where
  "line_of str = cstr str @ replicate (100 - length str) 0"

lemma home_parts [simp]:
  "vol (home f) = f" "screen_ok (screen (home f))" "call_cluster (home f) = 2" "call_cwd (home f) = dir_at f 2"
  by (simp_all add: home_def vol_def screen_def screen_ok_def machine0_def set_fs_def call_cluster_def call_cwd_def
      folder_def get_shell_cluster_def get_cwd_table_def shell_state_def)

lemma home_in: "home_vol f c bs \<Longrightarrow> shell_in (home f) {2, c} 2"
  by (simp add: shell_in_def home_vol_def)

lemma home_lines:
  "countWords (line_of ''mv a.txt docs'') = Some 3" "countWords (line_of ''mv a.txt none'') = Some 3"
  "countWords (line_of ''rm a.txt'') = Some 2" "countWords (line_of ''mkdir work'') = Some 2"
  "countWords (line_of ''cd docs'') = Some 2" "countWords (line_of ''cd ..'') = Some 2"
  by code_simp+

lemma home_words:
  "word_into idle (line_of ''mv a.txt docs'') 1 12 = Some (cstr ''a.txt'' @ replicate 7 0)"
  "word_into idle (line_of ''mv a.txt docs'') 2 100 = Some (cstr ''docs'' @ replicate 96 0)"
  "word_into idle (line_of ''mv a.txt none'') 1 12 = Some (cstr ''a.txt'' @ replicate 7 0)"
  "word_into idle (line_of ''mv a.txt none'') 2 100 = Some (cstr ''none'' @ replicate 96 0)"
  "word_into idle (line_of ''rm a.txt'') 1 12 = Some (cstr ''a.txt'' @ replicate 7 0)"
  "word_into idle (line_of ''mkdir work'') 1 12 = Some (cstr ''work'' @ replicate 8 0)"
  "parse_into idle (cstr ''a.txt'' @ replicate 7 0) = Some (0, file_nm, file_ex)"
  "parse_into idle (cstr ''work'' @ replicate 8 0) = Some (0, work_nm, docs_ex)"
  by code_simp+

lemma home_cd_words:
  "getWord (line_of ''cd docs'') 1 (replicate 100 0) = Some (cstr ''docs'' @ replicate 96 0)"
  "getWord (line_of ''cd ..'') 1 (replicate 100 0) = Some (cstr ''..'' @ replicate 98 0)"
  by code_simp+

lemma home_terminated: "terminated (cstr ''a.txt'' @ replicate 7 0)" "terminated (cstr ''work'' @ replicate 8 0)"
  by (simp_all add: terminated_def)

lemma home_option: "find_option idle (line_of ''rm a.txt'') 2 = Some (- 1)"
proof -
  have "wordLen (line_of ''rm a.txt'') 1 = Some 5" "word_into idle (line_of ''rm a.txt'') 1 6 = Some (cstr ''a.txt'' @ [0])"
    "c_text (cstr ''a.txt'' @ [0]) = cstr ''a.txt''" "c_text (cstr0 ''-r'') = cstr ''-r''" "cstr ''a.txt'' \<noteq> cstr ''-r''"
    "length (cstr ''a.txt'') = 5"
    by code_simp+
  moreover have "terminated (cstr ''a.txt'' @ [0])" by (simp add: terminated_def)
  ultimately show ?thesis
    using strcmp_eq [of "cstr ''a.txt'' @ [0]" "cstr0 ''-r''"] by (simp add: find_option_def for_range_step)
qed

lemma home_path:
  assumes "w \<in> {cstr ''docs'', cstr ''none''}"
  shows "getLastCluster g (w @ replicate 96 0) False s =
    (let (c, s) = call_find_cluster (make_request (pad 8 w) [0, 0, 0] (word_of_int (call_cluster s)) 0) s in Some (c, s))"
proof -
  have w: "0 \<notin> set w" "47 \<notin> set w" "length w = 4" using assms by (auto simp: cstr_def)
  have z: "w @ replicate 96 0 = w @ 0 # replicate 95 0" using replicate_Suc [of 95 "0 :: u8"] by simp
  show ?thesis unfolding z by (rule getLastCluster_one) (use w in simp_all)
qed

lemma home_operands:
  assumes "home_vol f c bs"
  shows "operands idle (line_of ''mv a.txt docs'') (home f) file_nm file_ex (int c)"
    and "operands idle (line_of ''mv a.txt none'') (home f) file_nm file_ex 9999"
proof -
  note h = assms [unfolded home_vol_def]
  have k: "make_request (pad 8 (cstr ''docs'')) [0, 0, 0] 2 0 = make_request docs_nm docs_ex 2 0" by code_simp
  have "findCluster (make_request docs_nm docs_ex (of_nat 2) 0) f = (int c, load_dir f (of_nat 2))"
    using find_folder [of f "{2, c}" 2 docs_nm docs_ex "of_nat c" 0] home_names h by (simp add: sint_small)
  then have "getLastCluster idle (cstr ''docs'' @ replicate 96 0) False (home f) = Some (int c, set_vol (load_dir f 2) (home f))"
    using home_path [of "cstr ''docs''" idle "home f"] k by (simp add: call_find_cluster_def)
  then show "operands idle (line_of ''mv a.txt docs'') (home f) file_nm file_ex (int c)"
    using home_lines home_words home_terminated by (auto simp: operands_def)
  have n: "entry_name (pad 8 (cstr ''none'')) [0, 0, 0]" "key_for (pad 8 (cstr ''none'')) [0, 0, 0] \<noteq> key_for file_nm file_ex"
    "key_for (pad 8 (cstr ''none'')) [0, 0, 0] \<noteq> key_for docs_nm docs_ex"
    by code_simp+
  then have "volume f 2 (key_for (pad 8 (cstr ''none'')) [0, 0, 0]) = None" using h by simp
  then have "findCluster (make_request (pad 8 (cstr ''none'')) [0, 0, 0] 2 0) f = (9999, load_dir f 2)"
    using entry_absent [of f "{2, c}" 2 "pad 8 (cstr ''none'')" "[0, 0, 0]"] n(1) h by (simp add: findCluster_def)
  then have "getLastCluster idle (cstr ''none'' @ replicate 96 0) False (home f) = Some (9999, set_vol (load_dir f 2) (home f))"
    using home_path [of "cstr ''none''" idle "home f"] by (simp add: call_find_cluster_def)
  then show "operands idle (line_of ''mv a.txt none'') (home f) file_nm file_ex 9999"
    using home_lines home_words home_terminated by (auto simp: operands_def)
qed

lemma home_operand:
  "operand idle (line_of ''rm a.txt'') file_nm file_ex" "operand idle (line_of ''mkdir work'') work_nm docs_ex"
  using home_lines home_words home_terminated home_names by (auto simp: operand_def entry_name_def)

end
