(* ===== verification/ShellProps.thy ===== *)
theory ShellProps
  imports ShellHome
begin

text \<open>
  Properties of the shell's commands: what \<open>cp\<close> and \<open>mv\<close> do to the volume, and what happens to
  the source when the destination does not exist; \<open>rm\<close>, \<open>mkdir\<close>, \<open>cat\<close> and \<open>cd\<close>.
\<close>

unbundle bit_operations_syntax

text \<open>C16: \<open>cp file path\<close> on a consistent volume, when the path leads to a folder that has room, no entry
  with the file's name and no mark of a deleted folder in the slot for the new entry
  (\<open>slot_tainted\<close>), and when no other entry of the shell's folder agrees with the file's name in the
  first four characters, which are all that the command compares (\<open>alone_by_four\<close>): the command
  returns, the folder then has the file with exactly its bytes, no other entry of any folder has
  changed, and the volume is consistent.\<close>

theorem cp_copies_file:
  assumes "shell_in s D p" "operands g cmd s nm ex (int q)" "key_for nm ex \<noteq> zero_key" "q \<in> D"
    and "volume (vol s) p (key_for nm ex) = Some (File bs)" "alone_by_four (vol s) p nm ex"
    and "volume (vol s) q (key_for nm ex) = None" "room_for (vol s) q (length bs)" "\<not> slot_tainted (vol s) q"
  shows "ends_with s (copyPath g cmd s) (\<lambda>f. vol_ok f D \<and>
    volume f q = (volume (vol s) q)(key_for nm ex \<mapsto> File bs) \<and> (\<forall>d \<in> D - {q}. volume f d = volume (vol s) d))"
proof -
  have q: "int q \<noteq> 9999" using vol_folder [of "vol s" D q] assms(1,4) by (auto simp: shell_in_def)
  obtain w path s1 where o: "countWords cmd = Some 3" "word_into g cmd 1 12 = Some w" "terminated w"
    "parse_into g w = Some (0, nm, ex)" "word_into g cmd 2 100 = Some path" "getLastCluster g path False s = Some (int q, s1)"
    "loaded s s1" "entry_name nm ex" "length nm = 9" "length ex = 4"
    using operandsE [OF assms(2,3)] by metis
  obtain i e where i: "findFileFolder nm ex s1 = int i" "arr_geti (call_cwd s) (int i) = Some e" "attribute e \<noteq> ATTR_SUBDIRECTORY"
    using source_here [OF assms(1) o(8-10) assms(5)] loadedD(4) [OF o(7)] by metis
  obtain s2 where s2: "copy g nm ex (of_nat p) nm ex (of_nat q) s1 = Some s2" "vol_ok (vol s2) D" "folder s2 = folder s"
    "screen_ok (screen s2)" "copy_status s2 = 0" "volume (vol s2) q = (volume (vol s) q)(key_for nm ex \<mapsto> File bs)"
    "\<forall>d \<in> D - {q}. volume (vol s2) d = volume (vol s) d"
    by (rule copied [OF assms(1) o(7,8) assms(4-9)])
  have "copyPath g cmd s = say (text_lines [''Copy successful.'']) 7 s2"
    using o(1,2,4-6) q i s2(1,5) assms(1) by (simp add: copyPath_def check_destination_def shell_in_def)
  then show ?thesis using say_ends [OF s2(4,3)] s2(2,6,7) by simp
qed

lemma cp_copies_file_witness:
  "\<exists>f c bs. home_vol f c bs \<and>
     ends_with (home f) (copyPath idle (line_of ''mv a.txt docs'') (home f)) (\<lambda>t. volume t c = [key_for file_nm file_ex \<mapsto> File bs])"
proof -
  obtain f c bs where h: "home_vol f c bs" using home_ex by blast
  note v = h [unfolded home_vol_def]
  have "ends_with (home f) (copyPath idle (line_of ''mv a.txt docs'') (home f))
      (\<lambda>t. vol_ok t {2, c} \<and> volume t c = (volume (vol (home f)) c)(key_for file_nm file_ex \<mapsto> File bs) \<and>
        (\<forall>d \<in> {2, c} - {c}. volume t d = volume (vol (home f)) d))"
    by (rule cp_copies_file [OF home_in [OF h] home_operands(1) [OF h]]) (use v home_names in \<open>auto simp: entry_name_def\<close>)
  then show ?thesis using h v by (intro exI [of _ f] exI [of _ c] exI [of _ bs] conjI) (auto elim!: ends_with_mono)
qed

text \<open>C17: \<open>mv file path\<close> on a consistent volume, when the path leads to a folder that has room, no entry
  with the file's name and no mark of a deleted folder in the slot for the new entry, and when no other
  entry of the shell's folder agrees with the file's name in the first four characters: afterwards the
  folder of the path has the file with exactly its bytes, the shell's folder does not, nothing else
  has changed, and the volume is consistent.\<close>

theorem mv_moves_file:
  assumes "shell_in s D p" "operands g cmd s nm ex (int q)" "key_for nm ex \<noteq> zero_key" "q \<in> D"
    and "volume (vol s) p (key_for nm ex) = Some (File bs)" "alone_by_four (vol s) p nm ex"
    and "volume (vol s) q (key_for nm ex) = None" "room_for (vol s) q (length bs)" "\<not> slot_tainted (vol s) q"
  shows "ends_with s (mvPath g cmd s) (\<lambda>f. vol_ok f D \<and>
    volume f q = (volume (vol s) q)(key_for nm ex \<mapsto> File bs) \<and>
    volume f p = (volume (vol s) p)(key_for nm ex := None) \<and> (\<forall>d \<in> D - {p, q}. volume f d = volume (vol s) d))"
proof -
  have q: "int q \<noteq> 9999" and p: "p \<in> D" using vol_folder [of "vol s" D q] assms(1,4) by (auto simp: shell_in_def)
  have pq: "p \<noteq> q" using assms(5,7) by auto
  obtain w path s1 where o: "countWords cmd = Some 3" "word_into g cmd 1 12 = Some w" "terminated w"
    "parse_into g w = Some (0, nm, ex)" "word_into g cmd 2 100 = Some path" "getLastCluster g path False s = Some (int q, s1)"
    "loaded s s1" "entry_name nm ex" "length nm = 9" "length ex = 4"
    using operandsE [OF assms(2,3)] by metis
  obtain i e where i: "findFileFolder nm ex s1 = int i" "arr_geti (call_cwd s) (int i) = Some e" "attribute e \<noteq> ATTR_SUBDIRECTORY"
    using source_here [OF assms(1) o(8-10) assms(5)] loadedD(4) [OF o(7)] by metis
  obtain s2 where s2: "copy g nm ex (of_nat p) nm ex (of_nat q) s1 = Some s2" "vol_ok (vol s2) D" "folder s2 = folder s"
    "screen_ok (screen s2)" "copy_status s2 = 0" "volume (vol s2) q = (volume (vol s) q)(key_for nm ex \<mapsto> File bs)"
    "\<forall>d \<in> D - {q}. volume (vol s2) d = volume (vol s) d"
    by (rule copied [OF assms(1) o(7,8) assms(4-9)])
  have "volume (vol s2) p = volume (vol s) p" using s2(7) p pq by simp
  then show ?thesis
    using mv_ends [OF s2(2) p o(8) _ s2(4,3,5), of bs] s2(6,7) assms(1,4,5) pq o(1,2,4-6) q i s2(1)
    by (simp add: mvPath_def check_destination_def shell_in_def)
qed

lemma mv_moves_file_witness:
  "\<exists>f c bs. home_vol f c bs \<and>
     ends_with (home f) (mvPath idle (line_of ''mv a.txt docs'') (home f))
       (\<lambda>t. volume t c = [key_for file_nm file_ex \<mapsto> File bs] \<and> volume t 2 (key_for file_nm file_ex) = None)"
proof -
  obtain f c bs where h: "home_vol f c bs" using home_ex by blast
  note v = h [unfolded home_vol_def]
  have "ends_with (home f) (mvPath idle (line_of ''mv a.txt docs'') (home f))
      (\<lambda>t. vol_ok t {2, c} \<and> volume t c = (volume (vol (home f)) c)(key_for file_nm file_ex \<mapsto> File bs) \<and>
        volume t 2 = (volume (vol (home f)) 2)(key_for file_nm file_ex := None) \<and>
        (\<forall>d \<in> {2, c} - {2, c}. volume t d = volume (vol (home f)) d))"
    by (rule mv_moves_file [OF home_in [OF h] home_operands(1) [OF h]]) (use v home_names in \<open>auto simp: entry_name_def\<close>)
  then show ?thesis using h v by (intro exI [of _ f] exI [of _ c] exI [of _ bs] conjI) (auto elim!: ends_with_mono)
qed

text \<open>\<open>mv file path\<close> when the path leads nowhere (cluster 9999 does not look like a folder): the
  error message is printed and the command goes on; the copy fails, the file is deleted and
  \<open>Move successful.\<close> is printed.  The file is lost.\<close>

theorem mv_loses_file:
  assumes "shell_in s D p" "operands g cmd s nm ex 9999" "key_for nm ex \<noteq> zero_key"
    and "volume (vol s) p (key_for nm ex) = Some (File bs)" "alone_by_four (vol s) p nm ex"
    and "attribute (dir_at (vol s) 9999 ! 0) \<noteq> ATTR_SUBDIRECTORY"
    and "findEntry (dir_at (vol s) 9999) (take 8 nm) (take 3 ex) = - 9999"
  shows "ends_with s (mvPath g cmd s) (\<lambda>f. vol_ok f D \<and>
    volume f p = (volume (vol s) p)(key_for nm ex := None) \<and> (\<forall>d \<in> D - {p}. volume f d = volume (vol s) d))"
proof -
  note here = assms(1) [unfolded shell_in_def]
  obtain w path s1 where o: "countWords cmd = Some 3" "word_into g cmd 1 12 = Some w" "terminated w"
    "parse_into g w = Some (0, nm, ex)" "word_into g cmd 2 100 = Some path" "getLastCluster g path False s = Some (9999, s1)"
    "loaded s s1" "entry_name nm ex" "length nm = 9" "length ex = 4"
    using operandsE [OF assms(2,3)] by metis
  note l = loadedD [OF o(7)]
  obtain s2 where s2: "complain_about w (text_lines [''Invalid Destination Path.'']) s1 = Some s2" "printed s1 s2"
    using complain_about_ok [of s1 w "text_lines [''Invalid Destination Path.'']"] here l(3) o(3) by auto
  note p2 = printedD [OF s2(2)]
  obtain i e where i: "findFileFolder nm ex s2 = int i" "arr_geti (call_cwd s) (int i) = Some e" "attribute e \<noteq> ATTR_SUBDIRECTORY"
    using source_here [OF assms(1) o(8-10) assms(4)] l(4) p2(2) by metis
  obtain s3 where s3: "copy g nm ex (of_nat p) nm ex 9999 s2 = Some s3" "vol_ok (vol s3) D" "volume (vol s3) = volume (vol s)"
    "folder s3 = folder s" "screen_ok (screen s3)" "copy_status s3 = 0"
    using copy_nowhere [of s2 D p nm ex bs 9999 g] here l p2 o(8) assms(4-7) by (auto simp: alone_by_four_def)
  show ?thesis
    using mv_ends [OF s3(2) _ o(8) _ s3(5,4,6), of p bs] s3(3) here assms(4) o(1,2,4-6) i s2(1) s3(1)
    by (simp add: mvPath_def check_destination_def)
qed

lemma mv_loses_file_witness:
  "\<exists>f c bs. home_vol f c bs \<and>
     ends_with (home f) (mvPath idle (line_of ''mv a.txt none'') (home f))
       (\<lambda>t. volume t c = Map.empty \<and> volume t 2 (key_for file_nm file_ex) = None)"
proof -
  obtain f c bs where h: "home_vol f c bs" using home_ex by blast
  note v = h [unfolded home_vol_def]
  have z: "findEntry zero_table (take 8 file_nm) (take 3 file_ex) = - 9999" by code_simp
  have "ends_with (home f) (mvPath idle (line_of ''mv a.txt none'') (home f))
      (\<lambda>t. vol_ok t {2, c} \<and> volume t 2 = (volume (vol (home f)) 2)(key_for file_nm file_ex := None) \<and>
        (\<forall>d \<in> {2, c} - {2}. volume t d = volume (vol (home f)) d))"
    by (rule mv_loses_file [OF home_in [OF h] home_operands(2) [OF h]])
      (use v home_names z in \<open>auto simp: entry_name_def zero_table_def zero_dirent_fields ATTR_SUBDIRECTORY_def\<close>)
  then show ?thesis using h v by (intro exI [of _ f] exI [of _ c] exI [of _ bs] conjI) (auto elim!: ends_with_mono)
qed

text \<open>C36: \<open>rm file\<close> deletes the file of that name in the root, cluster 2, whatever folder the shell is in:
  the root loses the file, every other folder keeps its entries, the shell's own folder among them.\<close>

theorem rm_removes_from_root:
  assumes "shell_in s D p" "operand g cmd nm ex" "find_option g cmd 2 = Some (- 1)"
    and "volume (vol s) 2 (key_for nm ex) = Some (File bs)"
  shows "\<exists>s'. rm g cmd s = Some s' \<and> shell_in s' D p \<and>
    volume (vol s') 2 = (volume (vol s) 2)(key_for nm ex := None) \<and> (\<forall>d \<in> D - {2}. volume (vol s') d = volume (vol s) d)"
proof -
  note here = assms(1) [unfolded shell_in_def]
  obtain w where o: "countWords cmd = Some 2" "word_into g cmd 1 12 = Some w" "terminated w"
    "parse_into g w = Some (0, nm, ex)" "entry_name nm ex" "length nm = 9" "length ex = 4"
    using operandE [OF assms(2)] by metis
  have two: "(2 :: nat) \<in> D" using volD(3) here by blast
  note r = make_request_ok [OF o(5), of 2 2048]
  have ok: "vol_ok (vol s) D" using here by blast
  define s1 where "s1 = set_vol (load_dir (vol s) 2) s"
  have "read_directory (make_request nm ex 2 2048) (\<lambda>_. 0) (vol s) = (1, \<lambda>_. 0, load_dir (vol s) 2)"
    using read_directory_correct [OF ok two _ r(1,3), of "\<lambda>_. 0"] assms(4) r(2) by simp
  then have chk: "for_until (nat 2 - 1) 1 (rm_check g cmd (- 1)) s = Some (False, s1)"
    using o(2,4) by (simp add: numeral_eq_Suc rm_check_def call_read_directory_def s1_def)
  obtain f where f: "remove_sh nm ex 2 s1 = Some (set_vol f s1)" "vol_ok f D"
    "volume f 2 = (volume (vol s) 2)(key_for nm ex := None)" "\<forall>d \<in> D - {2}. volume f d = volume (vol s) d"
    using remove_file [of s1 D 2 nm ex bs] ok two o(5) assms(4) by (auto simp: s1_def)
  obtain s2 where s2: "call_update (int p) [0] True (set_vol f s1) = Some s2" "vol s2 = f" "shell_in s2 D p"
    using shell_in_refresh [of "set_vol f s1" D p] f(2) here by (auto simp: s1_def)
  have "rm_one g cmd (- 1) (int p) 1 s1 = Some (False, s2)"
    using o(2,4) f(1) s2(1) by (simp add: rm_one_def)
  then have "for_until (nat 2 - 1) 1 (rm_one g cmd (- 1) (int p)) s1 = Some (False, s2)"
    by (simp add: numeral_eq_Suc)
  then have "rm g cmd s = Some s2"
    using o(1) assms(3) chk here by (simp add: rm_def)
  then show ?thesis using f(3,4) s2(2,3) by blast
qed

lemma rm_removes_from_root_witness:
  "\<exists>f c bs s'. home_vol f c bs \<and> rm idle (line_of ''rm a.txt'') (home f) = Some s' \<and>
     volume (vol s') 2 (key_for file_nm file_ex) = None \<and> volume (vol s') c = Map.empty"
proof -
  obtain f c bs where h: "home_vol f c bs" using home_ex by blast
  note v = h [unfolded home_vol_def]
  have "volume (vol (home f)) 2 (key_for file_nm file_ex) = Some (File bs)" using v home_names by simp
  from rm_removes_from_root [OF home_in [OF h] home_operand(1) home_option this] obtain s'
    where "rm idle (line_of ''rm a.txt'') (home f) = Some s'" "volume (vol s') 2 (key_for file_nm file_ex) = None"
      "\<forall>d \<in> {2, c} - {2}. volume (vol s') d = volume (vol (home f)) d"
    by auto
  then show ?thesis using h v by (intro exI [of _ f] exI [of _ c] exI [of _ bs] exI [of _ s']) simp
qed

text \<open>C37: \<open>mkdir name\<close> in a folder that has room and no such name creates an empty folder there, in a
  cluster that no folder had, and changes nothing else; the shell's copy of its folder is up to date.\<close>

theorem mkdir_creates_folder:
  assumes "shell_in s D p" "operand g cmd nm ex"
    and "volume (vol s) p (key_for nm ex) = None" "has_room (vol s) p"
  shows "\<exists>s' c. mkdir g cmd s = Some s' \<and> c \<notin> D \<and> shell_in s' (insert c D) p \<and> volume (vol s') c = Map.empty \<and>
    volume (vol s') p = (volume (vol s) p)(key_for nm ex \<mapsto> Folder (of_nat c)) \<and>
    (\<forall>d \<in> D - {p}. volume (vol s') d = volume (vol s) d)"
proof -
  note here = assms(1) [unfolded shell_in_def]
  obtain w where o: "countWords cmd = Some 2" "word_into g cmd 1 12 = Some w" "terminated w"
    "parse_into g w = Some (0, nm, ex)" "entry_name nm ex" "length nm = 9" "length ex = 4"
    using operandE [OF assms(2)] by metis
  let ?r = "make_request nm ex (of_nat p) 0" and ?m = "mem_store (\<lambda>_. 0) 0 []"
  note r = make_request_ok [OF o(5), of "of_nat p" 0]
  have ok: "vol_ok (vol s) D" "p \<in> D" using here by blast+
  obtain f where w: "write_fat ?r ?m (vol s) = Some (0, f)"
    using write_room [OF ok _ r(1,3), of ?m] assms(3,4) r(2) by (auto simp: fits_def)
  obtain c where c: "c \<notin> D" "vol_ok f (insert c D)" "volume f c = Map.empty"
    "volume f p = (volume (vol s) p)(key_for nm ex \<mapsto> Folder (of_nat c))" "\<forall>q \<in> D - {p}. volume f q = volume (vol s) q"
    using write_folder_step [OF ok _ r(1,3) _ w] r(2) by auto
  define s1 where "s1 = set_vol f s"
  have "nat (ceil_c (of_nat (unat (0 :: u32)) / 2048)) = 0" unfolding clusters_for_ceil by (simp add: clusters_for_def)
  then have cw: "call_write ?r [] s = Some (0, s1)" using w by (simp add: call_write_def s1_def)
  obtain s2 where s2: "say (text_lines [''Directory created successfully'']) 7 s1 = Some s2" "vol s2 = vol s1" "screen_ok (screen s2)"
    using say_after [of s1 "text_lines [''Directory created successfully'']" 7] here by (auto simp: s1_def)
  obtain s3 where s3: "call_update (int p) [0] True s2 = Some s3" "vol s3 = vol s2" "shell_in s3 (insert c D) p"
    using shell_in_refresh [of s2 "insert c D" p] c(2) ok(2) s2(2,3) by (auto simp: s1_def)
  have "mkdir g cmd s = Some s3"
    using o(1,2,4) cw s2(1) s3(1) here by (simp add: mkdir_def)
  then show ?thesis using c s2(2) s3(2,3) by (auto simp: s1_def)
qed

lemma mkdir_creates_folder_witness:
  "\<exists>f c bs s' d. home_vol f c bs \<and> mkdir idle (line_of ''mkdir work'') (home f) = Some s' \<and>
     volume (vol s') 2 (key_for work_nm docs_ex) = Some (Folder (of_nat d)) \<and> volume (vol s') d = Map.empty"
proof -
  obtain f c bs where h: "home_vol f c bs" using home_ex by blast
  note v = h [unfolded home_vol_def]
  have "volume (vol (home f)) 2 (key_for work_nm docs_ex) = None" "has_room (vol (home f)) 2" using v home_names by auto
  from mkdir_creates_folder [OF home_in [OF h] home_operand(2) this] obtain s' d
    where "mkdir idle (line_of ''mkdir work'') (home f) = Some s'" "volume (vol s') d = Map.empty"
      "volume (vol s') 2 = (volume (vol (home f)) 2)(key_for work_nm docs_ex \<mapsto> Folder (of_nat d))"
    by blast
  then show ?thesis using h by (intro exI [of _ f] exI [of _ c] exI [of _ bs] exI [of _ s'] exI [of _ d]) simp
qed

text \<open>C38: \<open>cat file\<close> reads the file into an array of its size and prints it as a C string.  What follows the
  bytes up to the end of the last cluster (\<open>slack\<close>) goes past the array: it overwrites that much of
  the stack above it, and belongs to what is printed when the file has no NUL.  When the stack has
  fewer bytes the call has no result.\<close>

theorem cat_prints_file:
  assumes "shell_in s D p" "operand g cmd nm ex" "volume (vol s) p (key_for nm ex) = Some (File bs)"
  shows "\<exists>slack. length (bs @ slack) = 2048 * clusters_for (of_nat (length bs)) \<and>
    cat g cmd s = (if length slack \<le> length (above g)
      then say (bs @ slack @ drop (length slack) (above g)) 0xF (set_vol (load_dir (vol s) (of_nat p)) s) else None)"
proof -
  note here = assms(1) [unfolded shell_in_def]
  obtain w where o: "countWords cmd = Some 2" "word_into g cmd 1 12 = Some w" "terminated w"
    "parse_into g w = Some (0, nm, ex)" "entry_name nm ex" "length nm = 9" "length ex = 4"
    using operandE [OF assms(2)] by metis
  have ok: "vol_ok (vol s) D" "p \<in> D" using here by blast+
  obtain i where i: "i < 64" "findLast (call_cwd s) nm ex = int i" "filesize (call_cwd s ! i) = of_nat (length bs)"
    using findLast_file [OF ok o(6,7,5) assms(3)] here by auto
  have u: "unat (of_nat (length bs) :: u32) = length bs"
    using file_small(1) [OF ok o(5) assms(3)] by (simp add: unat_of_nat_u32)
  let ?buf = "junk_array g (length bs) @ above g"
  obtain slack where slack: "length (bs @ slack) = 2048 * clusters_for (of_nat (length bs))"
    "call_read (make_request nm ex (of_nat p) (of_nat (length bs))) ?buf s =
       (if length (bs @ slack) \<le> length ?buf
        then Some (0, overwrite ?buf 0 (bs @ slack), set_vol (load_dir (vol s) (of_nat p)) s) else None)"
    using call_read_file [OF ok o(5) assms(3), of "of_nat (length bs)" ?buf] u by auto
  have "overwrite ?buf 0 (bs @ slack) = bs @ slack @ drop (length slack) (above g)"
    by (simp add: overwrite_def)
  moreover have "length (bs @ slack) \<le> length ?buf \<longleftrightarrow> length slack \<le> length (above g)" by simp
  ultimately have "cat g cmd s = (if length slack \<le> length (above g)
      then say (bs @ slack @ drop (length slack) (above g)) 0xF (set_vol (load_dir (vol s) (of_nat p)) s) else None)"
    using o(1,2,4) i(2,3) slack(2) here u by (simp add: cat_def)
  with slack(1) show ?thesis by blast
qed

lemma cat_prints_file_witness:
  "\<exists>f c bs slack. home_vol f c bs \<and> length slack = 1096 \<and>
     cat idle (line_of ''rm a.txt'') (home f) = say (bs @ slack @ drop 1096 (above idle)) 0xF (set_vol (load_dir f 2) (home f))"
proof -
  obtain f c bs where h: "home_vol f c bs" using home_ex by blast
  note v = h [unfolded home_vol_def]
  have "clusters_for 3000 = 2" by (simp add: clusters_for_def)
  moreover have "volume (vol (home f)) 2 (key_for file_nm file_ex) = Some (File bs)" using v home_names by simp
  note cat_prints_file [OF home_in [OF h] home_operand(1) this]
  ultimately obtain slack where "length slack = 1096" and
    "cat idle (line_of ''rm a.txt'') (home f) = say (bs @ slack @ drop 1096 (above idle)) 0xF (set_vol (load_dir f 2) (home f))"
    using v by (auto simp: idle_def)
  then show ?thesis using h by blast
qed

text \<open>C33: \<open>cd name\<close> followed by \<open>cd ..\<close>: the first enters the folder and appends its name to the path, the
  second comes back to the folder and the path before, when the folder's \<open>..\<close> entry names it.  The
  name has at most 7 characters: with 8 the array \<open>dir\<close> has no terminating NUL.\<close>

theorem cd_round_trip:
  assumes "shell_in s D p" "length (cur_dir (folder s)) = 100" "sh_idx (folder s) = int k" "0 < k" "cur_dir (folder s) ! (k - 1) = 47"
    and "countWords cmd = Some 2" "getWord cmd 1 (replicate 100 0) = Some (w @ replicate (100 - length w) 0)"
    and "w \<noteq> []" "length w \<le> 7" "0 \<notin> set w" "47 \<notin> set w" "w \<noteq> [46, 46]" "k + length w < 100"
    and "volume (vol s) p (pad 8 w, replicate 3 0) = Some (Folder (of_nat c))" "c < 512"
    and "entry_cluster (dir_at (vol s) (of_nat c) ! 1) = of_nat p"
    and "countWords up = Some 2" "getWord up 1 (replicate 100 0) = Some (cstr ''..'' @ replicate 98 0)"
  shows "\<exists>s1 s2. cd g cmd s = Some s1 \<and> shell_in s1 D c \<and>
    take (k + length w + 1) (cur_dir (folder s1)) = take k (cur_dir (folder s)) @ w @ [47] \<and>
    cd g up s1 = Some s2 \<and> shell_in s2 D p \<and> sh_idx (folder s2) = sh_idx (folder s) \<and>
    take k (cur_dir (folder s2)) = take k (cur_dir (folder s))"
proof -
  let ?sh = "(folder s)\<lparr> cwd_table := dir_at (vol s) (of_nat c), cur_cluster := int c \<rparr>"
  note here = assms(1) [unfolded shell_in_def]
  have p: "p \<in> D" "p < 512" using here vol_folder [of "vol s" D p] by auto
  have pad: "pad 8 w = w @ 0 # replicate (7 - length w) 0"
    using assms(9) by (simp add: pad_def Suc_diff_le flip: replicate_Suc)
  obtain sh1 sh2 where sh1: "addPath (pad 8 w) ?sh = Some sh1"
    "take (k + length w + 1) (cur_dir sh1) = take k (cur_dir (folder s)) @ w @ [47]"
    and sh2: "removePath (sh1\<lparr> cwd_table := dir_at (vol s) (of_nat p), cur_cluster := int p \<rparr>) = Some sh2"
    "sh_idx sh2 = int k" "take k (cur_dir sh2) = take k (cur_dir (folder s))"
    using cd_path [of ?sh k w "replicate (7 - length w) 0" "int p" "dir_at (vol s) (of_nat p)"] assms(2-5,10,11,13) unfolding pad by auto
  obtain s1 where s1: "cd g cmd s = Some s1" "shell_in s1 D c" "folder s1 = sh1" "dir_at (vol s1) = dir_at (vol s)" "c \<noteq> 2"
    "vol_ok (vol s1) D"
    using cd_down [OF assms(1,6,7,8-12,14,15) sh1(1)] by metis
  have "call_cluster s1 = int c" "call_parent s1 = int p"
    using s1(3) addPath_fields [OF sh1(1)] assms(16) p(2)
    by (simp_all add: call_cluster_def get_shell_cluster_def call_parent_def sint_small)
  then obtain s2 where s2: "cd g up s1 = Some s2" "shell_in s2 D p" "folder s2 = sh2"
    using cd_up [OF assms(17,18), of s1 p D sh2 g] s1(2-6) sh2(1) p by (auto simp: shell_in_def)
  show ?thesis using s1(1-3) s2 sh1(2) sh2(2,3) assms(3) by auto
qed

lemma cd_round_trip_witness:
  "\<exists>f c bs s1 s2. home_vol f c bs \<and> cd idle (line_of ''cd docs'') (home f) = Some s1 \<and> call_cluster s1 = int c \<and>
     take 10 (cur_dir (folder s1)) = cstr ''Root/docs/'' \<and>
     cd idle (line_of ''cd ..'') s1 = Some s2 \<and> call_cluster s2 = 2 \<and> take 5 (cur_dir (folder s2)) = cstr ''Root/''"
proof -
  obtain f c bs where h: "home_vol f c bs" using home_ex by blast
  note v = h [unfolded home_vol_def]
  have fo: "folder (home f) = shell_state\<lparr> cwd_table := dir_at f 2 \<rparr>" by (simp add: home_def folder_def)
  have sh: "length (cur_dir shell_state) = 100" "sh_idx shell_state = int 5" "cur_dir shell_state ! (5 - 1) = 47"
    "take 5 (cur_dir shell_state) = cstr ''Root/''" "cstr ''Root/'' @ cstr ''docs'' @ [47] = cstr ''Root/docs/''"
    by code_simp+
  have w: "cstr ''docs'' \<noteq> []" "length (cstr ''docs'') = 4" "0 \<notin> set (cstr ''docs'')" "47 \<notin> set (cstr ''docs'')" "cstr ''docs'' \<noteq> [46, 46]"
    by code_simp+
  have "\<exists>s1 s2. cd idle (line_of ''cd docs'') (home f) = Some s1 \<and> shell_in s1 {2, c} c \<and>
    take (5 + length (cstr ''docs'') + 1) (cur_dir (folder s1)) = take 5 (cur_dir (folder (home f))) @ cstr ''docs'' @ [47] \<and>
    cd idle (line_of ''cd ..'') s1 = Some s2 \<and> shell_in s2 {2, c} 2 \<and> sh_idx (folder s2) = sh_idx (folder (home f)) \<and>
    take 5 (cur_dir (folder s2)) = take 5 (cur_dir (folder (home f)))"
    by (rule cd_round_trip [OF home_in [OF h]])
      (use fo sh w v home_lines home_cd_words home_names in \<open>auto simp del: replicate.simps\<close>)
  then show ?thesis using h fo sh w by (fastforce simp: shell_in_def)
qed

end
