(* ===== verification/Ata.thy ===== *)
theory Ata
  imports Ports Disk
begin

text \<open>
  The disk driver, \<open>src/src/disk.c\<close>: \<open>read_blocks\<close> and \<open>write_blocks\<close> over the ports of the ATA
  controller.  The drive is not part of the program: it is the device of theory \<open>Ports\<close>, and what the
  driver relies on is the hypothesis \<open>pio_drive\<close>, the PIO protocol of the ATA standard for a drive
  that reports no error.  Under it the driver is shown to refine the block store of theory \<open>Disk\<close>,
  on which the file system is modelled.
\<close>

unbundle bit_operations_syntax

section \<open>The driver\<close>

text \<open>The two loops that poll the status register.  They do not return while the drive does not
  answer.\<close>

partial_function (option) ATA_busy_wait :: "device \<Rightarrow> bus \<Rightarrow> bus option" where
  "ATA_busy_wait dev b =
     (let r = inb dev 0x1F7 b in if fst r AND 0x80 \<noteq> 0 then ATA_busy_wait dev (snd r) else Some (snd r))"

partial_function (option) ATA_DRQ_wait :: "device \<Rightarrow> bus \<Rightarrow> bus option" where
  "ATA_DRQ_wait dev b =
     (let r = inb dev 0x1F7 b in if fst r AND 0x40 = 0 then ATA_DRQ_wait dev (snd r) else Some (snd r))"

text \<open>The registers of a command: address and number of blocks.\<close>

definition ATA_command :: "u32 \<Rightarrow> u8 \<Rightarrow> u8 \<Rightarrow> bus \<Rightarrow> bus" where
  "ATA_command logical_block_address block_count cmd b =
     (let b = out 0x1F6 (ucast (0xE0 OR (drop_bit 24 logical_block_address AND 0xF))) b;
          b = out 0x1F2 block_count b;
          b = out 0x1F3 (ucast logical_block_address) b;
          b = out 0x1F4 (ucast (drop_bit 8 logical_block_address)) b;
          b = out 0x1F5 (ucast (drop_bit 16 logical_block_address)) b
      in out 0x1F7 cmd b)"

text \<open>A 16-bit value in memory, low byte first.\<close>

definition halfword :: "u8 \<Rightarrow> u8 \<Rightarrow> u16" where
  "halfword lo hi = push_bit 8 (ucast hi) OR ucast lo"

definition halfword_bytes :: "u16 \<Rightarrow> u8 list" where
  "halfword_bytes w = [ucast w, ucast (drop_bit 8 w)]"

text \<open>\<open>n\<close> reads of the data register.\<close>

fun ATA_read_words :: "device \<Rightarrow> nat \<Rightarrow> bus \<Rightarrow> u8 list \<times> bus" where
  "ATA_read_words dev 0 b = ([], b)"
| "ATA_read_words dev (Suc n) b =
     (let (w, b) = in16 dev 0x1F0 b; (target, b) = ATA_read_words dev n b in (halfword_bytes w @ target, b))"

text \<open>The blocks, each after the two waits; \<open>target\<close> is what is stored from the pointer on.\<close>

fun ATA_read_loop :: "device \<Rightarrow> nat \<Rightarrow> bus \<Rightarrow> (u8 list \<times> bus) option" where
  "ATA_read_loop dev 0 b = Some ([], b)"
| "ATA_read_loop dev (Suc n) b =
     do { b \<leftarrow> ATA_busy_wait dev b;
          b \<leftarrow> ATA_DRQ_wait dev b;
          let (target, b) = ATA_read_words dev 256 b;
          (rest, b) \<leftarrow> ATA_read_loop dev n b;
          Some (target @ rest, b) }"

definition ata_read_blocks :: "device \<Rightarrow> u32 \<Rightarrow> u8 \<Rightarrow> bus \<Rightarrow> (u8 list \<times> bus) option" where
  "ata_read_blocks dev logical_block_address block_count b =
     do { b \<leftarrow> ATA_busy_wait dev b;
          ATA_read_loop dev (unat block_count) (ATA_command logical_block_address block_count 0x20 b) }"

text \<open>The write of half-word \<open>k\<close> of the source; the source is a list, and what lies behind it has no
  value.\<close>

definition ATA_write_word :: "u8 list \<Rightarrow> nat \<Rightarrow> bus \<Rightarrow> bus option" where
  "ATA_write_word ptr k b =
     do { lo \<leftarrow> arr_get ptr (2 * k);
          hi \<leftarrow> arr_get ptr (2 * k + 1);
          Some (out16 0x1F0 (halfword lo hi) b) }"

definition ata_write_blocks :: "device \<Rightarrow> u8 list \<Rightarrow> u32 \<Rightarrow> u8 \<Rightarrow> bus \<Rightarrow> bus option" where
  "ata_write_blocks dev ptr logical_block_address block_count b =
     do { b \<leftarrow> ATA_busy_wait dev b;
          for_range 0 (unat block_count) (\<lambda>i b.
              do { b \<leftarrow> ATA_busy_wait dev b;
                   b \<leftarrow> ATA_DRQ_wait dev b;
                   for_range 0 256 (\<lambda>j. ATA_write_word ptr (256 * i + j)) b })
            (ATA_command logical_block_address block_count 0x30 b) }"

section \<open>The drive\<close>

text \<open>A history of accesses that the drive has answered: each value read is what the drive gave.\<close>

definition answered :: "device \<Rightarrow> io_event \<Rightarrow> bus \<Rightarrow> bool" where
  "answered dev e b = (case e of In p v \<Rightarrow> v = ucast (dev b p) | In16 p v \<Rightarrow> v = dev b p | _ \<Rightarrow> True)"

definition genuine :: "device \<Rightarrow> bus \<Rightarrow> bool" where
  "genuine dev b = (\<forall>i < length b. answered dev (b ! i) (take i b))"

text \<open>Polls of the status register; \<open>polled\<close> when one of them has found the drive not busy.\<close>

definition is_poll :: "io_event \<Rightarrow> bool" where
  "is_poll e = (\<exists>st. e = In 0x1F7 st)"

definition not_busy :: "io_event \<Rightarrow> bool" where
  "not_busy e = (\<exists>st. e = In 0x1F7 st \<and> st AND 0x80 = 0)"

definition polled :: "bus \<Rightarrow> bool" where
  "polled xs = ((\<forall>e \<in> set xs. is_poll e) \<and> (\<exists>e \<in> set xs. not_busy e))"

text \<open>Whole blocks moved through the data register, each after a poll that found the drive not
  busy.\<close>

definition moved :: "(u16 \<Rightarrow> io_event) \<Rightarrow> (bus \<times> u16 list) list \<Rightarrow> bus" where
  "moved ev ps = concat (map (\<lambda>(p, ws). p @ map ev ws) ps)"

definition whole_blocks :: "(bus \<times> u16 list) list \<Rightarrow> bool" where
  "whole_blocks ps = (\<forall>(p, ws) \<in> set ps. polled p \<and> length ws = 256)"

definition words_bytes :: "u16 list \<Rightarrow> u8 list" where
  "words_bytes ws = concat (map halfword_bytes ws)"

text \<open>The command registers: device and bits 24 to 27 of the address, number of blocks, bits 0 to 7, 8
  to 15 and 16 to 23 of the address, command.\<close>

definition registers :: "u8 \<Rightarrow> u8 \<Rightarrow> u8 \<Rightarrow> u8 \<Rightarrow> u8 \<Rightarrow> u8 \<Rightarrow> bus" where
  "registers h n l m u cmd =
     [Out 0x1F6 h, Out 0x1F2 n, Out 0x1F3 l, Out 0x1F4 m, Out 0x1F5 u, Out 0x1F7 cmd]"

definition address :: "u8 \<Rightarrow> u8 \<Rightarrow> u8 \<Rightarrow> u8 \<Rightarrow> u32" where
  "address h l m u =
     push_bit 24 (ucast h AND 0xF) OR push_bit 16 (ucast u) OR push_bit 8 (ucast m) OR ucast l"

text \<open>What the drive promises, with \<open>disk b\<close> the bytes on it and \<open>idle b\<close> that no transfer is going on
  after the accesses \<open>b\<close>.  It stops being busy and becomes ready; polling changes nothing.\<close>

definition drive_answers :: "device \<Rightarrow> bool" where
  "drive_answers dev =
     (\<forall>b. (\<exists>m. (ucast (dev (((\<lambda>b. snd (inb dev 0x1F7 b)) ^^ m) b) 0x1F7) :: u8) AND 0x80 = 0) \<and>
          (\<exists>m. (ucast (dev (((\<lambda>b. snd (inb dev 0x1F7 b)) ^^ m) b) 0x1F7) :: u8) AND 0x40 \<noteq> 0))"

definition drive_polls :: "(bus \<Rightarrow> image) \<Rightarrow> (bus \<Rightarrow> bool) \<Rightarrow> bool" where
  "drive_polls disk rest =
     (\<forall>b st. disk (b @ [In 0x1F7 st]) = disk b \<and> (rest b \<longrightarrow> rest (b @ [In 0x1F7 st])))"

text \<open>A command to the first drive in LBA mode for \<open>n\<close> blocks, where \<open>n\<close> is not 0 (the standard takes 0
  for 256 blocks): the data register gives the bytes from the address on, or takes the bytes to be
  stored there.\<close>

definition drive_reads :: "device \<Rightarrow> (bus \<Rightarrow> image) \<Rightarrow> (bus \<Rightarrow> bool) \<Rightarrow> bool" where
  "drive_reads dev disk rest =
     (\<forall>b h n l m u ps. rest b \<and> h AND 0xF0 = 0xE0 \<and> n \<noteq> 0 \<and> whole_blocks ps \<longrightarrow>
        (let t = b @ registers h n l m u 0x20 @ moved (In16 0x1F0) ps in
         (length ps = unat n \<and> genuine dev t \<longrightarrow> disk t = disk b \<and> rest t) \<and>
         (\<forall>p ws. polled p \<and> length ps < unat n \<and> length ws < 256 \<and> genuine dev (t @ p @ map (In16 0x1F0) ws) \<longrightarrow>
            halfword_bytes (dev (t @ p @ map (In16 0x1F0) ws) 0x1F0) =
              mem_load (disk b) (512 * address h l m u + of_nat (512 * length ps + 2 * length ws)) 2)))"

definition drive_writes :: "device \<Rightarrow> (bus \<Rightarrow> image) \<Rightarrow> (bus \<Rightarrow> bool) \<Rightarrow> bool" where
  "drive_writes dev disk rest =
     (\<forall>b h n l m u ps. rest b \<and> h AND 0xF0 = 0xE0 \<and> n \<noteq> 0 \<and> whole_blocks ps \<and> length ps = unat n \<longrightarrow>
        (let t = b @ registers h n l m u 0x30 @ moved (Out16 0x1F0) ps in
         genuine dev t \<longrightarrow>
           disk t = mem_store (disk b) (512 * address h l m u) (words_bytes (concat (map snd ps))) \<and> rest t))"

definition pio_drive :: "device \<Rightarrow> (bus \<Rightarrow> image) \<Rightarrow> (bus \<Rightarrow> bool) \<Rightarrow> bool" where
  "pio_drive dev disk rest =
     (drive_answers dev \<and> drive_polls disk rest \<and> drive_reads dev disk rest \<and> drive_writes dev disk rest)"

section \<open>The driver on such a drive\<close>

lemma genuine_snoc: "genuine dev (b @ [e]) \<longleftrightarrow> genuine dev b \<and> answered dev e b"
  by (auto simp: genuine_def nth_append less_Suc_eq)

lemma genuine_Out [simp]: "genuine dev (b @ [Out p v]) = genuine dev b" "genuine dev (b @ [Out16 p w]) = genuine dev b"
  by (simp_all add: genuine_snoc answered_def)

lemma genuine_In [simp]: "genuine dev (b @ [In p (ucast (dev b p))]) = genuine dev b" "genuine dev (b @ [In16 p (dev b p)]) = genuine dev b"
  by (simp_all add: genuine_snoc answered_def)

lemma genuine_registers [simp]: "genuine dev (b @ registers h n l m u c) = genuine dev b"
proof -
  have "b @ registers h n l m u c = (((((b @ [Out 0x1F6 h]) @ [Out 0x1F2 n]) @ [Out 0x1F3 l]) @ [Out 0x1F4 m]) @ [Out 0x1F5 u]) @ [Out 0x1F7 c]"
    by (simp add: registers_def)
  then show ?thesis by (simp only: genuine_Out)
qed

text \<open>Both waits poll until the bit has its value.\<close>

lemma wait_ok:
  assumes step: "\<And>b. wait b = (let r = inb dev 0x1F7 b in if P (fst r) then wait (snd r) else Some (snd r))"
    and "\<not> P (ucast (dev (((\<lambda>b. snd (inb dev 0x1F7 b)) ^^ m) b) 0x1F7))" "genuine dev b"
  shows "\<exists>xs st. wait b = Some (b @ xs) \<and> (\<forall>e \<in> set xs. is_poll e) \<and> In 0x1F7 st \<in> set xs \<and> \<not> P st \<and> genuine dev (b @ xs)"
  using assms(2,3)
proof (induction m arbitrary: b)
  case 0
  then have "wait b = Some (b @ [In 0x1F7 (ucast (dev b 0x1F7))])" by (simp add: step [of b] inb_def Let_def)
  with 0 show ?case by (intro exI [of _ "[In 0x1F7 (ucast (dev b 0x1F7))]"]) (auto simp: is_poll_def)
next
  case (Suc m)
  let ?e = "In 0x1F7 (ucast (dev b 0x1F7))"
  have s: "snd (inb dev 0x1F7 b) = b @ [?e]" "fst (inb dev 0x1F7 b) = ucast (dev b 0x1F7)" by (simp_all add: inb_def Let_def)
  show ?case
  proof (cases "P (ucast (dev b 0x1F7))")
    case True
    have "genuine dev (b @ [?e])" using Suc.prems(2) by simp
    moreover have "\<not> P (ucast (dev (((\<lambda>b. snd (inb dev 0x1F7 b)) ^^ m) (b @ [?e])) 0x1F7))"
      using Suc.prems(1) s(1) by (simp add: funpow_Suc_right del: funpow.simps)
    ultimately obtain xs st where "wait (b @ [?e]) = Some ((b @ [?e]) @ xs)" "\<forall>e \<in> set xs. is_poll e" "In 0x1F7 st \<in> set xs"
      "\<not> P st" "genuine dev ((b @ [?e]) @ xs)"
      using Suc.IH by metis
    then show ?thesis using True step [of b, unfolded Let_def] s
      by (intro exI [of _ "?e # xs"] exI [of _ st]) (auto simp: is_poll_def)
  next
    case False
    then have "wait b = Some (b @ [?e])" using step [of b, unfolded Let_def] s by simp
    with False Suc.prems(2) show ?thesis by (intro exI [of _ "[?e]"]) (auto simp: is_poll_def)
  qed
qed

lemma busy_wait_ok:
  assumes "drive_answers dev" "genuine dev b"
  shows "\<exists>xs. ATA_busy_wait dev b = Some (b @ xs) \<and> polled xs \<and> genuine dev (b @ xs)"
proof -
  obtain m where m: "\<not> (ucast (dev (((\<lambda>b. snd (inb dev 0x1F7 b)) ^^ m) b) 0x1F7) :: u8) AND 0x80 \<noteq> 0"
    using assms(1) unfolding drive_answers_def by blast
  obtain xs st where "ATA_busy_wait dev b = Some (b @ xs)" "\<forall>e \<in> set xs. is_poll e" "In 0x1F7 st \<in> set xs"
    "\<not> st AND 0x80 \<noteq> 0" "genuine dev (b @ xs)"
    using wait_ok [of "ATA_busy_wait dev" dev "\<lambda>st. st AND 0x80 \<noteq> 0", OF ATA_busy_wait.simps m assms(2)] by blast
  then show ?thesis unfolding polled_def not_busy_def by blast
qed

lemma DRQ_wait_ok:
  assumes "drive_answers dev" "genuine dev b"
  shows "\<exists>xs. ATA_DRQ_wait dev b = Some (b @ xs) \<and> (\<forall>e \<in> set xs. is_poll e) \<and> genuine dev (b @ xs)"
proof -
  obtain m where m: "\<not> (ucast (dev (((\<lambda>b. snd (inb dev 0x1F7 b)) ^^ m) b) 0x1F7) :: u8) AND 0x40 = 0"
    using assms(1) unfolding drive_answers_def by blast
  show ?thesis
    using wait_ok [of "ATA_DRQ_wait dev" dev "\<lambda>st. st AND 0x40 = 0", OF ATA_DRQ_wait.simps m assms(2)] by blast
qed

lemma waits_ok:
  assumes "drive_answers dev" "genuine dev b"
  shows "\<exists>xs. Option.bind (ATA_busy_wait dev b) (ATA_DRQ_wait dev) = Some (b @ xs) \<and> polled xs \<and> genuine dev (b @ xs)"
proof -
  obtain xs where xs: "ATA_busy_wait dev b = Some (b @ xs)" "polled xs" "genuine dev (b @ xs)"
    using busy_wait_ok [OF assms] by blast
  obtain ys where "ATA_DRQ_wait dev (b @ xs) = Some ((b @ xs) @ ys)" "\<forall>e \<in> set ys. is_poll e" "genuine dev ((b @ xs) @ ys)"
    using DRQ_wait_ok [OF assms(1) xs(3)] by blast
  with xs show ?thesis by (intro exI [of _ "xs @ ys"]) (auto simp: polled_def)
qed

lemma polls_rest:
  assumes "drive_polls disk rest"
  shows "\<forall>e \<in> set xs. is_poll e \<Longrightarrow> disk (b @ xs) = disk b \<and> (rest b \<longrightarrow> rest (b @ xs))"
proof (induction xs rule: rev_induct)
  case (snoc e xs)
  then obtain st where "e = In 0x1F7 st" by (auto simp: is_poll_def)
  with snoc assms show ?case by (auto simp: drive_polls_def simp flip: append_assoc)
qed simp

text \<open>The registers of the code hold the address when it has 28 bits.\<close>

lemma command_registers:
  "ATA_command lba n c b = b @ registers (ucast (0xE0 OR (drop_bit 24 lba AND 0xF))) n (ucast lba)
     (ucast (drop_bit 8 lba)) (ucast (drop_bit 16 lba)) c"
  by (simp add: ATA_command_def registers_def out_def)

lemma lba_device: "(ucast (0xE0 OR (drop_bit 24 (lba :: u32) AND 0xF)) :: u8) AND 0xF0 = 0xE0"
proof (rule bit_word_eqI)
  fix i assume "i < LENGTH(8)"
  then have "i = 0 \<or> i = 1 \<or> i = 2 \<or> i = 3 \<or> i = 4 \<or> i = 5 \<or> i = 6 \<or> i = 7" by (simp; linarith)
  then show "bit ((ucast (0xE0 OR (drop_bit 24 lba AND 0xF)) :: u8) AND 0xF0) i = bit (0xE0 :: u8) i"
    by (elim disjE) (simp_all add: bit_simps)
qed

lemma lba_address:
  assumes "unat lba < 2 ^ 28"
  shows "address (ucast (0xE0 OR (drop_bit 24 lba AND 0xF))) (ucast lba) (ucast (drop_bit 8 lba)) (ucast (drop_bit 16 lba)) = lba"
proof (rule bit_word_eqI)
  fix i assume i: "i < LENGTH(32)"
  have high: "\<not> bit lba i" if "28 \<le> i"
  proof -
    have "take_bit 28 lba = lba"
      using assms by (simp add: word_eq_iff_unsigned [where ?'a = nat] unsigned_take_bit_eq take_bit_nat_eq_self)
    then have "bit (take_bit 28 lba) i = bit lba i" by simp
    then show ?thesis using that by (simp add: bit_take_bit_iff)
  qed
  have four: "bit (0xF :: int) k \<longleftrightarrow> k < 4" for k
    using bit_mask_iff [of 4 k, where ?'a = int] by (simp add: mask_eq_exp_minus_1)
  have e0: "bit (0xE0 :: int) k \<longleftrightarrow> 5 \<le> k \<and> k < 8" for k
  proof -
    have "(0xE0 :: int) = push_bit 5 (mask 3)" by (simp add: mask_eq_exp_minus_1 push_bit_eq_mult)
    then have "bit (0xE0 :: int) k \<longleftrightarrow> bit (push_bit 5 (mask 3 :: int)) k" by (rule arg_cong)
    also have "\<dots> \<longleftrightarrow> 5 \<le> k \<and> k < 8" by (auto simp: bit_simps)
    finally show ?thesis .
  qed
  have hi: "bit (0xF000000 :: int) k \<longleftrightarrow> 24 \<le> k \<and> k < 28" for k
  proof -
    have "(0xF000000 :: int) = push_bit 24 (mask 4)" by (simp add: mask_eq_exp_minus_1 push_bit_eq_mult)
    then have "bit (0xF000000 :: int) k \<longleftrightarrow> bit (push_bit 24 (mask 4 :: int)) k" by (rule arg_cong)
    also have "\<dots> \<longleftrightarrow> 24 \<le> k \<and> k < 28" by (auto simp: bit_simps)
    finally show ?thesis .
  qed
  consider "28 \<le> i" | "24 \<le> i" "i < 28" | "16 \<le> i" "i < 24" | "8 \<le> i" "i < 16" | "i < 8" by linarith
  then show "bit (address (ucast (0xE0 OR (drop_bit 24 lba AND 0xF))) (ucast lba) (ucast (drop_bit 8 lba)) (ucast (drop_bit 16 lba))) i = bit lba i"
    using i high by cases (auto simp: address_def bit_simps four e0 hi)
qed

text \<open>The reads of a block.\<close>

lemma genuine_prefix: "genuine dev (b @ xs) \<Longrightarrow> genuine dev b"
  by (induction xs rule: rev_induct) (auto simp: genuine_snoc simp flip: append_assoc)

lemma read_words_eq:
  assumes "genuine dev b"
  shows "\<exists>ws. ATA_read_words dev n b = (words_bytes ws, b @ map (In16 0x1F0) ws) \<and> length ws = n \<and>
    (\<forall>i < n. ws ! i = dev (b @ map (In16 0x1F0) (take i ws)) 0x1F0) \<and> genuine dev (b @ map (In16 0x1F0) ws)"
  using assms
proof (induction n arbitrary: b)
  case 0
  then show ?case by (simp add: words_bytes_def)
next
  case (Suc n)
  let ?w = "dev b 0x1F0"
  have "genuine dev (b @ [In16 0x1F0 ?w])" using Suc.prems by simp
  then obtain ws where ws: "ATA_read_words dev n (b @ [In16 0x1F0 ?w]) = (words_bytes ws, (b @ [In16 0x1F0 ?w]) @ map (In16 0x1F0) ws)"
    "length ws = n" "\<forall>i < n. ws ! i = dev ((b @ [In16 0x1F0 ?w]) @ map (In16 0x1F0) (take i ws)) 0x1F0"
    "genuine dev ((b @ [In16 0x1F0 ?w]) @ map (In16 0x1F0) ws)"
    using Suc.IH by metis
  have "(?w # ws) ! i = dev (b @ map (In16 0x1F0) (take i (?w # ws))) 0x1F0" if "i < Suc n" for i
    using that ws(3) by (cases i) simp_all
  then show ?case using ws
    by (intro exI [of _ "?w # ws"]) (simp add: in16_def Let_def words_bytes_def)
qed

lemma mem_load_split: "mem_load im p (m + n) = mem_load im p m @ mem_load im (p + of_nat m) n"
  by (rule nth_equalityI) (auto simp: nth_append mem_load_def of_nat_diff algebra_simps)

lemma words_load:
  assumes "\<forall>i < length ws. halfword_bytes (ws ! i) = mem_load im (p + of_nat (2 * i)) 2"
  shows "words_bytes ws = mem_load im p (2 * length ws)"
  using assms
proof (induction ws rule: rev_induct)
  case Nil
  then show ?case by (simp add: words_bytes_def mem_load_def)
next
  case (snoc w ws)
  have "halfword_bytes (ws ! i) = mem_load im (p + of_nat (2 * i)) 2" if "i < length ws" for i
    using snoc.prems [rule_format, of i] that by (simp add: nth_append)
  moreover have "halfword_bytes w = mem_load im (p + of_nat (2 * length ws)) 2"
    using snoc.prems [rule_format, of "length ws"] by simp
  ultimately show ?case
    using snoc.IH mem_load_split [of im p "2 * length ws" 2] by (simp add: words_bytes_def)
qed

lemma moved_snoc: "moved ev (ps @ [(p, ws)]) = moved ev ps @ p @ map ev ws"
  by (simp add: moved_def)

text \<open>The loop of the read, with \<open>ps\<close> the blocks read so far.\<close>

lemma read_loop_ok:
  assumes d: "pio_drive dev disk rest" and cmd: "rest b" "h AND 0xF0 = 0xE0" "k \<noteq> 0"
    and "whole_blocks ps" "length ps + n = unat k"
    and g: "genuine dev (b @ registers h k l m u 0x20 @ moved (In16 0x1F0) ps)"
  shows "\<exists>qs. ATA_read_loop dev n (b @ registers h k l m u 0x20 @ moved (In16 0x1F0) ps) =
      Some (mem_load (disk b) (512 * address h l m u + of_nat (512 * length ps)) (512 * n),
        b @ registers h k l m u 0x20 @ moved (In16 0x1F0) qs) \<and>
    whole_blocks qs \<and> length qs = unat k \<and> genuine dev (b @ registers h k l m u 0x20 @ moved (In16 0x1F0) qs)"
  using assms(5-7)
proof (induction n arbitrary: ps)
  case 0
  then show ?case by (intro exI [of _ ps]) (simp add: mem_load_def)
next
  case (Suc n)
  let ?t = "b @ registers h k l m u 0x20 @ moved (In16 0x1F0) ps"
  have dr: "drive_answers dev" "drive_reads dev disk rest" using d by (simp_all add: pio_drive_def)
  obtain p where p: "Option.bind (ATA_busy_wait dev ?t) (ATA_DRQ_wait dev) = Some (?t @ p)" "polled p" "genuine dev (?t @ p)"
    using waits_ok [OF dr(1) Suc.prems(3)] by blast
  obtain ws where ws: "ATA_read_words dev 256 (?t @ p) = (words_bytes ws, (?t @ p) @ map (In16 0x1F0) ws)" "length ws = 256"
    "\<forall>i < 256. ws ! i = dev ((?t @ p) @ map (In16 0x1F0) (take i ws)) 0x1F0" "genuine dev ((?t @ p) @ map (In16 0x1F0) ws)"
    using read_words_eq [OF p(3), of 256] by metis
  have "halfword_bytes (ws ! i) = mem_load (disk b) (512 * address h l m u + of_nat (512 * length ps) + of_nat (2 * i)) 2"
    if i: "i < length ws" for i
  proof -
    have "ws = take i ws @ drop i ws" by simp
    then have "map (In16 0x1F0) ws = map (In16 0x1F0) (take i ws) @ map (In16 0x1F0) (drop i ws)" by (metis map_append)
    then have gen: "genuine dev (?t @ p @ map (In16 0x1F0) (take i ws))"
      using ws(4) genuine_prefix [of dev "?t @ p @ map (In16 0x1F0) (take i ws)"] by simp
    have lt: "length ps < unat k" "length (take i ws) = i" using Suc.prems(2) i by simp_all
    have "halfword_bytes (dev (?t @ p @ map (In16 0x1F0) (take i ws)) 0x1F0) =
        mem_load (disk b) (512 * address h l m u + of_nat (512 * length ps + 2 * i)) 2"
      using dr(2) [unfolded drive_reads_def Let_def, rule_format, of b h k ps l m u] cmd Suc.prems(1) p(2) gen lt i ws(2) by auto
    then show ?thesis using ws(2,3) i by (simp add: add.assoc)
  qed
  then have bytes: "words_bytes ws = mem_load (disk b) (512 * address h l m u + of_nat (512 * length ps)) 512"
    using words_load [of ws "disk b"] ws(2) by simp
  let ?ps = "ps @ [(p, ws)]"
  have e: "(?t @ p) @ map (In16 0x1F0) ws = b @ registers h k l m u 0x20 @ moved (In16 0x1F0) ?ps" by (simp add: moved_snoc)
  have "whole_blocks ?ps" "length ?ps + n = unat k" using Suc.prems(1,2) p(2) ws(2) by (auto simp: whole_blocks_def)
  then obtain qs where qs: "ATA_read_loop dev n ((?t @ p) @ map (In16 0x1F0) ws) =
      Some (mem_load (disk b) (512 * address h l m u + of_nat (512 * length ?ps)) (512 * n),
        b @ registers h k l m u 0x20 @ moved (In16 0x1F0) qs)" "whole_blocks qs" "length qs = unat k"
      "genuine dev (b @ registers h k l m u 0x20 @ moved (In16 0x1F0) qs)"
    using Suc.IH [of ?ps] ws(4) unfolding e by blast
  have "ATA_read_loop dev (Suc n) ?t = do { b \<leftarrow> Option.bind (ATA_busy_wait dev ?t) (ATA_DRQ_wait dev);
      let (target, b) = ATA_read_words dev 256 b; (rest, b) \<leftarrow> ATA_read_loop dev n b; Some (target @ rest, b) }"
    by (simp del: bind_split)
  also have "\<dots> = Some (mem_load (disk b) (512 * address h l m u + of_nat (512 * length ps)) (512 * Suc n),
        b @ registers h k l m u 0x20 @ moved (In16 0x1F0) qs)"
    using mem_load_split [of "disk b" "512 * address h l m u + of_nat (512 * length ps)" 512 "512 * n"]
    by (simp only: p(1) bind.bind_lunit ws(1) prod.case qs(1) bytes Let_def) (simp add: algebra_simps)
  finally show ?case using qs(2-4) by blast
qed

text \<open>The writes of a block.\<close>

lemma halfword_bytes_halfword [simp]: "halfword_bytes (halfword lo hi) = [lo, hi]"
  unfolding halfword_bytes_def halfword_def list.inject
  by (intro conjI refl bit_word_eqI) (auto simp: bit_simps dest: bit_imp_le_length)

definition block_words :: "u8 list \<Rightarrow> nat \<Rightarrow> u16 list" where
  "block_words ptr i = map (\<lambda>j. halfword (ptr ! (2 * (256 * i + j))) (ptr ! (2 * (256 * i + j) + 1))) [0..<256]"

lemma halves_bytes:
  "2 * n \<le> length xs \<Longrightarrow> words_bytes (map (\<lambda>j. halfword (xs ! (2 * j)) (xs ! (2 * j + 1))) [0..<n]) = take (2 * n) xs"
proof (induction n)
  case (Suc n)
  have "take (2 * Suc n) xs = take (2 * n) xs @ [xs ! (2 * n), xs ! (2 * n + 1)]"
    using Suc.prems take_Suc_conv_app_nth [of "2 * n" xs] take_Suc_conv_app_nth [of "2 * n + 1" xs] by simp
  with Suc show ?case by (simp add: words_bytes_def)
qed (simp add: words_bytes_def)

lemma block_words_bytes:
  assumes "512 * Suc i \<le> length ptr"
  shows "length (block_words ptr i) = 256" "words_bytes (block_words ptr i) = take 512 (drop (512 * i) ptr)"
proof -
  have "block_words ptr i = map (\<lambda>j. halfword (drop (512 * i) ptr ! (2 * j)) (drop (512 * i) ptr ! (2 * j + 1))) [0..<256]"
    using assms by (simp add: block_words_def algebra_simps)
  then show "words_bytes (block_words ptr i) = take 512 (drop (512 * i) ptr)"
    using halves_bytes [of 256 "drop (512 * i) ptr"] assms by simp
qed (simp add: block_words_def)

lemma write_block_ok:
  assumes "512 * Suc i \<le> length ptr"
  shows "for_range 0 256 (\<lambda>j. ATA_write_word ptr (256 * i + j)) b = Some (b @ map (Out16 0x1F0) (block_words ptr i))"
proof -
  have "\<exists>b'. for_range 0 256 (\<lambda>j. ATA_write_word ptr (256 * i + j)) b = Some b' \<and>
      b' = b @ map (Out16 0x1F0) (map (\<lambda>j. halfword (ptr ! (2 * (256 * i + j))) (ptr ! (2 * (256 * i + j) + 1))) [0..<256])"
    by (rule for_range_inv [where I = "\<lambda>k b'. b' = b @ map (Out16 0x1F0)
          (map (\<lambda>j. halfword (ptr ! (2 * (256 * i + j))) (ptr ! (2 * (256 * i + j) + 1))) [0..<k])"])
      (use assms in \<open>simp_all add: ATA_write_word_def out16_def\<close>)
  then show ?thesis by (simp add: block_words_def)
qed

lemma genuine_writes: "genuine dev (b @ map (Out16 p) ws) = genuine dev b"
  by (induction ws rule: rev_induct) (simp_all flip: append_assoc)

lemma write_loop_ok:
  assumes d: "drive_answers dev" and ptr: "length ptr = 512 * n" and g: "genuine dev c"
  shows "\<exists>ps. for_range 0 n (\<lambda>i b. do { b \<leftarrow> ATA_busy_wait dev b; b \<leftarrow> ATA_DRQ_wait dev b;
      for_range 0 256 (\<lambda>j. ATA_write_word ptr (256 * i + j)) b }) c = Some (c @ moved (Out16 0x1F0) ps) \<and>
    whole_blocks ps \<and> length ps = n \<and> words_bytes (concat (map snd ps)) = ptr \<and> genuine dev (c @ moved (Out16 0x1F0) ps)"
proof -
  define I where "I = (\<lambda>k b'. \<exists>ps. b' = c @ moved (Out16 0x1F0) ps \<and> whole_blocks ps \<and> length ps = k \<and>
    words_bytes (concat (map snd ps)) = take (512 * k) ptr \<and> genuine dev b')"
  have "\<exists>b'. for_range 0 n (\<lambda>i b. do { b \<leftarrow> ATA_busy_wait dev b; b \<leftarrow> ATA_DRQ_wait dev b;
      for_range 0 256 (\<lambda>j. ATA_write_word ptr (256 * i + j)) b }) c = Some b' \<and> I n b'"
  proof (rule for_range_inv)
    show "I 0 c" using g by (simp add: I_def moved_def whole_blocks_def words_bytes_def)
    fix i b assume i: "i < n" "I i b"
    then obtain ps where ps: "b = c @ moved (Out16 0x1F0) ps" "whole_blocks ps" "length ps = i"
      "words_bytes (concat (map snd ps)) = take (512 * i) ptr" "genuine dev b"
      by (auto simp: I_def)
    obtain p where p: "Option.bind (ATA_busy_wait dev b) (ATA_DRQ_wait dev) = Some (b @ p)" "polled p" "genuine dev (b @ p)"
      using waits_ok [OF d ps(5)] by blast
    have le: "512 * Suc i \<le> length ptr" using ptr i by simp
    note w = block_words_bytes [OF le]
    let ?ps = "ps @ [(p, block_words ptr i)]"
    have "take (512 * Suc i) ptr = take (512 * i) ptr @ take 512 (drop (512 * i) ptr)"
      using take_add [of "512 * i" 512 ptr] by (simp add: add.commute)
    then have "words_bytes (concat (map snd ?ps)) = take (512 * Suc i) ptr"
      using ps(4) w(2) by (simp add: words_bytes_def)
    moreover have "whole_blocks ?ps" using ps(2) p(2) w(1) by (auto simp: whole_blocks_def)
    moreover have "genuine dev (c @ moved (Out16 0x1F0) ?ps)"
      using p(3) genuine_writes [of dev "b @ p"] by (simp add: ps(1) moved_snoc)
    ultimately have "I (Suc i) ((b @ p) @ map (Out16 0x1F0) (block_words ptr i))"
      unfolding I_def by (intro exI [of _ ?ps]) (simp add: ps(1,3) moved_snoc)
    moreover have "do { b \<leftarrow> ATA_busy_wait dev b; b \<leftarrow> ATA_DRQ_wait dev b; for_range 0 256 (\<lambda>j. ATA_write_word ptr (256 * i + j)) b }
        = Option.bind (Option.bind (ATA_busy_wait dev b) (ATA_DRQ_wait dev)) (for_range 0 256 (\<lambda>j. ATA_write_word ptr (256 * i + j)))"
      by simp
    ultimately show "\<exists>b'. do { b \<leftarrow> ATA_busy_wait dev b; b \<leftarrow> ATA_DRQ_wait dev b; for_range 0 256 (\<lambda>j. ATA_write_word ptr (256 * i + j)) b } = Some b' \<and> I (Suc i) b'"
      using p(1) write_block_ok [OF le] by (metis bind.bind_lunit)
  qed simp
  then show ?thesis using ptr by (auto simp: I_def)
qed

end
