(* ===== verification/AtaProps.thy ===== *)
theory AtaProps
  imports Ata
begin

text \<open>
  The driver of \<open>src/src/disk.c\<close> refines the block store of theory \<open>Disk\<close> on every drive that follows
  the PIO protocol, and a drive that does: it is busy after every command and every block until its
  status is polled, checks the order of the accesses, and keeps its bytes.
\<close>

unbundle bit_operations_syntax

section \<open>A drive\<close>

text \<open>The phase has the address of the transfer, its length in half-words and how many were moved.\<close>

datatype phase = Rest | Sending u32 nat nat | Taking u32 nat nat

record drive =
  bytes :: image
  reg_dev :: u8
  reg_count :: u8
  reg_low :: u8
  reg_mid :: u8
  reg_high :: u8
  phase :: phase
  busy :: bool

definition next_phase :: "(u32 \<Rightarrow> nat \<Rightarrow> nat \<Rightarrow> phase) \<Rightarrow> u32 \<Rightarrow> nat \<Rightarrow> nat \<Rightarrow> drive \<Rightarrow> drive" where
  "next_phase ph a t k d =
     d\<lparr> phase := (if k + 1 = t then Rest else ph a t (k + 1)), busy := ((k + 1) mod 256 = 0) \<rparr>"

definition start :: "(u32 \<Rightarrow> nat \<Rightarrow> nat \<Rightarrow> phase) \<Rightarrow> drive \<Rightarrow> drive" where
  "start ph d = d\<lparr> busy := True, phase :=
     ph (512 * address (reg_dev d) (reg_low d) (reg_mid d) (reg_high d)) (256 * (if reg_count d = 0 then 256 else unat (reg_count d))) 0 \<rparr>"

fun drive_step :: "drive \<Rightarrow> io_event \<Rightarrow> drive" where
  "drive_step d (Out p v) =
     (if p = 0x1F2 then d\<lparr> reg_count := v \<rparr> else if p = 0x1F3 then d\<lparr> reg_low := v \<rparr>
      else if p = 0x1F4 then d\<lparr> reg_mid := v \<rparr> else if p = 0x1F5 then d\<lparr> reg_high := v \<rparr>
      else if p = 0x1F6 then d\<lparr> reg_dev := v \<rparr>
      else if p = 0x1F7 \<and> v = 0x20 then start Sending d
      else if p = 0x1F7 \<and> v = 0x30 then start Taking d else d)"
| "drive_step d (In p v) = (if p = 0x1F7 then d\<lparr> busy := False \<rparr> else d)"
| "drive_step d (In16 p w) =
     (case phase d of Sending a t k \<Rightarrow> if p = 0x1F0 \<and> \<not> busy d then next_phase Sending a t k d else d | _ \<Rightarrow> d)"
| "drive_step d (Out16 p w) =
     (case phase d of Taking a t k \<Rightarrow>
        if p = 0x1F0 \<and> \<not> busy d
        then next_phase Taking a t k (d\<lparr> bytes := mem_store (bytes d) (a + of_nat (2 * k)) (halfword_bytes w) \<rparr>) else d
      | _ \<Rightarrow> d)"

definition drive_answer :: "drive \<Rightarrow> u16 \<Rightarrow> u16" where
  "drive_answer d p =
     (if p = 0x1F7 then (if busy d then 0x80 else if phase d = Rest then 0x40 else 0x48)
      else if p = 0x1F0 then
        (case phase d of Sending a t k \<Rightarrow>
           if busy d then 0 else halfword (bytes d (a + of_nat (2 * k))) (bytes d (a + of_nat (2 * k) + 1))
         | _ \<Rightarrow> 0)
      else 0)"

definition drive_state :: "image \<Rightarrow> bus \<Rightarrow> drive" where
  "drive_state im = foldl drive_step
     \<lparr> bytes = im, reg_dev = 0, reg_count = 0, reg_low = 0, reg_mid = 0, reg_high = 0, phase = Rest, busy = False \<rparr>"

definition drive :: "image \<Rightarrow> device" where
  "drive im b p = drive_answer (drive_state im b) p"

lemma state_append: "drive_state im (b @ xs) = foldl drive_step (drive_state im b) xs"
  by (simp add: drive_state_def)

lemma polled_step:
  assumes "polled p"
  shows "foldl drive_step d p = d\<lparr> busy := False \<rparr>"
proof -
  have "foldl drive_step d xs = (if xs = [] then d else d\<lparr> busy := False \<rparr>)" if "\<forall>e \<in> set xs. is_poll e" for xs
    using that by (induction xs rule: rev_induct) (auto simp: is_poll_def)
  moreover have "p \<noteq> []" "\<forall>e \<in> set p. is_poll e" using assms by (auto simp: polled_def)
  ultimately show ?thesis by simp
qed

text \<open>The state within a block.\<close>

definition at_word :: "(u32 \<Rightarrow> nat \<Rightarrow> nat \<Rightarrow> phase) \<Rightarrow> u32 \<Rightarrow> nat \<Rightarrow> nat \<Rightarrow> drive \<Rightarrow> drive" where
  "at_word ph a t k d = d\<lparr> phase := (if k = t then Rest else ph a t k), busy := (k mod 256 = 0) \<rparr>"

lemma reads_step:
  assumes "phase d = Sending a t k" "\<not> busy d" "k mod 256 = 0" "length ws \<le> 256" "k + length ws \<le> t"
  shows "foldl drive_step d (map (In16 0x1F0) ws) = (if ws = [] then d else at_word Sending a t (k + length ws) d)"
  using assms(4,5)
proof (induction ws rule: rev_induct)
  case (snoc w ws)
  have "(k + length ws) mod 256 \<noteq> 0" if "ws \<noteq> []"
    using that snoc.prems(1) assms(3) by (simp add: mod_add_eq [symmetric, of k] del: mod_add_eq) 
  with snoc assms(1,2) show ?case
    by (auto simp: at_word_def next_phase_def)
qed simp

lemma at_word_simps [simp]:
  "bytes (at_word ph a t k d) = bytes d" "k \<noteq> t \<Longrightarrow> phase (at_word ph a t k d) = ph a t k" "phase (at_word ph a t t d) = Rest"
  "busy (at_word ph a t k d) = (k mod 256 = 0)" "at_word ph a t k (at_word ph a t j d) = at_word ph a t k d"
  "at_word ph a t k (d\<lparr> busy := c \<rparr>) = at_word ph a t k d"
  "at_word ph a t k (d\<lparr> bytes := im \<rparr>) = (at_word ph a t k d)\<lparr> bytes := im \<rparr>"
  by (simp_all add: at_word_def)

lemma blocks_read:
  assumes "whole_blocks ps" "256 * length ps \<le> t"
  shows "foldl drive_step (at_word Sending a t 0 d) (moved (In16 0x1F0) ps) = at_word Sending a t (256 * length ps) d"
  using assms
proof (induction ps rule: rev_induct)
  case Nil
  then show ?case by (simp add: moved_def)
next
  case (snoc x ps)
  obtain p ws where x: "x = (p, ws)" by (cases x)
  then have w: "polled p" "length ws = 256" "whole_blocks ps" using snoc.prems(1) by (auto simp: whole_blocks_def)
  have "256 * length ps \<noteq> t" using snoc.prems(2) by simp
  then show ?case
    using snoc w by (auto simp: x moved_snoc polled_step reads_step add.commute)
qed

lemma length_words_bytes [simp]: "length (words_bytes ws) = 2 * length ws"
  by (induction ws) (simp_all add: words_bytes_def halfword_bytes_def)

lemma writes_step:
  assumes "phase d = Taking a t k" "\<not> busy d" "k mod 256 = 0" "length ws \<le> 256" "k + length ws \<le> t" "t \<le> 65536"
    and "bytes d = mem_store im a bs" "length bs = 2 * k"
  shows "foldl drive_step d (map (Out16 0x1F0) ws) = (if ws = [] then d else
    (at_word Taking a t (k + length ws) d)\<lparr> bytes := mem_store im a (bs @ words_bytes ws) \<rparr>)"
  using assms(4,5)
proof (induction ws rule: rev_induct)
  case (snoc w ws)
  let ?bs = "bs @ words_bytes ws"
  have "mem_store (mem_store im a ?bs) (a + of_nat (2 * (k + length ws))) (halfword_bytes w) = mem_store im a (?bs @ halfword_bytes w)"
    using mem_store_append [of ?bs "halfword_bytes w" im a] assms(6,8) snoc.prems(2)
    by (simp add: halfword_bytes_def)
  moreover have "(k + length ws) mod 256 \<noteq> 0" if "ws \<noteq> []"
    using that snoc.prems(1) assms(3) by (simp add: mod_add_eq [symmetric, of k] del: mod_add_eq)
  ultimately show ?case
    using snoc assms(1,2,7) by (auto simp: at_word_def next_phase_def words_bytes_def)
qed simp

lemma blocks_written:
  assumes "whole_blocks ps" "256 * length ps \<le> t" "t \<le> 65536"
  shows "foldl drive_step (at_word Taking a t 0 d) (moved (Out16 0x1F0) ps) =
    (at_word Taking a t (256 * length ps) d)\<lparr> bytes := mem_store (bytes d) a (words_bytes (concat (map snd ps))) \<rparr>
    \<and> length (words_bytes (concat (map snd ps))) = 512 * length ps"
  using assms(1,2)
proof (induction ps rule: rev_induct)
  case Nil
  then show ?case by (simp add: moved_def words_bytes_def mem_store_def)
next
  case (snoc x ps)
  obtain p ws where x: "x = (p, ws)" by (cases x)
  then have w: "polled p" "length ws = 256" "whole_blocks ps" using snoc.prems(1) by (auto simp: whole_blocks_def)
  have k: "256 * length ps \<noteq> t" "256 * length ps + 256 \<le> t" using snoc.prems(2) by simp_all
  let ?bs = "words_bytes (concat (map snd ps))"
  have IH: "foldl drive_step (at_word Taking a t 0 d) (moved (Out16 0x1F0) ps) = (at_word Taking a t (256 * length ps) d)\<lparr> bytes := mem_store (bytes d) a ?bs \<rparr>"
    "length ?bs = 512 * length ps"
    using snoc.IH w(3) k(2) by simp_all
  have app: "words_bytes (xs @ ys) = words_bytes xs @ words_bytes ys" for xs ys by (simp add: words_bytes_def)
  have "foldl drive_step (((at_word Taking a t (256 * length ps) d)\<lparr> bytes := mem_store (bytes d) a ?bs \<rparr>)\<lparr> busy := False \<rparr>) (map (Out16 0x1F0) ws)
      = (at_word Taking a t (256 * length ps + length ws) d)\<lparr> bytes := mem_store (bytes d) a (?bs @ words_bytes ws) \<rparr>"
    by (subst writes_step [where im = "bytes d" and bs = ?bs and a = a and t = t and k = "256 * length ps"]) (use w k IH(2) assms(3) in auto)
  then show ?case
    using w IH by (simp add: x moved_snoc polled_step app) (simp add: add.commute)
qed

lemma drive_registers:
  "drive_state im (b @ registers h n l m u 0x20) =
     (let d = drive_state im b in
      start Sending (d\<lparr> reg_dev := h, reg_count := n, reg_low := l, reg_mid := m, reg_high := u \<rparr>))"
  "drive_state im (b @ registers h n l m u 0x30) =
     (let d = drive_state im b in
      start Taking (d\<lparr> reg_dev := h, reg_count := n, reg_low := l, reg_mid := m, reg_high := u \<rparr>))"
  by (simp_all add: state_append registers_def Let_def)

lemma start_at_word:
  assumes "reg_count d \<noteq> 0"
  shows "start ph d = at_word ph (512 * address (reg_dev d) (reg_low d) (reg_mid d) (reg_high d)) (256 * unat (reg_count d)) 0 d"
proof -
  have "unat (reg_count d) \<noteq> 0" using assms by (simp add: unat_eq_zero)
  with assms show ?thesis by (simp add: start_def at_word_def)
qed

lemma mem_load_two: "mem_load im p 2 = [im p, im (p + 1)]"
proof -
  have "[0..<2] = [0, 1 :: nat]" by (simp add: upt_rec)
  then show ?thesis by (simp add: mem_load_def)
qed

lemma drive_pio: "pio_drive (drive im) (\<lambda>b. bytes (drive_state im b)) (\<lambda>b. phase (drive_state im b) = Rest)"
  unfolding pio_drive_def
proof (intro conjI)
  have "\<exists>m. (ucast (drive im (((\<lambda>b. snd (inb (drive im) 0x1F7 b)) ^^ m) b) 0x1F7) :: u8) AND 0x80 = 0 \<and>
      (ucast (drive im (((\<lambda>b. snd (inb (drive im) 0x1F7 b)) ^^ m) b) 0x1F7) :: u8) AND 0x40 \<noteq> 0" for b
    by (rule exI [of _ 1]) (simp add: inb_def Let_def drive_def drive_answer_def state_append)
  then show "drive_answers (drive im)" unfolding drive_answers_def by blast
  show "drive_polls (\<lambda>b. bytes (drive_state im b)) (\<lambda>b. phase (drive_state im b) = Rest)"
    by (simp add: drive_polls_def state_append)
  show "drive_writes (drive im) (\<lambda>b. bytes (drive_state im b)) (\<lambda>b. phase (drive_state im b) = Rest)"
    unfolding drive_writes_def Let_def
  proof (intro allI impI)
    fix b :: bus and h n l m u :: u8 and ps :: "(bus \<times> u16 list) list"
    assume a: "phase (drive_state im b) = Rest \<and> h AND 0xF0 = 0xE0 \<and> n \<noteq> 0 \<and> whole_blocks ps \<and> length ps = unat n"
    then have "256 * length ps \<le> 256 * unat n" "256 * unat n \<le> 65536" using unat_u8_lt [of n] by simp_all
    note w = blocks_written [OF _ this]
    have "b @ registers h n l m u 0x30 @ moved (Out16 0x1F0) ps = (b @ registers h n l m u 0x30) @ moved (Out16 0x1F0) ps" by simp
    then show "bytes (drive_state im (b @ registers h n l m u 0x30 @ moved (Out16 0x1F0) ps)) =
        mem_store (bytes (drive_state im b)) (512 * address h l m u) (words_bytes (concat (map snd ps))) \<and>
      phase (drive_state im (b @ registers h n l m u 0x30 @ moved (Out16 0x1F0) ps)) = Rest"
      using a w by (simp only: state_append [of im "b @ registers h n l m u 0x30"] drive_registers Let_def) (simp add: start_at_word)
  qed
  show "drive_reads (drive im) (\<lambda>b. bytes (drive_state im b)) (\<lambda>b. phase (drive_state im b) = Rest)"
    unfolding drive_reads_def Let_def
  proof (intro allI impI conjI)
    fix b :: bus and h n l m u :: u8 and ps :: "(bus \<times> u16 list) list"
    assume a: "phase (drive_state im b) = Rest \<and> h AND 0xF0 = 0xE0 \<and> n \<noteq> 0 \<and> whole_blocks ps"
    let ?t = "b @ registers h n l m u 0x20 @ moved (In16 0x1F0) ps"
    let ?d = "(drive_state im b)\<lparr> reg_dev := h, reg_count := n, reg_low := l, reg_mid := m, reg_high := u \<rparr>"
    have e: "?t = (b @ registers h n l m u 0x20) @ moved (In16 0x1F0) ps" by simp
    have s: "drive_state im ?t = at_word Sending (512 * address h l m u) (256 * unat n) (256 * length ps) ?d" if "length ps \<le> unat n"
      using a that blocks_read [of ps "256 * unat n" "512 * address h l m u" ?d]
      unfolding e by (simp only: state_append [of im "b @ registers h n l m u 0x20"] drive_registers Let_def) (simp add: start_at_word)
    { assume "length ps = unat n \<and> genuine (drive im) ?t"
      then show "bytes (drive_state im ?t) = bytes (drive_state im b)" "phase (drive_state im ?t) = Rest"
        using s by simp_all }
    fix p ws assume w: "polled p \<and> length ps < unat n \<and> length ws < 256 \<and> genuine (drive im) (?t @ p @ map (In16 0x1F0) ws)"
    let ?k = "256 * length ps + length ws"
    have "(256 * length ps + length ws) mod 256 \<noteq> 0" if "ws \<noteq> []"
      using that w by (simp add: mod_add_eq [symmetric, of "256 * length ps"] del: mod_add_eq)
    moreover have "?k < 256 * unat n" using w by linarith
    moreover have "drive_state im (?t @ p @ map (In16 0x1F0) ws) = foldl drive_step (foldl drive_step (drive_state im ?t) p) (map (In16 0x1F0) ws)"
      by (simp only: state_append foldl_append)
    moreover have "phase (drive_state im ?t) = Sending (512 * address h l m u) (256 * unat n) (256 * length ps)"
      using s w by simp
    ultimately have d: "phase (drive_state im (?t @ p @ map (In16 0x1F0) ws)) = Sending (512 * address h l m u) (256 * unat n) ?k"
      "\<not> busy (drive_state im (?t @ p @ map (In16 0x1F0) ws))"
      "bytes (drive_state im (?t @ p @ map (In16 0x1F0) ws)) = bytes (drive_state im b)"
      using w s by (simp_all add: polled_step reads_step)
    have "drive im (?t @ p @ map (In16 0x1F0) ws) 0x1F0 =
      halfword (bytes (drive_state im b) (512 * address h l m u + of_nat (2 * ?k))) (bytes (drive_state im b) (512 * address h l m u + of_nat (2 * ?k) + 1))"
      using d(2) unfolding drive_def drive_answer_def d(1,3) by simp
    moreover have "512 * length ps + 2 * length ws = 2 * ?k" by simp
    ultimately show "halfword_bytes (drive im (?t @ p @ map (In16 0x1F0) ws) 0x1F0) =
      mem_load (bytes (drive_state im b)) (512 * address h l m u + of_nat (512 * length ps + 2 * length ws)) 2"
      by (simp only: halfword_bytes_halfword mem_load_two)
  qed
qed

text \<open>On a drive that follows the PIO protocol and is at rest, for an address of 28 bits and a number of
  blocks that is not 0, the driver's waits end, \<open>read_blocks\<close> gives the bytes that the block store of
  the file system gives and leaves the disk as it was, \<open>write_blocks\<close> leaves the disk that the block
  store's write leaves, and the drive is at rest again.\<close>

theorem ata_refines_store:
  assumes d: "pio_drive dev disk rest" and b: "rest b" "genuine dev b"
    and lba: "unat lba < 2 ^ 28" "n \<noteq> 0" and ptr: "length ptr = 512 * unat n"
  shows "(\<exists>b'. ata_read_blocks dev lba n b = Some (read_blocks (disk b) lba n, b') \<and> disk b' = disk b \<and> rest b' \<and> genuine dev b') \<and>
    (\<exists>b'. ata_write_blocks dev ptr lba n b = Some b' \<and> disk b' = write_blocks (disk b) ptr lba n \<and> rest b' \<and> genuine dev b')"
proof -
  let ?h = "ucast (0xE0 OR (drop_bit 24 lba AND 0xF)) :: u8" and ?l = "ucast lba :: u8"
  let ?m = "ucast (drop_bit 8 lba) :: u8" and ?u = "ucast (drop_bit 16 lba) :: u8"
  have laws: "drive_answers dev" "drive_polls disk rest" "drive_reads dev disk rest" "drive_writes dev disk rest"
    using d by (simp_all add: pio_drive_def)
  obtain p where p: "ATA_busy_wait dev b = Some (b @ p)" "polled p" "genuine dev (b @ p)"
    using busy_wait_ok [OF laws(1) b(2)] by blast
  have r: "rest (b @ p)" "disk (b @ p) = disk b"
    using polls_rest [OF laws(2), of p b] p(2) b(1) by (simp_all add: polled_def)
  note a = lba_address [OF lba(1)] and h = lba_device [of lba]
  let ?c = "\<lambda>cmd. (b @ p) @ registers ?h n ?l ?m ?u cmd"
  have g: "genuine dev (?c cmd @ moved ev [])" for cmd ev
    using p(3) by (simp only: moved_def list.map concat.simps append_Nil2 genuine_registers)
  obtain qs where q: "ATA_read_loop dev (unat n) (?c 0x20) = Some (mem_load (disk b) (512 * lba) (512 * unat n), ?c 0x20 @ moved (In16 0x1F0) qs)"
    "whole_blocks qs" "length qs = unat n" "genuine dev (?c 0x20 @ moved (In16 0x1F0) qs)"
    using read_loop_ok [OF d r(1) h lba(2), of "[]" "unat n" ?l ?m ?u] g [of "0x20"] a r(2)
    by (auto simp: whole_blocks_def moved_def)
  have q': "disk (?c 0x20 @ moved (In16 0x1F0) qs) = disk b \<and> rest (?c 0x20 @ moved (In16 0x1F0) qs)"
    using laws(3) [unfolded drive_reads_def Let_def, rule_format, of "b @ p" ?h n qs ?l ?m ?u] r h lba(2) q(2-4) by simp
  have "ata_read_blocks dev lba n b = Some (read_blocks (disk b) lba n, ?c 0x20 @ moved (In16 0x1F0) qs)"
    by (simp only: ata_read_blocks_def p(1) bind.bind_lunit command_registers q(1) read_blocks_load)
  moreover obtain ps where w: "for_range 0 (unat n) (\<lambda>i b. do { b \<leftarrow> ATA_busy_wait dev b; b \<leftarrow> ATA_DRQ_wait dev b;
      for_range 0 256 (\<lambda>j. ATA_write_word ptr (256 * i + j)) b }) (?c 0x30) = Some (?c 0x30 @ moved (Out16 0x1F0) ps)"
    "whole_blocks ps" "length ps = unat n" "words_bytes (concat (map snd ps)) = ptr" "genuine dev (?c 0x30 @ moved (Out16 0x1F0) ps)"
    using write_loop_ok [OF laws(1) ptr, of "?c 0x30"] p(3) by (auto simp del: append_assoc)
  have w': "disk (?c 0x30 @ moved (Out16 0x1F0) ps) = mem_store (disk b) (512 * lba) ptr \<and> rest (?c 0x30 @ moved (Out16 0x1F0) ps)"
    using laws(4) [unfolded drive_writes_def Let_def, rule_format, of "b @ p" ?h n ps ?l ?m ?u] r h lba(2) w(2-5) a by simp
  have "ata_write_blocks dev ptr lba n b = Some (?c 0x30 @ moved (Out16 0x1F0) ps)"
    by (simp only: ata_write_blocks_def p(1) bind.bind_lunit command_registers w(1))
  ultimately show ?thesis using q(4) q' w(5) w' write_blocks_store [OF ptr, of "disk b" lba] by metis
qed


lemma ata_refines_store_witness:
  "(\<exists>b'. ata_read_blocks (drive (\<lambda>_. 7)) 5 2 [] = Some (replicate 1024 7, b')) \<and>
   (\<exists>b'. ata_write_blocks (drive (\<lambda>_. 7)) (replicate 1024 9) 5 2 [] = Some b' \<and>
     bytes (drive_state (\<lambda>_. 7) b') = write_blocks (\<lambda>_. 7) (replicate 1024 9) 5 2)"
proof -
  have s: "bytes (drive_state (\<lambda>_. 7) []) = (\<lambda>_. 7)" "phase (drive_state (\<lambda>_. 7) []) = Rest" "genuine (drive (\<lambda>_. 7)) []"
    by (simp_all add: drive_state_def genuine_def)
  have "read_blocks (\<lambda>_. 7) 5 2 = replicate 1024 7"
    by (simp add: read_blocks_load mem_load_def map_replicate_const)
  then show ?thesis
    using ata_refines_store [OF drive_pio s(2,3), of 5 2 "replicate 1024 9"] by (auto simp: s(1))
qed

section \<open>The file system's accesses over the ports\<close>

text \<open>\<open>read_clusters\<close> and \<open>write_clusters\<close> of \<open>src/src/fat32.c\<close> with the driver below them.\<close>

definition ata_read_clusters :: "device \<Rightarrow> u32 \<Rightarrow> u8 \<Rightarrow> bus \<Rightarrow> (u8 list \<times> bus) option" where
  "ata_read_clusters dev cluster_number cluster_count b =
     ata_read_blocks dev (cluster_number * 4) (cluster_count * 4) b"

definition ata_write_clusters :: "device \<Rightarrow> u8 list \<Rightarrow> u32 \<Rightarrow> u8 \<Rightarrow> bus \<Rightarrow> bus option" where
  "ata_write_clusters dev ptr cluster_number cluster_count b =
     ata_write_blocks dev ptr (cluster_number * 4) (cluster_count * 4) b"

text \<open>The accesses that a run of the file system makes, one cluster each, on the block store and over the
  ports; the results are what the reads give.\<close>

datatype access = ReadAt u32 | WriteAt u32 "u8 list"

fun access_ok :: "access \<Rightarrow> bool" where
  "access_ok (ReadAt c) = cluster_ok c"
| "access_ok (WriteAt c bs) = (cluster_ok c \<and> length bs = 2048)"

fun store_run :: "access list \<Rightarrow> image \<Rightarrow> u8 list list \<times> image" where
  "store_run [] im = ([], im)"
| "store_run (ReadAt c # as) im = (let (rs, im') = store_run as im in (read_clusters im c 1 # rs, im'))"
| "store_run (WriteAt c bs # as) im = store_run as (write_clusters im bs c 1)"

fun ata_run :: "device \<Rightarrow> access list \<Rightarrow> bus \<Rightarrow> (u8 list list \<times> bus) option" where
  "ata_run dev [] b = Some ([], b)"
| "ata_run dev (ReadAt c # as) b =
     do { (r, b) \<leftarrow> ata_read_clusters dev c 1 b; (rs, b) \<leftarrow> ata_run dev as b; Some (r # rs, b) }"
| "ata_run dev (WriteAt c bs # as) b = do { b \<leftarrow> ata_write_clusters dev bs c 1 b; ata_run dev as b }"

lemma cluster_lba: "cluster_ok c \<Longrightarrow> unat (c * 4) < 2 ^ 28"
  by (simp add: cluster_ok_def unat_mult_u32)

lemma ata_cluster_step:
  assumes "pio_drive dev disk rest" "rest b" "genuine dev b" "cluster_ok c"
  shows "\<exists>b'. ata_read_clusters dev c 1 b = Some (read_clusters (disk b) c 1, b') \<and> disk b' = disk b \<and> rest b' \<and> genuine dev b'"
    and "length bs = 2048 \<Longrightarrow>
      \<exists>b'. ata_write_clusters dev bs c 1 b = Some b' \<and> disk b' = write_clusters (disk b) bs c 1 \<and> rest b' \<and> genuine dev b'"
  using ata_refines_store [OF assms(1-3) cluster_lba [OF assms(4)], of 4 "replicate 2048 0"]
    ata_refines_store [OF assms(1-3) cluster_lba [OF assms(4)], of 4 bs]
  by (simp_all add: ata_read_clusters_def ata_write_clusters_def read_clusters_def write_clusters_def)

text \<open>C14: On a drive that follows the PIO protocol and is at rest, every sequence of cluster reads and writes of
  the file system, done over the ports by the driver, ends: each read gives the bytes that it gives on
  the block store on which the file system is modelled, and at the end the disk is the one that the
  block store's writes leave and the drive is at rest again.\<close>

theorem ata_carries_file_system:
  assumes "pio_drive dev disk rest" "rest b" "genuine dev b" "\<forall>a \<in> set as. access_ok a"
  shows "\<exists>b'. ata_run dev as b = Some (fst (store_run as (disk b)), b') \<and> disk b' = snd (store_run as (disk b)) \<and>
    rest b' \<and> genuine dev b'"
  using assms(2-4)
proof (induction as arbitrary: b)
  case (Cons a as)
  then have ok: "access_ok a" "\<forall>a \<in> set as. access_ok a" by simp_all
  show ?case
  proof (cases a)
    case (ReadAt c)
    obtain b1 where b1: "ata_read_clusters dev c 1 b = Some (read_clusters (disk b) c 1, b1)" "disk b1 = disk b" "rest b1" "genuine dev b1"
      using ata_cluster_step(1) [OF assms(1) Cons.prems(1,2)] ok(1) ReadAt by auto
    with Cons.IH [OF b1(3,4) ok(2)] show ?thesis by (auto simp: ReadAt split: prod.split)
  next
    case (WriteAt c bs)
    obtain b1 where b1: "ata_write_clusters dev bs c 1 b = Some b1" "disk b1 = write_clusters (disk b) bs c 1" "rest b1" "genuine dev b1"
      using ata_cluster_step(2) [OF assms(1) Cons.prems(1,2)] ok(1) WriteAt by auto
    with Cons.IH [OF b1(3,4) ok(2)] show ?thesis by (auto simp: WriteAt)
  qed
qed simp

lemma ata_carries_file_system_witness:
  "\<exists>b'. ata_run (drive (\<lambda>_. 7)) [ReadAt 3, WriteAt 3 (replicate 2048 9), ReadAt 3] [] =
     Some ([replicate 2048 7, replicate 2048 9], b')"
proof -
  have s: "bytes (drive_state (\<lambda>_. 7) []) = (\<lambda>_. 7)" "phase (drive_state (\<lambda>_. 7) []) = Rest" "genuine (drive (\<lambda>_. 7)) []"
    by (simp_all add: drive_state_def genuine_def)
  have "read_clusters (\<lambda>_. 7) 3 1 = replicate 2048 7" by (simp add: read_clusters_load mem_load_def map_replicate_const)
  moreover have "read_clusters (write_clusters (\<lambda>_. 7) (replicate 2048 9) 3 1) 3 1 = replicate 2048 9"
    by (rule img.rd_wr_same) simp
  ultimately show ?thesis
    using ata_carries_file_system [OF drive_pio s(2,3), of "[ReadAt 3, WriteAt 3 (replicate 2048 9), ReadAt 3]"]
    by (auto simp: s(1) cluster_ok_def simp del: replicate.simps)
qed

end
