(* ===== verification/Clock.thy ===== *)
theory Clock
  imports SystemProps
begin

text \<open>
  The clock, \<open>src/src/clock.c\<close>: a user process that reads the time by system call 16 and shows it by
  system call 23, again and again.  A round is modelled on the machine: both calls go through the
  interrupt handler, and the two arrays are in the process's memory, \<open>time\<close> at the address \<open>p\<close> and
  \<open>time_str\<close> at \<open>q\<close>.
\<close>

unbundle bit_operations_syntax

section \<open>The program\<close>

text \<open>The number of \<open>nop\<close>s that \<open>sleep\<close> executes; the product is a signed \<open>int\<close>.\<close>

definition sleep :: "int \<Rightarrow> nat option" where
  "sleep seconds = do { n \<leftarrow> int_range (seconds * 1000000); Some (nat n) }"

text \<open>\<open>int 0x30\<close> with the arguments in the registers; \<open>fr\<close> is the rest of the frame.\<close>

definition syscaLL :: "device \<Rightarrow> (pd_ptr \<Rightarrow> u32) \<Rightarrow> interrupt_frame \<Rightarrow> u32 \<Rightarrow> u32 \<Rightarrow> u32 \<Rightarrow> u32 \<Rightarrow> machine \<Rightarrow> machine option" where
  "syscaLL dev pd_addr fr eax' ebx' ecx' edx' =
     main_interrupt_handler dev pd_addr
       (fr\<lparr> f_cpu := (f_cpu fr)\<lparr> ebx := ebx', edx := edx', ecx := ecx', eax := eax' \<rparr>, int_number := SYSCALL \<rparr>)"

definition time_str :: "u8 list \<Rightarrow> u8 list" where
  "time_str time =
     [48 + time ! 0 div 10, 48 + time ! 0 mod 10, 58,
      48 + time ! 1 div 10, 48 + time ! 1 mod 10, 58,
      48 + time ! 2 div 10, 48 + time ! 2 mod 10, 0]"

text \<open>A round of the endless loop, and \<open>n\<close> rounds.\<close>

definition clock_round :: "device \<Rightarrow> (pd_ptr \<Rightarrow> u32) \<Rightarrow> interrupt_frame \<Rightarrow> u32 \<Rightarrow> u32 \<Rightarrow> machine \<Rightarrow> machine option" where
  "clock_round dev pd_addr fr p q s =
     do { s \<leftarrow> syscaLL dev pd_addr fr 16 p 0 0 s;
          let s = store_at q (time_str (mem_load (user_mem s) p 3)) s;
          s \<leftarrow> syscaLL dev pd_addr fr 23 q 0 0 s;
          _ \<leftarrow> sleep 1;
          Some s }"

fun clock_rounds :: "device \<Rightarrow> (pd_ptr \<Rightarrow> u32) \<Rightarrow> interrupt_frame \<Rightarrow> u32 \<Rightarrow> u32 \<Rightarrow> nat \<Rightarrow> machine \<Rightarrow> machine option" where
  "clock_rounds dev pd_addr fr p q 0 s = Some s"
| "clock_rounds dev pd_addr fr p q (Suc n) s = Option.bind (clock_round dev pd_addr fr p q s) (clock_rounds dev pd_addr fr p q n)"

section \<open>What it shows\<close>

text \<open>The three values that the CMOS gives when it is read after the accesses \<open>b\<close>.\<close>

definition cmos_time :: "device \<Rightarrow> bus \<Rightarrow> u8 \<times> u8 \<times> u8" where
  "cmos_time dev b =
     (let (h, b) = cmos_read dev 0x04 b; (m, b) = cmos_read dev 0x02 b; (sec, b) = cmos_read dev 0x00 b in (h, m, sec))"

text \<open>The line of the clock: row 23 from column 70 on.\<close>

definition clock_line :: "u8 list \<Rightarrow> u8 list \<Rightarrow> u8 list \<Rightarrow> bool" where
  "clock_line tx v v' =
     (length v' = 4000 \<and>
      (\<forall>r c. r < 25 \<longrightarrow> c < 80 \<longrightarrow> cell v' r c = (if r = 23 \<and> 70 \<le> c \<and> c < 79 then (tx ! (c - 70), 0xF) else cell v r c)))"

lemma unat_column: "i < 9 \<Longrightarrow> unat (70 + of_nat i :: u8) = 70 + i"
  by (simp add: unat_word_ariths unat_of_nat_u8)

lemma sys_write_clock_shows:
  assumes "length (vram (scrn s)) = 4000" "mem_load (user_mem s) p 9 = tx"
  shows "\<exists>v. sys_write_clock p s = Some (s\<lparr> scrn := (scrn s)\<lparr> vram := v \<rparr> \<rparr>) \<and> clock_line tx (vram (scrn s)) v"
proof -
  have tx: "tx ! i = user_mem s (p + of_nat i)" if "i < 9" for i using that assms(2) by auto
  have "\<exists>t. for_range 0 9 (\<lambda>i. write_exact_loc 23 (70 + of_nat i) (user_mem s (p + of_nat i)) 0xF 0) (scrn s) = Some t \<and>
      (\<exists>v. t = (scrn s)\<lparr> vram := v \<rparr> \<and> length v = 4000 \<and>
        (\<forall>r c. r < 25 \<longrightarrow> c < 80 \<longrightarrow> cell v r c = (if r = 23 \<and> 70 \<le> c \<and> c < 70 + (9 :: nat) then (tx ! (c - 70), 0xF) else cell (vram (scrn s)) r c)))"
  proof (rule for_range_inv [where I = "\<lambda>k t. \<exists>v. t = (scrn s)\<lparr> vram := v \<rparr> \<and> length v = 4000 \<and>
      (\<forall>r c. r < 25 \<longrightarrow> c < 80 \<longrightarrow> cell v r c = (if r = 23 \<and> 70 \<le> c \<and> c < 70 + k then (tx ! (c - 70), 0xF) else cell (vram (scrn s)) r c))"])
    show "\<exists>v. scrn s = (scrn s)\<lparr> vram := v \<rparr> \<and> length v = 4000 \<and>
      (\<forall>r c. r < 25 \<longrightarrow> c < 80 \<longrightarrow> cell v r c = (if r = 23 \<and> 70 \<le> c \<and> c < 70 + 0 then (tx ! (c - 70), 0xF) else cell (vram (scrn s)) r c))"
      using assms(1) by (intro exI [of _ "vram (scrn s)"]) auto
    fix i t assume i: "i < (9 :: nat)" and "\<exists>v. t = (scrn s)\<lparr> vram := v \<rparr> \<and> length v = 4000 \<and>
      (\<forall>r c. r < 25 \<longrightarrow> c < 80 \<longrightarrow> cell v r c = (if r = 23 \<and> 70 \<le> c \<and> c < 70 + i then (tx ! (c - 70), 0xF) else cell (vram (scrn s)) r c))"
    then obtain v where v: "t = (scrn s)\<lparr> vram := v \<rparr>" "length v = 4000"
      "\<And>r c. r < 25 \<Longrightarrow> c < 80 \<Longrightarrow> cell v r c = (if r = 23 \<and> 70 \<le> c \<and> c < 70 + i then (tx ! (c - 70), 0xF) else cell (vram (scrn s)) r c)"
      by blast
    let ?w = "set_cell v 23 (70 + i) (tx ! i) 0xF"
    have "color_of 0xF 0 = 0xF" by (simp add: color_of_def)
    then have "write_exact_loc 23 (70 + of_nat i) (user_mem s (p + of_nat i)) 0xF 0 t = Some ((scrn s)\<lparr> vram := ?w \<rparr>)"
      using write_exact_loc_eq [of t 23 "70 + of_nat i" "tx ! i" "0xF" 0] v(1,2) i tx [OF i] by (simp add: unat_column)
    moreover have "cell ?w r c = (if r = 23 \<and> 70 \<le> c \<and> c < 70 + Suc i then (tx ! (c - 70), 0xF) else cell (vram (scrn s)) r c)"
      if "r < 25" "c < 80" for r c
    proof -
      have "cell ?w r c = (if r = 23 \<and> c = 70 + i then (tx ! i, 0xF) else cell v r c)"
        using cell_set_cell [OF v(2), of 23 "70 + i" r c] that i by simp
      then show ?thesis using v(3) [OF that] by (auto simp: less_Suc_eq)
    qed
    ultimately show "\<exists>t'. write_exact_loc 23 (70 + of_nat i) (user_mem s (p + of_nat i)) 0xF 0 t = Some t' \<and>
      (\<exists>v. t' = (scrn s)\<lparr> vram := v \<rparr> \<and> length v = 4000 \<and>
        (\<forall>r c. r < 25 \<longrightarrow> c < 80 \<longrightarrow> cell v r c = (if r = 23 \<and> 70 \<le> c \<and> c < 70 + Suc i then (tx ! (c - 70), 0xF) else cell (vram (scrn s)) r c)))"
      using v(2) by (intro exI [of _ "(scrn s)\<lparr> vram := ?w \<rparr>"]) (auto intro!: exI [of _ ?w])
  qed simp
  then obtain t v where "for_range 0 9 (\<lambda>i. write_exact_loc 23 (70 + of_nat i) (user_mem s (p + of_nat i)) 0xF 0) (scrn s) = Some t"
    "t = (scrn s)\<lparr> vram := v \<rparr>" "length v = 4000"
    "\<forall>r c. r < 25 \<longrightarrow> c < 80 \<longrightarrow> cell v r c = (if r = 23 \<and> 70 \<le> c \<and> c < 70 + (9 :: nat) then (tx ! (c - 70), 0xF) else cell (vram (scrn s)) r c)"
    by blast
  then show ?thesis by (auto simp: sys_write_clock_def clock_line_def)
qed

text \<open>Two digits are read back as the number.\<close>

lemma two_digits:
  assumes "x < 100" "\<not> is_digit e"
  shows "string_to_int ((48 + x div 10) # (48 + x mod 10) # e # rest) = Some (uint (x :: u8))"
proof -
  have x: "uint x < 100" using assms(1) by (simp add: word_less_def)
  have dd: "0 \<le> uint x div 10" "uint x div 10 < 10" "0 \<le> uint x mod 10" "uint x mod 10 < 10"
    using x unsigned_greater_eq [of x, where ?'a = int] by (simp_all add: div_less_iff_less_mult pos_imp_zdiv_nonneg_iff)
  then have d: "uint (48 + x div 10) = 48 + uint x div 10" "uint (48 + x mod 10) = 48 + uint x mod 10"
    by (simp_all add: uint_word_ariths uint_div uint_mod)
  have "is_digit (48 + x div 10)" "is_digit (48 + x mod 10)"
    using d dd by (simp_all add: is_digit_def word_le_def)
  then have "\<forall>c \<in> set [48 + x div 10, 48 + x mod 10]. is_digit c" by simp
  moreover have "dec_value 0 [48 + x div 10, 48 + x mod 10] = uint x" using d by simp
  ultimately show ?thesis using string_to_int_eq(1) [of "[48 + x div 10, 48 + x mod 10]" e rest] assms(2) x by simp
qed

lemma time_str_nth:
  "length (time_str t) = 9" "time_str t ! 8 = 0"
  "drop 0 (time_str t) = (48 + t ! 0 div 10) # (48 + t ! 0 mod 10) # 58 # drop 3 (time_str t)"
  "drop 3 (time_str t) = (48 + t ! 1 div 10) # (48 + t ! 1 mod 10) # 58 # drop 6 (time_str t)"
  "drop 6 (time_str t) = (48 + t ! 2 div 10) # (48 + t ! 2 mod 10) # 0 # []"
  by (simp_all add: time_str_def)

text \<open>The read of the clock stores the three values one after the other.\<close>

lemma sys_clock_time:
  assumes "cmos_time dev (bus (scrn s)) = (h, mi, sec)"
  shows "\<exists>b. sys_clock dev p s = (store_at p [h, mi, sec] s)\<lparr> scrn := (scrn s)\<lparr> bus := b \<rparr> \<rparr>"
proof -
  have "mem_store (mem_store (mem_store m p [h]) (p + 1) [mi]) (p + 2) [sec] = mem_store m p [h, mi, sec]" for m
    using mem_store_append [of "[h]" "[mi]" m p] mem_store_append [of "[h, mi]" "[sec]" m p] by simp
  then show ?thesis
    using assms by (auto simp: sys_clock_def cmos_time_def Let_def store_at_def set_user_mem_def user_mem_def split: prod.splits)
qed

text \<open>C35: A round of the clock, on a machine whose CMOS gives hours, minutes and seconds below 100: it returns,
  row 23 of the screen shows from column 70 on the text of the three numbers, separated by colons and
  followed by a NUL, and each of them is read back from it by \<open>string_to_int\<close>; no other cell of the
  screen changes, nor the cursor, and no memory but the process's own, and of that only the two
  arrays.\<close>

theorem clock_shows_time:
  assumes "length (vram (scrn s)) = 4000" "cmos_time dev (pic_ack 0x30 (bus (scrn s))) = (h, mi, sec)"
    and "h < 100" "mi < 100" "sec < 100"
  shows "\<exists>s' tx. clock_round dev pd_addr fr p q s = Some s' \<and> clock_line tx (vram (scrn s)) (vram (scrn s')) \<and> length tx = 9 \<and>
    string_to_int tx = Some (uint h) \<and> string_to_int (drop 3 tx) = Some (uint mi) \<and> string_to_int (drop 6 tx) = Some (uint sec) \<and>
    tx ! 2 = 58 \<and> tx ! 5 = 58 \<and> cursor_row (scrn s') = cursor_row (scrn s) \<and> cursor_col (scrn s') = cursor_col (scrn s) \<and>
    kern s' = (kern s)\<lparr> space := (space (kern s))(cr3 (kern s) := mem_store (mem_store (user_mem s) p [h, mi, sec]) q tx) \<rparr> \<and>
    kbd s' = kbd s \<and> shl s' = shl s"
proof -
  define tx where "tx = time_str [h, mi, sec]"
  have n: "(SYSCALL = PAGE_FAULT) = False" "(SYSCALL = ucast PIC1_OFFSET + of_nat IRQ_KEYBOARD) = False"
    "(SYSCALL = ucast PIC1_OFFSET + of_nat IRQ_TIMER) = False" "ucast SYSCALL = (0x30 :: u8)"
    by (simp_all add: SYSCALL_def PAGE_FAULT_def PIC1_OFFSET_def IRQ_KEYBOARD_def IRQ_TIMER_def)
  let ?ack = "\<lambda>s. s\<lparr> scrn := (scrn s)\<lparr> bus := pic_ack 0x30 (bus (scrn s)) \<rparr> \<rparr>"
  have call: "syscaLL dev pd_addr fr 16 p 0 0 s = Some (sys_clock dev p (?ack s))"
    "syscaLL dev pd_addr fr 23 q 0 0 s = sys_write_clock q (?ack s)" for p q s
    by (simp_all add: syscaLL_def main_interrupt_handler_def n syscall_def Let_def)
  obtain b where b: "sys_clock dev p (?ack s) = (store_at p [h, mi, sec] (?ack s))\<lparr> scrn := (scrn (?ack s))\<lparr> bus := b \<rparr> \<rparr>"
    using sys_clock_time [of dev "?ack s" h mi sec p] assms(2) by auto
  define s1 where "s1 = (store_at p [h, mi, sec] (?ack s))\<lparr> scrn := (scrn (?ack s))\<lparr> bus := b \<rparr> \<rparr>"
  have m1: "user_mem s1 = mem_store (user_mem s) p [h, mi, sec]" by (simp add: s1_def store_at_def user_mem_def set_user_mem_def)
  then have t1: "mem_load (user_mem s1) p 3 = [h, mi, sec]" by simp
  define s2 where "s2 = store_at q tx s1"
  have "mem_load (user_mem (?ack s2)) q 9 = tx"
    by (simp add: s2_def store_at_def user_mem_def set_user_mem_def tx_def time_str_nth)
  moreover have "length (vram (scrn (?ack s2))) = 4000" using assms(1) by (simp add: s1_def s2_def store_at_def set_user_mem_def)
  ultimately obtain v where v: "sys_write_clock q (?ack s2) = Some ((?ack s2)\<lparr> scrn := (scrn (?ack s2))\<lparr> vram := v \<rparr> \<rparr>)"
    "clock_line tx (vram (scrn (?ack s2))) v"
    using sys_write_clock_shows by blast
  have b: "sys_clock dev p (?ack s) = s1" unfolding b s1_def ..
  have "clock_round dev pd_addr fr p q s = Some ((?ack s2)\<lparr> scrn := (scrn (?ack s2))\<lparr> vram := v \<rparr> \<rparr>)"
    using v(1) by (simp add: clock_round_def call b t1 sleep_def int_range_def Let_def flip: tx_def s2_def)
  moreover have "string_to_int tx = Some (uint h)" "string_to_int (drop 3 tx) = Some (uint mi)" "string_to_int (drop 6 tx) = Some (uint sec)"
    using two_digits [OF assms(3), of 58 "drop 3 tx"] two_digits [OF assms(4), of 58 "drop 6 tx"] two_digits [OF assms(5), of 0 "[]"]
      time_str_nth(3-5) [of "[h, mi, sec]"] by (simp_all add: tx_def is_digit_def)
  moreover have "tx ! 2 = 58" "tx ! 5 = 58" by (simp_all add: tx_def time_str_def)
  ultimately show ?thesis
    using v(2) m1 by (intro exI [of _ "(?ack s2)\<lparr> scrn := (scrn (?ack s2))\<lparr> vram := v \<rparr> \<rparr>"] exI [of _ tx])
      (simp add: s1_def s2_def store_at_def set_user_mem_def user_mem_def tx_def time_str_nth(1))
qed

lemma clock_shows_time_witness:
  "\<exists>s'. clock_round (\<lambda>_ _. 59) (\<lambda>_. 0) \<lparr> f_cpu = zero_cpu, int_number = 0, error_code = 0, f_eip = 0, f_cs = 0, f_eflags = 0 \<rparr>
     0x100 0x200 machine0 = Some s' \<and> cell (vram (scrn s')) 23 72 = (58, 0xF)"
proof -
  have "length (vram (scrn machine0)) = 4000" by (simp add: machine0_def)
  moreover have "cmos_time (\<lambda>_ _. 59) (pic_ack 0x30 (bus (scrn machine0))) = (59, 59, 59)"
    by (simp add: cmos_time_def cmos_read_def inb_def Let_def)
  ultimately obtain s' tx where
    "clock_round (\<lambda>_ _. 59) (\<lambda>_. 0) \<lparr> f_cpu = zero_cpu, int_number = 0, error_code = 0, f_eip = 0, f_cs = 0, f_eflags = 0 \<rparr>
       0x100 0x200 machine0 = Some s'" "clock_line tx (vram (scrn machine0)) (vram (scrn s'))" "tx ! 2 = 58"
    using clock_shows_time [of machine0 "\<lambda>_ _. 59" 59 59 59 "\<lambda>_. 0"] by (force simp: word_less_def)
  then show ?thesis by (auto simp: clock_line_def)
qed

end
