(* ===== verification/Tokens.thy ===== *)
theory Tokens
  imports ShellDigits
begin

text \<open>
  The tokenizers of \<open>src/src/string.c\<close>, \<open>strtok\<close> and \<open>custom_strtok\<close>, and the conversion of a number
  to text and back.  A string is an array, a pointer into it an offset, a null pointer \<open>None\<close>; the
  static variable is part of the state.
\<close>

unbundle bit_operations_syntax

section \<open>strtok\<close>

text \<open>The inner loop: from \<open>i\<close> on for the character \<open>d\<close>, up to the NUL.\<close>

function strtok_scan :: "u8 list \<Rightarrow> u8 \<Rightarrow> nat \<Rightarrow> nat option option" where
  "strtok_scan buf d i =
     (case arr_get buf i of None \<Rightarrow> None
      | Some c \<Rightarrow> if c = 0 then Some None else if c = d then Some (Some i) else strtok_scan buf d (Suc i))"
  by pat_completeness auto
termination
  by (relation "measure (\<lambda>(buf, d, i). length buf - i)") (auto simp: arr_get_eq_Some)

declare strtok_scan.simps [simp del]

text \<open>The outer loop, over the delimiters: the first delimiter that occurs at all.\<close>

function strtok_delims :: "u8 list \<Rightarrow> u8 list \<Rightarrow> nat \<Rightarrow> nat \<Rightarrow> nat option option" where
  "strtok_delims buf delim j last_token =
     (case arr_get delim j of None \<Rightarrow> None
      | Some d \<Rightarrow>
          if d = 0 then Some None
          else (case strtok_scan buf d last_token of None \<Rightarrow> None
                | Some (Some tmp) \<Rightarrow> Some (Some tmp)
                | Some None \<Rightarrow> strtok_delims buf delim (Suc j) last_token))"
  by pat_completeness auto
termination
  by (relation "measure (\<lambda>(buf, delim, j, l). length delim - j)") (auto simp: arr_get_eq_Some)

declare strtok_delims.simps [simp del]

text \<open>The state is the array and the static pointer; the result is the token.\<close>

definition strtok :: "nat option \<Rightarrow> u8 list \<Rightarrow> u8 list \<times> nat option \<Rightarrow> (nat option \<times> u8 list \<times> nat option) option" where
  "strtok str delim st =
     (let (buf, last_token) = st;
          last_token = (if str \<noteq> None then str else last_token)
      in case last_token of
           None \<Rightarrow> Some (None, buf, None)
         | Some p \<Rightarrow>
             (case strtok_delims buf delim 0 p of
                None \<Rightarrow> None
              | Some (Some tmp) \<Rightarrow> Some (Some p, buf[tmp := 0], Some (tmp + 1))
              | Some None \<Rightarrow> Some (Some p, buf, None)))"

text \<open>A program's loop over the tokens: \<open>strtok(s, delim)\<close>, then \<open>strtok(NULL, delim)\<close> until it gives a
  null pointer, and the texts of the tokens.\<close>

fun strtok_tokens :: "nat \<Rightarrow> nat option \<Rightarrow> u8 list \<Rightarrow> u8 list \<times> nat option \<Rightarrow> u8 list list option" where
  "strtok_tokens 0 str delim st = None"
| "strtok_tokens (Suc n) str delim st =
     do { (tok, st) \<leftarrow> strtok str delim st;
          case tok of None \<Rightarrow> Some []
          | Some p \<Rightarrow> do { rest \<leftarrow> strtok_tokens n None delim st; Some (c_text (drop p (fst st)) # rest) } }"

text \<open>The pieces of a text between the occurrences of a character, empty ones included.\<close>

fun pieces :: "u8 \<Rightarrow> u8 list \<Rightarrow> u8 list list" where
  "pieces d [] = [[]]"
| "pieces d (c # cs) = (if c = d then [] # pieces d cs else (c # hd (pieces d cs)) # tl (pieces d cs))"

lemma strtok_scan_eq:
  assumes "0 \<notin> set xs" "d \<noteq> 0"
  shows "strtok_scan (pre @ xs @ 0 # rest) d (length pre) =
    Some (if d \<in> set xs then Some (length pre + length (takeWhile (\<lambda>c. c \<noteq> d) xs)) else None)"
  using assms(1)
proof (induction xs arbitrary: pre)
  case Nil
  then show ?case by (simp add: strtok_scan.simps [of _ d])
next
  case (Cons c xs)
  then show ?case
    using Cons.IH [of "pre @ [c]"] by (simp add: strtok_scan.simps [of _ d "length pre"] nth_append)
qed

lemma strtok_one:
  assumes "0 \<notin> set xs" "d \<noteq> 0"
  shows "strtok_delims (pre @ xs @ 0 # rest) [d, 0] 0 (length pre) =
    Some (if d \<in> set xs then Some (length pre + length (takeWhile (\<lambda>c. c \<noteq> d) xs)) else None)"
  using assms strtok_scan_eq [OF assms, of pre rest]
  by (simp add: strtok_delims.simps [of _ _ 0] strtok_delims.simps [of _ _ "Suc 0"])

lemma pieces_none: "d \<notin> set xs \<Longrightarrow> pieces d xs = [xs]"
  by (induction xs) auto

lemma pieces_split: "d \<notin> set w \<Longrightarrow> pieces d (w @ d # ys) = w # pieces d ys"
  by (induction w) auto

lemma pieces_nonempty: "pieces d xs \<noteq> []"
  by (induction xs) auto

lemma strtok_rest:
  assumes "0 \<notin> set xs" "d \<noteq> 0" "length xs < n" "str = Some (length pre) \<or> str = None \<and> old = Some (length pre)"
  shows "strtok_tokens (Suc n) str [d, 0] (pre @ xs @ 0 # rest, old) = Some (pieces d xs)"
  using assms(1,3,4)
proof (induction n arbitrary: xs pre str old)
  case (Suc n)
  let ?buf = "pre @ xs @ 0 # rest"
  have l: "(if str \<noteq> None then str else old) = Some (length pre)" using Suc.prems(3) by auto
  show ?case
  proof (cases "d \<in> set xs")
    case False
    then have "strtok str [d, 0] (?buf, old) = Some (Some (length pre), ?buf, None)"
      using strtok_one [OF Suc.prems(1) assms(2), of pre rest] l by (simp add: strtok_def)
    then show ?thesis using False Suc.prems(1) by (simp add: pieces_none strtok_def)
  next
    case True
    obtain w ys where xs: "xs = w @ d # ys" and w: "d \<notin> set w" using split_list_first [OF True] by blast
    then have tw: "takeWhile (\<lambda>c. c \<noteq> d) xs = w" by (subst xs, subst takeWhile_append2) auto
    have b: "?buf[length pre + length w := 0] = (pre @ w @ [0]) @ ys @ 0 # rest" by (simp add: xs list_update_append)
    have "strtok str [d, 0] (?buf, old) = Some (Some (length pre), (pre @ w @ [0]) @ ys @ 0 # rest, Some (length pre + length w + 1))"
      using strtok_one [OF Suc.prems(1) assms(2), of pre rest] l True b by (simp add: strtok_def tw)
    moreover have "strtok_tokens (Suc n) None [d, 0] ((pre @ w @ [0]) @ ys @ 0 # rest, Some (length pre + length w + 1)) = Some (pieces d ys)"
      using Suc.prems(1,2) xs by (intro Suc.IH) auto
    moreover have "c_text (w @ 0 # ys @ 0 # rest) = w" using Suc.prems(1) xs by simp
    ultimately show ?thesis using w by (subst strtok_tokens.simps(2)) (simp add: xs pieces_split del: strtok_tokens.simps)
  qed
qed simp

text \<open>A loop over the tokens of a string with \<open>strtok\<close> and one delimiter ends and gives the pieces
  between the occurrences of the delimiter, in their order and with the empty ones, which the standard
  function skips; joined with the delimiter they are the string.\<close>

theorem strtok_pieces:
  assumes "0 \<notin> set xs" "d \<noteq> 0"
  shows "\<exists>ts. strtok_tokens (length xs + 2) (Some 0) [d, 0] (xs @ 0 # rest, old) = Some ts \<and>
    concat (map (\<lambda>t. d # t) ts) = d # xs \<and> (\<forall>t \<in> set ts. d \<notin> set t)"
proof -
  have "strtok_tokens (length xs + 2) (Some 0) [d, 0] (xs @ 0 # rest, old) = Some (pieces d xs)"
    using strtok_rest [OF assms, of "length xs + 1" "Some 0" "[]"] by simp
  moreover have "concat (map (\<lambda>t. d # t) (pieces d xs)) = d # xs \<and> (\<forall>t \<in> set (pieces d xs). d \<notin> set t)"
  proof (induction xs)
    case (Cons c cs)
    obtain t ts where "pieces d cs = t # ts" using pieces_nonempty [of d cs] by (cases "pieces d cs") auto
    with Cons show ?case by auto
  qed simp
  ultimately show ?thesis by blast
qed

lemma strtok_pieces_witness:
  "\<exists>ts. strtok_tokens 6 (Some 0) (cstr0 '','') (cstr0 ''a,,b'', None) = Some ts \<and> concat (map (\<lambda>t. 44 # t) ts) = cstr '',a,,b''"
proof -
  have s: "0 \<notin> set (cstr ''a,,b'')" "length (cstr ''a,,b'') + 2 = 6" "cstr0 '','' = [44, 0]" "cstr0 ''a,,b'' = cstr ''a,,b'' @ 0 # []"
    "cstr '',a,,b'' = 44 # cstr ''a,,b''"
    by (simp_all add: cstr_def cstr0_def)
  show ?thesis using strtok_pieces [OF s(1), of 44 "[]" None] unfolding s(2-5) by auto
qed

text \<open>With several delimiters the first of the list that occurs in the string counts, not the first
  that occurs: the token is \<open>a,b\<close>.\<close>

lemma strtok_order: "strtok (Some 0) (cstr0 '';,'') (cstr0 ''a,b;c'', None) = Some (Some 0, cstr ''a,b'' @ 0 # cstr0 ''c'', Some 4)"
  by code_simp

section \<open>custom_strtok\<close>

function is_delim :: "u8 list \<Rightarrow> nat \<Rightarrow> u8 \<Rightarrow> bool option" where
  "is_delim delim j c =
     (case arr_get delim j of None \<Rightarrow> None
      | Some d \<Rightarrow> if d = 0 then Some False else if c = d then Some True else is_delim delim (Suc j) c)"
  by pat_completeness auto
termination
  by (relation "measure (\<lambda>(delim, j, c). length delim - j)") (auto simp: arr_get_eq_Some)

declare is_delim.simps [simp del]

text \<open>The loop; after a delimiter at the start of the token \<open>break\<close> leaves the inner loop, and
  \<open>saved_str\<close> is advanced a second time.\<close>

function custom_loop :: "u8 list \<Rightarrow> u8 list \<Rightarrow> nat \<Rightarrow> nat \<Rightarrow> (nat option \<times> u8 list \<times> nat option) option" where
  "custom_loop delim buf saved_str token =
     (case arr_get buf saved_str of None \<Rightarrow> None
      | Some c \<Rightarrow>
          if c = 0
          then do { t \<leftarrow> arr_get buf token; Some (if t = 0 then (None, buf, Some saved_str) else (Some token, buf, None)) }
          else (case is_delim delim 0 c of None \<Rightarrow> None
                | Some False \<Rightarrow> custom_loop delim buf (saved_str + 1) token
                | Some True \<Rightarrow>
                    (case arr_get (buf[saved_str := 0]) token of None \<Rightarrow> None
                     | Some t \<Rightarrow>
                         if t \<noteq> 0 then Some (Some token, buf[saved_str := 0], Some (saved_str + 1))
                         else custom_loop delim (buf[saved_str := 0]) (saved_str + 2) (saved_str + 1))))"
  by pat_completeness auto
termination
  by (relation "measure (\<lambda>(delim, buf, i, t). length buf - i)") (auto simp: arr_get_eq_Some)

declare custom_loop.simps [simp del]

definition custom_strtok :: "nat option \<Rightarrow> u8 list \<Rightarrow> u8 list \<times> nat option \<Rightarrow> (nat option \<times> u8 list \<times> nat option) option" where
  "custom_strtok str delim st =
     (case (if str \<noteq> None then str else snd st) of None \<Rightarrow> None
      | Some p \<Rightarrow> custom_loop delim (fst st) p p)"

text \<open>A token followed by a delimiter, and the last token.\<close>

lemma is_delim_nonzero: "is_delim delim j c = Some True \<Longrightarrow> c \<noteq> 0"
proof (induction delim j c rule: is_delim.induct)
  case (1 delim j c)
  then show ?case by (cases "arr_get delim j") (auto simp: is_delim.simps [of delim j c] split: if_splits)
qed

lemma custom_skip:
  assumes "\<forall>c \<in> set w. c \<noteq> 0 \<and> is_delim delim 0 c = Some False"
  shows "custom_loop delim (pre @ w @ rest) (length pre) token = custom_loop delim (pre @ w @ rest) (length pre + length w) token"
  using assms
proof (induction w arbitrary: pre)
  case (Cons c w)
  then show ?case using Cons.IH [of "pre @ [c]"] by (simp add: custom_loop.simps [of _ _ "length pre"] nth_append)
qed simp

lemma custom_strtok_token:
  assumes "w \<noteq> []" "\<forall>c \<in> set w. c \<noteq> 0 \<and> is_delim delim 0 c = Some False" "is_delim delim 0 d = Some True"
  shows "custom_strtok (Some (length pre)) delim (pre @ w @ d # rest, old) =
      Some (Some (length pre), pre @ w @ 0 # rest, Some (length pre + length w + 1))"
    and "custom_strtok (Some (length pre)) delim (pre @ w @ 0 # rest, old) = Some (Some (length pre), pre @ w @ 0 # rest, None)"
proof -
  obtain c w' where w: "w = c # w'" "c \<noteq> 0" using assms(1,2) by (cases w) auto
  show "custom_strtok (Some (length pre)) delim (pre @ w @ d # rest, old) =
      Some (Some (length pre), pre @ w @ 0 # rest, Some (length pre + length w + 1))"
    using custom_skip [OF assms(2), of pre "d # rest" "length pre"] assms(3) is_delim_nonzero [OF assms(3)] w
    by (simp add: custom_strtok_def custom_loop.simps [of _ _ "Suc (length pre + length w')"] nth_append list_update_append)
  show "custom_strtok (Some (length pre)) delim (pre @ w @ 0 # rest, old) = Some (Some (length pre), pre @ w @ 0 # rest, None)"
    using custom_skip [OF assms(2), of pre "0 # rest" "length pre"] w
    by (simp add: custom_strtok_def custom_loop.simps [of _ _ "Suc (length pre + length w')"] nth_append)
qed

text \<open>Of two delimiters at the start the second becomes part of the token; a string that is a delimiter
  only is left at its end.\<close>

lemma custom_strtok_short:
  "custom_strtok (Some 0) (cstr0 '','') (cstr0 '',,a'', None) = Some (Some 1, 0 # cstr0 '',a'', None)"
  "custom_strtok (Some 0) (cstr0 '','') (cstr0 '','', None) = None"
  by code_simp+

section \<open>Numbers as text\<close>

text \<open>The text that \<open>puts_integer\<close> makes of a number that is not negative is read back by
  \<open>string_to_int\<close> as that number; of a number from -9 to -1 it makes one character that is no digit, which
  is read back as 0.\<close>

theorem integer_text_value:
  assumes "0 \<le> n" "n < 2 ^ 31" "- 10 < m" "m < 0"
  shows "(\<exists>t. integer_text n = Some t \<and> string_to_int t = Some n) \<and>
    (\<exists>c. integer_text m = Some (c # 0 # replicate 18 0) \<and> \<not> is_digit c \<and> string_to_int (c # 0 # replicate 18 0) = Some 0)"
proof -
  have "integer_text n = Some (number_text n @ 0 # replicate (19 - length (number_text n)) 0)"
    using assms(1,2) by (intro integer_text_eq) simp
  moreover have "number_text n \<noteq> []" by (simp add: number_text_def rev_digits.simps [of n])
  then have "string_to_int (number_text n @ 0 # replicate (19 - length (number_text n)) 0) = Some n"
    using string_to_int_eq(1) [of "number_text n" 0 "replicate (19 - length (number_text n)) 0"] rev_digits_value [OF assms(1)] assms(2)
    by (simp add: number_text_def is_digit_def)
  moreover have d: "m sdiv 10 = 0" "m smod 10 = m"
    using assms(3,4) by (simp_all add: signed_divide_int_def signed_modulo_int_def sgn_if)
  then have t: "number_text m = [word_of_int (48 + m)]" by (simp add: number_text_def rev_digits.simps [of m])
  have "\<bar>m\<bar> < 10 ^ 19" using assms(3,4) by simp
  from integer_text_eq [OF this] have "integer_text m = Some (word_of_int (48 + m) # 0 # replicate 18 0)" by (simp add: t)
  moreover have u: "uint (word_of_int (48 + m) :: u8) = 48 + m" using assms(3,4) by (intro uint_digit) simp_all
  have nd: "\<not> is_digit (word_of_int (48 + m))" using assms(4) u by (simp add: is_digit_def word_le_def)
  moreover have "string_to_int (c # 0 # replicate 18 0) = Some 0" if "\<not> is_digit c" for c
    using string_to_int_eq(1) [of "[]" c "0 # replicate 18 0"] string_to_int_eq(2) [of "[]" 0 "replicate 18 0"] that
    by (cases "c = 45") (simp_all add: is_digit_def)
  ultimately show ?thesis by blast
qed

lemma integer_text_value_witness:
  "(\<exists>t. integer_text 512 = Some t \<and> string_to_int t = Some 512) \<and>
   (\<exists>c. integer_text (- 1) = Some (c # 0 # replicate 18 0) \<and> \<not> is_digit c)"
  using integer_text_value [of 512 "- 1"] by (simp del: replicate.simps) blast

end
