(* ===== verification/Inserter.thy ===== *)
theory Inserter
  imports ShellVol
begin

text \<open>
  The image tool, \<open>src/src/external-inserter.c\<close>: it runs on the host with the file system of \<open>fat32.c\<close> on
  a disk image in memory, whose block store is in theory \<open>Disk\<close>, and puts a file into the image.  The
  host's files are arguments: \<open>target\<close> is the content of the file to insert, \<open>None\<close> when it cannot be
  opened, and the image is the storage file's content; what \<open>malloc\<close>ed memory holds before it is
  written is \<open>heap\<close>.
\<close>

unbundle bit_operations_syntax

section \<open>The program\<close>

text \<open>\<open>sscanf\<close> with \<open>%u\<close> and with \<open>%8s\<close>: white space is skipped; when nothing matches, the object keeps its
  value; a number that does not fit has no defined result.\<close>

definition is_space :: "u8 \<Rightarrow> bool" where
  "is_space c = (c = 32 \<or> 9 \<le> c \<and> c \<le> 13)"

definition sscanf_u :: "u8 list \<Rightarrow> u32 \<Rightarrow> u32 option" where
  "sscanf_u str old =
     (let t = dropWhile is_space str;
          neg = (t \<noteq> [] \<and> hd t = 45);
          ds = takeWhile is_digit (if t \<noteq> [] \<and> hd t \<in> {43, 45} then tl t else t);
          v = dec_value 0 ds
      in if ds = [] then Some old
         else if v < 2 ^ 32 then Some (if neg then - word_of_int v else word_of_int v) else None)"

text \<open>The name and the extension are the 11 bytes from \<open>request.name\<close> on; the NUL after eight characters
  falls on the extension.\<close>

definition sscanf_8s :: "u8 list \<Rightarrow> u8 list \<Rightarrow> u8 list" where
  "sscanf_8s str name_ext =
     (let w = take 8 (takeWhile (\<lambda>c. \<not> is_space c) (dropWhile is_space str))
      in if w = [] then name_ext else overwrite name_ext 0 (w @ [0]))"

text \<open>What \<open>main\<close> prints at its end, by the code of \<open>write\<close>.\<close>

definition outcome :: "int \<Rightarrow> string" where
  "outcome retcode =
     (if retcode = 0 then ''Write success''
      else if retcode = 1 then ''Error: File/folder name already exist''
      else if retcode = 2 then ''Error: Invalid parent cluster''
      else ''Error: Unknown error'')"

text \<open>The driver's static state before its initialisation.\<close>

definition tool_state :: "image \<Rightarrow> fs" where
  "tool_state im = \<lparr> image = im, cluster_map = replicate 512 0, dir_table_buf = zero_table \<rparr>"

text \<open>The request; the pointer to \<open>file_buffer\<close> is 0 in the memory that has the file at 0.\<close>

definition tool_request :: "u8 list \<Rightarrow> u8 list \<Rightarrow> nat \<Rightarrow> request option" where
  "tool_request argv1 argv2 filesize' =
     do { parent \<leftarrow> sscanf_u argv2 0;
          let ne = sscanf_8s argv1 (replicate 11 0);
          Some \<lparr> r_buf = 0, r_name = take 8 ne, r_ext = drop 8 ne, parent_cluster_number = parent,
                 buffer_size = of_nat filesize' \<rparr> }"

text \<open>\<open>main\<close>: the text that is printed last, the exit status and the storage file afterwards.  A target of
  more than 4 MiB does not fit the buffer.\<close>

definition inserter :: "mem \<Rightarrow> u8 list list \<Rightarrow> u8 list option \<Rightarrow> image \<Rightarrow> (string \<times> int \<times> image) option" where
  "inserter heap argv target image_storage =
     (if length argv < 4
      then Some (''inserter: ./inserter <file to insert> <parent cluster index> <storage>'', 1, image_storage)
      else if (case target of None \<Rightarrow> False | Some bs \<Rightarrow> 4194304 < length bs) then None
      else
        do { let file_buffer = (case target of None \<Rightarrow> heap | Some bs \<Rightarrow> mem_store heap 0 bs);
             let filesize' = (case target of None \<Rightarrow> 0 | Some bs \<Rightarrow> length bs);
             s \<leftarrow> initialize_filesystem_fat32 (tool_state image_storage);
             r \<leftarrow> tool_request (argv ! 1) (argv ! 2) filesize';
             (retcode, s) \<leftarrow> write_fat r file_buffer s;
             Some (outcome retcode, 0, image s) })"

section \<open>A file that is inserted is there when the kernel mounts the image\<close>

lemma vol_ok_buf: "vol_ok (s\<lparr> dir_table_buf := t \<rparr>) D = vol_ok s D" "volume (s\<lparr> dir_table_buf := t \<rparr>) = volume s"
proof -
  have c: "cluster_at (s\<lparr> dir_table_buf := t \<rparr>) x = cluster_at s x" for x by (simp add: cluster_at_def)
  have d: "dir_at (s\<lparr> dir_table_buf := t \<rparr>) x = dir_at s x" for x by (simp add: dir_at_def)
  show "vol_ok (s\<lparr> dir_table_buf := t \<rparr>) D = vol_ok s D" by (simp add: vol_ok_def used_def slot_def c d)
  have "load_dir (s\<lparr> dir_table_buf := t \<rparr>) x = load_dir s x" for x by (simp add: load_dir_def)
  then have "volume (load_dir (s\<lparr> dir_table_buf := t \<rparr>) 0) = volume (load_dir s 0)" by simp
  then show "volume (s\<lparr> dir_table_buf := t \<rparr>) = volume s" unfolding volume_load by simp
qed

lemma mount_any:
  assumes "vol_ok s D" "image k = image s"
  shows "\<exists>k'. initialize_filesystem_fat32 k = Some k' \<and> vol_ok k' D \<and> volume k' = volume s"
proof -
  let ?s = "s\<lparr> dir_table_buf := dir_table_buf k \<rparr>"
  have "k = ?s\<lparr> cluster_map := cluster_map k \<rparr>" using assms(2) by (cases k) simp
  moreover have "vol_ok ?s D" using assms(1) by (simp add: vol_ok_buf)
  ultimately show ?thesis using mount_eq [of ?s D "cluster_map k"] vol_ok_buf by metis
qed

text \<open>The request for a name of at most eight characters without white space.\<close>

lemma tool_request_eq:
  assumes "nm \<noteq> []" "length nm \<le> 8" "\<forall>c \<in> set nm. \<not> is_space c" "sscanf_u par 0 = Some c"
  shows "tool_request nm par n = Some (make_request (pad 8 nm) (replicate 3 0) c (of_nat n))"
proof -
  have dw: "dropWhile is_space nm = nm" using assms(1,3) by (cases nm) auto
  have tw: "takeWhile (\<lambda>c. \<not> is_space c) nm = nm" using assms(3) by (simp add: takeWhile_eq_all_conv)
  have "sscanf_8s nm (replicate 11 0) = overwrite (replicate 11 0) 0 (nm @ [0])"
    unfolding sscanf_8s_def Let_def dw tw using assms(1,2) by simp
  also have "\<dots> = nm @ replicate (11 - length nm) 0"
    using assms(2) by (simp add: overwrite_def Suc_diff_le flip: replicate_Suc)
  also have "\<dots> = pad 8 nm @ replicate 3 0"
    using assms(2) by (simp add: pad_def flip: replicate_add)
  finally show ?thesis using assms(2,4) by (simp add: tool_request_def make_request_def)
qed

text \<open>C34: The tool, given a file of at most 4 MiB that is not empty, a name of at most eight characters without
  white space and the number of a folder that has room, no such name and no mark of a deleted folder in the slot for the
  new entry, on an image that mounts as a consistent volume (or was just formatted): it reports success, and every kernel that mounts the image it
  leaves, whatever its driver's state, finds a consistent volume in which the folder has the file
  with exactly its bytes and nothing else has changed.\<close>

theorem inserter_then_boot:
  assumes "initialize_filesystem_fat32 (tool_state im) = Some s" "vol_ok s D"
    and "nm \<noteq> []" "length nm \<le> 8" "hd nm \<noteq> 0" "\<forall>c \<in> set nm. \<not> is_space c"
    and "sscanf_u par 0 = Some (of_nat p)" "p \<in> D"
    and "volume s p (pad 8 nm, replicate 3 0) = None" "bs \<noteq> []" "length bs \<le> 4194304" "room_for s p (length bs)" "\<not> slot_tainted s p"
  shows "\<exists>im'. inserter heap [prog, nm, par, store] (Some bs) im = Some (''Write success'', 0, im') \<and>
    (\<forall>k. image k = im' \<longrightarrow> (\<exists>k'. initialize_filesystem_fat32 k = Some k' \<and> vol_ok k' D \<and>
      volume k' p = (volume s p)((pad 8 nm, replicate 3 0) \<mapsto> File bs) \<and> (\<forall>d \<in> D - {p}. volume k' d = volume s d)))"
proof -
  let ?r = "make_request (pad 8 nm) (replicate 3 0) (of_nat p) (of_nat (length bs))" and ?m = "mem_store heap 0 bs"
  have "hd (pad 8 nm) = hd nm" using assms(3) by (cases nm) (simp_all add: pad_def)
  then have "pad 8 nm \<noteq> replicate 8 0" using assms(5) by (metis hd_replicate zero_neq_numeral)
  then have en: "entry_name (pad 8 nm) (replicate 3 0)" "key_for (pad 8 nm) (replicate 3 0) = (pad 8 nm, replicate 3 0)"
    using assms(4) by (simp_all add: entry_name_def key_for_def zero_key_def)
  note r = make_request_ok [OF en(1), of "of_nat p" "of_nat (length bs)"]
  have u: "unat (of_nat (length bs) :: u32) = length bs" using assms(11) by (intro unat_of_nat_u32) simp
  then have nz: "buffer_size ?r \<noteq> 0" using assms(10) by (metis make_request_simps(4) unsigned_0 length_0_conv)
  note room = assms(12) [unfolded room_for_def]
  have "fits s ?r" using room by (simp add: fits_def)
  then obtain s' where w: "write_fat ?r ?m s = Some (0, s')"
    using write_room [OF assms(2,8) _ r(1,3), of ?m] assms(9) room r(2) en(2) by auto
  have v: "vol_ok s' D" "volume s' p = (volume s p)((pad 8 nm, replicate 3 0) \<mapsto> File bs)" "\<forall>d \<in> D - {p}. volume s' d = volume s d"
    using write_file_step [OF assms(2,8) _ r(1,3) nz assms(13) w] r(2) en(2) u assms(11) by (simp_all add: make_request_def)
  have "inserter heap [prog, nm, par, store] (Some bs) im = Some (''Write success'', 0, image s')"
    using assms(1,11) w tool_request_eq [OF assms(3,4,6,7), of "length bs"] by (simp add: inserter_def outcome_def)
  then show ?thesis using mount_any [OF v(1)] v(2,3) by fastforce
qed

lemma blank_mount: "initialize_filesystem_fat32 (tool_state (\<lambda>_. 0)) = Some fs0"
proof -
  have t: "tool_state (\<lambda>_. 0) = blank" by (simp add: tool_state_def blank_def)
  have s: "length fs_signature = 512" "fs_signature ! 0 \<noteq> 0" by code_simp+
  have rb: "read_blocks (image blank) 0 1 = replicate 512 0"
    by (simp add: read_blocks_load blank_def mem_load_def map_replicate_const)
  have "take 512 (replicate 512 0) ! 0 \<noteq> take 512 fs_signature ! 0" using s by simp
  then have "take 512 (replicate 512 0) \<noteq> take 512 fs_signature" by metis
  then obtain r where "memcmp (replicate 512 0) fs_signature 512 = Some r" "r \<noteq> 0"
    using memcmp_total [of 512 "replicate 512 0" fs_signature] memcmp_take [of 512 "replicate 512 0" fs_signature] s(1) by auto
  then have "is_empty_storage blank = Some True" by (simp add: is_empty_storage_def rb)
  then show ?thesis using create_fat32_eq [of blank] by (simp add: t initialize_filesystem_fat32_def fs0_def blank_def)
qed

lemma inserter_then_boot_witness:
  "\<exists>im'. inserter (\<lambda>_. 0) [cstr ''inserter'', cstr ''shell'', cstr ''2'', cstr ''storage.bin''] (Some (replicate 5000 7)) (\<lambda>_. 0) =
     Some (''Write success'', 0, im')"
proof -
  have nm: "cstr ''shell'' \<noteq> []" "length (cstr ''shell'') \<le> 8" "hd (cstr ''shell'') \<noteq> 0" "\<forall>c \<in> set (cstr ''shell''). \<not> is_space c"
    by code_simp+
  have par: "sscanf_u (cstr ''2'') 0 = Some (of_nat 2)" by code_simp
  have "clusters_for (of_nat (length (replicate 5000 (7 :: u8)))) = 3" by (simp add: clusters_for_def)
  moreover have "has_room fs0 2" unfolding has_room_def using fs0_unused fs0_map free_empty_fat
    by (intro conjI exI [of _ 2]) simp_all
  ultimately have room: "room_for fs0 2 (length (replicate 5000 (7 :: u8)))"
    by (simp add: room_for_def fs0_map free_empty_fat)
  have "volume fs0 2 (pad 8 (cstr ''shell''), replicate 3 0) = None" "2 \<in> {2 :: nat}" "replicate 5000 (7 :: u8) \<noteq> []"
    "length (replicate 5000 (7 :: u8)) \<le> 4194304"
    using fs0_ok(2) by simp_all
  from inserter_then_boot [OF blank_mount fs0_ok(1) nm par this(2,1,3,4) room fs0_clean] show ?thesis by blast
qed

end
