(* ===== verification/CallsRefine.thy ===== *)
theory CallsRefine
  imports ShellHome
begin

text \<open>
  The calls of theory \<open>Calls\<close> are the system calls: on a machine that differs from the session's in the
  memory of the process only, and has the request, the buffers and the strings of the call in that
  memory, \<open>syscall\<close> ends in a machine that corresponds to the session after the call, with the
  results where the process asked for them.
\<close>

unbundle bit_operations_syntax

section \<open>Memory and buffers\<close>

lemma mem_store_load: "n \<le> 2 ^ 32 \<Longrightarrow> mem_store m p (mem_load m p n) = m"
proof
  fix a assume "n \<le> 2 ^ 32"
  have "p + of_nat (unat (a - p)) = a" by simp
  then show "mem_store m p (mem_load m p n) a = m a" by (simp add: mem_store_def)
qed

lemma mem_store_overwrite:
  assumes "off + length c \<le> length buf" "length buf \<le> 2 ^ 32"
  shows "mem_store (mem_store m p buf) (p + of_nat off) c = mem_store m p (overwrite buf off c)"
proof
  fix a
  let ?d = "a - p"
  have e: "a - (p + of_nat off) = ?d - of_nat off" by (simp add: diff_diff_eq)
  show "mem_store (mem_store m p buf) (p + of_nat off) c a = mem_store m p (overwrite buf off c) a"
  proof (cases "off < 2 ^ 32")
    case True
    then have u: "unat (?d - of_nat off) = (if off \<le> unat ?d then unat ?d - off else unat ?d + 2 ^ 32 - off)"
      by (simp add: unat_sub_u32 unat_of_nat_u32)
    show ?thesis
      using assms True u unat_u32_lt [of ?d] by (auto simp: mem_store_def e overwrite_def nth_append)
  next
    case False
    then have "length c = 0" using assms by linarith
    then show ?thesis by (simp add: mem_store_def)
  qed
qed

lemma mem_load_part:
  assumes "mem_load m p n = bs" "i + k \<le> n"
  shows "mem_load m (p + of_nat i) k = take k (drop i bs)"
proof (rule nth_equalityI)
  fix j assume "j < length (mem_load m (p + of_nat i) k)"
  then have j: "j < k" by simp
  then have "take k (drop i bs) ! j = mem_load m p n ! (i + j)" using assms by (auto simp del: nth_mem_load)
  then show "mem_load m (p + of_nat i) k ! j = take k (drop i bs) ! j" using j assms(2) by (simp add: add.assoc)
qed (use assms in auto)

section \<open>The correspondence\<close>

definition runs :: "session \<Rightarrow> machine \<Rightarrow> bool" where
  "runs s m = (\<exists>M. m = set_user_mem M (os s))"

lemma runsD:
  assumes "runs s m"
  shows "k_fs (kern m) = vol s" "scrn m = screen s" "shl m = folder s" "kbd m = kbd (os s)"
    "m = set_user_mem (user_mem m) (os s)"
  using assms by (auto simp: runs_def vol_def screen_def folder_def set_user_mem_def user_mem_def)

lemma runs_store [simp]: "runs s (set_user_mem M m) = runs s m" "runs s (store_at p bs m) = runs s m"
proof -
  show r: "runs s (set_user_mem M m) = runs s m" for M
  proof
    assume "runs s (set_user_mem M m)"
    then obtain M' where "set_user_mem M m = set_user_mem M' (os s)" by (auto simp: runs_def)
    then have "set_user_mem (user_mem m) (set_user_mem M m) = set_user_mem (user_mem m) (set_user_mem M' (os s))" by simp
    then have "m = set_user_mem (user_mem m) (os s)" by (simp add: set_user_mem_def user_mem_def)
    then show "runs s m" by (auto simp: runs_def)
  qed (auto simp: runs_def set_user_mem_def)
  then show "runs s (store_at p bs m) = runs s m" by (simp add: store_at_def)
qed

lemma runs_vol: "runs s m \<Longrightarrow> runs (set_vol f s) (set_fs f m)"
proof -
  assume "runs s m"
  then obtain M where "m = set_user_mem M (os s)" by (auto simp: runs_def)
  then have "set_fs f m = set_user_mem M (os (set_vol f s))" by (simp add: set_vol_def set_fs_def set_user_mem_def)
  then show ?thesis by (auto simp: runs_def)
qed

lemma runs_screen: "runs s m \<Longrightarrow> runs (set_screen t s) (m\<lparr> scrn := t \<rparr>)"
proof -
  assume "runs s m"
  then obtain M where "m = set_user_mem M (os s)" by (auto simp: runs_def)
  then have "m\<lparr> scrn := t \<rparr> = set_user_mem M (os (set_screen t s))" by (simp add: set_screen_def set_user_mem_def)
  then show ?thesis by (auto simp: runs_def)
qed

lemma runs_folder: "runs s m \<Longrightarrow> runs (set_folder d s) (m\<lparr> shl := d \<rparr>)"
proof -
  assume "runs s m"
  then obtain M where "m = set_user_mem M (os s)" by (auto simp: runs_def)
  then have "m\<lparr> shl := d \<rparr> = set_user_mem M (os (set_folder d s))" by (simp add: set_folder_def set_user_mem_def)
  then show ?thesis by (auto simp: runs_def)
qed

lemma user_mem_store [simp]: "user_mem (store_at p bs m) = mem_store (user_mem m) p bs"
  by (simp add: store_at_def)

text \<open>The request in memory; its pointer leads to the buffer.\<close>

definition request_in :: "machine \<Rightarrow> u32 \<Rightarrow> request \<Rightarrow> u32 \<Rightarrow> bool" where
  "request_in m p r b = (wf_request r \<and> mem_load (user_mem m) p 23 = encode_request (r\<lparr> r_buf := b \<rparr>))"

lemma request_in_at: "request_in m p r b \<Longrightarrow> request_at m p = r\<lparr> r_buf := b \<rparr>"
  by (simp add: request_in_def request_at_def decode_encode_request wf_request_def)

section \<open>Reading and writing\<close>

lemma read_chain_into_mem:
  assumes "read_chain_into fat im c off buf = Some buf'" "length buf \<le> 2 ^ 32"
  shows "read_chain fat im c (b + of_nat off) (mem_store m b buf) = Some (mem_store m b buf') \<and> length buf' = length buf"
proof -
  have "length buf \<le> 2 ^ 32 \<longrightarrow>
      read_chain fat im c (b + of_nat off) (mem_store m b buf) = Some (mem_store m b buf') \<and> length buf' = length buf"
    using assms(1)
  proof (rule read_chain_into.raw_induct [rotated], intro impI)
    fix rec fat im c off buf buf'
    assume IH: "\<And>fat im c off buf buf'. rec fat im c off buf = Some buf' \<Longrightarrow> length buf \<le> 2 ^ 32 \<longrightarrow>
        read_chain fat im c (b + of_nat off) (mem_store m b buf) = Some (mem_store m b buf') \<and> length buf' = length buf"
      and run: "(if c = FAT32_FAT_END_OF_FILE then Some buf
        else if length buf < off + 2048 then None
        else do { let buf = overwrite buf off (read_clusters im c 1);
                  next \<leftarrow> arr_get fat (unat c);
                  rec fat im next (off + 2048) buf }) = Some buf'"
      and small: "length buf \<le> 2 ^ 32"
    show "read_chain fat im c (b + of_nat off) (mem_store m b buf) = Some (mem_store m b buf') \<and> length buf' = length buf"
    proof (cases "c = FAT32_FAT_END_OF_FILE")
      case True
      then show ?thesis using run by (subst read_chain.simps) simp
    next
      case False
      let ?buf = "overwrite buf off (read_clusters im c 1)"
      have l: "off + 2048 \<le> length buf" using run False by (simp split: if_splits)
      then obtain nx where nx: "arr_get fat (unat c) = Some nx" "rec fat im nx (off + 2048) ?buf = Some buf'"
        using run False by (auto simp: bind_eq_Some_conv split: if_splits)
      have lb: "length ?buf = length buf" using l by simp
      have "read_chain fat im nx (b + of_nat (off + 2048)) (mem_store m b ?buf) = Some (mem_store m b buf') \<and> length buf' = length ?buf"
        using IH [OF nx(2)] small lb by simp
      moreover have "mem_store (mem_store m b buf) (b + of_nat off) (read_clusters im c 1) = mem_store m b ?buf"
        using l small by (intro mem_store_overwrite) simp_all
      ultimately show ?thesis using False nx(1) lb by (simp add: read_chain.simps [of _ _ c] algebra_simps)
    qed
  qed
  then show ?thesis using assms(2) by simp
qed

lemma write_loop_cong:
  assumes "\<And>k. i \<le> k \<Longrightarrow> k < i + n \<Longrightarrow> mem_load m (p + of_nat (k * 2048)) 2048 = mem_load m' (p' + of_nat (k * 2048)) 2048"
  shows "write_loop n i m p idx s = write_loop n i m' p' idx s"
  using assms
proof (induction n arbitrary: i idx s)
  case (Suc n)
  have "mem_load m (p + of_nat (i * 2048)) 2048 = mem_load m' (p' + of_nat (i * 2048)) 2048" using Suc.prems [of i] by simp
  moreover have "write_loop n (Suc i) m p idx s = write_loop n (Suc i) m' p' idx s" for idx s
    using Suc.prems by (intro Suc.IH) simp
  ultimately show ?case by (simp add: Let_def)
qed simp

lemma write_fat_mem:
  assumes "mem_load m b (length data) = data" "2048 * nat (ceil_c (of_nat (unat (buffer_size r)) / 2048)) \<le> length data"
    and "length data \<le> 2 ^ 32"
  shows "write_fat (r\<lparr> r_buf := b \<rparr>) m f = write_fat (r\<lparr> r_buf := 0 \<rparr>) (mem_store (\<lambda>_. 0) 0 data) f"
proof -
  let ?n = "nat (ceil_c (of_nat (unat (buffer_size r)) / 2048))" and ?m = "mem_store (\<lambda>_. 0) 0 data"
  have d: "mem_load ?m 0 (length data) = data" using assms(3) by simp
  have "write_loop ?n 0 m b idx s = write_loop ?n 0 ?m 0 idx s" for idx s
  proof (rule write_loop_cong)
    fix k assume "k < 0 + ?n"
    then have "k * 2048 + 2048 \<le> length data" using assms(2) by (simp add: less_eq_Suc_le)
    then show "mem_load m (b + of_nat (k * 2048)) 2048 = mem_load ?m (0 + of_nat (k * 2048)) 2048"
      using mem_load_part [OF assms(1)] mem_load_part [OF d] by metis
  qed
  moreover have "addEntry t (r\<lparr> r_buf := b \<rparr>) i c = addEntry t (r\<lparr> r_buf := 0 \<rparr>) i c" for t i c by (simp add: addEntry_def)
  ultimately show ?thesis by (simp add: write_fat_def Let_def cong: Option.bind_cong if_cong)
qed

text \<open>C26: The shell's \<open>read\<close> into a buffer that is large enough is system call 0: on the machine of the
  session, with the request and the buffer in the memory of the process, the system call returns, the
  machine corresponds to the session after the call, and of the process's memory the buffer has
  become what the call gives and the byte for the code is the code, nothing else has changed.\<close>

theorem call_read_refines:
  assumes "runs s m" "request_in m (ebx fr) r b" "mem_load (user_mem m) b (length buf) = buf" "length buf \<le> 2 ^ 32"
    and "eax fr = 0" "call_read r buf s = Some (c, buf', s')"
  shows "\<exists>m'. syscall dev pd_addr fr m = Some m' \<and> runs s' m' \<and> length buf' = length buf \<and>
    user_mem m' = mem_store (mem_store (user_mem m) b buf') (ecx fr) (int8_byte c)"
proof -
  let ?s = "load_dir (vol s) (parent_cluster_number r)" and ?M = "user_mem m"
  have M: "mem_store ?M b buf = ?M" using mem_store_load [of "length buf" ?M b] assms(3,4) by simp
  obtain f where f: "read_into r buf (vol s) = Some (c, buf', f)" "s' = set_vol f s"
    using assms(6) by (auto simp: call_read_def bind_eq_Some_conv)
  have "read_fat (r\<lparr> r_buf := b \<rparr>) ?M (vol s) = Some (c, mem_store ?M b buf', f) \<and> length buf' = length buf"
  proof (cases "\<exists>e. read_chain_into (cluster_map (vol s)) (image (vol s)) e 0 buf = Some buf'")
    case True
    then have "length buf' = length buf" using read_chain_into_mem [OF _ assms(4)] by blast
    moreover have "read_chain (cluster_map (vol s)) (image (vol s)) e b ?M = Some (mem_store ?M b buf')"
      if "read_chain_into (cluster_map (vol s)) (image (vol s)) e 0 buf = Some buf'" for e
      using read_chain_into_mem [OF that assms(4), of b ?M] M by simp
    ultimately show ?thesis using f(1) M
      by (auto simp: read_into_def read_fat_def Let_def bind_eq_Some_conv split: if_splits)
  next
    case False
    then show ?thesis using f(1) M by (auto simp: read_into_def read_fat_def Let_def bind_eq_Some_conv split: if_splits)
  qed
  then have "syscall dev pd_addr fr m = Some (store_at (ecx fr) (int8_byte c) (set_user_mem (mem_store ?M b buf') (set_fs f m)))"
    and len: "length buf' = length buf"
    using assms(5) request_in_at [OF assms(2)] runsD(1) [OF assms(1)] by (simp_all add: syscall_def)
  then show ?thesis using runs_vol [OF assms(1), of f] f(2) by auto
qed

text \<open>C27: The shell's \<open>write\<close> is system call 2, for data of the size that the request needs: the system call
  returns, the machine corresponds to the session after the call, and of the process's memory only
  the byte for the code has changed.\<close>

theorem call_write_refines:
  assumes "runs s m" "request_in m (ebx fr) r b" "mem_load (user_mem m) b (length data) = data" "length data \<le> 2 ^ 32"
    and "eax fr = 2" "call_write r data s = Some (c, s')"
  shows "\<exists>m'. syscall dev pd_addr fr m = Some m' \<and> runs s' m' \<and> user_mem m' = mem_store (user_mem m) (ecx fr) (int8_byte c)"
proof -
  obtain f where f: "write_fat (r\<lparr> r_buf := 0 \<rparr>) (mem_store (\<lambda>_. 0) 0 data) (vol s) = Some (c, f)" "s' = set_vol f s"
    "2048 * nat (ceil_c (of_nat (unat (buffer_size r)) / 2048)) \<le> length data"
    using assms(6) by (auto simp: call_write_def bind_eq_Some_conv split: if_splits)
  have "write_fat (r\<lparr> r_buf := b \<rparr>) (user_mem m) (vol s) = Some (c, f)"
    using write_fat_mem [OF assms(3) f(3) assms(4)] f(1) by simp
  then have "syscall dev pd_addr fr m = Some (store_at (ecx fr) (int8_byte c) (set_fs f m))"
    using assms(5) request_in_at [OF assms(2)] runsD(1) [OF assms(1)] by (simp add: syscall_def)
  then show ?thesis using runs_vol [OF assms(1), of f] f(2) by auto
qed

text \<open>The session \<open>home\<close>, with the request at 0x100 and a buffer of 4096 bytes at 0x1000.\<close>

definition with_memory :: "request \<Rightarrow> nat \<Rightarrow> session \<Rightarrow> machine" where
  "with_memory r n s =
     set_user_mem (mem_store (mem_store (\<lambda>_. 0) 0x1000 (replicate n 7)) 0x100 (encode_request (r\<lparr> r_buf := 0x1000 \<rparr>))) (os s)"

lemma with_memory_ok:
  assumes "wf_request r" "n \<le> 4096"
  shows "runs s (with_memory r n s)" "request_in (with_memory r n s) 0x100 r 0x1000"
    "mem_load (user_mem (with_memory r n s)) 0x1000 n = replicate n 7"
proof -
  show "runs s (with_memory r n s)" by (auto simp: runs_def with_memory_def)
  have l: "length (encode_request (r\<lparr> r_buf := 0x1000 \<rparr>)) = 23" using assms(1) by (simp add: encode_request_def wf_request_def bytes32_def)
  then show "request_in (with_memory r n s) 0x100 r 0x1000" using assms(1) by (simp add: request_in_def with_memory_def)
  show "mem_load (user_mem (with_memory r n s)) 0x1000 n = replicate n 7"
  proof (rule nth_equalityI)
    fix i assume "i < length (mem_load (user_mem (with_memory r n s)) 0x1000 n)"
    then have i: "i < n" by simp
    have u: "unat (of_nat i :: u32) = i" using i assms(2) by (intro unat_of_nat_u32) simp
    have "unat (0x1000 + of_nat i - 0x100 :: u32) = 0xF00 + i" using u i assms(2) unat_add_u32 [of "0xF00" "of_nat i"] by simp
    then show "mem_load (user_mem (with_memory r n s)) 0x1000 n ! i = replicate n 7 ! i"
      using i l u by (simp add: with_memory_def mem_store_def)
  qed simp
qed

lemma call_read_refines_witness:
  "\<exists>f m m' slack bs. m = with_memory (make_request file_nm file_ex 2 3000) 4096 (home f) \<and>
     syscall (\<lambda>_ _. 0) (\<lambda>_. 0) (zero_cpu\<lparr> ebx := 0x100, ecx := 0x50 \<rparr>) m = Some m' \<and> length bs = 3000 \<and>
     user_mem m' = mem_store (mem_store (user_mem m) 0x1000 (bs @ slack)) 0x50 [0]"
proof -
  obtain f c bs where h: "home_vol f c bs" using home_ex by blast
  note v = h [unfolded home_vol_def]
  let ?r = "make_request file_nm file_ex 2 3000" and ?fr = "zero_cpu\<lparr> ebx := 0x100, ecx := 0x50 \<rparr>"
  have n: "make_request file_nm file_ex (of_nat 2) 3000 = ?r" by simp
  have "volume (vol (home f)) 2 (key_for file_nm file_ex) = Some (File bs)" using v home_names by simp
  moreover have "clusters_for (of_nat (length bs)) = 2" using v by (simp add: clusters_for_def)
  ultimately obtain slack where slack: "length (bs @ slack) = 4096"
    "call_read ?r (replicate 4096 7) (home f) = Some (0, overwrite (replicate 4096 7) 0 (bs @ slack), set_vol (load_dir f 2) (home f))"
    using call_read_file [of "home f" "{2, c}" 2 file_nm file_ex bs 3000 "replicate 4096 7"] v home_names by auto
  have wf: "wf_request ?r" using make_request_ok(1) [OF home_names(1)] .
  have o: "overwrite (replicate 4096 7) 0 (bs @ slack) = bs @ slack" using slack(1) by (simp add: overwrite_def)
  note w = with_memory_ok [OF wf, of 4096 "home f"]
  have fr: "eax ?fr = 0" "ebx ?fr = 0x100" "ecx ?fr = 0x50" by (simp_all add: zero_cpu_def)
  have "\<exists>m'. syscall (\<lambda>_ _. 0) (\<lambda>_. 0) ?fr (with_memory ?r 4096 (home f)) = Some m' \<and> runs (set_vol (load_dir f 2) (home f)) m' \<and>
      length (bs @ slack) = length (replicate 4096 (7 :: u8)) \<and>
      user_mem m' = mem_store (mem_store (user_mem (with_memory ?r 4096 (home f))) 0x1000 (bs @ slack)) (ecx ?fr) (int8_byte 0)"
    by (rule call_read_refines [where b = "0x1000" and buf = "replicate 4096 7" and r = ?r and s = "home f"])
      (use w fr slack(2) o in \<open>simp_all del: replicate.simps\<close>)
  then show ?thesis using v fr by (fastforce simp: int8_byte_def)
qed

lemma call_write_refines_witness:
  "\<exists>f c m m'. m = with_memory (make_request file_nm file_ex (of_nat c) 3000) 4096 (home f) \<and>
     syscall (\<lambda>_ _. 0) (\<lambda>_. 0) (zero_cpu\<lparr> eax := 2, ebx := 0x100, ecx := 0x50 \<rparr>) m = Some m' \<and>
     user_mem m' = mem_store (user_mem m) 0x50 (int8_byte 0)"
proof -
  obtain f c bs where h: "home_vol f c bs" using home_ex by blast
  note v = h [unfolded home_vol_def]
  let ?r = "make_request file_nm file_ex (of_nat c) 3000" and ?fr = "zero_cpu\<lparr> eax := 2, ebx := 0x100, ecx := 0x50 \<rparr>"
  have len: "of_nat (length (replicate 3000 (7 :: u8))) = (3000 :: u32)" "clusters_for 3000 = 2" by (simp_all add: clusters_for_def)
  have "take 3000 (replicate 4096 7) = replicate 3000 (7 :: u8)" by simp
  then obtain f' where f': "call_write ?r (replicate 4096 7) (home f) = Some (0, set_vol f' (home f))"
    using call_write_file [of "home f" "{2, c}" c file_nm file_ex "replicate 3000 7" "replicate 4096 7"] v home_names len
    by (auto simp del: replicate.simps)
  have wf: "wf_request ?r" using make_request_ok(1) [OF home_names(1)] .
  note w = with_memory_ok [OF wf, of 4096 "home f"]
  have fr: "eax ?fr = 2" "ebx ?fr = 0x100" "ecx ?fr = 0x50" by (simp_all add: zero_cpu_def)
  have "\<exists>m'. syscall (\<lambda>_ _. 0) (\<lambda>_. 0) ?fr (with_memory ?r 4096 (home f)) = Some m' \<and> runs (set_vol f' (home f)) m' \<and>
      user_mem m' = mem_store (user_mem (with_memory ?r 4096 (home f))) (ecx ?fr) (int8_byte 0)"
    by (rule call_write_refines [where b = "0x1000" and data = "replicate 4096 7" and r = ?r and s = "home f"])
      (use w fr f' in \<open>simp_all del: replicate.simps\<close>)
  then show ?thesis using fr by (metis (no_types, lifting))
qed

section \<open>The other calls\<close>

lemma request_fields:
  "request_in m p r b \<Longrightarrow> delete_fat (request_at m p) f = delete_fat r f"
  "request_in m p r b \<Longrightarrow> findCluster (request_at m p) f = findCluster r f"
  by (simp_all add: request_in_at delete_fat_def findCluster_def Let_def cong: Option.bind_cong if_cong)

lemma call_delete_refines:
  assumes "runs s m" "request_in m (ebx fr) r b" "eax fr = 3" "call_delete r s = Some (c, s')"
  shows "\<exists>m'. syscall dev pd_addr fr m = Some m' \<and> runs s' m' \<and> user_mem m' = mem_store (user_mem m) (ecx fr) (int8_byte c)"
proof -
  obtain f where f: "delete_fat r (vol s) = Some (c, f)" "s' = set_vol f s" using assms(4) by (auto simp: call_delete_def bind_eq_Some_conv)
  then have "syscall dev pd_addr fr m = Some (store_at (ecx fr) (int8_byte c) (set_fs f m))"
    using assms(3) request_fields(1) [OF assms(2)] runsD(1) [OF assms(1)] by (simp add: syscall_def)
  then show ?thesis using runs_vol [OF assms(1), of f] f(2) by auto
qed

lemma call_find_cluster_refines:
  assumes "runs s m" "request_in m (ebx fr) r b" "eax fr = 11" "call_find_cluster r s = (c, s')"
  shows "\<exists>m'. syscall dev pd_addr fr m = Some m' \<and> runs s' m' \<and> user_mem m' = mem_store (user_mem m) (ecx fr) (int_bytes c)"
proof -
  obtain f where f: "findCluster r (vol s) = (c, f)" "s' = set_vol f s" using assms(4) by (auto simp: call_find_cluster_def split: prod.splits)
  then have "syscall dev pd_addr fr m = Some (store_at (ecx fr) (int_bytes c) (set_fs f m))"
    using assms(3) request_fields(2) [OF assms(2)] runsD(1) [OF assms(1)] by (simp add: syscall_def)
  then show ?thesis using runs_vol [OF assms(1), of f] f(2) by auto
qed

text \<open>A table is the 2048 bytes that are stored where the request's pointer leads.\<close>

lemma call_read_directory_refines:
  assumes "runs s m" "request_in m (ebx fr) r b" "eax fr = 1" "call_read_directory r s = (c, t, s')"
  shows "\<exists>m' bs. syscall dev pd_addr fr m = Some m' \<and> runs s' m' \<and>
    (t = (if c = 0 then Some (decode_table bs) else None)) \<and> (c = 0 \<longrightarrow> length bs = 2048) \<and>
    user_mem m' = mem_store (if c = 0 then mem_store (user_mem m) b bs else user_mem m) (ecx fr) (int8_byte c)"
proof -
  let ?f = "load_dir (vol s) (parent_cluster_number r)"
  let ?bs = "read_clusters (image (vol s)) (entry_cluster (dir_table_buf ?f ! nat (findEntry (dir_table_buf ?f) (r_name r) (r_ext r)))) 1"
  have r: "read_directory (r\<lparr> r_buf := a \<rparr>) M (vol s) =
      (c, if c = 0 then mem_store M a ?bs else M, ?f) \<and> s' = set_vol ?f s \<and> t = (if c = 0 then Some (decode_table ?bs) else None)" for M a
    using assms(4) by (auto simp: call_read_directory_def read_directory_def Let_def split: if_splits)
  have "syscall dev pd_addr fr m = Some (store_at (ecx fr) (int8_byte c)
      (set_user_mem (if c = 0 then mem_store (user_mem m) b ?bs else user_mem m) (set_fs ?f m)))"
    using assms(3) request_in_at [OF assms(2)] runsD(1) [OF assms(1)] r by (simp add: syscall_def)
  then show ?thesis using runs_vol [OF assms(1), of ?f] r
    by (intro exI [of _ ?bs] exI [of _ "store_at (ecx fr) (int8_byte c)
        (set_user_mem (if c = 0 then mem_store (user_mem m) b ?bs else user_mem m) (set_fs ?f m))"]) simp
qed

lemma call_find_refines:
  assumes "runs s m" "eax fr = 9" "mem_load (user_mem m) (ebx fr) 8 = nm" "mem_load (user_mem m) (ecx fr) 3 = ex"
    and "call_find nm ex s = Some s'"
  shows "\<exists>m'. syscall dev pd_addr fr m = Some m' \<and> runs s' m' \<and> user_mem m' = user_mem m"
proof -
  obtain f t where f: "printAllFind nm ex (vol s) (screen s) = Some (f, t)" "s' = set_screen t (set_vol f s)"
    using assms(5) by (auto simp: call_find_def bind_eq_Some_conv)
  then have "syscall dev pd_addr fr m = Some ((set_fs f m)\<lparr> scrn := t \<rparr>)"
    using assms(2-4) runsD(1,2) [OF assms(1)] by (simp add: syscall_def)
  then show ?thesis using runs_screen [OF runs_vol [OF assms(1), of f], of t] f(2) by (auto simp: user_mem_def set_fs_def)
qed

text \<open>The calls on the shell's folder.\<close>

lemma call_folder_refines:
  assumes "runs s m"
  shows "eax fr = 19 \<Longrightarrow> syscall dev pd_addr fr m = Some (store_at (ebx fr) (int_bytes (call_cluster s)) m)"
    and "eax fr = 20 \<Longrightarrow> syscall dev pd_addr fr m = Some (store_at (ebx fr) (int_bytes (call_parent s)) m)"
    and "eax fr = 22 \<Longrightarrow> syscall dev pd_addr fr m = Some (store_at (ebx fr) (encode_table (call_cwd s)) m)"
    and "eax fr = 12 \<Longrightarrow> \<exists>bs. syscall dev pd_addr fr m = Some (store_at (ebx fr) bs m) \<and> decode_table bs = call_read_cluster (ecx fr) s"
    and "eax fr = 18 \<Longrightarrow> mem_load (user_mem m) (ecx fr) 128 = path \<Longrightarrow> call_update (sint (ebx fr)) path (edx fr \<noteq> 0) s = Some s' \<Longrightarrow>
      \<exists>m'. syscall dev pd_addr fr m = Some m' \<and> runs s' m' \<and> user_mem m' = user_mem m"
proof -
  note r = runsD [OF assms]
  show "eax fr = 19 \<Longrightarrow> syscall dev pd_addr fr m = Some (store_at (ebx fr) (int_bytes (call_cluster s)) m)"
    "eax fr = 20 \<Longrightarrow> syscall dev pd_addr fr m = Some (store_at (ebx fr) (int_bytes (call_parent s)) m)"
    "eax fr = 22 \<Longrightarrow> syscall dev pd_addr fr m = Some (store_at (ebx fr) (encode_table (call_cwd s)) m)"
    using r by (simp_all add: syscall_def call_cluster_def call_parent_def call_cwd_def int_bytes_def)
  show "eax fr = 12 \<Longrightarrow> \<exists>bs. syscall dev pd_addr fr m = Some (store_at (ebx fr) bs m) \<and> decode_table bs = call_read_cluster (ecx fr) s"
    using r by (intro exI [of _ "read_clusters (image (vol s)) (ecx fr) 1"]) (simp add: syscall_def call_read_cluster_def)
  assume u: "eax fr = 18" "mem_load (user_mem m) (ecx fr) 128 = path" "call_update (sint (ebx fr)) path (edx fr \<noteq> 0) s = Some s'"
  then obtain d where d: "update_shell_dir (vol s) (sint (ebx fr)) path (edx fr \<noteq> 0) (folder s) = Some d" "s' = set_folder d s"
    by (auto simp: call_update_def bind_eq_Some_conv)
  then have "syscall dev pd_addr fr m = Some (m\<lparr> shl := d \<rparr>)" using u(1,2) r by (simp add: syscall_def)
  then show "\<exists>m'. syscall dev pd_addr fr m = Some m' \<and> runs s' m' \<and> user_mem m' = user_mem m"
    using runs_folder [OF assms, of d] d(2) by (auto simp: user_mem_def)
qed

text \<open>The calls on the screen; a string lies in memory from \<open>ebx\<close> on.\<close>

lemma puts_chars_cong:
  assumes "\<And>i. i < nat n \<Longrightarrow> f i = g i"
  shows "puts_chars f n color t = puts_chars g n color t"
proof -
  have "for_count k i (\<lambda>i t. do { t \<leftarrow> putchar (f i) color t; clip_row framebuffer_auto_down t }) t =
      for_count k i (\<lambda>i t. do { t \<leftarrow> putchar (g i) color t; clip_row framebuffer_auto_down t }) t" if "i + k \<le> nat n" for k i t
    using that assms by (induction k arbitrary: i t) (auto cong: Option.bind_cong)
  from this [of 0 "nat n" t] show ?thesis by (simp add: puts_chars_def for_range_def)
qed

lemma call_puts_refines:
  assumes "runs s m" "eax fr = 6" "mem_load (user_mem m) (ebx fr) (length val) = val" "ecx fr = word_of_int n"
    and "nat (sint (word_of_int n :: u32)) \<le> length val" "puts_n val n (ucast (edx fr)) s = Some s'"
  shows "\<exists>m'. syscall dev pd_addr fr m = Some m' \<and> runs s' m' \<and> user_mem m' = user_mem m"
proof -
  obtain t where t: "puts_chars ((!) val) (sint (word_of_int n :: u32)) (ucast (edx fr)) (screen s) = Some t" "s' = set_screen t s"
    using assms(6) by (auto simp: puts_n_def bind_eq_Some_conv)
  have "user_mem m (ebx fr + of_nat i) = val ! i" if "i < length val" for i
    using that assms(3) nth_mem_load [of i "length val" "user_mem m" "ebx fr"] by simp
  then have "puts_chars (\<lambda>i. user_mem m (ebx fr + of_nat i)) (sint (word_of_int n :: u32)) (ucast (edx fr)) (screen s) = Some t"
    using puts_chars_cong [of "sint (word_of_int n :: u32)" "\<lambda>i. user_mem m (ebx fr + of_nat i)" "(!) val"] assms(5) t(1) by simp
  then have "syscall dev pd_addr fr m = Some (m\<lparr> scrn := t \<rparr>)"
    using assms(2,4) runsD(2) [OF assms(1)] by (simp add: syscall_def puts_def)
  then show ?thesis using runs_screen [OF assms(1), of t] t(2) by (auto simp: user_mem_def)
qed

lemma call_clear_refines:
  assumes "runs s m" "eax fr = 8" "call_clear s = Some s'"
  shows "\<exists>m'. syscall dev pd_addr fr m = Some m' \<and> runs s' m' \<and> user_mem m' = user_mem m"
proof -
  obtain t where t: "framebuffer_clear (screen s) = Some t" "s' = set_screen (framebuffer_set_cursor 0 0 t) s"
    using assms(3) by (auto simp: call_clear_def bind_eq_Some_conv)
  then have "syscall dev pd_addr fr m = Some (m\<lparr> scrn := framebuffer_set_cursor 0 0 t \<rparr>)"
    using assms(2) runsD(2) [OF assms(1)] by (simp add: syscall_def)
  then show ?thesis using runs_screen [OF assms(1)] t(2) by (auto simp: user_mem_def)
qed

text \<open>The calls of the shell's main loop: a character from the keyboard, whose address is 0, a character
  to the screen, the line of command and the path.\<close>

lemma runs_kbd: "runs s m \<Longrightarrow> runs (s\<lparr> os := (os s)\<lparr> kbd := k \<rparr> \<rparr>) (m\<lparr> kbd := k \<rparr>)"
proof -
  assume "runs s m"
  then obtain M where "m = set_user_mem M (os s)" by (auto simp: runs_def)
  then have "m\<lparr> kbd := k \<rparr> = set_user_mem M (os (s\<lparr> os := (os s)\<lparr> kbd := k \<rparr> \<rparr>))" by (simp add: set_user_mem_def)
  then show ?thesis by (auto simp: runs_def)
qed

lemma user_mem_kbd [simp]: "user_mem (m\<lparr> kbd := k \<rparr>) = user_mem m"
  by (simp add: user_mem_def)

lemma call_getchar_refines:
  assumes "runs s m" "eax fr = 4" "ebx fr = 0" "1 \<le> unat (ecx fr)" "unat (ecx fr) + 100 \<le> 2 ^ 32"
    and "mem_load (user_mem m) (ecx fr) 100 = cmd" "call_getchar cmd s = Some (cmd', n, s')"
  shows "\<exists>m' c. syscall dev pd_addr fr m = Some m' \<and> runs s' m' \<and> at_null s' = c \<and>
    user_mem m' = mem_store (mem_store (mem_store (user_mem m) 0 [c]) (ecx fr) cmd') (edx fr) (int_bytes n)"
proof -
  let ?k0 = "(kbd (os s))\<lparr> keyboard_buffer := 0 \<rparr>" and ?c = "keyboard_buffer (kbd (os s))"
  obtain k where k: "(if ?c = 8 then delete_command ?k0 else if ?c \<noteq> 0 \<and> ?c \<noteq> 10 then add_command ?c ?k0 else Some ?k0) = Some k"
    "get_command k cmd = Some (cmd', n)" "s' = s\<lparr> os := (store_at 0 [?c] (os s))\<lparr> kbd := k \<rparr> \<rparr>"
    using assms(7) by (auto simp: call_getchar_def get_keyboard_buffer_def bind_eq_Some_conv)
  have nz: "unat (ecx fr + of_nat i) \<noteq> 0" if "i < 100" for i
  proof -
    have "unat (of_nat i :: u32) = i" using that by (intro unat_of_nat_u32) simp
    then show ?thesis using assms(4,5) that unat_add_u32 [of "ecx fr" "of_nat i"] by simp
  qed
  have "mem_load (mem_store (user_mem m) 0 [?c]) (ecx fr) 100 = mem_load (user_mem m) (ecx fr) 100"
  proof (rule nth_equalityI)
    fix i assume "i < length (mem_load (mem_store (user_mem m) 0 [?c]) (ecx fr) 100)"
    then have "i < 100" by simp
    from this nz [OF this] show "mem_load (mem_store (user_mem m) 0 [?c]) (ecx fr) 100 ! i = mem_load (user_mem m) (ecx fr) 100 ! i"
      by (simp add: mem_store_def)
  qed simp
  then have "syscall dev pd_addr fr m = Some ((store_at (edx fr) (int_bytes n) (store_at (ecx fr) cmd' (store_at 0 [?c] m)))\<lparr> kbd := k \<rparr>)"
    using assms(2,3,6) k(1,2) runsD(4) [OF assms(1)] by (simp add: syscall_def sys_getchar_def get_keyboard_buffer_def)
  moreover have "runs s' ((store_at (edx fr) (int_bytes n) (store_at (ecx fr) cmd' (store_at 0 [?c] m)))\<lparr> kbd := k \<rparr>)"
  proof -
    have "runs s' (m\<lparr> kbd := k \<rparr>) = runs (s\<lparr> os := (os s)\<lparr> kbd := k \<rparr> \<rparr>) (m\<lparr> kbd := k \<rparr>)"
      unfolding k(3) by (auto simp: runs_def store_at_def set_user_mem_def)
    then have "runs s' (m\<lparr> kbd := k \<rparr>)" using runs_kbd [OF assms(1)] by simp
    moreover have "(store_at p bs m)\<lparr> kbd := k \<rparr> = store_at p bs (m\<lparr> kbd := k \<rparr>)" for p bs m
      by (simp add: store_at_def set_user_mem_def user_mem_def)
    ultimately show ?thesis by simp
  qed
  moreover have "at_null s' = ?c"
    by (simp add: k(3) at_null_def) (simp add: mem_store_def)
  ultimately show ?thesis by auto
qed

lemma call_putchar_refines:
  assumes "runs s m" "eax fr = 5" "call_putchar (user_mem m (ebx fr)) (ucast (ecx fr)) s = Some s'"
  shows "\<exists>m'. syscall dev pd_addr fr m = Some m' \<and> runs s' m' \<and> user_mem m' = user_mem m"
proof -
  obtain t where t: "putchar (user_mem m (ebx fr)) (ucast (ecx fr)) (screen s) = Some t" "s' = set_screen t s"
    using assms(3) by (auto simp: call_putchar_def bind_eq_Some_conv)
  then have "syscall dev pd_addr fr m = Some (m\<lparr> scrn := t \<rparr>)" using assms(2) runsD(2) [OF assms(1)] by (simp add: syscall_def)
  then show ?thesis using runs_screen [OF assms(1), of t] t(2) by (auto simp: user_mem_def)
qed

lemma call_clear_command_refines:
  assumes "runs s m" "eax fr = 17" "call_clear_command s = Some s'"
  shows "\<exists>m'. syscall dev pd_addr fr m = Some m' \<and> runs s' m' \<and> user_mem m' = user_mem m"
proof -
  obtain k where k: "clear_command (kbd (os s)) = Some k" "s' = s\<lparr> os := (os s)\<lparr> kbd := k \<rparr> \<rparr>"
    using assms(3) by (auto simp: call_clear_command_def bind_eq_Some_conv)
  then have "syscall dev pd_addr fr m = Some (m\<lparr> kbd := k \<rparr>)" using assms(2) runsD(4) [OF assms(1)] by (simp add: syscall_def)
  then show ?thesis using runs_kbd [OF assms(1), of k] k(2) by auto
qed

lemma call_path_refines:
  assumes "runs s m" "eax fr = 21" "mem_load (user_mem m) (ebx fr) 100 = dir" "call_path dir s = Some dir'"
  shows "syscall dev pd_addr fr m = Some (store_at (ebx fr) dir' m)"
  using assms(2-4) runsD(3) [OF assms(1)] by (simp add: syscall_def call_path_def)

end
