(* ===== verification/Typed.thy ===== *)
theory Typed
  imports SystemProps ScreenProps
begin

text \<open>
  The types of the C objects, which are lists and records here: every array of the kernel keeps the
  length and every entry of a directory table the form that its C type gives it, whatever interrupt
  or system call the kernel handles.  The lemmas go component by component.
\<close>

section \<open>File system\<close>

definition fs_typed :: "fs \<Rightarrow> bool" where
  "fs_typed f = (length (cluster_map f) = 512 \<and> wf_table (dir_table_buf f))"

text \<open>A table whose entries have their form, before the length is looked at.\<close>

lemma load_dir_typed [simp]: "length (cluster_map f) = 512 \<Longrightarrow> fs_typed (load_dir f c)"
  using wf_dir_at [of f c] by (simp add: fs_typed_def load_dir_def dir_at_def)

lemma fs_typed_load [simp]: "fs_typed f \<Longrightarrow> fs_typed (load_dir f c)"
  by (simp add: fs_typed_def [of f])

lemma read_fat_typed: "read_fat r m f = Some (c, m', f') \<Longrightarrow> fs_typed f \<Longrightarrow> fs_typed f'"
  by (auto simp: read_fat_def Let_def bind_eq_Some_conv split: if_splits)

lemma read_directory_typed: "read_directory r m f = (c, m', f') \<Longrightarrow> fs_typed f \<Longrightarrow> fs_typed f'"
  by (auto simp: read_directory_def Let_def split: if_splits)

lemma findCluster_typed: "findCluster r f = (c, f') \<Longrightarrow> fs_typed f \<Longrightarrow> fs_typed f'"
  by (auto simp: findCluster_def Let_def split: if_splits)

lemma find_loop_typed:
  "find_loop nm ex q fr b res n f = Some (res', n', f') \<Longrightarrow> fs_typed f \<Longrightarrow> fs_typed f'"
proof (induction "nat (int (length q) - fr)" arbitrary: q fr b res n f rule: less_induct)
  case less
  show ?case
  proof (cases "fr \<le> b")
    case False
    then show ?thesis using less.prems by (subst (asm) find_loop.simps) simp
  next
    case True
    obtain c where c: "arr_geti q fr = Some c"
      using less.prems(1) True by (subst (asm) find_loop.simps) (auto split: option.splits)
    then have fr: "0 \<le> fr" "fr < int (length q)" by (auto simp: arr_geti_def arr_get_eq_Some split: if_splits)
    obtain q' b' res2 n2 where r: "enqueue_folders (drop 2 (dir_at f (word_of_int c))) q b = Some (q', b')"
      "find_loop nm ex q' (fr + 1) b' res2 n2 (load_dir f (word_of_int c)) = Some (res', n', f')"
      using less.prems(1) True c by (subst (asm) find_loop.simps) (auto simp: Let_def split: option.splits if_splits)
    have "nat (int (length q') - (fr + 1)) < nat (int (length q) - fr)"
      using fr length_enqueue_folders [OF r(1)] by simp
    from less.hyps [OF this r(2)] show ?thesis using less.prems(2) by simp
  qed
qed

lemma find_fat_typed: "find_fat nm ex q res n f = Some (res', n', f') \<Longrightarrow> fs_typed f \<Longrightarrow> fs_typed f'"
  by (auto simp: find_fat_def bind_eq_Some_conv dest: find_loop_typed)

lemma arr_seti_length [dest]: "arr_seti xs i x = Some ys \<Longrightarrow> length ys = length xs"
  by (auto simp: arr_seti_def arr_set_eq_Some split: if_splits)

lemma memcpy_length: "memcpy d s n = Some d' \<Longrightarrow> length d' = length d"
  unfolding memcpy_def by (drule for_range_invD [where I = "\<lambda>_ x. length x = length d"]) (auto simp: bind_eq_Some_conv arr_set_eq_Some)

lemma arr_seti_wf: "arr_seti t i e = Some t' \<Longrightarrow> wf_table t \<Longrightarrow> wf_dirent e \<Longrightarrow> wf_table t'"
  by (auto simp: arr_seti_def arr_set_eq_Some wf_table_update split: if_splits)

lemma arr_geti_wf: "arr_geti t i = Some e \<Longrightarrow> wf_table t \<Longrightarrow> wf_dirent e"
  by (auto simp: arr_geti_def arr_get_eq_Some wf_table_def split: if_splits)

lemma addEntry_typed: "addEntry t r i c = Some t' \<Longrightarrow> wf_table t \<Longrightarrow> wf_table t'"
  by (auto simp: addEntry_def bind_eq_Some_conv Let_def dest!: memcpy_length arr_geti_wf elim!: arr_seti_wf) 
    (auto simp: wf_dirent_def)

lemma deleteEntry_typed: "deleteEntry t i = Some t' \<Longrightarrow> wf_table t \<Longrightarrow> wf_table t'"
  by (auto simp: deleteEntry_def bind_eq_Some_conv dest!: memcpy_length arr_geti_wf elim!: arr_seti_wf)
    (auto simp: wf_dirent_def)

lemma store_typed [simp]: "fs_typed (store_fat f) = fs_typed f" "fs_typed (store_dir f c) = fs_typed f"
  "fs_typed (f\<lparr> image := im \<rparr>) = fs_typed f"
  by (simp_all add: fs_typed_def store_fat_def store_dir_def)

lemma fs_typed_update: "fs_typed (f\<lparr> cluster_map := fat \<rparr>) = (length fat = 512 \<and> wf_table (dir_table_buf f))"
  "fs_typed (f\<lparr> dir_table_buf := t \<rparr>) = (length (cluster_map f) = 512 \<and> wf_table t)"
  by (simp_all add: fs_typed_def)

lemma write_loop_typed: "write_loop n i m p idx f = Some (b, f') \<Longrightarrow> fs_typed f \<Longrightarrow> fs_typed f'"
proof (induction n arbitrary: i idx f)
  case (Suc n)
  let ?e = "findEmptySpace (cluster_map f)"
  show ?case
  proof (cases "?e = - 9999")
    case True
    then show ?thesis using Suc.prems by (auto simp: Let_def bind_eq_Some_conv fs_typed_def dest: arr_seti_length)
  next
    case False
    then obtain fat1 fat2 im where f: "(if idx \<noteq> - 9999 then arr_seti (cluster_map f) idx (word_of_int ?e) else Some (cluster_map f)) = Some fat1"
      "arr_seti fat1 ?e FAT32_FAT_END_OF_FILE = Some fat2" "write_loop n (Suc i) m p ?e (f\<lparr> image := im, cluster_map := fat2 \<rparr>) = Some (b, f')"
      using Suc.prems(1) by (auto simp: Let_def bind_eq_Some_conv)
    have "length fat1 = 512" using f(1) Suc.prems(2) by (auto simp: fs_typed_def split: if_splits dest: arr_seti_length)
    then have "length fat2 = 512" using arr_seti_length [OF f(2)] by simp
    then have "fs_typed (f\<lparr> image := im, cluster_map := fat2 \<rparr>)" using Suc.prems(2) by (simp add: fs_typed_def)
    then show ?thesis by (rule Suc.IH [OF f(3)])
  qed
qed simp

lemma write_fat_typed:
  assumes "write_fat r m f = Some (c, f')" "fs_typed f"
  shows "fs_typed f'"
proof -
  let ?f = "load_dir f (parent_cluster_number r)" and ?i = "findIdxEmptyEntry (parent_dir f r)" and ?c = "findEmptySpace (cluster_map f)"
  have d: "wf_table (parent_dir f r)" "length (cluster_map f) = 512" using assms(2) wf_dir_at by (simp_all add: fs_typed_def)
  show ?thesis
  proof (cases "f' = ?f")
    case True
    then show ?thesis using assms(2) by simp
  next
    case False
    then obtain t where t: "addEntry (parent_dir f r) r ?i ?c = Some t"
      using assms(1) by (auto simp: write_fat_def Let_def bind_eq_Some_conv split: if_splits)
    have ft: "fs_typed (store_dir (?f\<lparr> dir_table_buf := t \<rparr>) x)" for x
      using addEntry_typed [OF t d(1)] d(2) by (simp add: fs_typed_def store_dir_def load_dir_def)
    then show ?thesis
      using assms(1) False t
      by (auto simp: write_fat_def Let_def bind_eq_Some_conv fs_typed_def store_dir_def store_fat_def split: if_splits
          dest!: arr_seti_length dest: write_loop_typed)
  qed
qed

lemma delete_chain_typed:
  assumes "delete_chain c f = Some (l, f')" "fs_typed f"
  shows "fs_typed f'"
proof -
  have "\<forall>l f'. (l, f') = x \<longrightarrow> fs_typed f \<longrightarrow> fs_typed f'" if "delete_chain c f = Some x" for x
    using that
  proof (rule delete_chain.raw_induct [rotated], intro allI impI)
    fix rec c f x l f'
    assume IH: "\<And>c f x. rec c f = Some x \<Longrightarrow> \<forall>l f'. (l, f') = x \<longrightarrow> fs_typed f \<longrightarrow> fs_typed f'"
      and run: "do { next \<leftarrow> arr_get (cluster_map f) (unat c);
          if next \<noteq> FAT32_FAT_END_OF_FILE
          then do { fat \<leftarrow> arr_set (cluster_map f) (unat c) 0;
                    rec next (f\<lparr> cluster_map := fat, image := write_clusters (image f) (replicate 2048 0) c 1 \<rparr>) }
          else Some (c, f) } = Some x"
      and x: "(l, f') = x" and f: "fs_typed f"
    show "fs_typed f'"
    proof (cases "x = (c, f)")
      case True
      then show ?thesis using x f by simp
    next
      case False
      then obtain nx fat where "arr_set (cluster_map f) (unat c) 0 = Some fat"
        and r: "rec nx (f\<lparr> cluster_map := fat, image := write_clusters (image f) (replicate 2048 0) c 1 \<rparr>) = Some x"
        using run by (auto simp: bind_eq_Some_conv split: if_splits)
      then have "fs_typed (f\<lparr> cluster_map := fat, image := write_clusters (image f) (replicate 2048 0) c 1 \<rparr>)"
        using f by (auto simp: fs_typed_def arr_set_eq_Some)
      then show ?thesis using IH [OF r] x by blast
    qed
  qed
  then show ?thesis using assms by blast
qed

lemma delete_fat_typed:
  assumes "delete_fat r f = Some (c, f')" "fs_typed f"
  shows "fs_typed f'"
proof -
  let ?f = "load_dir f (parent_cluster_number r)"
  let ?i = "findEntry (parent_dir f r) (r_name r) (r_ext r)"
  have d: "wf_table (parent_dir f r)" "length (cluster_map f) = 512" using assms(2) wf_dir_at by (simp_all add: fs_typed_def)
  show ?thesis
  proof (cases "f' = ?f")
    case True
    then show ?thesis using assms(2) by simp
  next
    case False
    have del: "fs_typed (?f\<lparr> image := im, dir_table_buf := t \<rparr>)" if "deleteEntry (parent_dir f r) ?i = Some t" for t im
      using deleteEntry_typed [OF that d(1)] d(2) by (simp add: fs_typed_def load_dir_def)
    have del': "fs_typed (?f\<lparr> dir_table_buf := t \<rparr>)" if "deleteEntry (parent_dir f r) ?i = Some t" for t
      using deleteEntry_typed [OF that d(1)] d(2) by (simp add: fs_typed_def load_dir_def)
    show ?thesis
      using assms(1) False
      by (auto simp: delete_fat_def Let_def bind_eq_Some_conv arr_set_eq_Some fs_typed_update split: if_splits
          dest!: del del') (drule delete_chain_typed; simp add: fs_typed_def)+
  qed
qed

section \<open>Paging\<close>

definition pg_typed :: "paging \<Rightarrow> bool" where
  "pg_typed s =
     (length (page_directory_list s) = 32 \<and> (\<forall>d \<in> set (page_directory_list s). length d = 1024) \<and>
      length (page_directory_used s) = 32 \<and> length (kernel_page_directory s) = 1024 \<and> length (page_frame_map s) = 32)"

lemma get_dir_length: "get_dir s p = Some pd \<Longrightarrow> pg_typed s \<Longrightarrow> length pd = 1024"
  by (auto simp: get_dir_def pg_typed_def arr_get_eq_Some split: pd_ptr.splits)

lemma set_dir_typed: "pg_typed s \<Longrightarrow> length pd = 1024 \<Longrightarrow> pg_typed (set_dir p pd s)"
  by (auto simp: set_dir_def pg_typed_def split: pd_ptr.splits dest!: set_update_subset_insert [THEN subsetD])

lemma pg_typed_fields [simp]:
  "pg_typed (s\<lparr> free_page_frame_count := n \<rparr>) = pg_typed s" "pg_typed (s\<lparr> next_free_frame := h \<rparr>) = pg_typed s"
  "pg_typed (s\<lparr> invlpg := x \<rparr>) = pg_typed s" "pg_typed (s\<lparr> page_dir_free := z \<rparr>) = pg_typed s"
  by (simp_all add: pg_typed_def)

lemma update_entry_typed: "update_page_directory_entry p a v fl s = Some s' \<Longrightarrow> pg_typed s \<Longrightarrow> pg_typed s'"
  by (auto simp: update_page_directory_entry_def bind_eq_Some_conv flush_single_tlb_def arr_set_eq_Some
      get_dir_length intro!: set_dir_typed)

lemma frame_map_typed: "pg_typed s \<Longrightarrow> length fm = length (page_frame_map s) \<Longrightarrow> pg_typed (s\<lparr> page_frame_map := fm \<rparr>)"
  by (simp add: pg_typed_def)

lemma allocate_frame_typed: "paging_allocate_user_page_frame p v s = Some (r, s') \<Longrightarrow> pg_typed s \<Longrightarrow> pg_typed s'"
  by (auto simp: paging_allocate_user_page_frame_def Let_def bind_eq_Some_conv frame_map_typed split: if_splits option.splits
      dest!: update_entry_typed arr_seti_length)

lemma free_frame_typed: "paging_free_user_page_frame p v s = Some (r, s') \<Longrightarrow> pg_typed s \<Longrightarrow> pg_typed s'"
  by (auto simp: paging_free_user_page_frame_def Let_def bind_eq_Some_conv arr_set_eq_Some split: if_splits
      dest!: update_entry_typed) (simp_all add: pg_typed_def)

lemma create_directory_typed: "paging_create_new_page_directory s = Some (p, s') \<Longrightarrow> pg_typed s \<Longrightarrow> pg_typed s'"
  by (auto simp: paging_create_new_page_directory_def Let_def bind_eq_Some_conv arr_set_eq_Some arr_get_eq_Some split: if_splits
      intro!: set_dir_typed) (simp_all add: pg_typed_def)

lemma free_directory_typed:
  assumes "paging_free_page_directory p s = Some (r, s')" "pg_typed s"
  shows "pg_typed s'"
proof (cases "s' = s")
  case False
  then obtain i where i: "p = Listed i" "i < 32" and
    run: "for_range 0 1024 (\<lambda>j s.
        if j = 0x300 then Some s
        else do { pd \<leftarrow> get_dir s (Listed i);
                  e \<leftarrow> arr_get pd j;
                  if present_bit (flag e)
                  then map_option snd (paging_free_user_page_frame (Listed i) (push_bit 22 (of_nat j)) s)
                  else Some s }) (s\<lparr> page_directory_used := (page_directory_used s)[i := False] \<rparr>) = Some s'"
    using assms(1) by (auto simp: paging_free_page_directory_def Let_def bind_eq_Some_conv split: pd_ptr.splits if_splits)
  from run show ?thesis
  proof (rule for_range_invD [where I = "\<lambda>_. pg_typed"])
    show "pg_typed (s\<lparr> page_directory_used := (page_directory_used s)[i := False] \<rparr>)" using assms(2) by (simp add: pg_typed_def)
    fix j s s' assume "pg_typed s" "(if j = 0x300 then Some s
        else do { pd \<leftarrow> get_dir s (Listed i);
                  e \<leftarrow> arr_get pd j;
                  if present_bit (flag e)
                  then map_option snd (paging_free_user_page_frame (Listed i) (push_bit 22 (of_nat j)) s)
                  else Some s }) = Some s'"
    then show "pg_typed s'" by (auto simp: bind_eq_Some_conv split: if_splits dest: free_frame_typed)
  qed simp
qed (use assms in simp)

section \<open>Processes\<close>

definition pcb_typed :: "pcb \<Rightarrow> bool" where
  "pcb_typed p = (length (p_name p) = 8 \<and> length (virtual_addr_used p) = 8)"

definition kernel_typed :: "kernel \<Rightarrow> bool" where
  "kernel_typed k =
     (length (process_list k) = 16 \<and> (\<forall>p \<in> set (process_list k). pcb_typed p) \<and> pg_typed (pg k) \<and> fs_typed (k_fs k))"

lemma kernel_typed_fields [simp]:
  "kernel_typed (k\<lparr> active_process_count := n \<rparr>) = kernel_typed k" "kernel_typed (k\<lparr> cur_idx := i \<rparr>) = kernel_typed k"
  "kernel_typed (k\<lparr> total_pid := i \<rparr>) = kernel_typed k" "kernel_typed (k\<lparr> cr3 := d \<rparr>) = kernel_typed k"
  "kernel_typed (k\<lparr> space := sp \<rparr>) = kernel_typed k" "kernel_typed (k\<lparr> power_off := b \<rparr>) = kernel_typed k"
  by (simp_all add: kernel_typed_def)

lemma kernel_typed_update: "kernel_typed k \<Longrightarrow> pg_typed s \<Longrightarrow> kernel_typed (k\<lparr> pg := s \<rparr>)"
  "kernel_typed k \<Longrightarrow> fs_typed f \<Longrightarrow> kernel_typed (k\<lparr> k_fs := f \<rparr>)"
  by (simp_all add: kernel_typed_def)

lemma kernel_typedD: "kernel_typed k \<Longrightarrow> pg_typed (pg k)" "kernel_typed k \<Longrightarrow> fs_typed (k_fs k)"
  "kernel_typed k \<Longrightarrow> i < 16 \<Longrightarrow> pcb_typed (process_list k ! i)"
  by (simp_all add: kernel_typed_def)

text \<open>An update of a block; outside of the table it changes nothing.\<close>

lemma update_pcb_beyond: "length (process_list k) \<le> i \<Longrightarrow> update_pcb i g k = k"
  by (simp add: update_pcb_def list_update_beyond)

lemma update_pcb_typed:
  assumes "kernel_typed k" "\<And>p. pcb_typed p \<Longrightarrow> pcb_typed (g p)"
  shows "kernel_typed (update_pcb i g k)"
proof (cases "i < 16")
  case True
  then have "pcb_typed (g (process_list k ! i))" using assms kernel_typedD(3) by blast
  then show ?thesis using assms(1) by (auto simp: kernel_typed_def update_pcb_def dest!: set_update_subset_insert [THEN subsetD])
next
  case False
  then have "update_pcb i g k = k" using assms(1) by (simp add: update_pcb_beyond kernel_typed_def)
  with assms(1) show ?thesis by simp
qed

lemma release_memory_typed:
  assumes "release_memory i k = Some (r, k')" "kernel_typed k"
  shows "kernel_typed k'"
proof -
  let ?body = "\<lambda>dir n k. do { addr \<leftarrow> arr_get (virtual_addr_used (process_list k ! i)) n;
             (_, pg') \<leftarrow> paging_free_user_page_frame dir addr (pg k);
             Some (update_pcb i (\<lambda>p. p\<lparr> virtual_addr_used := (virtual_addr_used p)[n := 0] \<rparr>) (k\<lparr> pg := pg' \<rparr>)) }"
  have step: "kernel_typed k'" if k: "kernel_typed k" and run: "?body dir n k = Some k'" for dir n k k'
  proof -
    obtain addr b pg' where f: "paging_free_user_page_frame dir addr (pg k) = Some (b, pg')"
      "k' = update_pcb i (\<lambda>p. p\<lparr> virtual_addr_used := (virtual_addr_used p)[n := 0] \<rparr>) (k\<lparr> pg := pg' \<rparr>)"
      using run by (auto simp: bind_eq_Some_conv)
    have "kernel_typed (k\<lparr> pg := pg' \<rparr>)"
      using kernel_typed_update(1) [OF k] free_frame_typed [OF f(1)] kernel_typedD(1) [OF k] by blast
    then show ?thesis unfolding f(2) by (rule update_pcb_typed) (simp add: pcb_typed_def)
  qed
  obtain p where p: "arr_get (process_list k) i = Some p" using assms(1) by (auto simp: release_memory_def bind_eq_Some_conv)
  let ?dir = "page_directory_virtual_addr (p_context p)"
  obtain k1 where run: "for_range 0 (unat (page_frame_used_count p)) (?body ?dir) k = Some k1"
    using assms(1) p by (auto simp: release_memory_def Let_def bind_eq_Some_conv)
  obtain b pg' where fr: "paging_free_page_directory ?dir (pg k1) = Some (b, pg')"
    "k' = update_pcb i (\<lambda>p. p\<lparr> page_frame_used_count := 0 \<rparr>) (k1\<lparr> cr3 := ?dir, pg := pg' \<rparr>) \<or>
     k' = update_pcb i (\<lambda>p. p\<lparr> page_frame_used_count := 0 \<rparr>) (k1\<lparr> pg := pg' \<rparr>)"
    using assms(1) p run by (cases "cr3 k1 = ?dir") (auto simp: release_memory_def Let_def bind_eq_Some_conv)
  have k1: "kernel_typed k1"
    using run by (rule for_range_invD [where I = "\<lambda>_. kernel_typed"]) (use assms(2) step in auto)
  have "kernel_typed (k1\<lparr> pg := pg' \<rparr>)"
    using kernel_typed_update(1) [OF k1] free_directory_typed [OF fr(1)] kernel_typedD(1) [OF k1] by simp
  then have "kernel_typed (k1\<lparr> pg := pg' \<rparr>)" "kernel_typed (k1\<lparr> cr3 := ?dir, pg := pg' \<rparr>)" by (simp_all add: kernel_typed_def)
  then have "kernel_typed (update_pcb i (\<lambda>p. p\<lparr> page_frame_used_count := 0 \<rparr>) (k1\<lparr> pg := pg' \<rparr>))"
    "kernel_typed (update_pcb i (\<lambda>p. p\<lparr> page_frame_used_count := 0 \<rparr>) (k1\<lparr> cr3 := ?dir, pg := pg' \<rparr>))"
    by (auto simp: pcb_typed_def intro!: update_pcb_typed)
  then show ?thesis using fr(2) by blast
qed

lemma destroy_typed:
  assumes "process_destroy p k = Some (r, k')" "kernel_typed k"
  shows "kernel_typed k'"
proof (cases "scan (\<lambda>i. pid (process_list k ! i) = p) 0 16")
  case None
  then show ?thesis using assms by (simp add: process_destroy_def)
next
  case (Some i)
  then obtain b k1 where k1: "release_memory i k = Some (b, k1)" using assms(1) by (auto simp: process_destroy_def bind_eq_Some_conv)
  have t: "kernel_typed k1" by (rule release_memory_typed [OF k1 assms(2)])
  have "kernel_typed (update_pcb i (\<lambda>p. p\<lparr> active := False \<rparr>) k)" if "kernel_typed k" for k
    using that by (rule update_pcb_typed) (simp add: pcb_typed_def)
  then show ?thesis using assms(1) Some k1 t
    by (cases b; cases "active_process_count k1 = 1") (auto simp: process_destroy_def Let_def)
qed

lemma allocate_frames_typed:
  assumes "allocate_frames i buf n k = Some k'" "kernel_typed k"
  shows "kernel_typed k'"
  using assms(1) unfolding allocate_frames_def
proof (rule for_range_invD [where I = "\<lambda>_. kernel_typed"])
  fix n k k' assume k: "kernel_typed k" and run: "do { let va = buf + of_nat n * PAGE_FRAME_SIZE;
            used \<leftarrow> arr_set (virtual_addr_used (process_list k ! i)) n va;
            let k = update_pcb i (\<lambda>p. p\<lparr> virtual_addr_used := used \<rparr>) k;
            (_, pg') \<leftarrow> paging_allocate_user_page_frame (page_directory_virtual_addr (p_context (process_list k ! i))) va (pg k);
            Some (k\<lparr> pg := pg' \<rparr>) } = Some k'"
  then obtain used where used: "arr_set (virtual_addr_used (process_list k ! i)) n (buf + of_nat n * PAGE_FRAME_SIZE) = Some used"
    by (auto simp: bind_eq_Some_conv Let_def)
  have "kernel_typed (update_pcb i (\<lambda>p. p\<lparr> virtual_addr_used := used \<rparr>) k)"
  proof (cases "i < 16")
    case True
    then have "pcb_typed ((process_list k ! i)\<lparr> virtual_addr_used := used \<rparr>)"
      using kernel_typedD(3) [OF k True] used by (auto simp: pcb_typed_def arr_set_eq_Some)
    then show ?thesis using k by (auto simp: kernel_typed_def update_pcb_def dest!: set_update_subset_insert [THEN subsetD])
  next
    case False
    then have "update_pcb i (\<lambda>p. p\<lparr> virtual_addr_used := used \<rparr>) k = k" using k by (simp add: update_pcb_beyond kernel_typed_def)
    with k show ?thesis by simp
  qed
  moreover define k1 where "k1 = update_pcb i (\<lambda>p. p\<lparr> virtual_addr_used := used \<rparr>) k"
  ultimately have k1: "kernel_typed k1" by simp
  obtain b pg' where a: "paging_allocate_user_page_frame (page_directory_virtual_addr (p_context (process_list k1 ! i)))
      (buf + of_nat n * PAGE_FRAME_SIZE) (pg k1) = Some (b, pg')" "k' = k1\<lparr> pg := pg' \<rparr>"
    using run used by (auto simp: bind_eq_Some_conv Let_def k1_def)
  then show "kernel_typed k'"
    using kernel_typed_update(1) [OF k1] allocate_frame_typed [OF a(1)] kernel_typedD(1) [OF k1] by simp
qed (use assms in simp_all)

lemma load_program_typed: "load_program r k = Some k' \<Longrightarrow> kernel_typed k \<Longrightarrow> kernel_typed k'"
  using kernel_typed_update(2) read_fat_typed kernel_typedD(2) by (fastforce simp: load_program_def bind_eq_Some_conv)

lemma create_typed:
  assumes "process_create_user_process r k = Some (c, k')" "kernel_typed k"
  shows "kernel_typed k'"
proof (cases "k' = k")
  case False
  obtain i p nm dir pg' k2 k3 k4 n where s: "arr_geti (process_list k) i = Some p" "memcpy (p_name p) (r_name r) 8 = Some nm"
    "paging_create_new_page_directory (pg k) = Some (dir, pg')"
    "allocate_frames (nat i) (r_buf r) (ceil_div (buffer_size r + PAGE_FRAME_SIZE) PAGE_FRAME_SIZE)
       (update_pcb (nat i) (\<lambda>p. p\<lparr> p_context := (p_context p)\<lparr> page_directory_virtual_addr := dir \<rparr> \<rparr>)
         ((update_pcb (nat i) (\<lambda>p. p\<lparr> p_name := nm \<rparr>) k)\<lparr> pg := pg', cr3 := dir \<rparr>)) = Some k2"
    "load_program r (update_pcb (nat i) (\<lambda>p. p\<lparr> page_frame_used_count := ceil_div (buffer_size r + PAGE_FRAME_SIZE) PAGE_FRAME_SIZE \<rparr>) k2) = Some k3"
    "process_generate_new_pid (update_pcb (nat i) (\<lambda>p. p\<lparr> p_context := user_context (r_buf r) (p_context p) \<rparr>) (k3\<lparr> cr3 := cr3 k \<rparr>)) = Some (n, k4)"
    "k' = (update_pcb (nat i) (\<lambda>p. p\<lparr> pid := word_of_int n, active := True, cur_state := READY \<rparr>) k4)\<lparr> active_process_count := active_process_count k4 + 1 \<rparr>"
    using assms(1) False
    by (auto simp: process_create_user_process_def Let_def bind_eq_Some_conv split: if_splits)
  have "p \<in> set (process_list k)" using s(1) by (auto simp: arr_geti_def arr_get_eq_Some split: if_splits)
  then have "length nm = 8" using memcpy_length [OF s(2)] assms(2) by (simp add: kernel_typed_def pcb_typed_def)
  then have "kernel_typed (update_pcb (nat i) (\<lambda>p. p\<lparr> p_name := nm \<rparr>) k)"
    using assms(2) by (intro update_pcb_typed) (simp_all add: pcb_typed_def)
  moreover have "pg_typed pg'" using create_directory_typed [OF s(3)] kernel_typedD(1) [OF assms(2)] by blast
  ultimately have "kernel_typed (update_pcb (nat i) (\<lambda>p. p\<lparr> p_context := (p_context p)\<lparr> page_directory_virtual_addr := dir \<rparr> \<rparr>)
         ((update_pcb (nat i) (\<lambda>p. p\<lparr> p_name := nm \<rparr>) k)\<lparr> pg := pg', cr3 := dir \<rparr>))"
    by (intro update_pcb_typed) (simp_all add: kernel_typed_update pcb_typed_def)
  then have "kernel_typed k2" by (rule allocate_frames_typed [OF s(4)])
  then have "kernel_typed (update_pcb (nat i) (\<lambda>p. p\<lparr> page_frame_used_count := ceil_div (buffer_size r + PAGE_FRAME_SIZE) PAGE_FRAME_SIZE \<rparr>) k2)"
    by (intro update_pcb_typed) (simp_all add: pcb_typed_def)
  then have "kernel_typed k3" by (rule load_program_typed [OF s(5)])
  then have "kernel_typed (update_pcb (nat i) (\<lambda>p. p\<lparr> p_context := user_context (r_buf r) (p_context p) \<rparr>) (k3\<lparr> cr3 := cr3 k \<rparr>))"
    by (intro update_pcb_typed) (simp_all add: pcb_typed_def)
  then have "kernel_typed k4" using s(6) by (auto simp: process_generate_new_pid_def bind_eq_Some_conv split: if_splits)
  then have "kernel_typed (update_pcb (nat i) (\<lambda>p. p\<lparr> pid := word_of_int n, active := True, cur_state := READY \<rparr>) k4)"
    by (intro update_pcb_typed) (simp_all add: pcb_typed_def)
  then show ?thesis by (simp add: s(7))
qed (use assms in simp)

lemma tick_typed: "timer_tick ctx k = Some k' \<Longrightarrow> kernel_typed k \<Longrightarrow> kernel_typed k'"
  by (auto simp: timer_tick_def scheduler_save_context_to_current_running_pcb_def scheduler_switch_to_next_process_def
      Let_def bind_eq_Some_conv pcb_typed_def split: if_splits intro!: update_pcb_typed)

section \<open>The shell's folder, the line of command, the screen\<close>

definition shell_typed :: "shell \<Rightarrow> bool" where
  "shell_typed sh = (length (cur_dir sh) = 100 \<and> wf_table (cwd_table sh))"

lemma removePath_loop_length: "removePath_loop d i = Some (d', i') \<Longrightarrow> length d' = length d"
proof (induction d i rule: removePath_loop.induct)
  case (1 d i)
  show ?case
    using 1(2) by (subst (asm) removePath_loop.simps) (auto split: option.splits if_splits, metis 1(1) arr_seti_length)
qed

lemma addPath_loop_length: "addPath_loop w n d i = Some (d', i') \<Longrightarrow> length d' = length d"
proof (induction w n d i rule: addPath_loop.induct)
  case (1 w n d i)
  show ?case
    using 1(2) by (subst (asm) addPath_loop.simps) (auto split: option.splits if_splits, metis 1(1) arr_seti_length)
qed

lemma update_shell_dir_typed:
  assumes "update_shell_dir f c path add sh = Some sh'" "shell_typed sh"
  shows "shell_typed sh'"
proof -
  let ?sh = "sh\<lparr> cwd_table := dir_at f (word_of_int c), cur_cluster := c \<rparr>"
  have "sh' = ?sh \<or> addPath path ?sh = Some sh' \<or> removePath ?sh = Some sh'"
    using assms(1) by (auto simp: update_shell_dir_def dir_at_def Let_def bind_eq_Some_conv split: if_splits)
  moreover have "shell_typed ?sh" using assms(2) wf_dir_at by (simp add: shell_typed_def)
  ultimately show ?thesis
    by (auto simp: addPath_def removePath_def Let_def bind_eq_Some_conv shell_typed_def
        dest!: removePath_loop_length addPath_loop_length arr_seti_length)
qed

definition keyboard_typed :: "keyboard \<Rightarrow> bool" where
  "keyboard_typed k = (length (command k) = 100)"

lemma command_typed:
  "add_command c k = Some k' \<Longrightarrow> keyboard_typed k \<Longrightarrow> keyboard_typed k'"
  "delete_command k = Some k' \<Longrightarrow> keyboard_typed k \<Longrightarrow> keyboard_typed k'"
  by (auto simp: add_command_def delete_command_def keyboard_typed_def bind_eq_Some_conv split: if_splits dest!: arr_seti_length)

lemma clear_command_typed:
  assumes "clear_command k = Some k'" "keyboard_typed k"
  shows "keyboard_typed k'"
proof -
  obtain cmd where c: "for_range 0 (nat (kb_idx k)) (\<lambda>i a. arr_set a i 0) (command k) = Some cmd"
    "k' = k\<lparr> command := cmd, kb_idx := 0 \<rparr>"
    using assms(1) by (auto simp: clear_command_def bind_eq_Some_conv)
  from c(1) have "length cmd = length (command k)"
    by (rule for_range_invD [where I = "\<lambda>_ a. length a = length (command k)"]) (auto simp: arr_set_eq_Some)
  then show ?thesis using assms(2) c(2) by (simp add: keyboard_typed_def)
qed

text \<open>What prints keeps the cursor on the screen.\<close>

lemma putchar_typed: "putchar c col t = Some t' \<Longrightarrow> screen_ok t \<Longrightarrow> screen_ok t'"
  by (drule putchar_ok [of t c col]) auto

lemma puts_chars_typed: "puts_chars ch n col t = Some t' \<Longrightarrow> screen_ok t \<Longrightarrow> screen_ok t'"
  by (drule puts_chars_ok [of t ch n col]) auto

lemma puts_list_typed: "puts_list xs col t = Some t' \<Longrightarrow> screen_ok t \<Longrightarrow> screen_ok t'"
  unfolding puts_list_def by (rule puts_chars_typed)

lemma clear_typed: "framebuffer_clear t = Some t' \<Longrightarrow> screen_ok t \<Longrightarrow> screen_ok t'"
  by (auto simp: framebuffer_clear_def bind_eq_Some_conv memset_eq screen_ok_def)

lemma printDirPath_loop_typed:
  assumes "printDirPath_loop f c d p t = Some t'" "screen_ok t"
  shows "screen_ok t'"
proof -
  have "screen_ok t \<longrightarrow> screen_ok t'"
    using assms(1)
  proof (rule printDirPath_loop.raw_induct [rotated], intro impI)
    fix rec f c d p t t'
    assume IH: "\<And>f c d p t t'. rec f c d p t = Some t' \<Longrightarrow> screen_ok t \<longrightarrow> screen_ok t'"
      and run: "(if c \<noteq> p then do {
        t \<leftarrow> puts_list (name (d ! 0)) 0xF t;
        t \<leftarrow> putchar 47 0xF t;
        let current_cluster = p;
        let dir_table = decode_table (read_clusters (image f) (word_of_int current_cluster) 1);
        rec f current_cluster dir_table (sint (entry_cluster (dir_table ! 1))) t } else Some t) = Some t'"
      and t: "screen_ok t"
    show "screen_ok t'"
    proof (cases "c = p")
      case True
      then show ?thesis using run t by simp
    next
      case False
      obtain t1 t2 d2 p2 where r: "puts_list (name (d ! 0)) 0xF t = Some t1" "putchar 47 0xF t1 = Some t2" "rec f p d2 p2 t2 = Some t'"
        using run False by (auto simp: bind_eq_Some_conv Let_def)
      have "screen_ok t2" by (rule putchar_typed [OF r(2) puts_list_typed [OF r(1) t]])
      then show ?thesis using IH [OF r(3)] by blast
    qed
  qed
  then show ?thesis using assms(2) by blast
qed

lemma printDirPath_typed: "printDirPath f c t = Some t' \<Longrightarrow> screen_ok t \<Longrightarrow> screen_ok t'"
  by (auto simp: printDirPath_def Let_def bind_eq_Some_conv dest: printDirPath_loop_typed puts_list_typed)

lemma printAllFind_typed:
  assumes "printAllFind nm ex f t = Some (f', t')" "fs_typed f" "screen_ok t"
  shows "fs_typed f' \<and> screen_ok t'"
proof -
  obtain res n where f: "find_fat nm ex (replicate 100 0) (replicate 50 0) 0 f = Some (res, n, f')"
    using assms(1) by (auto simp: printAllFind_def bind_eq_Some_conv split: if_splits)
  have "screen_ok t'"
  proof (cases "n = 0")
    case True
    then show ?thesis using assms(1,3) f by (auto simp: printAllFind_def bind_eq_Some_conv dest: puts_list_typed)
  next
    case False
    then have "for_range 0 (nat n) (\<lambda>i t. do {
                           t \<leftarrow> putchar (of_nat (i + 1) + 48) 0xF t;
                           t \<leftarrow> puts_list (cstr ''. '') 0xF t;
                           c \<leftarrow> arr_get res i;
                           printDirPath f' c t }) t = Some t'"
      using assms(1) f by (auto simp: printAllFind_def bind_eq_Some_conv)
    then show ?thesis
      by (rule for_range_invD [where I = "\<lambda>_. screen_ok"])
        (use assms(3) in \<open>auto simp: bind_eq_Some_conv dest!: printDirPath_typed intro: puts_list_typed putchar_typed\<close>)
  qed
  then show ?thesis using find_fat_typed [OF f assms(2)] by blast
qed

section \<open>The machine\<close>

definition machine_typed :: "machine \<Rightarrow> bool" where
  "machine_typed m = (kernel_typed (kern m) \<and> screen_ok (scrn m) \<and> keyboard_typed (kbd m) \<and> shell_typed (shl m))"

lemma machine_typed_store [simp]: "machine_typed (set_user_mem M m) = machine_typed m" "machine_typed (store_at p bs m) = machine_typed m"
  by (simp_all add: machine_typed_def store_at_def set_user_mem_def)

lemma machine_typed_update:
  "machine_typed m \<Longrightarrow> fs_typed f \<Longrightarrow> machine_typed (set_fs f m)"
  "machine_typed m \<Longrightarrow> screen_ok t \<Longrightarrow> machine_typed (m\<lparr> scrn := t \<rparr>)"
  "machine_typed m \<Longrightarrow> kernel_typed k \<Longrightarrow> machine_typed (m\<lparr> kern := k \<rparr>)"
  "machine_typed m \<Longrightarrow> keyboard_typed b \<Longrightarrow> machine_typed (m\<lparr> kbd := b \<rparr>)"
  "machine_typed m \<Longrightarrow> shell_typed sh \<Longrightarrow> machine_typed (m\<lparr> shl := sh \<rparr>)"
  by (simp_all add: machine_typed_def set_fs_def kernel_typed_update)

lemma machine_typedD: "machine_typed m \<Longrightarrow> kernel_typed (kern m)" "machine_typed m \<Longrightarrow> fs_typed (k_fs (kern m))"
  "machine_typed m \<Longrightarrow> screen_ok (scrn m)" "machine_typed m \<Longrightarrow> keyboard_typed (kbd m)" "machine_typed m \<Longrightarrow> shell_typed (shl m)"
  by (simp_all add: machine_typed_def kernel_typedD)

lemma sys_getchar_typed:
  assumes "sys_getchar p q r m = Some m'" "machine_typed m"
  shows "machine_typed m'"
proof -
  obtain k bs1 bs2 bs3 where k: "m' = (store_at r bs3 (store_at q bs2 (store_at p bs1 m)))\<lparr> kbd := k \<rparr>"
    "(if keyboard_buffer (kbd m) = 8 then delete_command ((kbd m)\<lparr> keyboard_buffer := 0 \<rparr>)
      else if keyboard_buffer (kbd m) \<noteq> 0 \<and> keyboard_buffer (kbd m) \<noteq> 10
      then add_command (keyboard_buffer (kbd m)) ((kbd m)\<lparr> keyboard_buffer := 0 \<rparr>) else Some ((kbd m)\<lparr> keyboard_buffer := 0 \<rparr>)) = Some k"
    using assms(1) by (auto simp: sys_getchar_def get_keyboard_buffer_def Let_def bind_eq_Some_conv)
  have "keyboard_typed ((kbd m)\<lparr> keyboard_buffer := 0 \<rparr>)" using machine_typedD(4) [OF assms(2)] by (simp add: keyboard_typed_def)
  then have "keyboard_typed k" using k(2) command_typed by (auto split: if_splits)
  then show ?thesis using assms(2) by (simp add: k(1) machine_typed_update)
qed

lemma sys_clock_typed: "machine_typed m \<Longrightarrow> machine_typed (sys_clock dev p m)"
  by (simp add: sys_clock_def Let_def case_prod_unfold machine_typed_def store_at_def set_user_mem_def screen_ok_def)

lemma sys_write_clock_typed:
  assumes "sys_write_clock p m = Some m'" "machine_typed m"
  shows "machine_typed m'"
proof -
  obtain t where t: "for_range 0 9 (\<lambda>i. write_exact_loc 23 (70 + of_nat i) (user_mem m (p + of_nat i)) 0xF 0) (scrn m) = Some t"
    "m' = m\<lparr> scrn := t \<rparr>"
    using assms(1) by (auto simp: sys_write_clock_def bind_eq_Some_conv)
  from t(1) have "screen_ok t"
    by (rule for_range_invD [where I = "\<lambda>_. screen_ok"])
      (use machine_typedD(3) [OF assms(2)] in \<open>auto simp: write_exact_loc_def bind_eq_Some_conv arr_set_eq_Some screen_ok_def Let_def\<close>)
  then show ?thesis using assms(2) by (simp add: t(2) machine_typed_update)
qed

lemma syscall_typed:
  assumes "syscall dev pd_addr fr m = Some m'" "machine_typed m"
  shows "machine_typed m'"
proof -
  note d = machine_typedD [OF assms(2)] and u = machine_typed_update [OF assms(2)]
  let ?n = "eax fr" and ?f = "k_fs (kern m)"
  consider "?n = 0" | "?n = 1" | "?n = 2" | "?n = 3" | "?n = 4" | "?n \<in> {5, 6, 8}" | "?n = 9" | "?n \<in> {10, 13, 14}" | "?n = 11"
    | "?n = 15" | "?n = 16" | "?n \<in> {7, 17}" | "?n = 18" | "?n \<in> {12, 19, 20, 21, 22}" | "?n = 23" | "?n \<notin> {0, 1, 2, 3, 4, 5, 6, 7, 8, 9, 10, 11, 12, 13, 14, 15, 16, 17, 18, 19, 20, 21, 22, 23}"
    by fast
  then show ?thesis
  proof cases
    assume "?n = 0"
    then obtain r M f where "read_fat (request_at m (ebx fr)) (user_mem m) ?f = Some (r, M, f)"
      "m' = store_at (ecx fr) (int8_byte r) (set_user_mem M (set_fs f m))"
      using assms(1) by (auto simp: syscall_def bind_eq_Some_conv Let_def)
    then show ?thesis using u(1) read_fat_typed d(2) by simp
  next
    assume "?n = 1"
    then obtain r M f where "read_directory (request_at m (ebx fr)) (user_mem m) ?f = (r, M, f)"
      "m' = store_at (ecx fr) (int8_byte r) (set_user_mem M (set_fs f m))"
      using assms(1) by (auto simp: syscall_def Let_def split: prod.splits)
    then show ?thesis using u(1) read_directory_typed d(2) by simp
  next
    assume "?n = 2"
    then obtain r f where "write_fat (request_at m (ebx fr)) (user_mem m) ?f = Some (r, f)"
      "m' = store_at (ecx fr) (int8_byte r) (set_fs f m)"
      using assms(1) by (auto simp: syscall_def bind_eq_Some_conv Let_def)
    then show ?thesis using u(1) write_fat_typed d(2) by simp
  next
    assume "?n = 3"
    then obtain r f where "delete_fat (request_at m (ebx fr)) ?f = Some (r, f)"
      "m' = store_at (ecx fr) (int8_byte r) (set_fs f m)"
      using assms(1) by (auto simp: syscall_def bind_eq_Some_conv Let_def)
    then show ?thesis using u(1) delete_fat_typed d(2) by simp
  next
    assume "?n = 4"
    then show ?thesis using assms sys_getchar_typed by (simp add: syscall_def Let_def)
  next
    assume "?n \<in> {5, 6, 8}"
    then obtain t where "m' = m\<lparr> scrn := t \<rparr>" "screen_ok t"
      using assms(1) putchar_typed [OF _ d(3)] puts_chars_typed [OF _ d(3)] clear_typed [OF _ d(3)]
      by (auto simp: syscall_def bind_eq_Some_conv Let_def puts_def) (auto simp: screen_ok_def)
    then show ?thesis using u(2) by simp
  next
    assume "?n = 9"
    then obtain f t where "printAllFind (mem_load (user_mem m) (ebx fr) 8) (mem_load (user_mem m) (ecx fr) 3) ?f (scrn m) = Some (f, t)"
      "m' = (set_fs f m)\<lparr> scrn := t \<rparr>"
      using assms(1) by (auto simp: syscall_def bind_eq_Some_conv Let_def)
    then show ?thesis using printAllFind_typed d(2,3) u(1) by (simp add: machine_typed_update)
  next
    assume "?n \<in> {10, 13, 14}"
    then obtain k bs p where "m' = m\<lparr> kern := k \<rparr> \<or> m' = store_at p bs (m\<lparr> kern := k \<rparr>)" "kernel_typed k"
      using assms(1) destroy_typed [OF _ d(1)] create_typed [OF _ d(1)]
      by (auto simp: syscall_def bind_eq_Some_conv Let_def; blast)
    then show ?thesis using u(3) by auto
  next
    assume "?n = 11"
    then obtain c f where "findCluster (request_at m (ebx fr)) ?f = (c, f)" "m' = store_at (ecx fr) (int_bytes c) (set_fs f m)"
      using assms(1) by (auto simp: syscall_def Let_def split: prod.splits)
    then show ?thesis using u(1) findCluster_typed d(2) by simp
  next
    assume "?n = 15"
    then show ?thesis using assms by (auto simp: syscall_def Let_def sys_ps_def bind_eq_Some_conv)
  next
    assume "?n = 16"
    then show ?thesis using assms sys_clock_typed by (auto simp: syscall_def Let_def)
  next
    assume "?n \<in> {7, 17}"
    then obtain k where "m' = m\<lparr> kbd := k \<rparr>" "keyboard_typed k"
      using assms(1) clear_command_typed [OF _ d(4)] d(4)
      by (auto simp: syscall_def bind_eq_Some_conv Let_def keyboard_state_activate_def) (auto simp: keyboard_typed_def)
    then show ?thesis using u(4) by simp
  next
    assume "?n = 18"
    then obtain sh where "m' = m\<lparr> shl := sh \<rparr>" "shell_typed sh"
      using assms(1) update_shell_dir_typed [OF _ d(5)] by (auto simp: syscall_def bind_eq_Some_conv Let_def)
    then show ?thesis using u(5) by simp
  next
    assume "?n \<in> {12, 19, 20, 21, 22}"
    then show ?thesis using assms by (auto simp: syscall_def bind_eq_Some_conv Let_def)
  next
    assume "?n = 23"
    then show ?thesis using assms sys_write_clock_typed by (simp add: syscall_def Let_def)
  next
    assume "?n \<notin> {0, 1, 2, 3, 4, 5, 6, 7, 8, 9, 10, 11, 12, 13, 14, 15, 16, 17, 18, 19, 20, 21, 22, 23}"
    then show ?thesis using assms by (simp add: syscall_def Let_def)
  qed
qed

text \<open>C20: Every interrupt and every system call that is handled keeps the types of the kernel's objects: the
  allocation table has 512 entries and the directory tables 64 with names of 8 and extensions of 3
  characters, the process table 16 blocks with 8 addresses each, the page directories 1024 entries, the
  maps of frames and directories 32, the screen 4000 bytes with the cursor on it, the line of command
  and the path 100 characters.\<close>

theorem handler_keeps_types:
  assumes "main_interrupt_handler dev pd_addr fr m = Some m'" "machine_typed m"
  shows "machine_typed m'"
proof -
  define m1 where "m1 = m\<lparr> scrn := (scrn m)\<lparr> bus := pic_ack (ucast (int_number fr)) (bus (scrn m)) \<rparr> \<rparr>"
  have m1: "machine_typed m1" using assms(2) by (simp add: m1_def machine_typed_def screen_ok_def)
  note d = machine_typedD [OF m1] and u = machine_typed_update [OF m1]
  have kb: "screen_ok t \<and> keyboard_typed k" if "keyboard_isr dev (kbd m1) (scrn m1) = Some (k, t)" for k t
    using that keyboard_isr_total [OF d(3), of dev "kbd m1"] d(4) by (auto simp: keyboard_typed_def)
  have "machine_typed (m1\<lparr> hlt := True \<rparr>)" using m1 by (simp add: machine_typed_def)
  then show ?thesis
    using assms(1) m1 kb tick_typed [OF _ d(1)] syscall_typed [OF _ m1] u
    unfolding main_interrupt_handler_def Let_def m1_def [symmetric]
    by (auto simp: bind_eq_Some_conv machine_typed_update split: if_splits)
qed

lemma machine0_typed: "machine_typed machine0"
proof -
  have z: "wf_table zero_table" "fs_typed fs0"
    using wf_dir_at [of fs0 9999] fat_ok_length [OF volD(1) [OF fs0_ok(1)]]
    by (simp_all add: wf_table_def zero_table_def wf_dirent_def zero_dirent_fields fs_typed_def fs0_def formatted_def blank_def)
  have p: "pcb_typed zero_pcb" by (simp add: pcb_typed_def zero_pcb_def)
  have "kernel_typed (initial_kernel fs0)"
    using z(2) p by (simp add: kernel_typed_def initial_kernel_def pg_typed_def initial_paging_def)
  then show ?thesis
    using z(1) by (simp add: machine_typed_def machine0_def kernel0_def screen_ok_def keyboard_typed_def keyboard_state_def
        shell_typed_def shell_state_def)
qed

lemma handler_keeps_types_witness:
  "\<exists>m'. main_interrupt_handler (\<lambda>_ _. 0) (\<lambda>_. 0)
     \<lparr> f_cpu = zero_cpu\<lparr> eax := 8 \<rparr>, int_number = SYSCALL, error_code = 0, f_eip = 0, f_cs = 0, f_eflags = 0 \<rparr> machine0 = Some m' \<and>
     machine_typed m'"
proof -
  let ?fr = "\<lparr> f_cpu = zero_cpu\<lparr> eax := 8 \<rparr>, int_number = SYSCALL, error_code = 0, f_eip = 0, f_cs = 0, f_eflags = 0 \<rparr>"
  have n: "(SYSCALL = PAGE_FAULT) = False" "(SYSCALL = ucast PIC1_OFFSET + of_nat IRQ_KEYBOARD) = False"
    "(SYSCALL = ucast PIC1_OFFSET + of_nat IRQ_TIMER) = False"
    by (simp_all add: SYSCALL_def PAGE_FAULT_def PIC1_OFFSET_def IRQ_KEYBOARD_def IRQ_TIMER_def)
  have "\<exists>m'. main_interrupt_handler (\<lambda>_ _. 0) (\<lambda>_. 0) ?fr machine0 = Some m'"
    by (simp add: main_interrupt_handler_def n syscall_def Let_def framebuffer_clear_def memset_eq machine0_def)
  then show ?thesis using handler_keeps_types [OF _ machine0_typed] by blast
qed

end
