(* ===== verification/ShellLine.thy ===== *)
theory ShellLine
  imports ShellHome ScreenProps
begin

text \<open>
  The main loop of \<open>src/src/user-shell.c\<close> with the keyboard: while the shell polls for characters, key
  presses arrive as keyboard interrupts between its system calls.  The line that it collects is the
  line typed, and the command that it runs is the first word of the line.
\<close>

unbundle bit_operations_syntax

section \<open>Keys\<close>

text \<open>The effect of a character on the line; 0 is a poll that finds no key.\<close>

fun type_key :: "u8 \<Rightarrow> u8 list \<Rightarrow> u8 list" where
  "type_key c l = (if c = 8 then butlast l else if c = 0 \<or> c = 10 then l else l @ [c])"

definition typed_line :: "u8 list \<Rightarrow> u8 list \<Rightarrow> u8 list" where
  "typed_line ks l = fold type_key ks l"

text \<open>The number of characters that the line gets, backspaces not subtracted.\<close>

definition printable :: "u8 list \<Rightarrow> nat" where
  "printable ks = length (filter (\<lambda>c. c \<noteq> 0 \<and> c \<noteq> 8) ks)"

lemma typed_line_simps [simp]: "typed_line [] l = l" "typed_line (c # ks) l = typed_line ks (type_key c l)"
  by (simp_all add: typed_line_def)

declare type_key.simps [simp del]

lemma length_type_key: "length (type_key c l) \<le> length l + printable [c]"
  by (simp add: type_key.simps printable_def)

lemma printable_Cons: "printable (c # ks) = printable [c] + printable ks"
  by (simp add: printable_def)

lemma length_typed_line: "length (typed_line ks l) \<le> length l + printable ks"
proof (induction ks arbitrary: l)
  case (Cons c ks)
  show ?case
    using length_type_key [of c l] by (simp add: printable_Cons [of c ks] order_trans [OF Cons.IH [of "type_key c l"]])
qed (simp add: printable_def)

lemma set_type_key: "set (type_key c l) \<subseteq> set l \<union> (if c = 0 \<or> c = 10 \<or> c = 8 then {} else {c})"
  by (auto simp: type_key.simps dest: in_set_butlastD)

lemma set_typed_line: "set (typed_line ks l) \<subseteq> set l \<union> (set ks - {0, 8, 10})"
proof (induction ks arbitrary: l)
  case (Cons c ks)
  then show ?case using Cons.IH [of "type_key c l"] set_type_key [of c l] by (fastforce split: if_splits)
qed simp

text \<open>The keyboard accepts keys and no modifier is down.\<close>

definition typing :: "machine \<Rightarrow> bool" where
  "typing m = (screen_ok (scrn m) \<and> keyboard_input_on (kbd m) \<and> \<not> capslock_on (kbd m) \<and> \<not> shift_on (kbd m))"

text \<open>Between two polls the environment leaves the next of the characters \<open>ks\<close> in the keyboard's buffer,
  and touches neither the line nor the rest of the kernel.\<close>

definition delivers :: "(nat \<Rightarrow> machine \<Rightarrow> machine) \<Rightarrow> nat \<Rightarrow> u8 list \<Rightarrow> bool" where
  "delivers env k ks =
     (\<forall>i < length ks. \<forall>m. typing m \<longrightarrow> typing (env (k + i) m) \<and> keyboard_buffer (kbd (env (k + i) m)) = ks ! i \<and>
        command (kbd (env (k + i) m)) = command (kbd m) \<and> kb_idx (kbd (env (k + i) m)) = kb_idx (kbd m) \<and>
        kern (env (k + i) m) = kern m \<and> shl (env (k + i) m) = shl m)"

lemma delivers_Cons:
  assumes "delivers env k (c # ks)"
  shows "delivers env (k + 1) ks"
    and "typing m \<Longrightarrow> typing (env k m) \<and> keyboard_buffer (kbd (env k m)) = c \<and> command (kbd (env k m)) = command (kbd m) \<and>
      kb_idx (kbd (env k m)) = kb_idx (kbd m) \<and> kern (env k m) = kern m \<and> shl (env k m) = shl m"
proof -
  show "delivers env (k + 1) ks"
    unfolding delivers_def
  proof (intro allI impI)
    fix i m assume "i < length ks" "typing m"
    then show "typing (env (k + 1 + i) m) \<and> keyboard_buffer (kbd (env (k + 1 + i) m)) = ks ! i \<and>
        command (kbd (env (k + 1 + i) m)) = command (kbd m) \<and> kb_idx (kbd (env (k + 1 + i) m)) = kb_idx (kbd m) \<and>
        kern (env (k + 1 + i) m) = kern m \<and> shl (env (k + 1 + i) m) = shl m"
      using assms [unfolded delivers_def, rule_format, of "Suc i" m] by simp
  qed
  show "typing m \<Longrightarrow> typing (env k m) \<and> keyboard_buffer (kbd (env k m)) = c \<and> command (kbd (env k m)) = command (kbd m) \<and>
      kb_idx (kbd (env k m)) = kb_idx (kbd m) \<and> kern (env k m) = kern m \<and> shl (env k m) = shl m"
    using assms [unfolded delivers_def, rule_format, of 0 m] by simp
qed

text \<open>Keyboard interrupts do: each poll is preceded by one, with the scancode of the port.  The
  scancode is one that neither switches a mode nor moves the cursor.\<close>

definition presses :: "(pd_ptr \<Rightarrow> u32) \<Rightarrow> interrupt_frame \<Rightarrow> u8 list \<Rightarrow> nat \<Rightarrow> machine \<Rightarrow> machine" where
  "presses pd_addr fr scs i m =
     (case main_interrupt_handler (\<lambda>_ _. ucast (scs ! i)) pd_addr (fr\<lparr> int_number := 0x21 \<rparr>) m of
        Some m' \<Rightarrow> m' | None \<Rightarrow> m)"

definition plain_key :: "u8 \<Rightarrow> bool" where
  "plain_key sc =
     (sc \<notin> {CAPSLOCK_SCANCODE, LEFT_SHIFT_SCANCODE, RIGHT_SHIFT_SCANCODE, LEFT_SHIFT_RELEASE_SCANCODE,
        RIGHT_SHIFT_RELEASE_SCANCODE, CTRL_SCANCODE, CTRL_RELEASE_SCANCODE, EXT_SCANCODE_UP, EXT_SCANCODE_DOWN,
        EXT_SCANCODE_LEFT, EXT_SCANCODE_RIGHT})"

lemma length_scancode_map: "length keyboard_scancode_1_to_ascii_map = 256"
  by (simp add: keyboard_scancode_1_to_ascii_map_def)

lemma presses_deliver:
  assumes "\<forall>sc \<in> set scs. plain_key sc"
  shows "delivers (presses pd_addr fr scs) 0 (map (\<lambda>sc. keyboard_scancode_1_to_ascii_map ! unat sc) scs)"
  unfolding delivers_def
proof (intro allI impI)
  fix i m assume i: "i < length (map (\<lambda>sc. keyboard_scancode_1_to_ascii_map ! unat sc) scs)" and t: "typing m"
  let ?sc = "scs ! i" and ?m = "presses pd_addr fr scs (0 + i) m"
  have p: "plain_key ?sc" using i assms by simp
  have n: "(0x21 :: u32) \<noteq> PAGE_FAULT" "(0x21 :: u32) = ucast PIC1_OFFSET + of_nat IRQ_KEYBOARD"
    by (simp_all add: PAGE_FAULT_def PIC1_OFFSET_def IRQ_KEYBOARD_def)
  have u: "ucast (ucast ?sc :: u16) = ?sc" by (rule bit_word_eqI) (simp add: bit_simps)
  have a: "arrow ?sc t = None" "modifier ?sc k = k" "?sc \<noteq> CAPSLOCK_SCANCODE" for t k
    using p by (auto simp: plain_key_def arrow_def modifier_def)
  have "unat ?sc < 256" by (rule unat_u8_lt)
  then have g: "arr_get keyboard_scancode_1_to_ascii_map (unat ?sc) = Some (keyboard_scancode_1_to_ascii_map ! unat ?sc)"
    by (simp add: arr_get_def length_scancode_map)
  have "\<exists>b. ?m = m\<lparr> kbd := (kbd m)\<lparr> keyboard_buffer := keyboard_scancode_1_to_ascii_map ! unat ?sc \<rparr>, scrn := (scrn m)\<lparr> bus := b \<rparr> \<rparr>"
    using t n g a u
    by (auto simp: presses_def main_interrupt_handler_def Let_def keyboard_isr_def inb_def to_ascii_def typing_def)
  then show "typing ?m \<and> keyboard_buffer (kbd ?m) = map (\<lambda>sc. keyboard_scancode_1_to_ascii_map ! unat sc) scs ! i \<and>
        command (kbd ?m) = command (kbd m) \<and> kb_idx (kbd ?m) = kb_idx (kbd m) \<and> kern ?m = kern m \<and> shl ?m = shl m"
    using t i by (auto simp: typing_def screen_ok_def)
qed

section \<open>Reading the line\<close>

text \<open>\<open>s'\<close> differs from \<open>s\<close> in the screen, the keyboard and the first \<open>n\<close> bytes of the process's memory.\<close>

definition collected :: "nat \<Rightarrow> session \<Rightarrow> session \<Rightarrow> bool" where
  "collected n s s' =
     (\<exists>M. kern (os s') = kern (set_user_mem M (os s)) \<and> (\<forall>a. n \<le> unat a \<longrightarrow> M a = user_mem (os s) a) \<and>
        shl (os s') = shl (os s) \<and> copy_status s' = copy_status s)"

lemma collected_trans:
  assumes "collected n s t" "collected n' t u" "n \<le> n'"
  shows "collected n' s u"
proof -
  obtain M where M: "kern (os t) = kern (set_user_mem M (os s))" "\<forall>a. n \<le> unat a \<longrightarrow> M a = user_mem (os s) a"
    "shl (os t) = shl (os s)" "copy_status t = copy_status s" using assms(1) unfolding collected_def by blast
  obtain N where N: "kern (os u) = kern (set_user_mem N (os t))" "\<forall>a. n' \<le> unat a \<longrightarrow> N a = user_mem (os t) a"
    "shl (os u) = shl (os t)" "copy_status u = copy_status t" using assms(2) unfolding collected_def by blast
  have "user_mem (os t) = M" using M(1) by (simp add: user_mem_def set_user_mem_def)
  moreover have "kern (set_user_mem N (os t)) = kern (set_user_mem N (os s))" using M(1) by (simp add: set_user_mem_def)
  ultimately show ?thesis unfolding collected_def using M N assms(3) by (intro exI [of _ N]) auto
qed

lemma collected_printed: "printed s t \<Longrightarrow> collected n s t"
  by (auto simp: collected_def set_user_mem_def user_mem_def printed_def set_screen_def
      intro!: exI [of _ "space (kern (os s)) (cr3 (kern (os s)))"])

lemma collectedD:
  assumes "collected n s s'"
  shows "vol s' = vol s" "folder s' = folder s" "copy_status s' = copy_status s"
  using assms by (auto simp: collected_def vol_def folder_def set_user_mem_def)

lemma typing_screen: "typing (os s) \<Longrightarrow> screen_ok (screen s)"
  by (simp add: typing_def screen_def)

lemma typing_printed: "typing (os s) \<Longrightarrow> printed s t \<Longrightarrow> typing (os t)"
  by (auto simp: typing_def printed_def set_screen_def)

text \<open>What a key does to the line in the keyboard's state.\<close>

lemma key_line:
  assumes "line_ok k" "length (line k) + printable [c] \<le> 100" "c \<noteq> 10"
  shows "\<exists>k'. (if c = 8 then delete_command k else if c \<noteq> 0 \<and> c \<noteq> 10 then add_command c k else Some k) = Some k' \<and>
    line_ok k' \<and> line k' = type_key c (line k)"
proof -
  have len: "length (line k) = nat (kb_idx k)" "0 \<le> kb_idx k" using line_length [OF assms(1)] assms(1) by (simp_all add: line_ok_def)
  consider (erase) "c = 8" "kb_idx k \<noteq> 0" | (empty) "c = 8" "kb_idx k = 0" | (none) "c = 0" | (char) "c \<noteq> 8" "c \<noteq> 0" by blast
  then show ?thesis
  proof cases
    case erase
    then show ?thesis using delete_command_line [OF assms(1)] len(2) by (auto simp: type_key.simps)
  next
    case empty
    then show ?thesis using assms(1) len(1) by (simp add: delete_command_def type_key.simps)
  next
    case none
    then show ?thesis using assms(1) by (simp add: type_key.simps)
  next
    case char
    then have "kb_idx k < 100" using assms(2) len by (simp add: printable_def)
    then show ?thesis using add_command_line [OF assms(1), of c] char assms(3) by (auto simp: type_key.simps)
  qed
qed

text \<open>One poll.\<close>

lemma poll_step:
  assumes "delivers env k (c # ks)" "typing (os s)" "line_ok (kbd (os s))" "length (line (kbd (os s))) + printable [c] \<le> 100"
    and "length cmd = 100" "c \<noteq> 10"
  shows "\<exists>n s2 s'. call_getchar cmd (s\<lparr> os := env k (os s) \<rparr>) = Some (pad 100 (type_key c (line (kbd (os s)))), n, s2) \<and>
    show_char idx n s2 = Some s' \<and> typing (os s') \<and> line_ok (kbd (os s')) \<and>
    line (kbd (os s')) = type_key c (line (kbd (os s))) \<and> collected 1 s s' \<and> at_null s' = c"
proof -
  let ?m = "env k (os s)" and ?l = "type_key c (line (kbd (os s)))"
  have e: "typing ?m" "keyboard_buffer (kbd ?m) = c" "command (kbd ?m) = command (kbd (os s))" "kb_idx (kbd ?m) = kb_idx (kbd (os s))"
    "kern ?m = kern (os s)" "shl ?m = shl (os s)" using delivers_Cons(2) [OF assms(1,2)] by simp_all
  let ?k0 = "(kbd ?m)\<lparr> keyboard_buffer := 0 \<rparr>"
  have k0: "line_ok ?k0" "line ?k0 = line (kbd (os s))" using assms(3) e by (simp_all add: line_ok_def line_def)
  then obtain k' where k': "(if c = 8 then delete_command ?k0 else if c \<noteq> 0 \<and> c \<noteq> 10 then add_command c ?k0 else Some ?k0) = Some k'"
    "line_ok k'" "line k' = ?l" using key_line [of ?k0 c] assms(4,6) by auto
  have modes: "keyboard_input_on k' = keyboard_input_on ?k0" "capslock_on k' = capslock_on ?k0" "shift_on k' = shift_on ?k0"
    using k'(1) by (auto simp: delete_command_def add_command_def bind_eq_Some_conv split: if_splits)
  define s2 where "s2 = s\<lparr> os := (store_at 0 [c] ?m)\<lparr> kbd := k' \<rparr> \<rparr>"
  have g: "call_getchar cmd (s\<lparr> os := ?m \<rparr>) = Some (pad 100 ?l, kb_idx k', s2)"
    using k'(1) e(2) get_command_eq [OF k'(2) assms(5)] k'(3)
    by (auto simp: call_getchar_def get_keyboard_buffer_def s2_def pad_def split: if_splits)
  have t2: "typing (os s2)" using e(1) modes by (simp add: s2_def typing_def store_at_def set_user_mem_def)
  have n2: "at_null s2 = c" "user_mem (os s2) = mem_store (user_mem (os s)) 0 [c]"
    using e(5) by (simp_all add: s2_def at_null_def user_mem_def store_at_def set_user_mem_def mem_store_def)
  have c2: "collected 1 s s2" unfolding collected_def
    by (rule exI [of _ "mem_store (user_mem (os s)) 0 [c]"])
      (use e(5,6) in \<open>auto simp: s2_def store_at_def set_user_mem_def user_mem_def mem_store_other\<close>)
  have p2: "printed s2 s2" using printed_refl typing_screen [OF t2] by blast
  have put: "\<exists>s'. call_putchar x 0xF s2 = Some s' \<and> printed s2 s'" for x
    using putchar_ok [OF typing_screen [OF t2], of x "0xF"] by (auto simp: call_putchar_def printed_def)
  have "\<exists>s'. show_char idx (kb_idx k') s2 = Some s' \<and> printed s2 s'"
    using put p2 by (auto simp: show_char_def Let_def)
  then obtain s' where s': "show_char idx (kb_idx k') s2 = Some s'" "printed s2 s'" by blast
  have "kbd (os s') = k'" using printedD(7) [OF s'(2)] by (simp add: s2_def)
  moreover have "at_null s' = c" using printedD(6) [OF s'(2)] n2(1) by (simp add: at_null_def user_mem_def)
  ultimately show ?thesis
    using g s'(1) k'(2,3) typing_printed [OF t2 s'(2)] collected_trans [OF c2 collected_printed [OF s'(2)]] by blast
qed

lemma poll_newline:
  assumes "delivers env k [10]" "typing (os s)" "line_ok (kbd (os s))" "length cmd = 100"
  shows "\<exists>n s2. call_getchar cmd (s\<lparr> os := env k (os s) \<rparr>) = Some (pad 100 (line (kbd (os s))), n, s2) \<and>
    show_char idx n s2 = Some s2 \<and> typing (os s2) \<and> line_ok (kbd (os s2)) \<and>
    line (kbd (os s2)) = line (kbd (os s)) \<and> collected 1 s s2 \<and> at_null s2 = 10"
proof -
  let ?m = "env k (os s)"
  have e: "typing ?m" "keyboard_buffer (kbd ?m) = 10" "command (kbd ?m) = command (kbd (os s))" "kb_idx (kbd ?m) = kb_idx (kbd (os s))"
    "kern ?m = kern (os s)" "shl ?m = shl (os s)" using delivers_Cons(2) [OF assms(1,2)] by simp_all
  let ?k0 = "(kbd ?m)\<lparr> keyboard_buffer := 0 \<rparr>"
  have k0: "line_ok ?k0" "line ?k0 = line (kbd (os s))" using assms(3) e by (simp_all add: line_ok_def line_def)
  define s2 where "s2 = s\<lparr> os := (store_at 0 [10] ?m)\<lparr> kbd := ?k0 \<rparr> \<rparr>"
  have "call_getchar cmd (s\<lparr> os := ?m \<rparr>) = Some (pad 100 (line (kbd (os s))), kb_idx ?k0, s2)"
    using e(2) get_command_eq [OF k0(1) assms(4)] k0(2) by (simp add: call_getchar_def get_keyboard_buffer_def s2_def pad_def)
  moreover have n2: "at_null s2 = 10"
    using e(5) by (simp add: s2_def at_null_def user_mem_def store_at_def set_user_mem_def mem_store_def)
  moreover have "collected 1 s s2" unfolding collected_def
    by (rule exI [of _ "mem_store (user_mem (os s)) 0 [10]"])
      (use e(5,6) in \<open>auto simp: s2_def store_at_def set_user_mem_def user_mem_def mem_store_other\<close>)
  moreover have "typing (os s2)" using e(1) by (simp add: s2_def typing_def store_at_def set_user_mem_def)
  moreover have "kbd (os s2) = ?k0" by (simp add: s2_def)
  ultimately show ?thesis using k0 by (auto simp: show_char_def Let_def)
qed

text \<open>The loop ends at the newline, with the line typed.\<close>

lemma read_line_typed:
  assumes "delivers env k (ks @ [10])" "10 \<notin> set ks" "typing (os s)" "line_ok (kbd (os s))"
    and "length (line (kbd (os s))) + printable ks \<le> 100" "length cmd = 100" "at_null s \<noteq> 10"
  shows "\<exists>s'. read_line env k cmd idx s = Some (k + length ks + 1, pad 100 (typed_line ks (line (kbd (os s)))), s') \<and>
    typing (os s') \<and> line_ok (kbd (os s')) \<and> line (kbd (os s')) = typed_line ks (line (kbd (os s))) \<and> collected 1 s s'"
  using assms
proof (induction ks arbitrary: k cmd idx s)
  case Nil
  obtain n s2 where s2: "call_getchar cmd (s\<lparr> os := env k (os s) \<rparr>) = Some (pad 100 (line (kbd (os s))), n, s2)"
    "show_char idx n s2 = Some s2" "typing (os s2)" "line_ok (kbd (os s2))" "line (kbd (os s2)) = line (kbd (os s))"
    "collected 1 s s2" "at_null s2 = 10"
    using poll_newline [of env k s cmd idx] Nil.prems by auto
  have "read_line env k cmd idx s = read_line env (k + 1) (pad 100 (line (kbd (os s)))) n s2"
    using s2(1,2) Nil.prems(7) by (simp add: read_line.simps [of env k cmd idx s])
  also have "\<dots> = Some (k + 1, pad 100 (line (kbd (os s))), s2)" using s2(7) by (simp add: read_line.simps)
  finally show ?case using s2(3-6) by simp
next
  case (Cons c ks)
  have c: "c \<noteq> 10" "length (line (kbd (os s))) + printable [c] \<le> 100" using Cons.prems(2,5) by (simp_all add: printable_Cons [of c ks])
  obtain n s2 s' where p: "call_getchar cmd (s\<lparr> os := env k (os s) \<rparr>) = Some (pad 100 (type_key c (line (kbd (os s)))), n, s2)"
    "show_char idx n s2 = Some s'" "typing (os s')" "line_ok (kbd (os s'))" "line (kbd (os s')) = type_key c (line (kbd (os s)))"
    "collected 1 s s'" "at_null s' = c"
    using poll_step [OF _ Cons.prems(3,4) c(2) Cons.prems(6) c(1), of env k "ks @ [10]" idx] Cons.prems(1) by auto
  have len: "length (type_key c (line (kbd (os s)))) + printable ks \<le> 100"
    using length_type_key [of c "line (kbd (os s))"] Cons.prems(5) by (simp add: printable_Cons [of c ks])
  obtain t where t: "read_line env (k + 1) (pad 100 (type_key c (line (kbd (os s))))) n s' =
      Some (k + 1 + length ks + 1, pad 100 (typed_line ks (type_key c (line (kbd (os s))))), t)"
    "typing (os t)" "line_ok (kbd (os t))" "line (kbd (os t)) = typed_line ks (type_key c (line (kbd (os s))))" "collected 1 s' t"
    using Cons.IH [of "k + 1" s' "pad 100 (type_key c (line (kbd (os s))))" n] delivers_Cons(1) [of env k c "ks @ [10]"]
      Cons.prems(1,2) p(3-5,7) c(1) len by auto
  have "read_line env k cmd idx s = read_line env (k + 1) (pad 100 (type_key c (line (kbd (os s))))) n s'"
    using p(1,2) Cons.prems(7) by (simp add: read_line.simps [of env k cmd idx s])
  then show ?case using t collected_trans [OF p(6) t(5)] by simp
qed

section \<open>Running the command\<close>

lemma c_text_cstr0: "0 \<notin> set (cstr str) \<Longrightarrow> c_text (cstr0 str) = cstr str"
  by (simp add: cstr0_def)

lemma match_name_eq:
  assumes "0 \<notin> set w" "length w < 2 ^ 16" "\<forall>n \<in> set ns. 0 \<notin> set (cstr n)"
  shows "match_name (w @ 0 # rest) ns = Some (find (\<lambda>n. cstr n = w) ns)"
  using assms(3)
proof (induction ns)
  case (Cons n ns)
  have "c_text (cstr0 n) = cstr n" using Cons.prems by (simp add: c_text_cstr0)
  moreover have "terminated (w @ 0 # rest)" by (simp add: terminated_def)
  ultimately have "strcmp (w @ 0 # rest) (cstr0 n) = Some (if w = cstr n then 1 else 0)"
    using strcmp_eq [of "w @ 0 # rest" "cstr0 n"] assms(1,2) by simp
  then show ?case using Cons by auto
qed simp

lemma command_names_text: "\<forall>n \<in> set command_names. 0 \<notin> set (cstr n)"
  by (simp add: command_names_def cstr_def)

lemma prompt_ok:
  assumes "screen_ok (screen s)" "terminated path"
  shows "\<exists>s'. prompt path s = Some s' \<and> printed s s'"
proof -
  obtain s1 where s1: "say ([10] @ cstr0 ''s0sis@OS-IF2230:'') 0xA s = Some s1" "printed s s1"
    using say_ok [OF assms(1), of "[10] @ cstr0 ''s0sis@OS-IF2230:''" "0xA"] by (auto simp: terminated_def cstr0_def)
  obtain s2 where s2: "say path 0x9 s1 = Some s2" "printed s1 s2" using say_ok [OF printedD(3) [OF s1(2)] assms(2)] by blast
  obtain s3 where "say (cstr0 ''$ '') 0xF s2 = Some s3" "printed s2 s3" using say_ok [OF printedD(3) [OF s2(2)]] by force
  with s1 s2 show ?thesis by (auto simp: prompt_def intro: printed_trans)
qed

lemma words_in:
  assumes "w \<in> set (words tx)"
  shows "set w \<subseteq> set tx" "length w \<le> length tx" "w \<noteq> []"
proof -
  obtain p where p: "p < length tx" "word_start_at tx p" "w = run_at tx p"
    using assms by (auto simp: words_def starts_upto_def)
  then show "set w \<subseteq> set tx" using set_takeWhileD set_drop_subset [of p tx] by (fastforce simp: run_at_def)
  show "length w \<le> length tx" using p(3) by (simp add: run_at_def le_trans [OF length_takeWhile_le])
  show "w \<noteq> []" using p by (auto simp: run_at_def word_start_at_def takeWhile_eq_Nil_iff hd_drop_conv_nth)
qed

text \<open>The first word, stored at address 0.\<close>

lemma fetch_word_eq:
  assumes "words tx = w # ws" "2 \<le> length tx" "length tx < 100" "last tx \<noteq> 32" "0 \<notin> set tx"
  shows "\<exists>rest. fetch_word (pad 100 tx) s =
    Some (w @ 0 # rest, s\<lparr> os := store_at 0 (w @ 0 # rest) (os s) \<rparr>) \<and> length (w @ 0 # rest) = 100"
proof -
  have p: "pad 100 tx = tx @ 0 # replicate (99 - length tx) 0"
    using assms(3) by (simp add: pad_def Suc_diff_Suc flip: replicate_Suc)
  have ct: "c_text (pad 100 tx) = tx" "terminated (pad 100 tx)"
    using assms(5) by (simp_all add: p terminated_def)
  have w: "w = words tx ! 0" using assms(1) by simp
  then have "w = run_at tx (starts_upto tx (length tx) ! 0)" using assms(1) words_nth [of 0 tx] by simp
  then have lw: "length w \<le> length tx" by (simp add: run_at_def le_trans [OF length_takeWhile_le])
  define buf where "buf = mem_load (user_mem (os s)) 0 100"
  have b: "length buf = 100" unfolding buf_def by (rule length_mem_load)
  with lw have l: "length w < length buf" using assms(3) by simp
  have u: "unat (0 :: u16) = 0" by simp
  have "getWord (pad 100 tx) 0 buf = Some (words tx ! 0 @ 0 # drop (Suc (length (words tx ! 0))) buf)"
    using getWord_eq [of "pad 100 tx" 0 buf, unfolded ct(1) u] ct(2) assms l unfolding w by (cases "words tx") simp_all
  then show ?thesis using l b w by (intro exI [of _ "drop (Suc (length w)) buf"]) (simp add: fetch_word_def flip: buf_def)
qed

text \<open>What a command finds: the state before the round up to the screen, the empty line and the first 100
  bytes of the process's memory.\<close>

definition ready_for :: "session \<Rightarrow> session \<Rightarrow> bool" where
  "ready_for s s1 =
     (collected 100 s s1 \<and> typing (os s1) \<and> line_ok (kbd (os s1)) \<and> line (kbd (os s1)) = [] \<and> at_null s1 \<noteq> 10)"

lemma run_command_eq:
  assumes "0 \<notin> set w" "length w < 100" "typing (os s)" "line_ok (kbd (os s))" "line (kbd (os s)) = []" "at_null s \<noteq> 10"
  shows "\<exists>s1. ready_for s s1 \<and>
    run_command pd_addr g (w @ 0 # rest) cmd s =
      (case find (\<lambda>n. cstr n = w) command_names of
         None \<Rightarrow> Some (False, s1)
       | Some n \<Rightarrow> map_option (Pair (n = ''exit'')) (run_named pd_addr g n cmd s1))"
proof -
  have w: "terminated (w @ 0 # rest)" by (simp add: terminated_def)
  obtain s1 where s1: "say (w @ 0 # rest) 7 s = Some s1" "printed s s1" using say_ok [OF typing_screen [OF assms(3)] w] by blast
  have m: "match_name (w @ 0 # rest) command_names = Some (find (\<lambda>n. cstr n = w) command_names)"
    using match_name_eq [OF assms(1) _ command_names_text] assms(2) by simp
  obtain msg where msg: "msg = (case find (\<lambda>n. cstr n = w) command_names of None \<Rightarrow> text_lines ['': command not found'']
    | Some n \<Rightarrow> text_lines ['': command found''])" by blast
  then have "terminated msg" by (simp split: option.split)
  then obtain s2 where s2: "say msg 7 s1 = Some s2" "printed s1 s2" using say_ok [OF printedD(3) [OF s1(2)]] by blast
  have p: "printed s s2" using printed_trans [OF s1(2) s2(2)] .
  have "ready_for s s2"
    using collected_printed [OF p] typing_printed [OF assms(3) p] printedD(6,7) [OF p] assms(4-6)
    by (simp add: ready_for_def at_null_def user_mem_def)
  moreover have "run_command pd_addr g (w @ 0 # rest) cmd s =
      (case find (\<lambda>n. cstr n = w) command_names of
         None \<Rightarrow> Some (False, s2)
       | Some n \<Rightarrow> map_option (Pair (n = ''exit'')) (run_named pd_addr g n cmd s2))"
    using m s1(1) s2(1) msg
    by (auto simp: run_command_def command_found_def map_conv_bind_option comp_def split: option.splits)
  ultimately show ?thesis by blast
qed

text \<open>The round up to the choice of the command.\<close>

lemma round_reads:
  assumes "delivers env k (ks @ [10])" "10 \<notin> set ks" "printable ks \<le> 98" "typed_line ks [] = tx" "words tx = w # ws"
    and "2 \<le> length tx" "last tx \<noteq> 32"
    and "typing (os s)" "line_ok (kbd (os s))" "line (kbd (os s)) = []" "at_null s \<noteq> 10"
    and "call_path cur s = Some path" "terminated path"
  shows "\<exists>se rest. ready_for s se \<and> 0 \<notin> set w \<and> length w < 100 \<and>
    main_round pd_addr g env k cur s = do {
      (ended, t) \<leftarrow> run_command pd_addr g (w @ 0 # rest) (pad 100 tx) se;
      t \<leftarrow> (if ended then Some t else call_update (call_cluster t) [0] True t);
      Some (ended, k + length ks + 1, path, t) }"
proof -
  obtain sa where sa: "prompt path s = Some sa" "printed s sa"
    using prompt_ok [OF typing_screen [OF assms(8)] assms(13)] by blast
  note pa = printedD [OF sa(2)]
  have na: "at_null sa \<noteq> 10" "kbd (os sa) = kbd (os s)" using pa(6,7) assms(11) by (simp_all add: at_null_def user_mem_def)
  obtain sb where sb: "read_line env k (replicate 100 0) 0 sa = Some (k + length ks + 1, pad 100 tx, sb)"
    "typing (os sb)" "line_ok (kbd (os sb))" "line (kbd (os sb)) = tx" "collected 1 sa sb"
    using read_line_typed [OF assms(1,2) typing_printed [OF assms(8) sa(2)], of "replicate 100 0" 0] na assms(3,4,9,10) by auto
  obtain k' where k': "clear_command (kbd (os sb)) = Some k'" "line_ok k'" "line k' = []"
    using clear_command_line [OF sb(3)] by blast
  have modes: "keyboard_input_on k' = keyboard_input_on (kbd (os sb))" "capslock_on k' = capslock_on (kbd (os sb))"
    "shift_on k' = shift_on (kbd (os sb))" using k'(1) by (auto simp: clear_command_def bind_eq_Some_conv)
  define sc where "sc = sb\<lparr> os := (os sb)\<lparr> kbd := k' \<rparr> \<rparr>"
  have tx: "length tx < 100" "0 \<notin> set tx" "10 \<notin> set tx"
    using length_typed_line [of ks "[]"] set_typed_line [of ks "[]"] assms(3,4) by auto
  obtain rest where f: "fetch_word (pad 100 tx) sc =
      Some (w @ 0 # rest, sc\<lparr> os := store_at 0 (w @ 0 # rest) (os sc) \<rparr>)" "length (w @ 0 # rest) = 100"
    using fetch_word_eq [OF assms(5,6) tx(1) assms(7) tx(2), of sc] by blast
  define sd where "sd = sc\<lparr> os := store_at 0 (w @ 0 # rest) (os sc) \<rparr>"
  have cd: "collected 100 sb sd" unfolding collected_def
    by (rule exI [of _ "mem_store (user_mem (os sb)) 0 (w @ 0 # rest)"])
      (use f(2) in \<open>auto simp: sd_def sc_def store_at_def set_user_mem_def user_mem_def mem_store_other\<close>)
  have td: "typing (os sd)" using sb(2) modes by (simp add: sd_def sc_def typing_def store_at_def set_user_mem_def)
  have kd: "kbd (os sd) = k'" by (simp add: sd_def sc_def store_at_def set_user_mem_def)
  obtain se where se: "say [10, 0] 0xF sd = Some se" "printed sd se"
    using say_ok [OF typing_screen [OF td], of "[10, 0]" "0xF"] by auto
  have w: "w \<in> set (words tx)" using assms(5) by simp
  then have wt: "set w \<subseteq> set tx" "length w < 100" "w \<noteq> []" using words_in [OF w] tx(1) by auto
  have "at_null sd = hd w" using wt(3) f(2)
    by (simp add: sd_def at_null_def user_mem_def store_at_def set_user_mem_def mem_store_def hd_conv_nth nth_append)
  then have ne: "at_null se \<noteq> 10" using printedD(6) [OF se(2)] hd_in_set [OF wt(3)] wt(1) tx(3) by (auto simp: at_null_def user_mem_def)
  have ce: "collected 100 s se"
    using collected_trans [OF collected_trans [OF collected_trans [OF collected_printed [OF sa(2), of 1] sb(5)] cd] collected_printed [OF se(2), of 100]] by simp
  have "ready_for s se"
    using ce typing_printed [OF td se(2)] printedD(7) [OF se(2)] kd k'(2,3) ne by (simp add: ready_for_def)
  moreover have "main_round pd_addr g env k cur s = do {
      (ended, t) \<leftarrow> run_command pd_addr g (w @ 0 # rest) (pad 100 tx) se;
      t \<leftarrow> (if ended then Some t else call_update (call_cluster t) [0] True t);
      Some (ended, k + length ks + 1, path, t) }"
    using assms(12) sa(1) sb(1) k'(1) f(1) se(1) by (simp add: main_round_def call_clear_command_def sc_def sd_def)
  ultimately show ?thesis using wt tx(2) by blast
qed

text \<open>C15: A round of the shell while the keys \<open>ks\<close> and then the enter key arrive, up to 98 characters without the
  backspaces, of which a line of two or more characters that does not end with a space remains: the
  round reads until the enter key and no further, and does with that line, padded with NULs to 100
  bytes, what the command named by its first word does, or nothing when there is none of that name.
  The command starts with the volume, the folder and the processes as they were and with an empty
  command buffer, and the shell's copy of its folder is read anew after it, except after \<open>exit\<close>, which
  ends the shell.\<close>

theorem shell_runs_typed_command:
  assumes "delivers env k (ks @ [10])" "10 \<notin> set ks" "printable ks \<le> 98" "typed_line ks [] = tx" "words tx = w # ws"
    and "2 \<le> length tx" "last tx \<noteq> 32"
    and "typing (os s)" "line_ok (kbd (os s))" "line (kbd (os s)) = []" "at_null s \<noteq> 10"
    and "call_path cur s = Some path" "terminated path"
  shows "\<exists>s1. ready_for s s1 \<and>
    main_round pd_addr g env k cur s =
      (case find (\<lambda>n. cstr n = w) command_names of
         None \<Rightarrow> do { s2 \<leftarrow> call_update (call_cluster s1) [0] True s1; Some (False, k + length ks + 1, path, s2) }
       | Some n \<Rightarrow> do { s2 \<leftarrow> run_named pd_addr g n (pad 100 tx) s1;
                      s3 \<leftarrow> (if n = ''exit'' then Some s2 else call_update (call_cluster s2) [0] True s2);
                      Some (n = ''exit'', k + length ks + 1, path, s3) })"
proof -
  obtain se rest where se: "ready_for s se" "0 \<notin> set w" "length w < 100" "main_round pd_addr g env k cur s = do {
      (ended, t) \<leftarrow> run_command pd_addr g (w @ 0 # rest) (pad 100 tx) se;
      t \<leftarrow> (if ended then Some t else call_update (call_cluster t) [0] True t);
      Some (ended, k + length ks + 1, path, t) }"
    using round_reads [OF assms, of pd_addr g] by blast
  obtain s1 where s1: "ready_for se s1" "run_command pd_addr g (w @ 0 # rest) (pad 100 tx) se =
      (case find (\<lambda>n. cstr n = w) command_names of
         None \<Rightarrow> Some (False, s1)
       | Some n \<Rightarrow> map_option (Pair (n = ''exit'')) (run_named pd_addr g n (pad 100 tx) s1))"
    using run_command_eq [of w se pd_addr g rest "pad 100 tx"] se(1-3) by (auto simp: ready_for_def)
  have "ready_for s s1" using s1(1) se(1) collected_trans [of 100 s se 100 s1] by (simp add: ready_for_def)
  then show ?thesis unfolding se(4) s1(2)
    by (auto simp: map_conv_bind_option split: option.split intro!: exI [of _ s1])
qed

text \<open>\<open>exit\<close>, with a wrong letter that is taken back, typed at a shell in the root: each scancode but the
  enter key's is followed by a release code or another key.\<close>

definition at_prompt :: session where
  "at_prompt = \<lparr> os = machine0\<lparr> kbd := keyboard_state_activate keyboard_state, shl := shell_state \<rparr>, copy_status = 0 \<rparr>"

lemma shell_runs_typed_command_witness:
  "\<forall>pd_addr g fr. \<exists>s'. main_round pd_addr g (presses pd_addr fr [0x12, 0x92, 0x2D, 0xAD, 0x1E, 0x0E, 0x17, 0x14, 0x1C]) 0 (replicate 100 0) at_prompt
    = Some (True, 9, cstr ''Root/'' @ replicate 95 0, s')"
proof (intro allI)
  fix pd_addr g fr
  let ?scs = "[0x12, 0x92, 0x2D, 0xAD, 0x1E, 0x0E, 0x17, 0x14, 0x1C] :: u8 list"
  let ?ks = "[101, 0, 120, 0, 97, 8, 105, 116] :: u8 list"
  have "\<forall>sc \<in> set ?scs. plain_key sc" by (simp add: plain_key_def scancode_defs)
  moreover have "map (\<lambda>sc. keyboard_scancode_1_to_ascii_map ! unat sc) ?scs = ?ks @ [10]" by code_simp
  ultimately have "delivers (presses pd_addr fr ?scs) 0 (?ks @ [10])" using presses_deliver [of ?scs pd_addr fr] by simp
  moreover have "typed_line ?ks [] = cstr ''exit''" "words (cstr ''exit'') = cstr ''exit'' # []" "printable ?ks \<le> 98"
    by code_simp+
  moreover have "typing (os at_prompt)" "line_ok (kbd (os at_prompt))" "line (kbd (os at_prompt)) = []" "at_null at_prompt \<noteq> 10"
    by (simp_all add: at_prompt_def typing_def line_ok_def line_def keyboard_state_activate_def keyboard_state_def screen_ok_def machine0_def
        at_null_def user_mem_def kernel0_def initial_kernel_def)
  moreover have "call_path (replicate 100 0) at_prompt = Some (cstr ''Root/'' @ replicate 95 0)" by code_simp
  moreover have "find (\<lambda>n. cstr n = cstr ''exit'') command_names = Some ''exit''" by code_simp
  ultimately show "\<exists>s'. main_round pd_addr g (presses pd_addr fr [0x12, 0x92, 0x2D, 0xAD, 0x1E, 0x0E, 0x17, 0x14, 0x1C]) 0 (replicate 100 0) at_prompt
    = Some (True, 9, cstr ''Root/'' @ replicate 95 0, s')"
    using shell_runs_typed_command [of "presses pd_addr fr ?scs" 0 ?ks "cstr ''exit''" "cstr ''exit''" "[]" at_prompt "replicate 100 0" "cstr ''Root/'' @ replicate 95 0" pd_addr g]
    by (auto simp: run_named_def terminated_def cstr_def)
qed

end
