(* ===== verification/ShellFrame.thy ===== *)
theory ShellFrame
  imports ShellHome Typed
begin

text \<open>
  What the shell's commands on files and folders leave alone: the process table, the page tables, the
  keyboard.  The proofs go through a small calculus: \<open>keeps s h r\<close> says that a computation
  \<open>r\<close>, when it has a result, ends in a session (found in the result by \<open>h\<close>) that differs from \<open>s\<close> in
  volume, screen, folder and copy status only; it has a rule for every call that the commands make.
\<close>

section \<open>The calculus\<close>

definition quiet :: "session \<Rightarrow> session \<Rightarrow> bool" where
  "quiet s t = (rest_same s t \<and> screen_ok (screen t))"

definition keeps :: "session \<Rightarrow> ('a \<Rightarrow> session) \<Rightarrow> 'a option \<Rightarrow> bool" where
  "keeps s h r = (\<forall>x. r = Some x \<longrightarrow> quiet s (h x))"

named_theorems keeps_rules

lemma quiet_steps [simp]:
  "quiet s (set_vol f t) = quiet s t" "quiet s (set_folder d t) = quiet s t" "quiet s (t\<lparr> copy_status := c \<rparr>) = quiet s t"
  by (auto simp: quiet_def intro: rest_same_trans [OF _ rest_same_steps(1)] rest_same_trans [OF _ rest_same_steps(3)]
      rest_same_trans [OF _ rest_same_steps(4)]) (simp_all add: rest_same_def set_vol_def set_fs_def set_folder_def)

lemma quiet_screen: "quiet s t \<Longrightarrow> screen_ok u \<Longrightarrow> quiet s (set_screen u t)"
  by (simp add: quiet_def rest_same_trans [OF _ rest_same_steps(2)])

lemma keeps_None [keeps_rules]: "keeps s h None"
  by (simp add: keeps_def)

lemma keeps_Some [keeps_rules]: "quiet s (h x) \<Longrightarrow> keeps s h (Some x)"
  by (simp add: keeps_def)

lemma keeps_if [keeps_rules]: "keeps s h a \<Longrightarrow> keeps s h b \<Longrightarrow> keeps s h (if c then a else b)"
  by simp

lemma keeps_bind: "keeps s g m \<Longrightarrow> (\<And>x. quiet s (g x) \<Longrightarrow> keeps s h (f x)) \<Longrightarrow> keeps s h (m \<bind> f)"
  by (auto simp: keeps_def bind_eq_Some_conv)

lemma keeps_pure: "(\<And>x. keeps s h (f x)) \<Longrightarrow> keeps s h (m \<bind> f)"
  by (auto simp: keeps_def bind_eq_Some_conv)

lemma keeps_prod: "(\<And>a b. keeps s h (f a b)) \<Longrightarrow> keeps s h (case p of (a, b) \<Rightarrow> f a b)"
  by (cases p) simp

lemma keeps_for_range:
  assumes "quiet s (h t)" "\<And>i u. quiet s (h u) \<Longrightarrow> keeps s h (B i u)"
  shows "keeps s h (for_range lo hi B t)"
proof -
  have "keeps s h (for_count n i B t)" if "quiet s (h t)" for n i t
    using that assms(2) by (induction n arbitrary: i t) (auto intro!: keeps_Some keeps_bind)
  then show ?thesis using assms(1) by (simp add: for_range_def)
qed

lemma keeps_for_until:
  assumes "quiet s t" "\<And>i u. quiet s u \<Longrightarrow> keeps s snd (B i u)"
  shows "keeps s snd (for_until n i B t)"
  using assms(1)
proof (induction n arbitrary: i t)
  case (Suc n)
  have "keeps s snd (B i t)" using assms(2) Suc.prems .
  then show ?case using Suc.IH by (auto simp: keeps_def split: option.splits)
qed (simp add: keeps_def)

section \<open>The calls\<close>

lemma keeps_puts_n [keeps_rules]: "quiet s t \<Longrightarrow> keeps s (\<lambda>t. t) (puts_n val n c t)"
  using puts_n_ok [of t val n c] printedD [of t] by (force simp: keeps_def quiet_def intro: rest_same_trans)

lemma keeps_say [keeps_rules]: "quiet s t \<Longrightarrow> keeps s (\<lambda>t. t) (say val c t)"
  unfolding say_def by (intro keeps_pure keeps_puts_n)

lemma keeps_complain [keeps_rules]:
  "quiet s t \<Longrightarrow> keeps s (\<lambda>t. t) (complain msg t)" "quiet s t \<Longrightarrow> keeps s (\<lambda>t. t) (complain_about nm msg t)"
  unfolding complain_def complain_about_def by (auto intro!: keeps_bind [OF keeps_say] keeps_say)

lemma keeps_stop_with [keeps_rules]: "keeps s (\<lambda>t. t) r \<Longrightarrow> keeps s snd (stop_with r)"
  by (auto simp: keeps_def stop_with_def)

lemma keeps_puts_integer [keeps_rules]: "quiet s t \<Longrightarrow> keeps s (\<lambda>t. t) (puts_integer n t)"
  unfolding puts_integer_def by (intro keeps_pure keeps_say)

lemma keeps_calls [keeps_rules]:
  "quiet s t \<Longrightarrow> keeps s snd (call_write r data t)" "quiet s t \<Longrightarrow> keeps s snd (call_delete r t)"
  "quiet s t \<Longrightarrow> keeps s (\<lambda>(c, b, t). t) (call_read r buf t)" "quiet s t \<Longrightarrow> keeps s (\<lambda>t. t) (call_update c path b t)"
  by (auto simp: keeps_def call_write_def call_delete_def call_read_def call_update_def bind_eq_Some_conv split: if_splits)

lemma quiet_read_directory: "quiet s t \<Longrightarrow> call_read_directory r t = (c, d, u) \<Longrightarrow> quiet s u"
  by (auto simp: call_read_directory_def split: prod.splits)

lemma quiet_find_cluster: "quiet s t \<Longrightarrow> call_find_cluster r t = (c, u) \<Longrightarrow> quiet s u"
  by (auto simp: call_find_cluster_def split: prod.splits)

text \<open>The calls that return a tuple and are followed by more.\<close>

lemma keeps_read_directory:
  "quiet s t \<Longrightarrow> (\<And>c d u. quiet s u \<Longrightarrow> keeps s h (f c d u)) \<Longrightarrow> keeps s h (case call_read_directory r t of (c, d, u) \<Rightarrow> f c d u)"
  using quiet_read_directory [of s t r] by (simp split: prod.split)

lemma keeps_find_cluster:
  "quiet s t \<Longrightarrow> (\<And>c u. quiet s u \<Longrightarrow> keeps s h (f c u)) \<Longrightarrow> keeps s h (case call_find_cluster r t of (c, u) \<Rightarrow> f c u)"
  using quiet_find_cluster [of s t r] by (simp split: prod.split)

lemma keeps_bind_snd: "keeps s snd m \<Longrightarrow> (\<And>c u. quiet s u \<Longrightarrow> keeps s h (f c u)) \<Longrightarrow> keeps s h (m \<bind> (\<lambda>(c, u). f c u))"
  by (auto simp: keeps_def bind_eq_Some_conv)

lemma keeps_bind_read:
  "keeps s (\<lambda>(c, b, u). u) m \<Longrightarrow> (\<And>c b u. quiet s u \<Longrightarrow> keeps s h (f c b u)) \<Longrightarrow> keeps s h (m \<bind> (\<lambda>(c, b, u). f c b u))"
  by (auto simp: keeps_def bind_eq_Some_conv)

lemma keeps_clear [keeps_rules]: "quiet s t \<Longrightarrow> keeps s (\<lambda>t. t) (call_clear t)"
proof -
  assume q: "quiet s t"
  have "screen_ok (framebuffer_set_cursor 0 0 u)" if "framebuffer_clear (screen t) = Some u" for u
    using clear_typed [OF that] q by (simp add: quiet_def screen_ok_def set_cursor_fields)
  then show ?thesis using q by (auto simp: keeps_def call_clear_def bind_eq_Some_conv intro!: quiet_screen)
qed

lemma keeps_find:
  assumes "quiet s t" "fs_typed (vol t)"
  shows "keeps s (\<lambda>t. t) (call_find nm ex t)"
  using assms printAllFind_typed [of nm ex "vol t" "screen t"]
  by (fastforce simp: keeps_def call_find_def bind_eq_Some_conv quiet_def [of s t] intro!: quiet_screen)

section \<open>The functions of the shell\<close>

lemmas keeps_after =
  keeps_bind [OF keeps_say] keeps_bind [OF keeps_puts_n] keeps_bind [OF keeps_complain(1)] keeps_bind [OF keeps_complain(2)]
  keeps_bind [OF keeps_puts_integer] keeps_bind [OF keeps_calls(4)] keeps_bind_snd [OF keeps_calls(1)]
  keeps_bind_snd [OF keeps_calls(2)] keeps_bind_read [OF keeps_calls(3)] keeps_read_directory keeps_find_cluster

lemma keeps_remove_sh [keeps_rules]: "quiet s t \<Longrightarrow> keeps s (\<lambda>t. t) (remove_sh nm ex p t)"
  unfolding remove_sh_def Let_def by (rule keeps_after keeps_rules | assumption)+

lemma keeps_clear_target: "quiet s t \<Longrightarrow> keeps s (\<lambda>t. t) (clear_target nm ex p t)"
  unfolding clear_target_def Let_def by (rule keeps_after keeps_rules | assumption)+

lemma keeps_copy_file: "quiet s t \<Longrightarrow> keeps s (\<lambda>t. t) (copy_file g sn se sp tn te tp sz t)"
  unfolding copy_file_def Let_def by (rule keeps_after keeps_rules | assumption)+

lemma keepsD: "r = Some u \<Longrightarrow> keeps s h r \<Longrightarrow> quiet s (h u)"
  by (simp add: keeps_def)

text \<open>All rules, in the order in which they are tried.\<close>

lemmas keeps_walk =
  keeps_after keeps_rules keeps_bind [OF keeps_clear_target] keeps_copy_file
  keeps_bind [where g = "\<lambda>t :: session. t"] keeps_for_range [where h = "\<lambda>t :: session. t"]

lemma keeps_copy [keeps_rules]: "quiet s t \<Longrightarrow> keeps s (\<lambda>t. t) (copy g sn se sp tn te tp t)"
proof -
  have "quiet s t \<longrightarrow> quiet s u" if "copy g sn se sp tn te tp t = Some u" for u
    using that
  proof (rule copy.raw_induct [rotated], intro impI)
    fix rec g sn se sp tn te tp t u
    assume IH: "\<And>g sn se sp tn te tp t u. rec g sn se sp tn te tp t = Some u \<Longrightarrow> quiet s t \<longrightarrow> quiet s u"
      and run: "do { t \<leftarrow> clear_target tn te tp t;
          let (src, is_dir) = source_scan (call_read_cluster sp t) sn se None;
          (src_size, src_cluster_number) \<leftarrow> src;
          t \<leftarrow> (if is_dir
               then do {
                 let (retcode, src_table, t) = call_read_directory (make_request sn se sp src_size) t;
                 (retcode, t) \<leftarrow> call_write (make_request tn te tp 0) [] t;
                 let target_cluster = target_scan (call_read_cluster tp t) tn te None;
                 src_table \<leftarrow> src_table;
                 for_range 1 64 (\<lambda>i t.
                   if user_attribute (src_table ! i) = UATTR_NOT_EMPTY
                   then do { target_cluster_number \<leftarrow> target_cluster;
                             rec g (name (src_table ! i)) (ext (src_table ! i)) src_cluster_number
                               (name (src_table ! i)) (ext (src_table ! i)) target_cluster_number t }
                   else Some t) t }
               else copy_file g sn se sp tn te tp src_size t);
          Some (t\<lparr> copy_status := 0 \<rparr>) } = Some u" and q: "quiet s t"
    have r: "quiet s t \<Longrightarrow> keeps s (\<lambda>t. t) (rec g sn se sp tn te tp t)" for g sn se sp tn te tp t
      using IH by (simp add: keeps_def)
    show "quiet s u"
      using q unfolding Let_def
      by - (rule keepsD [OF run [unfolded Let_def], where h = "\<lambda>t. t"], (rule keeps_walk r keeps_pure keeps_prod | assumption | simp)+)
  qed
  then show "quiet s t \<Longrightarrow> keeps s (\<lambda>t. t) (copy g sn se sp tn te tp t)" by (simp add: keeps_def)
qed

lemma keeps_path_step: "quiet s t \<Longrightarrow> keeps s (\<lambda>(d, i, c, t). t) (path_step path u (d, i, c, t))"
  unfolding path_step_def Let_def split by (rule keeps_walk keeps_pure keeps_prod | assumption | simp)+

lemma keeps_getLastCluster [keeps_rules]: "quiet s t \<Longrightarrow> keeps s snd (getLastCluster g path u t)"
  unfolding getLastCluster_def Let_def
proof (rule keeps_pure, rule keeps_pure, rule keeps_prod, rule keeps_bind)
  fix nPath dir i
  assume "quiet s t"
  then show "keeps s (\<lambda>(d, i, c, t). t) (for_range 0 (nat nPath) (\<lambda>_. path_step path u) (dir, i, call_cluster t, t))"
    by (intro keeps_for_range) (auto intro: keeps_path_step)
qed (auto intro: keeps_Some)

lemma keeps_traverse [keeps_rules]: "quiet s t \<Longrightarrow> keeps s (\<lambda>t. t) (traverseFolder g c d del t)"
proof -
  have "quiet s t \<longrightarrow> quiet s u" if "traverseFolder g c d del t = Some u" for u
    using that
  proof (rule traverseFolder.raw_induct [rotated], intro impI)
    fix rec g c d del t u
    assume IH: "\<And>g c d del t u. rec g c d del t = Some u \<Longrightarrow> quiet s t \<longrightarrow> quiet s u"
      and run: "(let cwd = call_read_cluster (word_of_int c) t
      in for_range 2 64 (\<lambda>i t.
           if user_attribute (cwd ! i) \<noteq> UATTR_NOT_EMPTY then Some t
           else if attribute (cwd ! i) = ATTR_SUBDIRECTORY
           then rec g (sint (entry_cluster (cwd ! i))) d del t
           else do {
             t \<leftarrow> copy g (name (cwd ! i)) (ext (cwd ! i)) (word_of_int c) (name (cwd ! i)) (ext (cwd ! i)) (word_of_int d) t;
             if del then remove_sh (name (cwd ! i)) (ext (cwd ! i)) (word_of_int c) t else Some t }) t) = Some u"
      and q: "quiet s t"
    have r: "quiet s t \<Longrightarrow> keeps s (\<lambda>t. t) (rec g c d del t)" for g c d del t
      using IH by (simp add: keeps_def)
    show "quiet s u"
      using q unfolding Let_def
      by - (rule keepsD [OF run [unfolded Let_def], where h = "\<lambda>t. t"],
        (rule keeps_walk keeps_copy r keeps_pure keeps_prod | assumption | simp)+)
  qed
  then show "quiet s t \<Longrightarrow> keeps s (\<lambda>t. t) (traverseFolder g c d del t)" by (simp add: keeps_def)
qed

lemma keeps_check_destination [keeps_rules]: "quiet s t \<Longrightarrow> keeps s (\<lambda>t. t) (check_destination nm c t)"
  unfolding check_destination_def by (rule keeps_walk | assumption)+

section \<open>The commands\<close>

lemmas keeps_command =
  keeps_walk keeps_copy keeps_traverse keeps_check_destination keeps_getLastCluster
  keeps_bind_snd [OF keeps_getLastCluster] keeps_bind_snd [OF keeps_for_until]

lemma keeps_copyPath: "quiet s t \<Longrightarrow> keeps s (\<lambda>t. t) (copyPath g cmd t)"
  unfolding copyPath_def Let_def by (rule keeps_command keeps_pure keeps_prod | assumption | simp)+

lemma keeps_mvPath: "quiet s t \<Longrightarrow> keeps s (\<lambda>t. t) (mvPath g cmd t)"
  unfolding mvPath_def Let_def by (rule keeps_command keeps_pure keeps_prod | assumption | simp)+

lemma keeps_mkdir: "quiet s t \<Longrightarrow> keeps s (\<lambda>t. t) (mkdir g cmd t)"
  unfolding mkdir_def Let_def by (rule keeps_command keeps_pure keeps_prod | assumption | simp)+

lemma keeps_cd: "quiet s t \<Longrightarrow> keeps s (\<lambda>t. t) (cd g cmd t)"
  unfolding cd_def Let_def by (rule keeps_command keeps_pure keeps_prod | assumption | simp)+

lemma keeps_ls: "quiet s t \<Longrightarrow> keeps s (\<lambda>t. t) (ls g t)"
  unfolding ls_def ls_entry_def Let_def by (rule keeps_command keeps_pure keeps_prod | assumption | simp)+

lemma keeps_cat: "quiet s t \<Longrightarrow> keeps s (\<lambda>t. t) (cat g cmd t)"
  unfolding cat_def Let_def by (rule keeps_command keeps_pure keeps_prod | assumption | simp)+

lemma keeps_rm: "quiet s t \<Longrightarrow> keeps s (\<lambda>t. t) (rm g cmd t)"
proof -
  assume q: "quiet s t"
  have chk: "quiet s u \<Longrightarrow> keeps s snd (rm_check g cmd r i u)" for u r i
    unfolding rm_check_def Let_def by (rule keeps_command keeps_pure keeps_prod | assumption | simp)+
  have one: "quiet s u \<Longrightarrow> keeps s snd (rm_one g cmd r c i u)" for u r c i
    unfolding rm_one_def Let_def by (rule keeps_command keeps_pure keeps_prod | assumption | simp)+
  have map: "keeps s (\<lambda>t. t) (map_option snd m)" if "keeps s snd m" for m :: "(bool \<times> session) option"
    using that by (auto simp: keeps_def)
  show ?thesis
    using q unfolding rm_def Let_def
    by - (rule keeps_command chk one map keeps_for_until keeps_pure keeps_prod | assumption | simp)+
qed

lemma keeps_findShell: "quiet s t \<Longrightarrow> fs_typed (vol t) \<Longrightarrow> keeps s (\<lambda>t. t) (findShell g cmd t)"
  unfolding findShell_def by (rule keeps_command keeps_find keeps_pure keeps_prod | assumption | simp)+

text \<open>The commands of the shell that are not about processes, each on any line of command: when they return,
  from a screen in order and a well typed driver, they have left the process table, the page frames and
  directories, the loaded directory and the keyboard as they were, and the screen in order.  The
  record \<open>space\<close> is unchanged too; it does not show the shell's own arrays, which are values in the
  model of the shell.\<close>

theorem commands_keep_processes:
  assumes "n \<in> set command_names - {''ps'', ''kill'', ''exec''}" "screen_ok (screen s)" "fs_typed (vol s)"
    and "run_named pd_addr g n cmd s = Some s'"
  shows "process_list (kern (os s')) = process_list (kern (os s)) \<and> space (kern (os s')) = space (kern (os s)) \<and>
    pg (kern (os s')) = pg (kern (os s)) \<and> cr3 (kern (os s')) = cr3 (kern (os s)) \<and> cur_idx (kern (os s')) = cur_idx (kern (os s)) \<and>
    active_process_count (kern (os s')) = active_process_count (kern (os s)) \<and> power_off (kern (os s')) = power_off (kern (os s)) \<and>
    kbd (os s') = kbd (os s) \<and> hlt (os s') = hlt (os s) \<and> screen_ok (screen s')"
proof -
  have q: "quiet s s" using assms(2) by (simp add: quiet_def)
  have "keeps s (\<lambda>t. t) (run_named pd_addr g n cmd s)"
    using assms(1) keeps_rm [OF q] keeps_copyPath [OF q] keeps_mkdir [OF q] keeps_mvPath [OF q] keeps_findShell [OF q assms(3)]
      keeps_clear [OF q] keeps_cd [OF q] keeps_ls [OF q] keeps_cat [OF q] keeps_Some [of s "\<lambda>t. t" s] q
    by (auto simp: command_names_def run_named_def)
  then show ?thesis using assms(4) by (simp add: keeps_def quiet_def rest_same_def)
qed

lemma commands_keep_processes_witness:
  "\<exists>f s'. run_named (\<lambda>_. 0) idle ''cd'' (line_of ''cd ..'') (home f) = Some s' \<and>
     process_list (kern (os s')) = process_list (kern (os (home f))) \<and> screen_ok (screen s')"
proof -
  let ?f = "\<lparr> image = (\<lambda>_. 0), cluster_map = replicate 512 0, dir_table_buf = zero_table \<rparr>"
  let ?p = "cstr ''..'' @ replicate 98 0"
  obtain s' where s': "complain (text_lines [''Current Directory is Already in Root'']) (home ?f) = Some s'"
    using complain_ok [of "home ?f" "text_lines [''Current Directory is Already in Root'']"] by auto
  have "terminated ?p" "c_text ?p = cstr ''..''" "c_text (cstr0 ''..'') = cstr ''..''" "c_text [0] = []"
    by (simp_all add: terminated_def c_text_def cstr_def cstr0_def)
  then have "strcmp ?p [0] = Some 0" "strcmp ?p (cstr0 ''..'') = Some 1" by (simp_all add: strcmp_eq cstr_def)
  moreover have "countWords (line_of ''cd ..'') = Some 2" by code_simp
  ultimately have "run_named (\<lambda>_. 0) idle ''cd'' (line_of ''cd ..'') (home ?f) = Some s'"
    using s' home_cd_words(2) by (simp add: run_named_def cd_def)
  moreover have "fs_typed (vol (home ?f))" by (simp add: fs_typed_def)
  ultimately show ?thesis
    using commands_keep_processes [of "''cd''" "home ?f" "\<lambda>_. 0" idle "line_of ''cd ..''" s'] by (auto simp: command_names_def)
qed

end
