(* ===== verification/ShellJobs.thy ===== *)
theory ShellJobs
  imports ShellHome
begin

text \<open>
  The shell's commands on processes, \<open>exec\<close> and \<open>kill\<close>: what they do to the process table, to the
  memory of the processes and to the page frames.
\<close>

unbundle bit_operations_syntax

section \<open>exec\<close>

lemma call_create_program:
  assumes "shell_in s D p" "entry_name nm ex" "volume (vol s) p (key_for nm ex) = Some (File bs)"
    and "proc_ok (kern (os s))" "can_create (make_request nm ex (of_nat p) (of_nat (length bs))) (kern (os s))"
  shows "\<exists>k' i d. call_create (make_request nm ex (of_nat p) (of_nat (length bs))) s = Some (0, s\<lparr> os := (os s)\<lparr> kern := k' \<rparr> \<rparr>) \<and>
    born (make_request nm ex (of_nat p) (of_nat (length bs))) (kern (os s)) k' i d \<and> proc_ok k' \<and> is_active k' i \<and>
    (\<forall>j. j \<noteq> i \<longrightarrow> proc k' j = proc (kern (os s)) j \<and> is_active k' j = is_active (kern (os s)) j) \<and>
    k_fs k' = load_dir (vol s) (of_nat p) \<and> (\<forall>x. x \<noteq> Listed d \<longrightarrow> space k' x = space (kern (os s)) x) \<and>
    mem_load (space k' (Listed d)) 0 (length bs) = bs"
proof -
  let ?r = "make_request nm ex (of_nat p) (of_nat (length bs))"
  note r = make_request_ok [OF assms(2), of "of_nat p" "of_nat (length bs)"]
  have ok: "vol_ok (k_fs (kern (os s))) D" "p \<in> D" using assms(1) by (simp_all add: shell_in_def vol_def)
  have v: "volume (k_fs (kern (os s))) p (request_key ?r) = Some (File bs)" using assms(3) r(2) by (simp add: vol_def)
  have "length bs \<le> 1048576" using file_small(1) [OF _ ok(2) assms(2,3)] ok(1) by (simp add: vol_def)
  then have "unat (of_nat (length bs) :: u32) = length bs" by (simp add: unat_of_nat_u32)
  then have l: "length bs \<le> unat (buffer_size ?r)" by simp
  obtain k' i d where "process_create_user_process ?r (kern (os s)) = Some (0, k')" "born ?r (kern (os s)) k' i d" "proc_ok k'"
    "is_active k' i" "\<forall>j. j \<noteq> i \<longrightarrow> proc k' j = proc (kern (os s)) j \<and> is_active k' j = is_active (kern (os s)) j"
    "k_fs k' = load_dir (k_fs (kern (os s))) (of_nat p)" "\<forall>x. x \<noteq> Listed d \<longrightarrow> space k' x = space (kern (os s)) x"
    "mem_load (space k' (Listed d)) (r_buf ?r) (length bs) = bs"
    using create_loads [OF assms(4,5) ok _ r(3)] v l by (auto simp: make_request_def [of nm ex "of_nat p"])
  then show ?thesis by (intro exI [of _ k'] exI [of _ i] exI [of _ d]) (simp add: call_create_def vol_def make_request_def)
qed

text \<open>C18: \<open>exec file\<close>, for a file of the shell's folder and a system that has a process block, a directory
  and the frames for it: the command returns, one more process is active and ready, with the next
  number, the file's name and its entry point at address 0; its memory begins with the bytes of the
  file; every other process keeps its block, every other page directory its memory (the shell's own
  arrays are not part of it, they are values in the model), the volume keeps its contents, and the
  process table stays consistent.\<close>

theorem exec_starts_program:
  assumes "shell_in s D p" "operand g cmd nm ex" "volume (vol s) p (key_for nm ex) = Some (File bs)"
    and "proc_ok (kern (os s))" "can_create (make_request nm ex (of_nat p) (of_nat (length bs))) (kern (os s))"
  shows "\<exists>s' i d. exec g cmd s = Some s' \<and> shell_in s' D p \<and> volume (vol s') = volume (vol s) \<and> proc_ok (kern (os s')) \<and>
    \<not> is_active (kern (os s)) i \<and> is_active (kern (os s')) i \<and> cur_state (proc (kern (os s')) i) = READY \<and>
    pid (proc (kern (os s')) i) = word_of_int (total_pid (kern (os s)) + 1) \<and> p_name (proc (kern (os s')) i) = take 8 nm \<and>
    eip (p_context (proc (kern (os s')) i)) = 0 \<and> dir_of (kern (os s')) i = Listed d \<and>
    mem_load (space (kern (os s')) (Listed d)) 0 (length bs) = bs \<and>
    (\<forall>j. j \<noteq> i \<longrightarrow> proc (kern (os s')) j = proc (kern (os s)) j \<and> is_active (kern (os s')) j = is_active (kern (os s)) j) \<and>
    (\<forall>x. x \<noteq> Listed d \<longrightarrow> space (kern (os s')) x = space (kern (os s)) x)"
proof -
  let ?r = "make_request nm ex (of_nat p) (of_nat (length bs))"
  note here = assms(1) [unfolded shell_in_def]
  obtain w where o: "countWords cmd = Some 2" "word_into g cmd 1 12 = Some w" "terminated w"
    "parse_into g w = Some (0, nm, ex)" "entry_name nm ex" "length nm = 9" "length ex = 4"
    using operandE [OF assms(2)] by metis
  have ok: "vol_ok (vol s) D" "p \<in> D" using here by blast+
  obtain l where l: "findLast (call_cwd s) nm ex = int l" "filesize (call_cwd s ! l) = of_nat (length bs)"
    using findLast_file [OF ok o(6,7,5) assms(3)] here by auto
  obtain k' i d where k': "call_create ?r s = Some (0, s\<lparr> os := (os s)\<lparr> kern := k' \<rparr> \<rparr>)" "born ?r (kern (os s)) k' i d" "proc_ok k'"
    "is_active k' i" "\<forall>j. j \<noteq> i \<longrightarrow> proc k' j = proc (kern (os s)) j \<and> is_active k' j = is_active (kern (os s)) j"
    "k_fs k' = load_dir (vol s) (of_nat p)" "\<forall>x. x \<noteq> Listed d \<longrightarrow> space k' x = space (kern (os s)) x"
    "mem_load (space k' (Listed d)) 0 (length bs) = bs"
    using call_create_program [OF assms(1) o(5) assms(3-5)] by blast
  define s1 where "s1 = s\<lparr> os := (os s)\<lparr> kern := k' \<rparr> \<rparr>"
  have s1: "screen s1 = screen s" "folder s1 = folder s" "vol s1 = load_dir (vol s) (of_nat p)" "kern (os s1) = k'"
    using k'(6) by (simp_all add: s1_def screen_def folder_def vol_def)
  obtain s2 where s2: "say (text_lines [''Process has been created and active'']) 7 s1 = Some s2" "printed s1 s2"
    using say_ok [of s1 "text_lines [''Process has been created and active'']" 7] here s1(1) by auto
  note p2 = printedD [OF s2(2)]
  have "exec g cmd s = Some s2"
    using o(1,2,4) l k'(1) here s2(1) by (simp add: exec_def s1_def)
  moreover have "shell_in s2 D p"
    using here p2(1-3) s1(2,3) by (simp add: shell_in_def call_cluster_def call_cwd_def)
  moreover have "proc k' i = new_pcb ?r d (total_pid (kern (os s)) + 1) (proc (kern (os s)) i)"
    using k'(2) proc_okD(1) [OF assms(4)] by (simp add: born_def proc_def)
  then have "cur_state (proc k' i) = READY \<and> pid (proc k' i) = word_of_int (total_pid (kern (os s)) + 1) \<and>
      p_name (proc k' i) = take 8 nm \<and> eip (p_context (proc k' i)) = 0 \<and> dir_of k' i = Listed d"
    by (simp add: new_pcb_def user_context_def make_request_def dir_of_def)
  ultimately show ?thesis
    using k'(2-5,7,8) p2(1,6) s1(3,4) by (intro exI [of _ s2] exI [of _ i] exI [of _ d]) (simp add: born_def)
qed

lemma exec_starts_program_witness:
  "\<exists>f bs s' i d. home_vol f d bs \<and> exec idle (line_of ''rm a.txt'') (home f) = Some s' \<and> pid (proc (kern (os s')) i) = 1 \<and>
     mem_load (space (kern (os s')) (dir_of (kern (os s')) i)) 0 3000 = bs"
proof -
  obtain f c bs where h: "home_vol f c bs" using home_ex by blast
  note v = h [unfolded home_vol_def]
  let ?r = "make_request file_nm file_ex (of_nat 2) (of_nat (length bs))" and ?k = "kern (os (home f))"
  have k: "?k = kernel0\<lparr> k_fs := f \<rparr>" by (simp add: home_def set_fs_def machine0_def)
  have ok: "proc_ok ?k" using initial_proc_ok [of f] by (simp add: k kernel0_def initial_kernel_def)
  have "pages_needed ?r = 2" using v by (simp add: pages_needed_def ceil_div_def PAGE_FRAME_SIZE_def Let_def)
  then have can: "can_create ?r ?k"
    using initial_ok(4) make_request_ok(1) [OF home_names(1), of "of_nat 2" "of_nat (length bs)"]
    by (simp add: can_create_def k kernel0_def initial_kernel_def initial_paging_def)
  have vf: "volume (vol (home f)) 2 (key_for file_nm file_ex) = Some (File bs)" using v home_names(3) by simp
  obtain s' i d where "exec idle (line_of ''rm a.txt'') (home f) = Some s'" "pid (proc (kern (os s')) i) = word_of_int (total_pid ?k + 1)"
    "dir_of (kern (os s')) i = Listed d" "mem_load (space (kern (os s')) (Listed d)) 0 (length bs) = bs"
    using exec_starts_program [OF home_in [OF h] home_operand(1) vf ok can] by auto
  then show ?thesis using h v
    by (intro exI [of _ f] exI [of _ bs] exI [of _ s'] exI [of _ i] exI [of _ c]) (simp add: k kernel0_def initial_kernel_def)
qed

section \<open>kill\<close>

text \<open>The list of the active processes, in front of what the array held.\<close>

lemma getActivePCB_eq:
  assumes "length (process_list k) = 16" "length ptr = 16"
  defines "as \<equiv> filter active (process_list k)"
  shows "getActivePCB k ptr = Some (as @ drop (length as) ptr, length as)"
proof -
  let ?f = "\<lambda>i. filter active (take i (process_list k))"
  let ?I = "\<lambda>i (a, c). c = length (?f i) \<and> a = ?f i @ drop c ptr"
  have "\<exists>r. getActivePCB k ptr = Some r \<and> ?I 16 r"
    unfolding getActivePCB_def
  proof (rule for_range_inv)
    fix i r assume i: "i < 16" and r: "?I i r"
    obtain a c where a: "r = (a, c)" by (cases r)
    let ?p = "process_list k ! i"
    have n: "take (Suc i) (process_list k) = take i (process_list k) @ [?p]" using i assms(1) by (simp add: take_Suc_conv_app_nth)
    have "length (?f i) \<le> i" using length_filter_le [of active "take i (process_list k)"] i assms(1) by simp
    then have c: "c < 16" "a = ?f i @ drop c ptr" "c = length (?f i)" using r a i by auto
    then have "drop c ptr = ptr ! c # drop (Suc c) ptr" using assms(2) by (simp add: Cons_nth_drop_Suc)
    then have "a[c := ?p] = ?f i @ ?p # drop (Suc c) ptr" using c(2,3) by (simp add: list_update_append)
    moreover have "length a = 16" using c assms(2) by simp
    ultimately show "\<exists>r'. (\<lambda>(ptr, count). do { p \<leftarrow> arr_get (process_list k) i;
            if active p then map_option (\<lambda>ptr. (ptr, count + 1)) (arr_set ptr count p) else Some (ptr, count) }) r = Some r' \<and> ?I (Suc i) r'"
      using i assms(1) c n by (simp add: a)
  qed simp_all
  then show ?thesis using assms(1) by (auto simp: as_def)
qed

text \<open>\<open>kill\<close> looks through its whole array, of which the system call has only filled the first blocks: what is
  behind them is whatever the array had.\<close>

definition stale :: "kernel \<Rightarrow> pcb list \<Rightarrow> u32 \<Rightarrow> bool" where
  "stale k js x = (\<exists>b \<in> set (drop (nat (active_process_count k)) js). active b \<and> pid b = x)"

text \<open>What \<open>kill\<close> looks for: one of the active processes, or an active block in the array's old contents.\<close>

lemma kill_scan:
  assumes "length (process_list k) = 16" "length js = 16" "active_process_count k = int (card {i. is_active k i})"
  shows "\<exists>as c. getActivePCB k js = Some (as, c) \<and>
    ((\<exists>j. scan (\<lambda>i. pid (as ! i) = x \<and> active (as ! i)) 0 16 = Some j) \<longleftrightarrow>
     (\<exists>i. is_active k i \<and> pid (proc k i) = x) \<or> stale k js x)"
proof -
  let ?a = "filter active (process_list k)"
  let ?as = "?a @ drop (length ?a) js"
  have l: "length ?as = 16" using length_filter_le [of active "process_list k"] assms(1,2) by simp
  have "(\<exists>j. scan (\<lambda>i. pid (?as ! i) = x \<and> active (?as ! i)) 0 16 = Some j) \<longleftrightarrow> (\<exists>b \<in> set ?as. pid b = x \<and> active b)"
    using scan_None [of "\<lambda>i. pid (?as ! i) = x \<and> active (?as ! i)" 0 16] unfolding Bex_def in_set_conv_nth l by auto
  also have "\<dots> \<longleftrightarrow> (\<exists>b \<in> set ?a. pid b = x) \<or> stale k js x"
    using assms(1,3) by (auto simp: stale_def length_filter_conv_card is_active_def)
  also have "(\<exists>b \<in> set ?a. pid b = x) \<longleftrightarrow> (\<exists>i. is_active k i \<and> pid (proc k i) = x)"
    using assms(1) by (auto simp: is_active_def proc_def in_set_conv_nth)
  finally show ?thesis using getActivePCB_eq [OF assms(1,2)] by blast
qed

text \<open>C19: \<open>kill pid\<close> with a number that fits in the command's array of three bytes, on a consistent process
  table: when a process with the number is active, that process
  ends, its block, its page directory and all its frames are free, every other process, the volume and
  the shell's folder are as before, and the table stays consistent.  When there is none, only a message
  is printed, unless an active block with the number is in the part of the shell's uninitialised array
  that the system call did not fill (\<open>stale\<close>): then the kernel is told to destroy the number all the
  same and success is printed.\<close>

theorem kill_ends_process:
  assumes "proc_ok (kern (os s))" "screen_ok (screen s)" "length (junk_pcbs g) = 16"
    and "countWords cmd = Some 2" "getWord cmd 1 (replicate 3 0) = Some str" "string_to_int str = Some n"
  shows "(\<forall>i d. is_active (kern (os s)) i \<and> pid (proc (kern (os s)) i) = word_of_int n \<and> owns (kern (os s)) i d \<longrightarrow>
      (\<exists>s'. kill g cmd s = Some s' \<and> proc_ok (kern (os s')) \<and> \<not> is_active (kern (os s')) i \<and>
        (\<forall>j. j \<noteq> i \<longrightarrow> proc (kern (os s')) j = proc (kern (os s)) j \<and> is_active (kern (os s')) j = is_active (kern (os s)) j) \<and>
        page_directory_used (pg (kern (os s'))) = (page_directory_used (pg (kern (os s))))[d := False] \<and>
        free_frames (pg (kern (os s'))) = free_frames (pg (kern (os s))) \<union> {frame (pg (kern (os s))) d j | j. present (pg (kern (os s))) d j} \<and>
        vol s' = vol s \<and> folder s' = folder s)) \<and>
    ((\<forall>i. is_active (kern (os s)) i \<longrightarrow> pid (proc (kern (os s)) i) \<noteq> word_of_int n) \<longrightarrow>
      (if stale (kern (os s)) (junk_pcbs g) (word_of_int n)
       then kill g cmd s = do { s \<leftarrow> call_destroy (word_of_int n) s; say (text_lines [''Process Destroy Successful'', '''']) 7 s }
       else \<exists>s'. kill g cmd s = Some s' \<and> printed s s'))"
proof -
  let ?k = "kern (os s)" and ?x = "word_of_int n :: u32"
  obtain as c where a: "getActivePCB ?k (junk_pcbs g) = Some (as, c)"
    "(\<exists>j. scan (\<lambda>i. pid (as ! i) = ?x \<and> active (as ! i)) 0 16 = Some j) \<longleftrightarrow> (\<exists>i. is_active ?k i \<and> pid (proc ?k i) = ?x) \<or>
      stale ?k (junk_pcbs g) ?x"
    using kill_scan [OF proc_okD(1) [OF assms(1)] assms(3) proc_okD(4) [OF assms(1)], of ?x] by blast
  have run: "kill g cmd s = (case scan (\<lambda>i. pid (as ! i) = ?x \<and> active (as ! i)) 0 16 of
      Some i \<Rightarrow> do { s \<leftarrow> call_destroy ?x s; say (text_lines [''Process Destroy Successful'', '''']) 7 s }
    | None \<Rightarrow> complain (text_lines [''No such Process with Match PID'', '''']) s)"
    using assms(4-6) a(1) by (simp add: kill_def call_processes_def)
  have one: "\<exists>s'. kill g cmd s = Some s' \<and> proc_ok (kern (os s')) \<and> \<not> is_active (kern (os s')) i \<and>
        (\<forall>j. j \<noteq> i \<longrightarrow> proc (kern (os s')) j = proc ?k j \<and> is_active (kern (os s')) j = is_active ?k j) \<and>
        page_directory_used (pg (kern (os s'))) = (page_directory_used (pg ?k))[d := False] \<and>
        free_frames (pg (kern (os s'))) = free_frames (pg ?k) \<union> {frame (pg ?k) d j | j. present (pg ?k) d j} \<and>
        vol s' = vol s \<and> folder s' = folder s"
    if i: "is_active ?k i" "pid (proc ?k i) = ?x" "owns ?k i d" for i d
  proof -
    obtain k' where k': "process_destroy ?x ?k = Some (True, k')" "died ?k k' i d" using destroy_died [OF assms(1) i(1,3)] i(2) by auto
    define s1 where "s1 = s\<lparr> os := (os s)\<lparr> kern := k' \<rparr> \<rparr>"
    have s1: "screen s1 = screen s" "folder s1 = folder s" "vol s1 = vol s" "kern (os s1) = k'"
      using k'(2) by (simp_all add: s1_def screen_def folder_def vol_def died_def)
    obtain s2 where s2: "say (text_lines [''Process Destroy Successful'', '''']) 7 s1 = Some s2" "printed s1 s2"
      using say_ok [of s1 "text_lines [''Process Destroy Successful'', '''']" 7] assms(2) s1(1) by auto
    obtain j where "scan (\<lambda>i. pid (as ! i) = ?x \<and> active (as ! i)) 0 16 = Some j" using a(2) i(1,2) by blast
    then have "kill g cmd s = Some s2" using run k'(1) s2(1) by (simp add: call_destroy_def s1_def)
    moreover have "free_frames (pg k') = free_frames (pg ?k) \<union> {frame (pg ?k) d j | j. present (pg ?k) d j}"
      by (rule freed_frames) (use k'(2) proc_okD(5) [OF assms(1)] in \<open>simp_all add: died_def paging_ok_def\<close>)
    ultimately show ?thesis
      using died_ok [OF assms(1) i(1,3) k'(2)] k'(2) printedD(1,2,6) [OF s2(2)] s1(2-4)
      by (intro exI [of _ s2]) (simp add: died_def)
  qed
  have "if stale ?k (junk_pcbs g) ?x
      then kill g cmd s = do { s \<leftarrow> call_destroy ?x s; say (text_lines [''Process Destroy Successful'', '''']) 7 s }
      else \<exists>s'. kill g cmd s = Some s' \<and> printed s s'"
    if "\<forall>i. is_active ?k i \<longrightarrow> pid (proc ?k i) \<noteq> ?x"
    using that a(2) run complain_ok [OF assms(2), of "text_lines [''No such Process with Match PID'', '''']"]
    by (cases "scan (\<lambda>i. pid (as ! i) = ?x \<and> active (as ! i)) 0 16") auto
  with one show ?thesis by blast
qed

lemma kill_ends_process_witness:
  "\<exists>s s' i. active_process_count (kern (os s)) = 1 \<and> is_active (kern (os s)) i \<and>
     kill idle (line_of ''kill 1'') s = Some s' \<and> \<not> is_active (kern (os s')) i \<and>
     (\<exists>s'. kill idle (line_of ''kill 2'') s = Some s' \<and> printed s s')"
proof -
  obtain k bs where k: "proc_ok k" "can_create (file_request 3000) k" "vol_ok (k_fs k) {2}" "active_process_count k = 0" "total_pid k = 0"
    by (rule kernel_with_program)
  obtain k' i d where k': "process_create_user_process (file_request 3000) k = Some (0, k')" "born (file_request 3000) k k' i d"
    "proc_ok k'" "is_active k' i" "owns k' i d"
    using create_loads [OF k(1-3), of 2] by auto
  have "proc k' i = new_pcb (file_request 3000) d (total_pid k + 1) (proc k i)"
    using k'(2) proc_okD(1) [OF k(1)] by (simp add: born_def proc_def)
  then have p: "pid (proc k' i) = 1" "active_process_count k' = 1" using k(4,5) k'(2) by (simp_all add: new_pcb_def born_def)
  have "card {j. is_active k' j} = 1" using proc_okD(4) [OF k'(3)] p(2) by simp
  then obtain b where "{j. is_active k' j} = {b}" by (rule card_1_singletonE)
  then have only: "is_active k' j \<Longrightarrow> j = i" for j using k'(4) by (metis mem_Collect_eq singletonD)
  let ?s = "(home (k_fs k'))\<lparr> os := (os (home (k_fs k')))\<lparr> kern := k' \<rparr> \<rparr>"
  have s: "kern (os ?s) = k'" "screen ?s = screen (home (k_fs k'))" by (simp_all add: screen_def)
  have g: "length (junk_pcbs idle) = 16" "\<not> stale k' (junk_pcbs idle) x" for x
    by (auto simp: idle_def zero_pcb_def stale_def dest!: in_set_dropD)
  have l: "countWords (line_of ''kill 1'') = Some 2" "getWord (line_of ''kill 1'') 1 (replicate 3 0) = Some [49, 0, 0]"
    "countWords (line_of ''kill 2'') = Some 2" "getWord (line_of ''kill 2'') 1 (replicate 3 0) = Some [50, 0, 0]"
    "string_to_int [49, 0, 0] = Some 1" "string_to_int [50, 0, 0] = Some 2" by code_simp+
  have sc: "screen_ok (screen (home (k_fs k')))" by simp
  note one = kill_ends_process [of ?s, unfolded s, OF k'(3) sc g(1) l(1,2,5)] and two = kill_ends_process [of ?s, unfolded s, OF k'(3) sc g(1) l(3,4,6)]
  obtain s' where "kill idle (line_of ''kill 1'') ?s = Some s'" "\<not> is_active (kern (os s')) i"
    using one [THEN conjunct1, rule_format, of i d] k'(4,5) p(1) by auto
  moreover have "\<exists>s'. kill idle (line_of ''kill 2'') ?s = Some s' \<and> printed ?s s'"
    using two [THEN conjunct2] only p(1) g(2) by auto
  ultimately show ?thesis using p(2) k'(4) s(1) by (intro exI [of _ ?s] exI [of _ s'] exI [of _ i]) simp
qed

end
