(* ===== verification/Memory.thy ===== *)
theory Memory
  imports Creation
begin

text \<open>
  What the page tables mean for memory.  The kernel's record keeps one memory per page directory
  (\<open>space\<close>); the machine has one physical memory, which the processor reaches through the entries of the
  active directory.  Here the two are related: as long as the frames are managed by the calls of
  \<open>paging.c\<close>, a store through one directory changes no byte that another directory maps and none of the
  kernel's frame, so that memories per directory are what the frames hold.  The processor's walk of the
  tables is a parameter, with what its documentation says of 4 MiB pages as the hypothesis \<open>pse_walk\<close>.
\<close>

section \<open>The walk\<close>

text \<open>A present entry of a 4 MiB page gives the frame in its ten address bits and keeps the low 22 bits of
  the address; an entry that is not present gives nothing.\<close>

definition page_address :: "pde \<Rightarrow> u32 \<Rightarrow> u32" where
  "page_address e va = ucast (lower_address e) * 0x400000 + va mod 0x400000"

definition pse_walk :: "(page_directory \<Rightarrow> u32 \<Rightarrow> u32 option) \<Rightarrow> bool" where
  "pse_walk walk = (\<forall>pd va. length pd = 1024 \<longrightarrow>
     (let e = pd ! page_index va in
      (\<not> present_bit (flag e) \<longrightarrow> walk pd va = None) \<and>
      (present_bit (flag e) \<and> use_pagesize_4_mb (flag e) \<longrightarrow> walk pd va = Some (page_address e va))))"

text \<open>A processor that reserves the page tables of small pages.\<close>

definition walk_4mb :: "page_directory \<Rightarrow> u32 \<Rightarrow> u32 option" where
  "walk_4mb pd va =
     (let e = pd ! page_index va
      in if present_bit (flag e) \<and> use_pagesize_4_mb (flag e) then Some (page_address e va) else None)"

lemma walk_4mb_pse: "pse_walk walk_4mb"
  by (simp add: pse_walk_def walk_4mb_def Let_def)

lemma page_address_eq: "unat (page_address e va) = 4194304 * unat (lower_address e) + unat va mod 4194304"
proof -
  have "unat (lower_address e) < 1024" using unsigned_less [where ?'a = nat, of "lower_address e"] by simp
  moreover have "unat va mod 4194304 < 4194304" by simp
  ultimately show ?thesis
    by (simp add: page_address_def unat_word_ariths unat_mod unsigned_ucast_eq take_bit_eq_mod)
qed

section \<open>User pages\<close>

text \<open>A user page that directory \<open>d\<close> maps, and the entries that the manager makes.\<close>

definition user_mapped :: "paging \<Rightarrow> nat \<Rightarrow> u32 \<Rightarrow> bool" where
  "user_mapped s d va = present s d (page_index va)"

definition flags_ok :: "paging \<Rightarrow> bool" where
  "flags_ok s = (\<forall>d j. present s d j \<longrightarrow> flag (entry s d j) = user_flag)"

lemma create_entries:
  assumes "paging_create_new_page_directory s = Some (p, s')" "length (page_directory_list s) = 32" "j \<noteq> 0x300"
  shows "entry s' d j = entry s d j"
proof -
  have "entry (set_dir (Listed i) ((page_directory_list s ! i)[0x300 := kernel_entry]) s) d j = entry s d j" if "i < 32" for i
    using that assms(2,3) by (cases "d = i") (simp_all add: entry_def set_dir_def)
  then show ?thesis using assms(1,2)
    by (auto simp: paging_create_new_page_directory_def entry_def set_dir_def Let_def bind_eq_Some_conv nth_list_update arr_set_def
        arr_get_eq_Some split: if_splits)
qed

lemma pg_call_flags:
  assumes "pg_call s s'" "paging_ok s" "flags_ok s"
  shows "flags_ok s'"
  using assms
proof (induction rule: pg_call.induct)
  case (page_alloc s d va b s')
  then obtain t where t: "paging_allocate_user_page_frame (Listed d) va s = Some (True, t)" "flag (entry t d (page_index va)) = user_flag"
    "\<forall>d' j. (d', j) \<noteq> (d, page_index va) \<longrightarrow> entry t d' j = entry s d' j"
    using fresh_step by metis
  then have "s' = t" using page_alloc(4) by simp
  then show ?case using t(2,3) page_alloc(6) unfolding flags_ok_def present_def by (metis prod.inject)
next
  case (page_free s d va b s')
  show ?case
  proof (cases "present s d (page_index va)")
    case True
    have "pg_core s" "d < 32" "page_index va \<noteq> 0x300" using page_free(1,3) by (simp_all add: paging_ok_def pg_ok_def user_page_def)
    then obtain t where t: "paging_free_user_page_frame (Listed d) va s = Some (True, t)" "\<not> present t d (page_index va)"
      "\<forall>d' j. (d', j) \<noteq> (d, page_index va) \<longrightarrow> entry t d' j = entry s d' j"
      using free_step [OF _ _ _ True] by blast
    then have "s' = t" using page_free(2) by simp
    then show ?thesis using t(2,3) page_free(4) unfolding flags_ok_def present_def by (metis prod.inject)
  next
    case False
    then have "s' = s"
      using free_not_present [of s d va] page_free(1-3) page_index_less [of va]
      by (auto simp: present_def user_page_def paging_ok_def pg_ok_def)
    then show ?thesis using page_free(4) by simp
  qed
next
  case (dir_create s p s')
  then have "length (page_directory_list s) = 32" using pg_coreD(1) by (simp add: paging_ok_def pg_ok_def)
  then have "entry s' d j = entry s d j" if "j \<noteq> 0x300" for d j using create_entries [OF dir_create(1)] that by blast
  then show ?case using dir_create(3) unfolding flags_ok_def present_def by metis
next
  case (dir_free p s b s')
  have ok: "pg_ok s" "hint_ok s" using dir_free(2) by (simp_all add: paging_ok_def)
  show ?case
  proof (cases "\<exists>d < 32. p = Listed d")
    case True
    then obtain d t where "d < 32" "p = Listed d" "paging_free_page_directory (Listed d) s = Some (True, t)" "\<forall>j. \<not> present t d j"
      "\<forall>d' j. d' \<noteq> d \<longrightarrow> entry t d' j = entry s d' j"
      using free_directory_step [OF ok] by blast
    then show ?thesis using dir_free(1,3) unfolding flags_ok_def present_def by (metis option.inject prod.inject)
  next
    case False
    then have "s' = s" using dir_free(1) by (cases p) (auto simp: paging_free_page_directory_def)
    then show ?thesis using dir_free(3) by simp
  qed
qed

lemma pg_calls_ok:
  assumes "pg_call\<^sup>*\<^sup>* initial_paging s"
  shows "paging_ok s" "flags_ok s"
proof -
  have "\<not> present initial_paging d j" for d j by (auto simp: present_def entry_def initial_paging_def zero_pde_def no_flag_def)
  then have "paging_ok initial_paging \<and> flags_ok initial_paging" using initial_ok by (simp add: paging_ok_def flags_ok_def)
  with assms have "paging_ok s \<and> flags_ok s"
    by (induction rule: rtranclp_induct) (auto intro: pg_call_ok pg_call_flags)
  then show "paging_ok s" "flags_ok s" by simp_all
qed

section \<open>One memory behind all directories\<close>

text \<open>The physical memory \<open>phys\<close> shows, at every user page of every directory, what the kernel's record has
  for that directory.\<close>

definition backed :: "(page_directory \<Rightarrow> u32 \<Rightarrow> u32 option) \<Rightarrow> mem \<Rightarrow> kernel \<Rightarrow> bool" where
  "backed walk phys k = (\<forall>d va pa. user_mapped (pg k) d va \<longrightarrow> walk (page_directory_list (pg k) ! d) va = Some pa \<longrightarrow>
     phys pa = space k (Listed d) va)"

text \<open>Bytes stored one after the other through a directory.\<close>

fun store_through :: "(u32 \<Rightarrow> u32 option) \<Rightarrow> mem \<Rightarrow> u32 \<Rightarrow> u8 list \<Rightarrow> mem" where
  "store_through tr phys a [] = phys"
| "store_through tr phys a (b # bs) = store_through tr (case tr a of None \<Rightarrow> phys | Some pa \<Rightarrow> phys(pa := b)) (a + 1) bs"

lemma mem_store_Cons:
  assumes "length (b # bs) \<le> 2 ^ 32"
  shows "mem_store m a (b # bs) = mem_store (m(a := b)) (a + 1) bs"
proof -
  have "mem_store m a [b] = m(a := b)" by (auto simp: mem_store_def fun_eq_iff unat_eq_0)
  then show ?thesis using mem_store_append [of "[b]" bs m a] assms by simp
qed

lemma walk_user:
  assumes "pse_walk walk" "paging_ok s" "flags_ok s" "user_mapped s d va"
  shows "walk (page_directory_list s ! d) va = Some (page_address (entry s d (page_index va)) va)"
proof -
  have p: "present s d (page_index va)" using assms(4) by (simp add: user_mapped_def)
  then have "flag (entry s d (page_index va)) = user_flag" "d < 32" using assms(3) by (auto simp: flags_ok_def present_def)
  moreover have "length (page_directory_list s ! d) = 1024"
    using pg_coreD(2) [of s d] assms(2) calculation(2) by (simp add: paging_ok_def pg_ok_def)
  ultimately show ?thesis using assms(1) by (simp add: pse_walk_def Let_def entry_def user_flag_def)
qed

text \<open>Two user addresses with the same physical address are the same address of the same directory; none
  leads into the kernel's frame.\<close>

lemma walk_inj:
  assumes "pg_core s" "user_mapped s d va" "user_mapped s e vb"
    and "page_address (entry s d (page_index va)) va = page_address (entry s e (page_index vb)) vb"
  shows "d = e \<and> va = vb"
proof -
  let ?i = "page_index va" and ?j = "page_index vb"
  have eq: "4194304 * frame s d ?i + unat va mod 4194304 = 4194304 * frame s e ?j + unat vb mod 4194304"
    using arg_cong [OF assms(4), of unat] by (simp add: page_address_eq frame_def)
  have "x = y \<and> v = w" if "c * x + v = c * y + w" "v < c" "w < c" for c x y v w :: nat
  proof -
    have "(c * x + v) div c = x" "(c * y + w) div c = y" using that(2,3) by simp_all
    with that(1) show ?thesis by simp
  qed
  from this [OF eq] have "frame s d ?i = frame s e ?j" "unat va mod 4194304 = unat vb mod 4194304" by simp_all
  moreover from this(1) have de: "d = e" "?i = ?j"
    using pg_coreD(8) [OF assms(1), of d ?i e ?j] assms(2,3) by (simp_all add: user_mapped_def)
  ultimately have "unat va = unat vb" using page_index_div by (metis div_mult_mod_eq)
  then show ?thesis using de(1) by (simp add: word_unat_eq_iff)
qed

lemma walk_above:
  assumes "pg_core s" "user_mapped s d va"
  shows "0x400000 \<le> page_address (entry s d (page_index va)) va"
proof -
  have "0 < frame s d (page_index va)" using pg_coreD(7) [OF assms(1)] assms(2) by (simp add: user_mapped_def)
  then show ?thesis by (simp add: word_le_nat_alt page_address_eq frame_def)
qed

lemma store_byte:
  assumes "pse_walk walk" "paging_ok (pg k)" "flags_ok (pg k)" "backed walk phys k" "user_mapped (pg k) d a"
    and "walk (page_directory_list (pg k) ! d) a = Some pa"
  shows "backed walk (phys(pa := b)) (k\<lparr> space := (space k)(Listed d := (space k (Listed d))(a := b)) \<rparr>)"
  unfolding backed_def
proof (intro allI impI)
  fix e va qa
  assume e: "user_mapped (pg (k\<lparr> space := (space k)(Listed d := (space k (Listed d))(a := b)) \<rparr>)) e va"
    "walk (page_directory_list (pg (k\<lparr> space := (space k)(Listed d := (space k (Listed d))(a := b)) \<rparr>)) ! e) va = Some qa"
  then have m: "user_mapped (pg k) e va" "walk (page_directory_list (pg k) ! e) va = Some qa" by simp_all
  have core: "pg_core (pg k)" using assms(2) by (simp add: paging_ok_def pg_ok_def)
  have "qa = pa \<longleftrightarrow> d = e \<and> a = va"
  proof
    assume "qa = pa"
    then show "d = e \<and> a = va"
      using walk_user [OF assms(1-3,5)] walk_user [OF assms(1-3) m(1)] assms(6) m(2) by (intro walk_inj [OF core assms(5) m(1)]) simp
  qed (use assms(6) m(2) in simp)
  then show "(phys(pa := b)) qa = space (k\<lparr> space := (space k)(Listed d := (space k (Listed d))(a := b)) \<rparr>) (Listed e) va"
    using assms(4) m by (auto simp: backed_def)
qed

lemma store_bytes:
  assumes "pse_walk walk" "paging_ok (pg k)" "flags_ok (pg k)" "backed walk phys k"
    and "\<forall>n < length bs. user_mapped (pg k) d (a + of_nat n)" "length bs \<le> 2 ^ 32"
  shows "backed walk (store_through (walk (page_directory_list (pg k) ! d)) phys a bs)
      (k\<lparr> space := (space k)(Listed d := mem_store (space k (Listed d)) a bs) \<rparr>) \<and>
    (\<forall>pa < 0x400000. store_through (walk (page_directory_list (pg k) ! d)) phys a bs pa = phys pa)"
  using assms(2-6)
proof (induction bs arbitrary: phys k a)
  case (Cons b bs)
  define k2 where "k2 = k\<lparr> space := (space k)(Listed d := (space k (Listed d))(a := b)) \<rparr>"
  have k2: "pg k2 = pg k" "space k2 (Listed d) = (space k (Listed d))(a := b)"
    "k2\<lparr> space := (space k2)(Listed d := m) \<rparr> = k\<lparr> space := (space k)(Listed d := m) \<rparr>" for m
    by (simp_all add: k2_def)
  have u: "user_mapped (pg k) d a" using spec [OF Cons.prems(4), of 0] by simp
  have core: "pg_core (pg k)" using Cons.prems(1) by (simp add: paging_ok_def pg_ok_def)
  obtain pa where pa: "walk (page_directory_list (pg k) ! d) a = Some pa" "0x400000 \<le> pa"
    using that [OF walk_user [OF assms(1) Cons.prems(1,2) u] walk_above [OF core u]] .
  have b: "backed walk (phys(pa := b)) k2" unfolding k2_def by (rule store_byte [OF assms(1) Cons.prems(1-3) u pa(1)])
  have rest: "\<forall>n < length bs. user_mapped (pg k) d (a + 1 + of_nat n)"
  proof (intro allI impI)
    fix n assume "n < length bs"
    then show "user_mapped (pg k) d (a + 1 + of_nat n)" using spec [OF Cons.prems(4), of "Suc n"] by (simp add: add.assoc)
  qed
  have len: "length bs \<le> 2 ^ 32" using Cons.prems(5) by simp
  let ?S = "store_through (walk (page_directory_list (pg k) ! d)) (phys(pa := b)) (a + 1) bs"
  note ih = Cons.IH [of k2 "phys(pa := b)" "a + 1", unfolded k2, OF Cons.prems(1,2) b rest len]
  have "mem_store (space k (Listed d)) a (b # bs) = mem_store ((space k (Listed d))(a := b)) (a + 1) bs"
    by (rule mem_store_Cons [OF Cons.prems(5)])
  moreover have "(phys(pa := b)) qa = phys qa" if "qa < 0x400000" for qa using that pa(2) by (auto simp: not_less [symmetric])
  moreover have "store_through (walk (page_directory_list (pg k) ! d)) phys a (b # bs) = ?S" using pa(1) by simp
  ultimately show ?case using ih by (simp del: fun_upd_apply)
qed simp

text \<open>C21: Memories are apart.  On a processor that walks 4 MiB pages as documented (\<open>pse_walk\<close>), after every
  sequence of paging calls in which each allocation is of a page that is not mapped and leaves a frame
  free (\<open>pg_call\<close>), let a physical memory show what each page directory has at its user pages.  Bytes
  that are stored through one directory, to addresses that it maps as user pages, give a
  physical memory that shows the same with these bytes in the memory of that directory alone: no byte
  that another directory maps, none of another page, and none of the kernel's first 4 MiB is changed.\<close>

theorem memories_apart:
  assumes "pse_walk walk" "pg_call\<^sup>*\<^sup>* initial_paging (pg k)" "backed walk phys k"
    and "\<forall>n < length bs. user_mapped (pg k) d (a + of_nat n)" "length bs \<le> 2 ^ 32"
  shows "backed walk (store_through (walk (page_directory_list (pg k) ! d)) phys a bs)
      (k\<lparr> space := (space k)(Listed d := mem_store (space k (Listed d)) a bs) \<rparr>) \<and>
    (\<forall>pa < 0x400000. store_through (walk (page_directory_list (pg k) ! d)) phys a bs pa = phys pa)"
  by (rule store_bytes [OF assms(1) pg_calls_ok [OF assms(2)] assms(3-5)])

lemma memories_apart_witness:
  "\<exists>s1 s2. paging_create_new_page_directory initial_paging = Some (Listed 0, s1) \<and>
    paging_allocate_user_page_frame (Listed 0) 0x400000 s1 = Some (True, s2) \<and>
    backed walk_4mb (store_through (walk_4mb (page_directory_list s2 ! 0)) (\<lambda>_. 0) 0x400000 [7, 8])
      ((initial_kernel fs0)\<lparr> pg := s2, space := (\<lambda>_ _. 0)(Listed 0 := mem_store (\<lambda>_. 0) 0x400000 [7, 8]) \<rparr>)"
proof -
  obtain s1 where s1: "paging_create_new_page_directory initial_paging = Some (Listed 0, s1)" "paging_ok s1"
    "page_directory_used s1 ! 0" "\<forall>j. \<not> present s1 0 j" "free_frames s1 = {1..<32}" by (rule first_directory)
  have a: "user_page s1 (0, 0x400000)" "2 \<le> card (free_frames s1)" "\<not> present s1 0 (page_index 0x400000)"
    using s1(3-5) by (simp_all add: user_page_def last_page)
  obtain s2 f where s2: "paging_allocate_user_page_frame (Listed 0) 0x400000 s1 = Some (True, s2)"
    "mapping s2 = (mapping s1)((0, page_index 0x400000) \<mapsto> f)"
    using fresh_step [OF s1(2) a(2,1,3)] by blast
  have p: "present s2 0 1" using fun_cong [OF s2(2), of "(0, 1)"] by (simp add: last_page mapping_def split: if_splits)
  have "pg_call initial_paging s1" "pg_call s1 s2" by (rule dir_create [OF s1(1)], rule page_alloc [OF a(1,3,2) s2(1)])
  then have calls: "pg_call\<^sup>*\<^sup>* initial_paging s2" by (meson converse_rtranclp_into_rtranclp rtranclp.rtrancl_refl)
  let ?k = "(initial_kernel fs0)\<lparr> pg := s2 \<rparr>"
  have k: "pg ?k = s2" "space ?k = (\<lambda>_ _. 0)" by (simp_all add: initial_kernel_def)
  have b: "backed walk_4mb (\<lambda>_. 0) ?k" by (simp add: backed_def k)
  have i: "page_index 0x400000 = 1" "page_index 0x400001 = 1" by (simp_all add: page_index_div)
  have u: "\<forall>n < length [7, 8 :: u8]. user_mapped (pg ?k) 0 (0x400000 + of_nat n)"
    using p i by (auto simp: user_mapped_def less_Suc_eq)
  have "backed walk_4mb (store_through (walk_4mb (page_directory_list (pg ?k) ! 0)) (\<lambda>_. 0) 0x400000 [7, 8])
      (?k\<lparr> space := (space ?k)(Listed 0 := mem_store (space ?k (Listed 0)) 0x400000 [7, 8]) \<rparr>)"
    using memories_apart [OF walk_4mb_pse _ b u] calls by simp
  then show ?thesis unfolding k using s1(1) s2(1) by (intro exI [of _ s1] exI [of _ s2] conjI) (simp_all only: kernel.update_convs)
qed

end
