(* ===== verification/Spec2Isabelle.thy ===== *)
theory Spec2Isabelle
  imports FatProps FrameProps SchedProps LifeProps ScreenProps SystemProps Words Boot ShellProps AtaProps Clock Tokens Inserter CallsRefine Typed ShellLine ShellFrame ShellJobs Memory
begin

text \<open>
  SOSIS is a teaching operating system for 32-bit x86 in C (\<open>src/src\<close>): a kernel with a FAT32-like file
  system on an ATA disk, paging, processes with round-robin scheduling, a text screen and a keyboard,
  24 system calls behind interrupt 0x30, a shell and a clock as user programs, and a host tool that puts
  files into a disk image.  This library models its C code as functions of Isabelle/HOL and proves what
  makes the parts correct, alone and together.

  \<^bold>\<open>How C is modelled.\<close>  A value of type \<open>'a option\<close> is the outcome of a C computation; \<open>None\<close> means that
  the program leaves an object, overflows a signed \<open>int\<close>, reads an uninitialised variable or does not
  return.  Unsigned integers are words of their width, signed ones are integers with the ranges
  written out where they matter; arrays are lists with checked access, the memory of a process is a function
  from 32-bit addresses to bytes, packed structures have an explicit layout (\<open>encode_\<close>, \<open>decode_\<close>).
  Static variables are fields of records.  Port accesses are a trace that the access extends, and the
  devices are a function of the trace.  A loop whose end is not evident is a \<open>partial_function\<close> in the
  option type, so that it has a result only if it ends; theorems say that it does.  The result codes of
  the code are integers and the state comes back with them on every branch, errors included.
  What uninitialised local memory holds is a parameter (\<open>locals\<close>).

  \<^bold>\<open>Foundations.\<close>
  \<open>Prelude\<close>: C types, arrays, memory, counted loops, linear searches, and the lemmas about them.
  \<open>CString\<close>, \<open>Words\<close>, \<open>Tokens\<close> (\<open>string.c\<close>): memory and string routines, file names and words of a line,
  tokenizers, with reference definitions (C strings as lists, the maximal runs of non-space
  characters, the pieces between delimiters) that the routines are shown to compute.
  \<open>Ports\<close> (\<open>portio.c\<close>): the trace and the devices.

  \<^bold>\<open>The disk.\<close>  \<open>Disk\<close>: the block store (\<open>read_blocks\<close>, \<open>write_blocks\<close>; the image tool's version is the
  same store) and clusters on it; the locale \<open>cluster_store\<close> states the laws that the file system uses
  and is interpreted on them.  \<open>Ata\<close>, \<open>AtaProps\<close> (\<open>disk.c\<close>): the driver over the ports of the controller;
  the drive is a parameter with the PIO protocol as the hypothesis \<open>pio_drive\<close>, under which the driver refines the
  block store, and every sequence of the file system's cluster accesses through the ports gives what the
  block store gives; a concrete drive with busy and ready phases satisfies the hypothesis.

  \<^bold>\<open>The file system\<close> (\<open>fat32.c\<close>).  \<open>FatTypes\<close> has the structures, \<open>Fat32\<close> every operation in the order of
  the code; the driver's static state is the record \<open>fs\<close> and the shell's directory the record \<open>shell\<close>.
  \<open>FatChain\<close> is the theory of cluster chains in the allocation table, \<open>FatDir\<close> reads tables as finite
  maps, \<open>FatOps\<close> and \<open>FatEqs\<close> say what the loops of an operation leave, \<open>FatVolume\<close> defines the abstract
  volume (folders as maps from names to files with their bytes, or to folders) and its consistency
  \<open>vol_ok\<close>, \<open>FatRuns\<close>, \<open>FatSteps\<close> and \<open>FatFind\<close> relate the operations to it, and \<open>FatProps\<close> has the properties:
  each operation refines its abstract counterpart, all its codes, round trips, termination.

  \<^bold>\<open>Memory and processes.\<close>  \<open>Paging\<close>, \<open>PagingProps\<close>, \<open>FrameProps\<close> (\<open>paging.c\<close>): frames, directories, the
  locale \<open>frame_store\<close> with what creating a process relies on, interpreted on the model.  \<open>Process\<close>,
  \<open>ProcessProps\<close>, \<open>Creation\<close>, \<open>LifeProps\<close> (\<open>process.c\<close>): the process table, creation and destruction, the
  invariant of the whole kernel state.  \<open>Ring\<close>, \<open>Scheduler\<close>, \<open>SchedProps\<close> (\<open>scheduler.c\<close>): the search in a
  circle as the locale \<open>ring\<close>, interpreted on both searches of the code, context switches, fairness.
  \<open>Memory\<close>: the memories that the processes have, one per page directory, are what one physical memory
  shows through the page tables, and a store through one directory reaches no other.

  \<^bold>\<open>Screen, keyboard, interrupts.\<close>  \<open>Framebuffer\<close>, \<open>Terminal\<close>, \<open>Keyboard\<close>, \<open>ScreenProps\<close> (\<open>framebuffer.c\<close>,
  \<open>keyboard.c\<close>, the output of \<open>interrupt.c\<close>): \<open>framebuffer_write\<close> and \<open>framebuffer_auto_down\<close> call each
  other; they are tied by a bound of three nested calls, which is proved to be always enough, and then
  satisfy the equations of the code.  \<open>Hardware\<close>, \<open>System\<close>, \<open>Descriptors\<close>, \<open>Boot\<close>, \<open>SystemProps\<close>
  (\<open>interrupt.c\<close>, \<open>gdt.c\<close>, \<open>idt.c\<close>, \<open>kernel.c\<close>): interrupt controllers, timer and real time clock, all system
  calls and the interrupt handler on the record \<open>machine\<close>, the descriptor tables byte by byte, the
  picture of \<open>init_terminal\<close> and \<open>kernel_setup\<close>.  \<open>Typed\<close>: every interrupt and system call keeps the types
  of the C objects, component by component.

  \<^bold>\<open>The user programs.\<close>  \<open>Calls\<close>: the system calls with the objects that the shell's pointers lead to as
  values; \<open>CallsRefine\<close> shows that they are the kernel's \<open>syscall\<close> on a machine in whose memory the
  objects lie.  \<open>ShellText\<close>, \<open>ShellFiles\<close>, \<open>ShellMove\<close>, \<open>ShellCmds\<close> (\<open>command-shell.c\<close>) have every function
  of the shell, \<open>UserShell\<close> (\<open>user-shell.c\<close>) its main loop; what happens to the machine between two
  system calls is a parameter.  \<open>ShellFacts\<close>, \<open>ShellVol\<close>, \<open>ShellDigits\<close> and \<open>ShellSteps\<close> hold what the steps of
  the commands do to volume, screen and path, \<open>ShellHome\<close> a concrete session, \<open>ShellProps\<close> the properties
  of the commands, \<open>ShellLine\<close> the main loop with keyboard interrupts from scancodes to the command that
  runs.  \<open>ShellJobs\<close>: \<open>exec\<close> and \<open>kill\<close> down to process blocks, memories and frames; \<open>ShellFrame\<close>: the
  other commands leave the process table, the page tables and the keyboard alone, by a calculus with a
  rule for every call they make.  \<open>Clock\<close> (\<open>clock.c\<close>): a round of the clock through the interrupt handler.  \<open>Inserter\<close>
  (\<open>external-inserter.c\<close>): the image tool, and the kernel that mounts its image.

  \<^bold>\<open>What the theorems show.\<close>  The file system refines the abstract volume, its calls keep it consistent, and what
  is written is read back, through the operations, the system calls, the shell's
  \<open>cp\<close>, \<open>mv\<close>, \<open>rm\<close>, \<open>mkdir\<close> and \<open>cat\<close>, the image tool and, below, the ports of the disk.
  Two cases are outside, and the theorems say what happens there: a file that goes to a slot which a
  deleted folder left marked (\<open>slot_tainted\<close>) is stored as a folder, and a file that fills the disk before
  its end leaves its entry behind.  Frames, directories and process blocks are never shared and never
  lost through creations, destructions and ticks, except in the cases that have theorems of their own
  (the last free frame, the 33rd directory, a process destroyed twice, the first switch).  Preemption is
  transparent and the scheduler fair.  Interrupts reach their handlers.  The screen shows what is
  printed, the line of command is what was typed and its first word chooses the command.

  \<^bold>\<open>Bounds.\<close>  The disk has the 512 clusters of the allocation table, a process 8 pages, the system 16
  processes, 32 frames and 32 directories, as in the code.  \<open>find\<close> writes into arrays of 100 and
  50 entries without a check; its property has these bounds as hypotheses.  The shell's line has 100
  characters; the property about the main loop admits 98.

  \<^bold>\<open>Not modelled.\<close>  The assembly (\<open>kernel-entrypoint.s\<close>, \<open>intsetup.s\<close>, \<open>crt0.s\<close>) and the linker and boot
  files: the register part of a context switch is the context that the scheduler hands over, the entry
  stubs the frame that the handler gets.  The processor's walk of the page tables: a process's memory is a function
  per page directory, which \<open>Memory\<close> justifies for any walk that follows the documentation of 4 MiB pages,
  and \<open>invlpg\<close> is a trace.  The shell's own arrays are values and not bytes of its memory.
  \<open>header/driver/temp.h\<close>, which no file includes, and the code of \<open>kernel.c\<close> that is commented out.
  \<open>stdlib/string.c\<close>, an older copy of four functions of \<open>string.c\<close>.  Of the image tool the host's file
  access, whose contents are arguments.  The time that \<open>sleep\<close> takes.
\<close>

end
